(* ===== verification/Prelude.thy ===== *)
theory Prelude
  imports Main
    "HOL-Library.Word"
    "HOL-Library.Sublist"
    "HOL-Library.List_Lexorder"
    "HOL-Library.Char_ord"
    "HOL-Library.Product_Lexorder"
    "HOL-Library.AList"
begin

text \<open>
  The vocabulary shared by every component: byte strings, the checked, saturating and
  wrapping integer operations of Rust's standard library at their 64-bit widths, the
  string functions the sources use (\<^verbatim>\<open>split_once\<close>, \<^verbatim>\<open>split\<close>, \<^verbatim>\<open>join\<close>, \<^verbatim>\<open>strip_prefix\<close>,
  \<^verbatim>\<open>parse::<u64>\<close>), big-endian byte arrays, key/value containers and relational tables as
  lists of rows, and the interface locales that the components interpret.

  A Rust \<^verbatim>\<open>&str\<close>, \<^verbatim>\<open>OsStr\<close>, \<^verbatim>\<open>[u8; n]\<close> or SQLite BLOB is a \<^typ>\<open>string\<close> here, one
  \<^typ>\<open>char\<close> per byte.  The library order on strings (lexicographic on byte values, a
  proper prefix first) is both Rust's slice order and SQLite's BLOB order.
\<close>

section \<open>Types and collections of facts\<close>

type_synonym blob = string
type_synonym u64 = nat
type_synonym usize = nat
type_synonym i64 = int

named_theorems store_defs
  \<comment> \<open>the definitions a proof about one store command unfolds\<close>
named_theorems row_frame
  \<comment> \<open>what an update of a row leaves unchanged\<close>

section \<open>Machine integers\<close>

definition u64_max :: nat where
  "u64_max = 18446744073709551615"

definition u32_max :: nat where
  "u32_max = 4294967295"

definition i64_max :: int where
  "i64_max = 9223372036854775807"

definition i64_min :: int where
  "i64_min = - 9223372036854775808"

definition checked_add_u64 :: "u64 \<Rightarrow> u64 \<Rightarrow> u64 option" where
  "checked_add_u64 a b = (if a + b \<le> u64_max then Some (a + b) else None)"

definition checked_sub_u64 :: "u64 \<Rightarrow> u64 \<Rightarrow> u64 option" where
  "checked_sub_u64 a b = (if b \<le> a then Some (a - b) else None)"

definition checked_mul_u64 :: "u64 \<Rightarrow> u64 \<Rightarrow> u64 option" where
  "checked_mul_u64 a b = (if a * b \<le> u64_max then Some (a * b) else None)"

definition saturating_add :: "usize \<Rightarrow> usize \<Rightarrow> usize" where
  "saturating_add a b = min (a + b) u64_max"

definition saturating_mul :: "usize \<Rightarrow> usize \<Rightarrow> usize" where
  "saturating_mul a b = min (a * b) u64_max"

definition wrapping_add_u64 :: "u64 \<Rightarrow> u64 \<Rightarrow> u64" where
  "wrapping_add_u64 a b = (a + b) mod (u64_max + 1)"

definition in_i64 :: "int \<Rightarrow> bool" where
  "in_i64 n \<longleftrightarrow> i64_min \<le> n \<and> n \<le> i64_max"

definition checked_add_i64 :: "i64 \<Rightarrow> i64 \<Rightarrow> i64 option" where
  "checked_add_i64 a b = (if in_i64 (a + b) then Some (a + b) else None)"

text \<open>\<^verbatim>\<open>i64::try_from\<close> on an unsigned value, \<^verbatim>\<open>u64::try_from\<close>, \<^verbatim>\<open>u32::try_from\<close> and \<^verbatim>\<open>u16::try_from\<close> on an \<^verbatim>\<open>i64\<close>.\<close>

definition i64_try_from :: "nat \<Rightarrow> i64 option" where
  "i64_try_from n = (if int n \<le> i64_max then Some (int n) else None)"

definition u64_try_from :: "i64 \<Rightarrow> u64 option" where
  "u64_try_from n = (if 0 \<le> n then Some (nat n) else None)"

definition u32_try_from :: "i64 \<Rightarrow> nat option" where
  "u32_try_from n = (if 0 \<le> n \<and> n \<le> int u32_max then Some (nat n) else None)"

definition u16_try_from :: "i64 \<Rightarrow> nat option" where
  "u16_try_from n = (if 0 \<le> n \<and> n \<le> 65535 then Some (nat n) else None)"

lemma checked_add_u64_Some [simp]:
  "checked_add_u64 a b = Some c \<longleftrightarrow> c = a + b \<and> a + b \<le> u64_max"
  by (auto simp: checked_add_u64_def)

lemma checked_add_i64_Some [simp]:
  "checked_add_i64 a b = Some c \<longleftrightarrow> c = a + b \<and> in_i64 (a + b)"
  by (auto simp: checked_add_i64_def)

lemma checked_add_i64_None [simp]:
  "checked_add_i64 a b = None \<longleftrightarrow> \<not> in_i64 (a + b)"
  by (auto simp: checked_add_i64_def)

lemma i64_try_from_Some [simp]:
  "i64_try_from n = Some k \<longleftrightarrow> k = int n \<and> int n \<le> i64_max"
  by (auto simp: i64_try_from_def)

lemma u64_try_from_int [simp]: "u64_try_from (int n) = Some n"
  by (simp add: u64_try_from_def)

lemma u32_try_from_int [simp]: "n \<le> u32_max \<Longrightarrow> u32_try_from (int n) = Some n"
  by (simp add: u32_try_from_def)

section \<open>Big-endian byte arrays\<close>

text \<open>\<^verbatim>\<open>u64::to_be_bytes\<close> and \<^verbatim>\<open>u64::from_be_bytes\<close>.\<close>

fun be_bytes :: "nat \<Rightarrow> nat \<Rightarrow> blob" where
  "be_bytes 0 n = []"
| "be_bytes (Suc k) n = be_bytes k (n div 256) @ [char_of (n mod 256)]"

definition u64_to_be_bytes :: "u64 \<Rightarrow> blob" where
  "u64_to_be_bytes n = be_bytes 8 n"

definition u64_from_be_bytes :: "blob \<Rightarrow> u64" where
  "u64_from_be_bytes bs = foldl (\<lambda>acc c. acc * 256 + of_char c) 0 bs"

lemma length_be_bytes [simp]: "length (be_bytes k n) = k"
  by (induction k arbitrary: n) auto

lemma length_u64_to_be_bytes [simp]: "length (u64_to_be_bytes n) = 8"
  by (simp add: u64_to_be_bytes_def)

lemma from_be_bytes_be_bytes:
  "u64_from_be_bytes (be_bytes k n) = n mod 256 ^ k"
proof (induction k arbitrary: n)
  case 0
  then show ?case by (simp add: u64_from_be_bytes_def)
next
  case (Suc k)
  have "u64_from_be_bytes (be_bytes (Suc k) n) =
      u64_from_be_bytes (be_bytes k (n div 256)) * 256 + n mod 256"
    by (simp add: u64_from_be_bytes_def)
  also have "\<dots> = (n div 256) mod 256 ^ k * 256 + n mod 256"
    by (simp add: Suc.IH)
  also have "\<dots> = n mod (256 * 256 ^ k)"
    by (simp add: mod_mult2_eq)
  finally show ?case by simp
qed

lemma from_be_bytes_append:
  "u64_from_be_bytes (bs @ [c]) = u64_from_be_bytes bs * 256 + of_char c"
  by (simp add: u64_from_be_bytes_def)

lemma from_be_bytes_less: "u64_from_be_bytes bs < 256 ^ length bs"
proof (induction bs rule: rev_induct)
  case (snoc c bs)
  have "of_char c < (256 :: nat)" by simp
  then have "u64_from_be_bytes bs * 256 + of_char c < Suc (u64_from_be_bytes bs) * 256" by simp
  also have "\<dots> \<le> 256 ^ length bs * 256" using snoc by (intro mult_le_mono1) simp
  finally have "u64_from_be_bytes bs * 256 + of_char c < 256 ^ length bs * 256" .
  then show ?case by (simp add: from_be_bytes_append mult.commute)
qed (simp add: u64_from_be_bytes_def)

lemma u64_from_be_bytes_bound: "length bs = 8 \<Longrightarrow> u64_from_be_bytes bs \<le> u64_max"
  using from_be_bytes_less [of bs] by (simp add: u64_max_def)

lemma u64_be_bytes_roundtrip [simp]:
  "n \<le> u64_max \<Longrightarrow> u64_from_be_bytes (u64_to_be_bytes n) = n"
  by (simp add: u64_to_be_bytes_def from_be_bytes_be_bytes u64_max_def)

lemma u64_to_be_bytes_inj:
  assumes "m \<le> u64_max" "n \<le> u64_max" "u64_to_be_bytes m = u64_to_be_bytes n"
  shows "m = n"
  using assms u64_be_bytes_roundtrip by metis

text \<open>\<^verbatim>\<open><[u8; n]>::try_from(Vec<u8>)\<close>.\<close>

definition try_into_array :: "nat \<Rightarrow> blob \<Rightarrow> blob option" where
  "try_into_array n bs = (if length bs = n then Some bs else None)"

lemma try_into_array_same [simp]: "length bs = n \<Longrightarrow> try_into_array n bs = Some bs"
  by (simp add: try_into_array_def)

lemma try_into_array_Some [simp]:
  "try_into_array n bs = Some cs \<longleftrightarrow> cs = bs \<and> length bs = n"
  by (auto simp: try_into_array_def)

section \<open>Strings\<close>

text \<open>\<^verbatim>\<open>str::split(char)\<close>, \<^verbatim>\<open>[..].join(..)\<close>, \<^verbatim>\<open>str::split_once\<close>, \<^verbatim>\<open>str::strip_prefix\<close> and \<^verbatim>\<open>str::strip_suffix\<close>.\<close>

fun split_on :: "char \<Rightarrow> string \<Rightarrow> string list" where
  "split_on c [] = [[]]"
| "split_on c (x # xs) =
     (if x = c then [] # split_on c xs
      else (case split_on c xs of [] \<Rightarrow> [[x]] | p # ps \<Rightarrow> (x # p) # ps))"

fun join :: "string \<Rightarrow> string list \<Rightarrow> string" where
  "join sep [] = []"
| "join sep [p] = p"
| "join sep (p # q # ps) = p @ sep @ join sep (q # ps)"

fun split_once :: "char \<Rightarrow> string \<Rightarrow> (string \<times> string) option" where
  "split_once c [] = None"
| "split_once c (x # xs) =
     (if x = c then Some ([], xs)
      else (case split_once c xs of None \<Rightarrow> None | Some (a, b) \<Rightarrow> Some (x # a, b)))"

definition strip_prefix :: "string \<Rightarrow> string \<Rightarrow> string option" where
  "strip_prefix p s = (if prefix p s then Some (drop (length p) s) else None)"

definition strip_suffix :: "string \<Rightarrow> string \<Rightarrow> string option" where
  "strip_suffix p s = (if suffix p s then Some (take (length s - length p) s) else None)"

definition is_ascii_digit :: "char \<Rightarrow> bool" where
  "is_ascii_digit c \<longleftrightarrow> CHR ''0'' \<le> c \<and> c \<le> CHR ''9''"

definition digits_value :: "string \<Rightarrow> nat" where
  "digits_value ds = foldl (\<lambda>acc c. acc * 10 + (of_char c - 48)) 0 ds"

text \<open>
  \<^verbatim>\<open>str::parse::<u64>()\<close>: one optional plus sign, at least one decimal digit, no overflow.
\<close>

definition parse_u64 :: "string \<Rightarrow> u64 option" where
  "parse_u64 s =
     (let ds = (case s of c # cs \<Rightarrow> if c = CHR ''+'' then cs else s | [] \<Rightarrow> s)
      in if ds \<noteq> [] \<and> list_all is_ascii_digit ds \<and> digits_value ds \<le> u64_max
         then Some (digits_value ds) else None)"

text \<open>\<^verbatim>\<open>u64::to_string\<close>.\<close>

fun u64_to_string :: "u64 \<Rightarrow> string" where
  "u64_to_string n =
     (if n < 10 then [char_of (48 + n)]
      else u64_to_string (n div 10) @ [char_of (48 + n mod 10)])"

declare u64_to_string.simps [simp del]

definition to_ascii_lower :: "char \<Rightarrow> char" where
  "to_ascii_lower c =
     (if CHR ''A'' \<le> c \<and> c \<le> CHR ''Z'' then char_of ((of_char c :: nat) + 32) else c)"

definition eq_ignore_ascii_case :: "string \<Rightarrow> string \<Rightarrow> bool" where
  "eq_ignore_ascii_case a b \<longleftrightarrow> map to_ascii_lower a = map to_ascii_lower b"

text \<open>\<^verbatim>\<open>str::trim\<close> on the ASCII strings the sources apply it to.\<close>

definition is_ascii_space :: "char \<Rightarrow> bool" where
  "is_ascii_space c \<longleftrightarrow> c = CHR '' '' \<or> (CHR 0x09 \<le> c \<and> c \<le> CHR 0x0D)"

definition trim :: "string \<Rightarrow> string" where
  "trim s = rev (dropWhile is_ascii_space (rev (dropWhile is_ascii_space s)))"

definition trim_matches :: "char \<Rightarrow> string \<Rightarrow> string" where
  "trim_matches c s = rev (dropWhile (\<lambda>x. x = c) (rev (dropWhile (\<lambda>x. x = c) s)))"

lemma is_ascii_digit_char_of [simp]: "(n :: nat) < 10 \<Longrightarrow> is_ascii_digit (char_of (48 + n))"
  by (simp add: is_ascii_digit_def less_eq_char_def)

lemma u64_to_string_digits:
  "u64_to_string n \<noteq> [] \<and> list_all is_ascii_digit (u64_to_string n) \<and>
   digits_value (u64_to_string n) = n"
proof (induction n rule: u64_to_string.induct)
  case (1 n)
  show ?case
  proof (cases "n < 10")
    case True
    then show ?thesis by (simp add: u64_to_string.simps [of n] digits_value_def)
  next
    case False
    with 1 have "digits_value (u64_to_string (n div 10)) = n div 10" by simp
    with False 1 show ?thesis
      by (simp add: u64_to_string.simps [of n] digits_value_def)
  qed
qed

lemma digit_neq_sign: "is_ascii_digit c \<Longrightarrow> c \<noteq> CHR ''+'' \<and> c \<noteq> CHR ''-'' \<and> \<not> is_ascii_space c"
  by (auto simp: is_ascii_digit_def is_ascii_space_def less_eq_char_def)

lemma parse_u64_to_string [simp]: "n \<le> u64_max \<Longrightarrow> parse_u64 (u64_to_string n) = Some n"
proof -
  assume n: "n \<le> u64_max"
  obtain c cs where s: "u64_to_string n = c # cs"
    using u64_to_string_digits [of n] by (cases "u64_to_string n") auto
  with u64_to_string_digits [of n] have "c \<noteq> CHR ''+''" by (auto dest: digit_neq_sign)
  with s n u64_to_string_digits [of n] show ?thesis by (simp add: parse_u64_def)
qed

lemma parse_u64_bound: "parse_u64 s = Some n \<Longrightarrow> n \<le> u64_max"
  by (auto simp: parse_u64_def Let_def split: if_splits)

lemma parse_u64_Nil [simp]: "parse_u64 [] = None"
  by (simp add: parse_u64_def)

lemma split_once_append:
  "c \<notin> set a \<Longrightarrow> split_once c (a @ c # b) = Some (a, b)"
  by (induction a) auto

lemma split_on_nonempty [simp]: "split_on c s \<noteq> []"
  by (cases s) (auto split: list.splits)

lemma join_Cons: "ps \<noteq> [] \<Longrightarrow> join sep (p # ps) = p @ sep @ join sep ps"
  by (cases ps) auto

lemma join_split_on [simp]: "join [c] (split_on c s) = s"
proof (induction s)
  case (Cons x xs)
  then show ?case
    by (cases "split_on c xs"; cases "tl (split_on c xs)") (auto simp: join_Cons)
qed simp

lemma split_on_no_sep: "c \<notin> set s \<Longrightarrow> split_on c s = [s]"
  by (induction s) auto

lemma split_on_append_sep:
  "c \<notin> set p \<Longrightarrow> split_on c (p @ c # s) = p # split_on c s"
  by (induction p) auto

lemma split_on_join:
  assumes "ps \<noteq> []" "\<forall>p \<in> set ps. c \<notin> set p"
  shows "split_on c (join [c] ps) = ps"
  using assms
proof (induction "[c]" ps rule: join.induct)
  case (3 p q ps)
  then show ?case by (simp add: split_on_append_sep)
qed (auto simp: split_on_no_sep)

lemma split_on_parts_no_sep: "p \<in> set (split_on c s) \<Longrightarrow> c \<notin> set p"
proof (induction s arbitrary: p)
  case (Cons x xs)
  then show ?case by (fastforce split: if_splits list.splits)
qed simp

lemma strip_prefix_append [simp]: "strip_prefix p (p @ s) = Some s"
  by (simp add: strip_prefix_def)

lemma strip_suffix_append [simp]: "strip_suffix p (s @ p) = Some s"
  by (simp add: strip_suffix_def suffix_def)

lemma strip_prefix_Some: "strip_prefix p s = Some r \<longleftrightarrow> s = p @ r"
  by (auto simp: strip_prefix_def prefix_def)

lemma strip_suffix_Some: "strip_suffix p s = Some r \<longleftrightarrow> s = r @ p"
  by (auto simp: strip_suffix_def suffix_def)

section \<open>UTF-8\<close>

text \<open>
  \<^verbatim>\<open>str::from_utf8\<close> (\<^verbatim>\<open>OsStr::to_str\<close>) and \<^verbatim>\<open>String::from_utf8_lossy\<close> (\<^verbatim>\<open>OsStr::to_string_lossy\<close>).
  A chunk is one well-formed character, or the bytes one replacement character stands for.
\<close>

definition byte_at :: "string \<Rightarrow> nat \<Rightarrow> nat" where
  "byte_at s i = (if i < length s then of_char (s ! i) else 0)"

definition is_cont :: "nat \<Rightarrow> bool" where
  "is_cont b \<longleftrightarrow> 128 \<le> b \<and> b \<le> 191"

definition utf8_second_ok :: "nat \<Rightarrow> nat \<Rightarrow> bool" where
  "utf8_second_ok a b \<longleftrightarrow>
     (a = 224 \<and> 160 \<le> b \<and> b \<le> 191) \<or> (225 \<le> a \<and> a \<le> 236 \<and> is_cont b) \<or>
     (a = 237 \<and> 128 \<le> b \<and> b \<le> 159) \<or> (238 \<le> a \<and> a \<le> 239 \<and> is_cont b) \<or>
     (a = 240 \<and> 144 \<le> b \<and> b \<le> 191) \<or> (241 \<le> a \<and> a \<le> 243 \<and> is_cont b) \<or>
     (a = 244 \<and> 128 \<le> b \<and> b \<le> 143)"

definition utf8_chunk :: "string \<Rightarrow> bool \<times> nat" where
  "utf8_chunk s =
     (let a = byte_at s 0; b = byte_at s 1; c = byte_at s 2; d = byte_at s 3 in
      if a < 128 then (True, 1)
      else if 194 \<le> a \<and> a \<le> 223 then (if is_cont b then (True, 2) else (False, 1))
      else if 224 \<le> a \<and> a \<le> 239 then
        (if \<not> utf8_second_ok a b then (False, 1)
         else if is_cont c then (True, 3) else (False, 2))
      else if 240 \<le> a \<and> a \<le> 244 then
        (if \<not> utf8_second_ok a b then (False, 1)
         else if \<not> is_cont c then (False, 2)
         else if is_cont d then (True, 4) else (False, 3))
      else (False, 1))"

lemma utf8_chunk_pos [simp]: "0 < snd (utf8_chunk s)"
  by (simp add: utf8_chunk_def Let_def)

function utf8_valid :: "string \<Rightarrow> bool" where
  "utf8_valid s =
     (if s = [] then True
      else if fst (utf8_chunk s) then utf8_valid (drop (snd (utf8_chunk s)) s)
      else False)"
  by pat_completeness auto
termination
  by (relation "measure length") auto

function to_string_lossy :: "string \<Rightarrow> string" where
  "to_string_lossy s =
     (if s = [] then []
      else (if fst (utf8_chunk s) then take (snd (utf8_chunk s)) s
            else [char_of (239::nat), char_of (191::nat), char_of (189::nat)]) @
           to_string_lossy (drop (snd (utf8_chunk s)) s))"
  by pat_completeness auto
termination
  by (relation "measure length") auto

declare utf8_valid.simps [simp del] to_string_lossy.simps [simp del]

definition to_str :: "string \<Rightarrow> string option" where
  "to_str s = (if utf8_valid s then Some s else None)"

lemma to_string_lossy_valid: "utf8_valid s \<Longrightarrow> to_string_lossy s = s"
proof (induction s rule: utf8_valid.induct)
  case (1 s)
  show ?case
  proof (cases "s = []")
    case True
    then show ?thesis by (simp add: to_string_lossy.simps)
  next
    case False
    with 1 have "fst (utf8_chunk s)" "to_string_lossy (drop (snd (utf8_chunk s)) s) = drop (snd (utf8_chunk s)) s"
      by (auto simp: utf8_valid.simps [of s] split: if_splits)
    with False show ?thesis by (simp add: to_string_lossy.simps [of s])
  qed
qed

section \<open>Relational tables\<close>

text \<open>
  A SQLite table is the list of its rows.  The statements the sources issue are
  \<^verbatim>\<open>SELECT COUNT(*)\<close>, \<^verbatim>\<open>SELECT .. WHERE key\<close>, \<^verbatim>\<open>SELECT EXISTS\<close>, \<^verbatim>\<open>INSERT\<close>, \<^verbatim>\<open>UPDATE .. WHERE\<close>
  and \<^verbatim>\<open>DELETE .. WHERE\<close>; the number of rows a statement changes is the count of its condition.
\<close>

definition count_where :: "('r \<Rightarrow> bool) \<Rightarrow> 'r list \<Rightarrow> int" where
  "count_where P rows = int (length (filter P rows))"

definition exists_where :: "('r \<Rightarrow> bool) \<Rightarrow> 'r list \<Rightarrow> bool" where
  "exists_where P rows = list_ex P rows"

definition delete_where :: "('r \<Rightarrow> bool) \<Rightarrow> 'r list \<Rightarrow> 'r list" where
  "delete_where P rows = filter (\<lambda>r. \<not> P r) rows"

definition update_where :: "('r \<Rightarrow> bool) \<Rightarrow> ('r \<Rightarrow> 'r) \<Rightarrow> 'r list \<Rightarrow> 'r list" where
  "update_where P f rows = map (\<lambda>r. if P r then f r else r) rows"

definition select_where :: "('r \<Rightarrow> bool) \<Rightarrow> 'r list \<Rightarrow> 'r option" where
  "select_where P rows = List.find P rows"

definition keys_distinct :: "('r \<Rightarrow> 'k) \<Rightarrow> 'r list \<Rightarrow> bool" where
  "keys_distinct pk rows \<longleftrightarrow> distinct (map pk rows)"

lemma keys_distinct_delete [intro, simp]:
  "keys_distinct pk rows \<Longrightarrow> keys_distinct pk (delete_where P rows)"
  unfolding keys_distinct_def delete_where_def by (induction rows) auto

lemma keys_distinct_append:
  "keys_distinct pk (rows @ [r]) \<longleftrightarrow> keys_distinct pk rows \<and> pk r \<notin> pk ` set rows"
  by (auto simp: keys_distinct_def)

lemma keys_distinct_eqD:
  "\<lbrakk> keys_distinct pk rows; r \<in> set rows; r' \<in> set rows; pk r = pk r' \<rbrakk> \<Longrightarrow> r = r'"
  by (auto simp: keys_distinct_def distinct_map inj_on_def)

lemma set_delete_where [simp]: "set (delete_where P rows) = {r \<in> set rows. \<not> P r}"
  by (auto simp: delete_where_def)

lemma set_update_where:
  "set (update_where P f rows) = (\<lambda>r. if P r then f r else r) ` set rows"
  by (simp add: update_where_def)

lemma select_where_Some:
  "select_where P rows = Some r \<Longrightarrow> r \<in> set rows \<and> P r"
  unfolding select_where_def by (metis find_Some_iff nth_mem)

lemma select_where_None [simp]: "select_where P rows = None \<longleftrightarrow> (\<forall>r \<in> set rows. \<not> P r)"
  by (auto simp: select_where_def find_None_iff)

lemma select_where_key:
  assumes "keys_distinct pk rows" "r \<in> set rows"
  shows "select_where (\<lambda>r'. pk r' = pk r) rows = Some r"
proof (cases "select_where (\<lambda>r'. pk r' = pk r) rows")
  case None
  with assms show ?thesis by auto
next
  case (Some r')
  then have "r' \<in> set rows" "pk r' = pk r" using select_where_Some by fastforce+
  with assms Some show ?thesis by (auto dest: keys_distinct_eqD)
qed

lemma count_where_nonneg [simp]: "0 \<le> count_where P rows"
  by (simp add: count_where_def)

lemma count_where_append [simp]:
  "count_where P (xs @ ys) = count_where P xs + count_where P ys"
  by (simp add: count_where_def)

lemma count_where_single [simp]: "count_where P [r] = (if P r then 1 else 0)"
  by (simp add: count_where_def)

lemma count_delete_where_le [simp]:
  "count_where Q (delete_where P rows) \<le> count_where Q rows"
  by (induction rows) (auto simp: count_where_def delete_where_def)

lemma count_update_where:
  "(\<And>r. Q (f r) = Q r) \<Longrightarrow> count_where Q (update_where P f rows) = count_where Q rows"
  by (induction rows) (auto simp: count_where_def update_where_def)

lemma count_where_0: "count_where P rows = 0 \<longleftrightarrow> (\<forall>r \<in> set rows. \<not> P r)"
  by (auto simp: count_where_def filter_empty_conv)

lemma count_where_key_le1:
  assumes "keys_distinct pk rows"
  shows "count_where (\<lambda>r. pk r = k \<and> P r) rows \<le> 1"
  using assms by (induction rows) (auto simp: keys_distinct_def count_where_def filter_empty_conv image_iff)

lemma update_where_none: "count_where P rows = 0 \<Longrightarrow> update_where P f rows = rows"
  by (induction rows) (auto simp: count_where_def update_where_def split: if_splits)

text \<open>What happened to the rows of a table: each went on to another row or was lost for a reason,
  and each row that is there now comes from an earlier one or was gained for a reason.\<close>

definition table_fate ::
  "('r \<Rightarrow> 'r \<Rightarrow> bool) \<Rightarrow> ('r \<Rightarrow> bool) \<Rightarrow> ('r \<Rightarrow> bool) \<Rightarrow> 'r list \<Rightarrow> 'r list \<Rightarrow> bool"
where
  "table_fate prog lost gain rows rows' \<longleftrightarrow>
     (\<forall>r \<in> set rows. (\<exists>r' \<in> set rows'. prog r r') \<or> lost r) \<and>
     (\<forall>r' \<in> set rows'. (\<exists>r \<in> set rows. prog r r') \<or> gain r')"

lemma table_fate_same: "(\<And>r. r \<in> set rows \<Longrightarrow> prog r r) \<Longrightarrow> table_fate prog lost gain rows rows"
  unfolding table_fate_def by blast

lemma table_fate_delete:
  assumes "\<And>r. r \<in> set rows \<Longrightarrow> prog r r" "\<And>r. r \<in> set rows \<Longrightarrow> P r \<Longrightarrow> lost r"
  shows "table_fate prog lost gain rows (delete_where P rows)"
  unfolding table_fate_def using assms by auto

lemma table_fate_update:
  assumes refl: "\<And>r. r \<in> set rows \<Longrightarrow> prog r r" and step: "\<And>r. r \<in> set rows \<Longrightarrow> P r \<Longrightarrow> prog r (f r)"
  shows "table_fate prog lost gain rows (update_where P f rows)"
proof -
  have p: "prog r (if P r then f r else r)" if "r \<in> set rows" for r
    using refl [OF that] step [OF that] by (cases "P r") simp_all
  show ?thesis
    unfolding table_fate_def
  proof (intro conjI ballI)
    fix r assume r: "r \<in> set rows"
    then have "(if P r then f r else r) \<in> set (update_where P f rows)" by (auto simp: set_update_where)
    with p [OF r] show "(\<exists>r' \<in> set (update_where P f rows). prog r r') \<or> lost r" by blast
  next
    fix x assume "x \<in> set (update_where P f rows)"
    then obtain r where "r \<in> set rows" "x = (if P r then f r else r)" by (auto simp: set_update_where)
    with p show "(\<exists>r \<in> set rows. prog r x) \<or> gain x" by blast
  qed
qed

lemma table_fate_insert:
  assumes "\<And>r. r \<in> set rows \<Longrightarrow> prog r r" "gain new"
  shows "table_fate prog lost gain rows (rows @ [new])"
  unfolding table_fate_def using assms by auto

lemma table_fate_after_delete:
  assumes "table_fate prog lost gain (delete_where P rows) rows'" "\<And>r. r \<in> set rows \<Longrightarrow> P r \<Longrightarrow> lost r"
  shows "table_fate prog lost gain rows rows'"
  using assms unfolding table_fate_def by auto

text \<open>An \<^verbatim>\<open>UPDATE\<close> that does not assign the primary key.\<close>

locale row_update =
  fixes pk :: "'row \<Rightarrow> 'key"
    and f :: "'row \<Rightarrow> 'row"
  assumes pk_frame: "pk (f r) = pk r"
begin

lemma keys_update: "map pk (update_where P f rows) = map pk rows"
  by (simp add: update_where_def pk_frame)

lemma distinct_update:
  "keys_distinct pk rows \<Longrightarrow> keys_distinct pk (update_where P f rows)"
  by (simp add: keys_distinct_def keys_update)

lemma select_update:
  assumes "keys_distinct pk rows" "r \<in> set rows" "pk r = k"
  shows "select_where (\<lambda>r'. pk r' = k) (update_where P f rows) =
         Some (if P r then f r else r)"
proof -
  let ?r = "if P r then f r else r"
  have "?r \<in> set (update_where P f rows)" using assms(2) by (auto simp: set_update_where)
  moreover have "pk ?r = k" using assms(3) pk_frame by simp
  ultimately show ?thesis
    using select_where_key [OF distinct_update [OF assms(1)], of ?r] by simp
qed

end

section \<open>Keyset pagination\<close>

text \<open>
  The store's list queries share one contract: a page is the first \<^verbatim>\<open>limit\<close> rows, in key order,
  after the cursor, and the cursor of the next request is the key of the last row returned.
  A client that follows the cursors until a page comes back short sees every row exactly
  once.  \<^term>\<open>fuel\<close> bounds the number of requests; one more than the number of rows is enough.
\<close>

fun follow_pages ::
  "nat \<Rightarrow> ('k option \<Rightarrow> nat \<Rightarrow> 'row list) \<Rightarrow> ('row \<Rightarrow> 'k) \<Rightarrow> nat \<Rightarrow> 'k option \<Rightarrow> 'row list option"
where
  "follow_pages 0 page key limit after = None"
| "follow_pages (Suc fuel) page key limit after =
     (let rs = page after limit in
      if length rs = limit \<and> rs \<noteq> []
      then map_option ((@) rs) (follow_pages fuel page key limit (Some (key (last rs))))
      else Some rs)"

locale keyset_pages =
  fixes key :: "'row \<Rightarrow> 'k::linorder"
    and page :: "'db \<Rightarrow> 'k option \<Rightarrow> nat \<Rightarrow> 'row list"
    and rows :: "'db \<Rightarrow> 'row list"
    and invar :: "'db \<Rightarrow> bool"
  assumes rows_sorted: "invar db \<Longrightarrow> sorted_wrt (<) (map key (rows db))"
    and first_page: "invar db \<Longrightarrow> page db None n = take n (rows db)"
    and next_page: "invar db \<Longrightarrow> page db (Some k) n = take n (filter (\<lambda>r. k < key r) (rows db))"
begin

lemma after_last:
  assumes "sorted_wrt (<) (map key (xs @ ys))" "xs \<noteq> []"
  shows "filter (\<lambda>r. key (last xs) < key r) (xs @ ys) = ys"
proof -
  obtain as a where xs: "xs = as @ [a]" using assms(2) by (metis rev_exhaust)
  have "key x \<le> key (last xs)" if "x \<in> set xs" for x
    using assms(1) that unfolding xs by (auto simp: sorted_wrt_append)
  then have "filter (\<lambda>r. key (last xs) < key r) xs = []"
    by (auto simp: filter_empty_conv not_less)
  moreover have "filter (\<lambda>r. key (last xs) < key r) ys = ys"
    using assms(1) unfolding xs by (auto simp: sorted_wrt_append filter_id_conv)
  ultimately show ?thesis by simp
qed

lemma page_of_suffix:
  assumes inv: "invar db" and split: "rows db = xs @ ys"
    and cur: "after = (if xs = [] then None else Some (key (last xs)))"
  shows "page db after n = take n ys"
proof (cases "xs = []")
  case True
  with split cur inv show ?thesis by (simp add: first_page)
next
  case False
  with split cur inv rows_sorted [OF inv] show ?thesis
    by (simp add: next_page after_last del: filter_append)
qed

lemma follow_suffix:
  assumes inv: "invar db" and split: "rows db = xs @ ys" and pos: "0 < limit"
    and cur: "after = (if xs = [] then None else Some (key (last xs)))"
    and fuel: "length ys < fuel"
  shows "follow_pages fuel (page db) key limit after = Some ys"
  using split cur fuel
proof (induction fuel arbitrary: xs ys after)
  case (Suc fuel)
  have pg: "page db after limit = take limit ys"
    by (rule page_of_suffix [OF inv Suc.prems(1,2)])
  show ?case
  proof (cases "length ys < limit \<or> ys = []")
    case True
    with pg pos show ?thesis by (auto simp: Let_def)
  next
    case False
    let ?p = "take limit ys" and ?r = "drop limit ys"
    from False pos have ne: "?p \<noteq> []" and full: "length ?p = limit" by auto
    have "follow_pages fuel (page db) key limit (Some (key (last ?p))) = Some ?r"
    proof (rule Suc.IH [of "xs @ ?p"])
      show "rows db = (xs @ ?p) @ ?r" using Suc.prems(1) by simp
      show "Some (key (last ?p)) = (if xs @ ?p = [] then None else Some (key (last (xs @ ?p))))"
        using ne by simp
      show "length ?r < fuel" using Suc.prems(3) pos False by (auto simp: not_less)
    qed
    with pg ne full show ?thesis by (simp add: Let_def)
  qed
qed simp

lemma follow_all:
  "\<lbrakk> invar db; 0 < limit; length (rows db) < fuel \<rbrakk> \<Longrightarrow>
   follow_pages fuel (page db) key limit None = Some (rows db)"
  using follow_suffix [of db "[]" "rows db" limit None fuel] by simp

end

section \<open>Machines and invariants\<close>

text \<open>
  A component whose operations are a step function on its state.  What every well-formed step
  keeps, every run of such steps keeps.
\<close>

fun run_steps :: "('s \<Rightarrow> 'e \<Rightarrow> 's) \<Rightarrow> 's \<Rightarrow> 'e list \<Rightarrow> 's" where
  "run_steps step s [] = s"
| "run_steps step s (e # es) = run_steps step (step s e) es"

locale invariant_machine =
  fixes step :: "'s \<Rightarrow> 'e \<Rightarrow> 's"
    and ok :: "'e \<Rightarrow> bool"
    and inv :: "'s \<Rightarrow> bool"
  assumes step_inv: "\<lbrakk> inv s; ok e \<rbrakk> \<Longrightarrow> inv (step s e)"
begin

lemma run_inv: "\<lbrakk> inv s; list_all ok es \<rbrakk> \<Longrightarrow> inv (run_steps step s es)"
  by (induction es arbitrary: s) (auto intro: step_inv)

end

text \<open>A relation every step respects (a preorder on states) is respected by every run.\<close>

locale monotone_machine = invariant_machine step ok inv
  for step :: "'s \<Rightarrow> 'e \<Rightarrow> 's" and ok :: "'e \<Rightarrow> bool" and inv :: "'s \<Rightarrow> bool" +
  fixes rel :: "'s \<Rightarrow> 's \<Rightarrow> bool"
  assumes rel_refl: "rel s s"
    and rel_trans: "rel s t \<Longrightarrow> rel t u \<Longrightarrow> rel s u"
    and step_rel: "\<lbrakk> inv s; ok e \<rbrakk> \<Longrightarrow> rel s (step s e)"
begin

lemma run_rel: "\<lbrakk> inv s; list_all ok es \<rbrakk> \<Longrightarrow> rel s (run_steps step s es)"
proof (induction es arbitrary: s)
  case (Cons e es)
  then have "rel s (step s e)" by (auto intro: step_rel)
  moreover from Cons have "rel (step s e) (run_steps step (step s e) es)"
    by (auto intro: step_inv)
  ultimately show ?case by (auto intro: rel_trans)
qed (simp add: rel_refl)

end

end
