(* ===== verification/Utils.thy ===== *)
theory Utils
  imports Prelude
begin

text \<open>
  \<^verbatim>\<open>src/utils.rs\<close>: the hexadecimal codec and the parser of the HTTP \<^verbatim>\<open>Range\<close> header.
  The lemmas show that the codec is exact and that a range header selects precisely the
  positions of the resource it names.  The percent codec of the external crate is a
  parameter of the definitions that use it.
\<close>

unbundle bit_operations_syntax

section \<open>Percent encoding\<close>

definition encode_uri :: "(string \<Rightarrow> string) \<Rightarrow> string \<Rightarrow> string" where
  "encode_uri utf8_percent_encode v =
     join ''/'' (map utf8_percent_encode (split_on CHR ''/'' v))"

definition decode_uri :: "(string \<Rightarrow> string option) \<Rightarrow> string \<Rightarrow> string option" where
  "decode_uri percent_decode_utf8 v = percent_decode_utf8 v"

section \<open>Hexadecimal\<close>

definition hex_digits :: string where
  "hex_digits = ''0123456789abcdef''"

fun encode_hex :: "8 word list \<Rightarrow> string" where
  "encode_hex [] = []"
| "encode_hex (b # bs) =
     hex_digits ! unat (drop_bit 4 b) # hex_digits ! unat (b AND 15) # encode_hex bs"

definition hex_nibble :: "8 word \<Rightarrow> 8 word option" where
  "hex_nibble v =
     (if 48 \<le> v \<and> v \<le> 57 then Some (v - 48)
      else if 97 \<le> v \<and> v \<le> 102 then Some (v - 97 + 10)
      else if 65 \<le> v \<and> v \<le> 70 then Some (v - 65 + 10)
      else None)"

text \<open>The loop over byte pairs and output slots; an invalid pair leaves the slots already written.\<close>

fun decode_hex_pairs :: "8 word list \<Rightarrow> 8 word list \<Rightarrow> bool \<times> 8 word list" where
  "decode_hex_pairs (h # l # rest) (slot # out) =
     (case hex_nibble h of
        None \<Rightarrow> (False, slot # out)
      | Some high \<Rightarrow>
          (case hex_nibble l of
             None \<Rightarrow> (False, slot # out)
           | Some low \<Rightarrow>
               (let (ok, out') = decode_hex_pairs rest out
                in (ok, (push_bit 4 high OR low) # out'))))"
| "decode_hex_pairs _ out = (True, out)"

definition decode_hex_to_slice :: "string \<Rightarrow> 8 word list \<Rightarrow> bool \<times> 8 word list" where
  "decode_hex_to_slice input out =
     (if length input \<noteq> saturating_mul (length out) 2 then (False, out)
      else decode_hex_pairs (map of_char input) out)"

section \<open>Range headers\<close>

datatype ParsedRange = Ignore | Satisfiable u64 u64 | Unsatisfiable

definition parse_range :: "string \<Rightarrow> u64 \<Rightarrow> ParsedRange" where
  "parse_range header sz =
     (case split_once CHR ''='' header of
        None \<Rightarrow> Unsatisfiable
      | Some (unit, spec) \<Rightarrow>
          if \<not> eq_ignore_ascii_case unit ''bytes'' then Ignore
          else if CHR '','' \<in> set spec then Unsatisfiable
          else (case split_once CHR ''-'' (trim spec) of
                  None \<Rightarrow> Unsatisfiable
                | Some (start, end) \<Rightarrow>
                    if start = [] then
                      (case parse_u64 end of
                         None \<Rightarrow> Unsatisfiable
                       | Some len \<Rightarrow>
                           if len = 0 \<or> sz = 0 then Unsatisfiable
                           else let len = min len sz in Satisfiable (sz - len) (sz - 1))
                    else
                      (case parse_u64 start of
                         None \<Rightarrow> Unsatisfiable
                       | Some start \<Rightarrow>
                           if sz \<le> start then Unsatisfiable
                           else if end = [] then Satisfiable start (sz - 1)
                           else (case parse_u64 end of
                                   None \<Rightarrow> Unsatisfiable
                                 | Some end \<Rightarrow>
                                     if end < start then Unsatisfiable
                                     else Satisfiable start (min end (sz - 1))))))"

text \<open>The reference reading of a header: the byte positions RFC 9110 says it names.\<close>

datatype byte_range = FromTo u64 u64 | From u64 | Last u64

fun range_header :: "byte_range \<Rightarrow> string" where
  "range_header (FromTo a b) = ''bytes='' @ u64_to_string a @ ''-'' @ u64_to_string b"
| "range_header (From a) = ''bytes='' @ u64_to_string a @ ''-''"
| "range_header (Last n) = ''bytes=-'' @ u64_to_string n"

fun range_positions :: "byte_range \<Rightarrow> u64 \<Rightarrow> nat set" where
  "range_positions (FromTo a b) sz = {i. a \<le> i \<and> i \<le> b \<and> i < sz}"
| "range_positions (From a) sz = {i. a \<le> i \<and> i < sz}"
| "range_positions (Last n) sz = {i. sz \<le> i + n \<and> i < sz}"

fun range_bounded :: "byte_range \<Rightarrow> bool" where
  "range_bounded (FromTo a b) \<longleftrightarrow> a \<le> u64_max \<and> b \<le> u64_max"
| "range_bounded (From a) \<longleftrightarrow> a \<le> u64_max"
| "range_bounded (Last n) \<longleftrightarrow> n \<le> u64_max"

section \<open>Facts about the codec\<close>

lemma hex_nibble_digit:
  assumes "n < 16"
  shows "hex_nibble (of_char (hex_digits ! n)) = Some (word_of_nat n)"
proof -
  have "n = 0 \<or> n = 1 \<or> n = 2 \<or> n = 3 \<or> n = 4 \<or> n = 5 \<or> n = 6 \<or> n = 7 \<or> n = 8 \<or> n = 9 \<or>
      n = 10 \<or> n = 11 \<or> n = 12 \<or> n = 13 \<or> n = 14 \<or> n = 15"
    using assms by arith
  then show ?thesis by (elim disjE) (simp_all add: hex_digits_def hex_nibble_def)
qed

lemma nibble_bounds: "unat (drop_bit 4 (b :: 8 word)) < 16" "unat (b AND 15) < 16"
proof -
  have "unat (drop_bit 4 b) = unat b div 16"
    by (simp only: unat_drop_bit_eq) (simp add: drop_bit_eq_div)
  moreover have "unat b < 256" using unsigned_less [of b, where ?'a = nat] by simp
  ultimately show "unat (drop_bit 4 b) < 16" by simp
  have "b AND 15 \<le> 15" by (rule word_and_le1)
  then have "unat (b AND 15) \<le> unat (15 :: 8 word)" by (simp add: word_le_nat_alt)
  then show "unat (b AND 15) < 16" by simp
qed

lemma nibbles_join: "push_bit 4 (drop_bit 4 (b :: 8 word)) OR (b AND 15) = b"
proof -
  have "b AND 15 = take_bit 4 b" by (simp add: take_bit_eq_mask mask_eq_exp_minus_1)
  then show ?thesis
    by (auto intro!: bit_word_eqI simp: bit_or_iff bit_push_bit_iff bit_drop_bit_eq bit_take_bit_iff)
qed

lemma length_encode_hex [simp]: "length (encode_hex bs) = 2 * length bs"
  by (induction bs) auto

lemma decode_hex_pairs_encode:
  "length out = length bs \<Longrightarrow> decode_hex_pairs (map of_char (encode_hex bs)) out = (True, bs)"
proof (induction bs arbitrary: out)
  case (Cons b bs)
  then obtain slot out' where out: "out = slot # out'" by (cases out) auto
  with Cons show ?case
    by (simp add: hex_nibble_digit nibble_bounds nibbles_join)
qed simp

lemma decode_hex_pairs_length [simp]: "length (snd (decode_hex_pairs bs out)) = length out"
  by (induction bs out rule: decode_hex_pairs.induct) (auto split: option.splits prod.splits)

lemma unat_of_char: "unat (of_char c :: 8 word) = of_char c"
proof -
  have "unat (of_nat (of_char c) :: 8 word) = of_char c"
    by (simp add: unsigned_of_nat take_bit_nat_eq_self)
  then show ?thesis by (simp only: of_nat_of_char)
qed

lemma hex_nibble_cases:
  assumes "hex_nibble (of_char c) = Some n"
  shows "c \<in> set ''0123456789abcdefABCDEF''"
proof -
  let ?m = "of_char c :: nat"
  have "(48 \<le> ?m \<and> ?m \<le> 57) \<or> (97 \<le> ?m \<and> ?m \<le> 102) \<or> (65 \<le> ?m \<and> ?m \<le> 70)"
    using assms by (auto simp: hex_nibble_def word_le_nat_alt unat_of_char split: if_splits)
  then have "?m \<in> of_char ` set ''0123456789abcdefABCDEF''" by simp arith
  then show ?thesis by (simp only: inj_image_mem_iff [OF inj_of_char])
qed

lemma nibble_lower:
  assumes "hex_nibble (of_char c) = Some n"
  shows "hex_digits ! unat n = to_ascii_lower c" "drop_bit 4 (push_bit 4 n) = n" "n AND 15 = n"
    "push_bit 4 n AND 15 = 0" "drop_bit 4 n = 0"
  using hex_nibble_cases [OF assms] assms
  by (auto simp: hex_nibble_def hex_digits_def to_ascii_lower_def less_eq_char_def char_of_def bit_0)

lemma joined_nibbles:
  assumes "hex_nibble (of_char c) = Some h" "hex_nibble (of_char d) = Some l"
  shows "drop_bit 4 (push_bit 4 h OR l) = h" "(push_bit 4 h OR l) AND 15 = l"
  using nibble_lower [OF assms(1)] nibble_lower [OF assms(2)]
  by (simp_all add: drop_bit_or bit.conj_disj_distrib2)

lemma encode_decoded_pairs:
  "\<lbrakk> length s = 2 * length out; decode_hex_pairs (map of_char s) out = (True, bs) \<rbrakk> \<Longrightarrow>
   encode_hex bs = map to_ascii_lower s"
proof (induction out arbitrary: s bs)
  case (Cons slot out)
  then obtain c d s' where s: "s = c # d # s'"
    by (cases s; cases "tl s") auto
  with Cons.prems obtain h l bs' where
    n: "hex_nibble (of_char c) = Some h" "hex_nibble (of_char d) = Some l" and
    rest: "decode_hex_pairs (map of_char s') out = (True, bs')" and
    bs: "bs = (push_bit 4 h OR l) # bs'"
    by (auto split: option.splits prod.splits)
  from Cons.IH [of s' bs'] Cons.prems s rest have "encode_hex bs' = map to_ascii_lower s'" by simp
  with s bs nibble_lower(1) [OF n(1)] nibble_lower(1) [OF n(2)] show ?case
    by (simp add: joined_nibbles [OF n] del: drop_bit_or)
qed simp

lemma decode_hex_pairs_accepts:
  "length s = 2 * length out \<Longrightarrow>
   fst (decode_hex_pairs (map of_char s) out) \<longleftrightarrow> (\<forall>c \<in> set s. hex_nibble (of_char c) \<noteq> None)"
proof (induction out arbitrary: s)
  case (Cons slot out)
  then obtain c d s' where s: "s = c # d # s'" "length s' = 2 * length out"
    by (cases s; cases "tl s") auto
  with Cons.IH [of s'] show ?case by (auto split: option.splits prod.splits)
qed simp

section \<open>Facts about ranges\<close>

lemma dash_not_in_digits: "CHR ''-'' \<notin> set (u64_to_string n)"
  using u64_to_string_digits [of n] by (auto simp: list_all_iff dest: digit_neq_sign)

lemma trim_no_space:
  "\<lbrakk> \<forall>c \<in> set s. \<not> is_ascii_space c \<rbrakk> \<Longrightarrow> trim s = s"
proof -
  assume *: "\<forall>c \<in> set s. \<not> is_ascii_space c"
  have d: "dropWhile is_ascii_space t = t" if "\<forall>c \<in> set t. \<not> is_ascii_space c" for t
    using that by (cases t) auto
  from * show ?thesis by (simp add: trim_def d)
qed

lemma digits_no_space: "c \<in> set (u64_to_string n) \<Longrightarrow> \<not> is_ascii_space c \<and> c \<noteq> CHR '',''"
  using u64_to_string_digits [of n]
  by (auto simp: list_all_iff is_ascii_digit_def less_eq_char_def is_ascii_space_def)

lemma comma_not_in_digits: "CHR '','' \<notin> set (u64_to_string n)"
  by (auto dest: digits_no_space)

lemma range_body_trim:
  "trim (u64_to_string a @ ''-'' @ u64_to_string b) = u64_to_string a @ ''-'' @ u64_to_string b"
  "trim (u64_to_string a @ ''-'') = u64_to_string a @ ''-''"
  "trim (''-'' @ u64_to_string b) = ''-'' @ u64_to_string b"
  by (rule trim_no_space; auto simp: is_ascii_space_def dest: digits_no_space)+

lemma parse_range_bounds:
  "parse_range header sz = Satisfiable a b \<Longrightarrow> a \<le> b \<and> b < sz"
  by (auto simp: parse_range_def Let_def split: option.splits prod.splits if_splits)

lemma u64_to_string_not_Nil [simp]: "u64_to_string n \<noteq> []"
  using u64_to_string_digits by blast

lemma parse_range_body:
  assumes "CHR '','' \<notin> set body" "trim body = start @ CHR ''-'' # end" "CHR ''-'' \<notin> set start"
  shows "parse_range (''bytes='' @ body) sz =
     (if start = [] then
        (case parse_u64 end of
           None \<Rightarrow> Unsatisfiable
         | Some len \<Rightarrow>
             if len = 0 \<or> sz = 0 then Unsatisfiable
             else Satisfiable (sz - min len sz) (sz - 1))
      else
        (case parse_u64 start of
           None \<Rightarrow> Unsatisfiable
         | Some a \<Rightarrow>
             if sz \<le> a then Unsatisfiable
             else if end = [] then Satisfiable a (sz - 1)
             else (case parse_u64 end of
                     None \<Rightarrow> Unsatisfiable
                   | Some b \<Rightarrow> if b < a then Unsatisfiable
                               else Satisfiable a (min b (sz - 1)))))"
  using assms
  by (simp add: parse_range_def eq_ignore_ascii_case_def split_once_append Let_def split: option.split)

lemma parse_range_FromTo:
  assumes "a \<le> u64_max" "b \<le> u64_max"
  shows "parse_range (range_header (FromTo a b)) sz =
     (if sz \<le> a \<or> b < a then Unsatisfiable else Satisfiable a (min b (sz - 1)))"
  using assms range_body_trim(1) [of a b] dash_not_in_digits [of a]
    parse_range_body [of "u64_to_string a @ ''-'' @ u64_to_string b" "u64_to_string a" "u64_to_string b" sz]
  by (simp add: comma_not_in_digits)

lemma parse_range_From:
  assumes "a \<le> u64_max"
  shows "parse_range (range_header (From a)) sz =
     (if sz \<le> a then Unsatisfiable else Satisfiable a (sz - 1))"
  using assms range_body_trim(2) [of a] dash_not_in_digits [of a]
    parse_range_body [of "u64_to_string a @ ''-''" "u64_to_string a" "[]" sz]
  by (simp add: comma_not_in_digits)

lemma parse_range_Last:
  assumes "n \<le> u64_max"
  shows "parse_range (range_header (Last n)) sz =
     (if n = 0 \<or> sz = 0 then Unsatisfiable else Satisfiable (sz - min n sz) (sz - 1))"
  using assms range_body_trim(3) [of n]
    parse_range_body [of "''-'' @ u64_to_string n" "[]" "u64_to_string n" sz]
  by (simp add: comma_not_in_digits)

section \<open>Properties\<close>

text \<open>The hexadecimal codec is exact: decoding into a slice succeeds precisely when the
  text has two digits per slot and every character is a hexadecimal digit of either case, the
  decoded bytes encode back to the text in lower case, and every byte slice survives an
  encode/decode round trip.\<close>

lemma hex_codec_exact:
  assumes "2 * length out \<le> u64_max"
  shows
   "(fst (decode_hex_to_slice s out) \<longleftrightarrow>
      length s = 2 * length out \<and> (\<forall>c \<in> set s. c \<in> set ''0123456789abcdefABCDEF'')) \<and>
   (fst (decode_hex_to_slice s out) \<longrightarrow>
      encode_hex (snd (decode_hex_to_slice s out)) = map to_ascii_lower s) \<and>
   (length out = length bs \<longrightarrow> decode_hex_to_slice (encode_hex bs) out = (True, bs))"
proof -
  have sat: "saturating_mul (length out) 2 = 2 * length out"
    using assms by (simp add: saturating_mul_def)
  have dig: "hex_nibble (of_char c) \<noteq> None \<longleftrightarrow> c \<in> set ''0123456789abcdefABCDEF''" for c
    using hex_nibble_cases [of c] by (auto simp: hex_nibble_def)
  have 1: "fst (decode_hex_to_slice s out) \<longleftrightarrow>
      length s = 2 * length out \<and> (\<forall>c \<in> set s. c \<in> set ''0123456789abcdefABCDEF'')"
    using decode_hex_pairs_accepts [of s out] dig by (auto simp: decode_hex_to_slice_def sat)
  have 2: "encode_hex (snd (decode_hex_to_slice s out)) = map to_ascii_lower s"
    if "fst (decode_hex_to_slice s out)"
    using that encode_decoded_pairs [of s out "snd (decode_hex_to_slice s out)"]
    by (auto simp: decode_hex_to_slice_def sat prod_eq_iff split: if_splits)
  have 3: "decode_hex_to_slice (encode_hex bs) out = (True, bs)" if "length out = length bs"
    using that assms by (simp add: decode_hex_to_slice_def saturating_mul_def decode_hex_pairs_encode)
  from 1 2 3 show ?thesis by blast
qed

text \<open>Claim C39.  Any accepted range lies inside the resource, whatever the header text; and for
  the three forms of a single-range header the parser answers with exactly the interval of
  existing positions the header names, or with \<^verbatim>\<open>Unsatisfiable\<close> when there is none.\<close>

theorem parse_range_exact:
  "(parse_range header sz = Satisfiable a b \<longrightarrow> a \<le> b \<and> b < sz) \<and>
   (range_bounded r \<longrightarrow>
      (case parse_range (range_header r) sz of
         Satisfiable lo hi \<Rightarrow> lo \<le> hi \<and> range_positions r sz = {lo..hi}
       | Unsatisfiable \<Rightarrow> range_positions r sz = {}
       | Ignore \<Rightarrow> False))"
proof (intro conjI impI)
  assume "range_bounded r"
  then show "case parse_range (range_header r) sz of
         Satisfiable lo hi \<Rightarrow> lo \<le> hi \<and> range_positions r sz = {lo..hi}
       | Unsatisfiable \<Rightarrow> range_positions r sz = {} | Ignore \<Rightarrow> False"
    by (cases r) (auto simp: parse_range_FromTo parse_range_From parse_range_Last
        simp del: range_header.simps)
qed (auto dest: parse_range_bounds)

theorem parse_range_exact_witness:
  "range_bounded (FromTo 499 999) \<and>
   parse_range (range_header (FromTo 499 999)) 500 = Satisfiable 499 499 \<and>
   range_positions (FromTo 499 999) 500 = {499..499} \<and>
   parse_range ''Bytes=0-'' 500 = Satisfiable 0 499"
proof -
  have h: "range_bounded (FromTo 499 999)" by (simp add: u64_max_def)
  have p: "parse_range (range_header (FromTo 499 999)) 500 = Satisfiable 499 499"
    using parse_range_FromTo [of 499 999 500] by (simp add: u64_max_def del: range_header.simps)
  have "parse_range ''Bytes=0-'' 500 = Satisfiable 0 499"
    by (simp add: parse_range_def eq_ignore_ascii_case_def to_ascii_lower_def less_eq_char_def
        trim_def is_ascii_space_def parse_u64_def is_ascii_digit_def digits_value_def u64_max_def
        char_of_def bit_0)
  moreover have "range_positions (FromTo 499 999) 500 = {499..499}"
    using h p parse_range_exact [of "[]" 500 0 0 "FromTo 499 999"]
    by (simp del: range_header.simps range_positions.simps range_bounded.simps)
  ultimately show ?thesis using h p by blast
qed

end
