(* ===== verification/Std_Path.thy ===== *)
theory Std_Path
  imports Prelude
begin

text \<open>
  The part of \<^verbatim>\<open>std::path\<close> the sources rely on, for Unix.  A \<^verbatim>\<open>Path\<close> is its byte string; its
  equality, order and \<^verbatim>\<open>starts_with\<close> go through the parsed components, so that \<^verbatim>\<open>a//b/./c\<close> and
  \<^verbatim>\<open>a/b/c\<close> are the same path.  The lemmas relate pushing a segment, joining and normalising to
  the component list.
\<close>

section \<open>Components\<close>

datatype component = RootDir | CurDir | ParentDir | Normal string

fun component_key :: "component \<Rightarrow> nat \<times> string" where
  "component_key RootDir = (0, [])"
| "component_key CurDir = (1, [])"
| "component_key ParentDir = (2, [])"
| "component_key (Normal s) = (3, s)"

lemma component_key_inj: "component_key c = component_key d \<Longrightarrow> c = d"
  by (cases c; cases d) auto

instantiation component :: linorder
begin

definition less_eq_component :: "component \<Rightarrow> component \<Rightarrow> bool" where
  "less_eq_component c d \<longleftrightarrow> component_key c \<le> component_key d"

definition less_component :: "component \<Rightarrow> component \<Rightarrow> bool" where
  "less_component c d \<longleftrightarrow> component_key c < component_key d"

instance
  by standard (auto simp: less_eq_component_def less_component_def dest: component_key_inj)

end

text \<open>Empty segments and \<^verbatim>\<open>.\<close> segments are skipped, except a leading \<^verbatim>\<open>.\<close> of a relative path.\<close>

fun segment_components :: "string list \<Rightarrow> component list" where
  "segment_components [] = []"
| "segment_components (s # ss) =
     (if s = [] \<or> s = ''.'' then segment_components ss
      else (if s = ''..'' then ParentDir else Normal s) # segment_components ss)"

definition is_absolute :: "string \<Rightarrow> bool" where
  "is_absolute p \<longleftrightarrow> prefix ''/'' p"

definition components :: "string \<Rightarrow> component list" where
  "components p =
     (let ss = split_on CHR ''/'' p in
      if is_absolute p then RootDir # segment_components ss
      else if hd ss = ''.'' then CurDir # segment_components (tl ss)
      else segment_components ss)"

definition path_eq :: "string \<Rightarrow> string \<Rightarrow> bool" where
  "path_eq p q \<longleftrightarrow> components p = components q"

definition path_starts_with :: "string \<Rightarrow> string \<Rightarrow> bool" where
  "path_starts_with p q \<longleftrightarrow> prefix (components q) (components p)"

definition path_push :: "string \<Rightarrow> string \<Rightarrow> string" where
  "path_push buf p =
     (if is_absolute p then p
      else if buf = [] \<or> last buf = CHR ''/'' then buf @ p
      else buf @ ''/'' @ p)"

fun component_str :: "component \<Rightarrow> string" where
  "component_str RootDir = ''/''"
| "component_str CurDir = ''.''"
| "component_str ParentDir = ''..''"
| "component_str (Normal s) = s"

definition path_of_components :: "component list \<Rightarrow> string" where
  "path_of_components cs = foldl (\<lambda>buf c. path_push buf (component_str c)) [] cs"

text \<open>\<^verbatim>\<open>Path::file_name\<close> and \<^verbatim>\<open>Path::parent\<close>, the latter up to path equality.\<close>

definition path_file_name :: "string \<Rightarrow> string option" where
  "path_file_name p =
     (case rev (components p) of Normal s # _ \<Rightarrow> Some s | _ \<Rightarrow> None)"

definition path_parent :: "string \<Rightarrow> string option" where
  "path_parent p =
     (case rev (components p) of
        [] \<Rightarrow> None
      | RootDir # _ \<Rightarrow> None
      | _ # cs \<Rightarrow> Some (path_of_components (rev cs)))"

section \<open>Segments\<close>

text \<open>A plain segment is a name that a path can be extended by without changing its meaning.\<close>

definition plain_segment :: "string \<Rightarrow> bool" where
  "plain_segment s \<longleftrightarrow> s \<noteq> [] \<and> s \<noteq> ''.'' \<and> s \<noteq> ''..'' \<and> CHR ''/'' \<notin> set s"

text \<open>A segment that contributes exactly one component; \<^verbatim>\<open>..\<close> is one of them.\<close>

definition name_segment :: "string \<Rightarrow> bool" where
  "name_segment s \<longleftrightarrow> s \<noteq> [] \<and> s \<noteq> ''.'' \<and> CHR ''/'' \<notin> set s"

definition segment_component :: "string \<Rightarrow> component" where
  "segment_component s = (if s = ''..'' then ParentDir else Normal s)"

lemma plain_name_segment [simp]: "plain_segment s \<Longrightarrow> name_segment s"
  by (auto simp: plain_segment_def name_segment_def)

lemma plain_segment_component [simp]: "plain_segment s \<Longrightarrow> segment_component s = Normal s"
  by (auto simp: plain_segment_def segment_component_def)

lemma path_eq_refl [simp]: "path_eq p p"
  by (simp add: path_eq_def)

lemma path_eq_sym: "path_eq p q \<Longrightarrow> path_eq q p"
  by (simp add: path_eq_def)

lemma path_eq_trans: "path_eq p q \<Longrightarrow> path_eq q r \<Longrightarrow> path_eq p r"
  by (simp add: path_eq_def)

lemma path_starts_with_refl [simp]: "path_starts_with p p"
  by (simp add: path_starts_with_def)

lemma path_starts_with_trans:
  "path_starts_with p q \<Longrightarrow> path_starts_with q r \<Longrightarrow> path_starts_with p r"
  by (auto simp: path_starts_with_def)

lemma segment_components_append:
  "segment_components (xs @ ys) = segment_components xs @ segment_components ys"
  by (induction xs) auto

lemma segment_components_plain:
  "list_all plain_segment ss \<Longrightarrow> segment_components ss = map Normal ss"
  by (induction ss) (auto simp: plain_segment_def)

lemma split_on_append:
  "split_on c (a @ [c] @ b) = split_on c a @ split_on c b"
proof (induction a)
  case (Cons x a)
  then show ?case
    by (cases "split_on c a") auto
qed simp

lemma hd_split_on_append:
  "hd (split_on c (a @ [c] @ b)) = hd (split_on c a)"
  by (simp only: split_on_append) (simp add: hd_append)

lemma segment_not_absolute:
  "name_segment s \<Longrightarrow> \<not> is_absolute s"
  by (cases s) (auto simp: name_segment_def is_absolute_def)

lemma is_absolute_append: "p \<noteq> [] \<Longrightarrow> is_absolute (p @ q) = is_absolute p"
  by (cases p) (auto simp: is_absolute_def)

lemma split_on_snoc_sep: "split_on c (p @ [c]) = split_on c p @ [[]]"
  using split_on_append [of c p "[]"] by simp

lemma components_sep:
  assumes "buf \<noteq> []" "name_segment s"
  shows "components (buf @ ''/'' @ s) = components buf @ [segment_component s]"
proof -
  have s: "split_on CHR ''/'' s = [s]" using assms(2)
    by (simp add: name_segment_def split_on_no_sep)
  have "split_on CHR ''/'' (buf @ ''/'' @ s) = split_on CHR ''/'' buf @ [s]"
    using split_on_append [of "CHR ''/''" buf s] s by simp
  with assms show ?thesis
    by (cases "split_on CHR ''/'' buf")
      (auto simp: components_def Let_def is_absolute_append segment_components_append name_segment_def segment_component_def)
qed

lemma components_trailing_slash:
  "buf \<noteq> [] \<Longrightarrow> components (buf @ ''/'') = components buf"
  by (cases "split_on CHR ''/'' buf")
    (auto simp: components_def Let_def is_absolute_append split_on_snoc_sep segment_components_append)

lemma components_push:
  assumes "name_segment s"
  shows "components (path_push buf s) = components buf @ [segment_component s]"
proof -
  have s: "split_on CHR ''/'' s = [s]" using assms
    by (simp add: name_segment_def split_on_no_sep)
  consider "buf = []" | b where "buf = b @ ''/''" "b \<noteq> []" | "buf = ''/''"
    | "buf \<noteq> []" "last buf \<noteq> CHR ''/''"
    by (metis append_butlast_last_id append_self_conv2)
  then show ?thesis
  proof cases
    case 1
    with assms s segment_not_absolute [OF assms] show ?thesis
      by (auto simp: path_push_def components_def name_segment_def is_absolute_def segment_component_def)
  next
    case 2
    with assms segment_not_absolute [OF assms] show ?thesis
      using components_sep [of b s] components_trailing_slash [of b] by (simp add: path_push_def)
  next
    case 3
    with assms s segment_not_absolute [OF assms] show ?thesis
      by (auto simp: path_push_def components_def name_segment_def is_absolute_def segment_component_def)
  next
    case 4
    with assms segment_not_absolute [OF assms] show ?thesis
      using components_sep [of buf s] by (simp add: path_push_def)
  qed
qed

lemma components_push_all:
  "list_all plain_segment ss \<Longrightarrow>
   components (foldl path_push buf ss) = components buf @ map Normal ss"
  by (induction ss arbitrary: buf) (auto simp: components_push)


section \<open>Normalisation\<close>

lemma segment_components_names:
  "\<lbrakk> \<forall>s \<in> set ss. CHR ''/'' \<notin> set s \<rbrakk> \<Longrightarrow>
   \<exists>ns. list_all name_segment ns \<and> segment_components ss = map segment_component ns"
proof (induction ss)
  case (Cons s ss)
  then obtain ns where ns: "list_all name_segment ns"
    "segment_components ss = map segment_component ns" by auto
  show ?case
  proof (cases "s = [] \<or> s = ''.''")
    case True
    with ns show ?thesis by auto
  next
    case False
    with ns Cons.prems have "list_all name_segment (s # ns)" by (auto simp: name_segment_def)
    moreover have "segment_components (s # ss) = map segment_component (s # ns)"
      using False ns by (auto simp: segment_component_def)
    ultimately show ?thesis by blast
  qed
qed (auto intro: exI [of _ "[]"])

lemma components_shape:
  obtains pre ns where "pre \<in> {[], [RootDir], [CurDir]}" "list_all name_segment ns"
    "components p = pre @ map segment_component ns"
proof -
  have ns: "\<exists>ns. list_all name_segment ns \<and> segment_components ss = map segment_component ns"
    if "set ss \<subseteq> set (split_on CHR ''/'' p)" for ss
    using segment_components_names that split_on_parts_no_sep by blast
  have tl: "set (tl (split_on CHR ''/'' p)) \<subseteq> set (split_on CHR ''/'' p)"
    by (meson list.set_sel(2) split_on_nonempty subsetI)
  show thesis
    using ns [of "split_on CHR ''/'' p"] ns [OF tl] that [of "[RootDir]"] that [of "[CurDir]"] that [of "[]"]
    by (fastforce simp: components_def Let_def split: if_splits)
qed

lemma component_str_segment [simp]: "component_str (segment_component s) = s"
  by (simp add: segment_component_def)

lemma components_fold_names:
  "list_all name_segment ns \<Longrightarrow>
   components (foldl (\<lambda>buf c. path_push buf (component_str c)) buf (map segment_component ns)) =
   components buf @ map segment_component ns"
  by (induction ns arbitrary: buf) (auto simp: components_push)

lemma components_of_shape:
  assumes "pre \<in> {[], [RootDir], [CurDir]}" "list_all name_segment ns"
  shows "components (path_of_components (pre @ map segment_component ns)) = pre @ map segment_component ns"
proof -
  have "components (foldl (\<lambda>buf c. path_push buf (component_str c)) [] pre) = pre"
    using assms(1) by (auto simp: path_push_def is_absolute_def components_def)
  then show ?thesis
    unfolding path_of_components_def foldl_append
    by (simp only: components_fold_names [OF assms(2)])
qed

lemma components_path_of_components [simp]:
  "components (path_of_components (components p)) = components p"
  using components_shape [of p] components_of_shape by metis

lemma path_parent_components:
  assumes "path_parent p = Some d"
  shows "components p \<noteq> []" "components d = butlast (components p)"
proof -
  obtain pre ns where sh: "pre \<in> {[], [RootDir], [CurDir]}" "list_all name_segment ns"
    "components p = pre @ map segment_component ns"
    by (rule components_shape)
  show ne: "components p \<noteq> []" using assms by (auto simp: path_parent_def)
  have d: "d = path_of_components (butlast (components p))"
    using assms ne by (auto simp: path_parent_def butlast_rev rev_swap split: list.splits component.splits)
  show "components d = butlast (components p)"
  proof (cases ns rule: rev_cases)
    case Nil
    with sh have "butlast (components p) = []" by auto
    with d show ?thesis by (simp add: path_of_components_def components_def is_absolute_def)
  next
    case (snoc ms m)
    with sh have "butlast (components p) = pre @ map segment_component ms" "list_all name_segment ms"
      by (auto simp: butlast_append)
    with d sh(1) show ?thesis by (simp only: components_of_shape)
  qed
qed

lemma path_file_name_components:
  assumes "path_file_name p = Some n"
  shows "last (components p) = Normal n" "components p \<noteq> []" "plain_segment n"
proof -
  show l: "last (components p) = Normal n" and ne: "components p \<noteq> []"
    using assms by (auto simp: path_file_name_def last_rev rev_swap split: list.splits component.splits)
  obtain pre ns where sh: "pre \<in> {[], [RootDir], [CurDir]}" "list_all name_segment ns"
    "components p = pre @ map segment_component ns"
    by (rule components_shape)
  with l ne have "ns \<noteq> []" by auto
  with sh l have "segment_component (last ns) = Normal n" "name_segment (last ns)"
    by (auto simp: last_map list_all_iff)
  then show "plain_segment n"
    by (auto simp: segment_component_def name_segment_def plain_segment_def split: if_splits)
qed

lemma path_push_append:
  "\<lbrakk> buf \<noteq> []; last buf \<noteq> CHR ''/''; plain_segment s \<rbrakk> \<Longrightarrow> path_push buf s = buf @ ''/'' @ s"
  by (simp add: path_push_def segment_not_absolute)

lemma plain_segment_last: "plain_segment s \<Longrightarrow> s \<noteq> [] \<and> last s \<noteq> CHR ''/''"
  by (auto simp: plain_segment_def dest: last_in_set)

lemma fold_push_append:
  "\<lbrakk> buf \<noteq> []; last buf \<noteq> CHR ''/''; list_all plain_segment ss \<rbrakk> \<Longrightarrow>
   foldl path_push buf ss = buf @ concat (map ((#) CHR ''/'') ss)"
  by (induction ss arbitrary: buf) (auto simp: path_push_append dest: plain_segment_last)

lemma join_concat: "join ''/'' (s # ss) = s @ concat (map ((#) CHR ''/'') ss)"
  by (induction ss arbitrary: s) auto

lemma path_push_nonempty:
  assumes "plain_segment s"
  shows "path_push buf s \<noteq> []" "last (path_push buf s) \<noteq> CHR ''/''"
  using plain_segment_last [OF assms] segment_not_absolute [OF plain_name_segment [OF assms]]
  by (auto simp: path_push_def)

text \<open>Joining a relative path of plain segments is pushing its segments one by one.\<close>

lemma path_push_join:
  assumes "ss \<noteq> []" "list_all plain_segment ss"
  shows "path_push buf (join ''/'' ss) = foldl path_push buf ss"
proof -
  obtain s ts where ss: "ss = s # ts" using assms(1) by (cases ss) auto
  have s: "plain_segment s" using assms(2) ss by simp
  have na: "\<not> is_absolute (join ''/'' ss)"
    using s segment_not_absolute [of s] by (simp add: ss join_concat is_absolute_append plain_segment_def)
  have "path_push buf (join ''/'' ss) = path_push buf s @ concat (map ((#) CHR ''/'') ts)"
    using na segment_not_absolute [of s] s by (simp add: path_push_def ss join_concat)
  also have "\<dots> = foldl path_push (path_push buf s) ts"
    using assms(2) path_push_nonempty [OF s] by (simp add: ss fold_push_append)
  finally show ?thesis by (simp add: ss)
qed

lemma normal_components_plain:
  assumes "components p = map Normal ns"
  shows "list_all plain_segment ns"
proof -
  obtain pre ms where sh: "pre \<in> {[], [RootDir], [CurDir]}" "list_all name_segment ms"
    "components p = pre @ map segment_component ms"
    by (rule components_shape)
  with assms have pre: "pre = []" by (cases ns) auto
  have "plain_segment n" if "n \<in> set ns" for n
  proof -
    have "Normal n \<in> set (components p)" using assms that by simp
    with sh pre obtain m where "m \<in> set ms" "Normal n = segment_component m" by auto
    with sh(2) show ?thesis
      by (auto simp: segment_component_def name_segment_def plain_segment_def list_all_iff split: if_splits)
  qed
  then show ?thesis by (simp add: list_all_iff)
qed

lemma path_eq_normalised: "path_eq p q \<longleftrightarrow>
    path_of_components (components p) = path_of_components (components q)"
  unfolding path_eq_def by (metis components_path_of_components)

end
