(* ===== verification/Path_Names.thy ===== *)
theory Path_Names
  imports Std_Path Utils
begin

text \<open>
  \<^verbatim>\<open>src/server/internal_names.rs\<close> and \<^verbatim>\<open>src/server/path_policy.rs\<close>: the names the server reserves
  for its own files, and the lexical rules every request path passes.  UUID parsing and
  printing, SHA-256 and percent coding come from external crates and are parameters.

  The lemmas show which paths the policy accepts, that an accepted path always denotes an
  entry below the served root, and that no client can name a reserved file.
\<close>

section \<open>Internal names\<close>

record uuid_ops =
  parse_str :: "string \<Rightarrow> blob option"
  hyphenated :: "blob \<Rightarrow> string"

definition UPLOAD_TEMP_PREFIX :: string where "UPLOAD_TEMP_PREFIX = ''.dufs-upload-''"
definition UPLOAD_TEMP_SUFFIX :: string where "UPLOAD_TEMP_SUFFIX = ''.part''"
definition UPLOAD_STAGE_DIRECTORY :: string where "UPLOAD_STAGE_DIRECTORY = ''.dufs-upload-stages''"
definition READINESS_PREFIX :: string where "READINESS_PREFIX = ''.dufs-readiness-''"
definition READINESS_SUFFIX :: string where "READINESS_SUFFIX = ''.probe''"
definition DELETE_TRASH_PREFIX :: string where "DELETE_TRASH_PREFIX = ''.dufs-upload-delete-''"
definition DELETE_TRASH_SUFFIX :: string where "DELETE_TRASH_SUFFIX = ''.trash''"
definition QUARANTINE_PREFIX :: string where "QUARANTINE_PREFIX = ''.dufs-quarantine-''"
definition QUARANTINE_SUFFIX :: string where "QUARANTINE_SUFFIX = ''.hold''"

lemmas internal_name_defs =
  UPLOAD_TEMP_PREFIX_def UPLOAD_TEMP_SUFFIX_def UPLOAD_STAGE_DIRECTORY_def
  READINESS_PREFIX_def READINESS_SUFFIX_def DELETE_TRASH_PREFIX_def DELETE_TRASH_SUFFIX_def
  QUARANTINE_PREFIX_def QUARANTINE_SUFFIX_def

definition upload_stage_name :: "uuid_ops \<Rightarrow> string \<Rightarrow> blob \<Rightarrow> string" where
  "upload_stage_name U target_tag upload_id =
     UPLOAD_TEMP_PREFIX @ target_tag @ ''-'' @ hyphenated U upload_id @ UPLOAD_TEMP_SUFFIX"

definition upload_readiness_probe_name :: "uuid_ops \<Rightarrow> blob \<Rightarrow> string" where
  "upload_readiness_probe_name U upload_id =
     READINESS_PREFIX @ hyphenated U upload_id @ READINESS_SUFFIX"

definition delete_trash_name :: "uuid_ops \<Rightarrow> blob \<Rightarrow> string" where
  "delete_trash_name U trash_id =
     DELETE_TRASH_PREFIX @ hyphenated U trash_id @ DELETE_TRASH_SUFFIX"

definition quarantine_name :: "uuid_ops \<Rightarrow> blob \<Rightarrow> string" where
  "quarantine_name U quarantine_id =
     QUARANTINE_PREFIX @ hyphenated U quarantine_id @ QUARANTINE_SUFFIX"

datatype name_error = NoParentDirectory | NoFileName

definition upload_temp_path ::
  "uuid_ops \<Rightarrow> (string \<Rightarrow> 8 word list) \<Rightarrow> string \<Rightarrow> blob \<Rightarrow> name_error + string"
where
  "upload_temp_path U sha256 path upload_id =
     (case path_parent path of
        None \<Rightarrow> Inl NoParentDirectory
      | Some parent \<Rightarrow>
          (case path_file_name path of
             None \<Rightarrow> Inl NoFileName
           | Some file_name \<Rightarrow>
               let target_tag = encode_hex (sha256 (to_string_lossy file_name)) in
               Inr (path_push (path_push parent UPLOAD_STAGE_DIRECTORY)
                      (upload_stage_name U target_tag upload_id))))"

definition is_upload_temp_path ::
  "uuid_ops \<Rightarrow> (string \<Rightarrow> 8 word list) \<Rightarrow> string \<Rightarrow> blob \<Rightarrow> string \<Rightarrow> name_error + bool"
where
  "is_upload_temp_path U sha256 target upload_id stage =
     (case upload_temp_path U sha256 target upload_id of
        Inl e \<Rightarrow> Inl e
      | Inr p \<Rightarrow> Inr (path_eq p stage))"

definition upload_stage_directory :: "string \<Rightarrow> string option" where
  "upload_stage_directory path =
     (case path_parent path of
        None \<Rightarrow> None
      | Some directory \<Rightarrow>
          (case path_file_name directory of
             None \<Rightarrow> None
           | Some name \<Rightarrow>
               (case to_str name of
                  None \<Rightarrow> None
                | Some name \<Rightarrow>
                    if name = UPLOAD_STAGE_DIRECTORY then Some directory else None)))"

datatype InternalEntryName = StageDirectory | Readiness | DeleteTrash | Quarantine

definition is_canonical_uuid :: "uuid_ops \<Rightarrow> string \<Rightarrow> bool" where
  "is_canonical_uuid U value =
     (case parse_str U value of None \<Rightarrow> False | Some uuid \<Rightarrow> hyphenated U uuid = value)"

text \<open>The shared shape of the three framed names: a prefix, a canonical UUID, a suffix.\<close>

definition framed_uuid :: "uuid_ops \<Rightarrow> string \<Rightarrow> string \<Rightarrow> string \<Rightarrow> bool" where
  "framed_uuid U pre suf file_name =
     (case strip_prefix pre file_name of
        None \<Rightarrow> False
      | Some value \<Rightarrow>
          (case strip_suffix suf value of
             None \<Rightarrow> False
           | Some value \<Rightarrow> is_canonical_uuid U value))"

definition is_readiness_name :: "uuid_ops \<Rightarrow> string \<Rightarrow> bool" where
  "is_readiness_name U file_name = framed_uuid U READINESS_PREFIX READINESS_SUFFIX file_name"

definition is_delete_trash_name :: "uuid_ops \<Rightarrow> string \<Rightarrow> bool" where
  "is_delete_trash_name U file_name = framed_uuid U DELETE_TRASH_PREFIX DELETE_TRASH_SUFFIX file_name"

definition is_quarantine_name :: "uuid_ops \<Rightarrow> string \<Rightarrow> bool" where
  "is_quarantine_name U file_name = framed_uuid U QUARANTINE_PREFIX QUARANTINE_SUFFIX file_name"

definition classify_internal_name :: "uuid_ops \<Rightarrow> string \<Rightarrow> InternalEntryName option" where
  "classify_internal_name U file_name =
     (if file_name = UPLOAD_STAGE_DIRECTORY then Some StageDirectory
      else if is_quarantine_name U file_name then Some Quarantine
      else if is_delete_trash_name U file_name then Some DeleteTrash
      else if is_readiness_name U file_name then Some Readiness
      else None)"

definition is_internal_name :: "uuid_ops \<Rightarrow> string \<Rightarrow> bool" where
  "is_internal_name U file_name \<longleftrightarrow> classify_internal_name U file_name \<noteq> None"

definition is_lower_hex :: "char \<Rightarrow> bool" where
  "is_lower_hex c \<longleftrightarrow> is_ascii_digit c \<or> (CHR ''a'' \<le> c \<and> c \<le> CHR ''f'')"

text \<open>\<^verbatim>\<open>str::get(range)\<close> also fails inside a multi-byte character; the checked prefix is all ASCII
  whenever the function goes on to look behind it.\<close>

definition is_upload_stage_name :: "uuid_ops \<Rightarrow> string \<Rightarrow> bool" where
  "is_upload_stage_name U file_name =
     (case strip_prefix UPLOAD_TEMP_PREFIX file_name of
        None \<Rightarrow> False
      | Some value \<Rightarrow>
          (case strip_suffix UPLOAD_TEMP_SUFFIX value of
             None \<Rightarrow> False
           | Some value \<Rightarrow>
               64 \<le> length value \<and> list_all is_lower_hex (take 64 value) \<and>
               take 1 (drop 64 value) = ''-'' \<and> is_canonical_uuid U (drop 65 value)))"

section \<open>The path policy\<close>

definition BROWSER_COMPONENT_BYTES_LIMIT :: nat where "BROWSER_COMPONENT_BYTES_LIMIT = 255"
definition BROWSER_RELATIVE_PATH_BYTES_LIMIT :: nat where "BROWSER_RELATIVE_PATH_BYTES_LIMIT = 4095"

record PathPolicy =
  policy_root :: string
  assets_component :: string

definition new_policy :: "string \<Rightarrow> string \<Rightarrow> PathPolicy" where
  "new_policy root assets_prefix =
     \<lparr> policy_root = root,
       assets_component =
         (case strip_suffix ''/'' assets_prefix of None \<Rightarrow> assets_prefix | Some a \<Rightarrow> a) \<rparr>"

definition is_reserved_component :: "PathPolicy \<Rightarrow> string \<Rightarrow> bool" where
  "is_reserved_component P c \<longleftrightarrow> c = ''__dufs__'' \<or> c = assets_component P"

text \<open>The loop of \<^verbatim>\<open>parse_route\<close>: every component must be a normal, short, non-internal name.\<close>

fun route_parts :: "uuid_ops \<Rightarrow> component list \<Rightarrow> string list option" where
  "route_parts U [] = Some []"
| "route_parts U (Normal value # cs) =
     (let value = to_string_lossy value in
      if BROWSER_COMPONENT_BYTES_LIMIT < length value \<or> is_internal_name U value then None
      else map_option ((#) value) (route_parts U cs))"
| "route_parts U (_ # cs) = None"

definition parse_route ::
  "uuid_ops \<Rightarrow> (string \<Rightarrow> string option) \<Rightarrow> (string \<Rightarrow> string) \<Rightarrow> PathPolicy \<Rightarrow> string \<Rightarrow> string option"
where
  "parse_route U dec enc P raw_path =
     (case decode_uri dec raw_path of
        None \<Rightarrow> None
      | Some path \<Rightarrow>
          if CHR 0x00 \<in> set path then None
          else (case route_parts U (components (trim_matches CHR ''/'' path)) of
                  None \<Rightarrow> None
                | Some parts \<Rightarrow>
                    let normalized = join ''/'' parts in
                    if BROWSER_RELATIVE_PATH_BYTES_LIMIT < length normalized then None
                    else if is_reserved_component P (hd (split_on CHR ''/'' normalized)) \<and>
                            raw_path \<noteq> ''/'' @ encode_uri enc normalized then None
                    else Some normalized))"

text \<open>The loop of \<^verbatim>\<open>parse_browser_target\<close> over the segments and their index.\<close>

fun push_browser_segments ::
  "uuid_ops \<Rightarrow> PathPolicy \<Rightarrow> nat \<Rightarrow> string list \<Rightarrow> string \<Rightarrow> string option"
where
  "push_browser_segments U P index [] resolved = Some resolved"
| "push_browser_segments U P index (c # cs) resolved =
     (if c = [] \<or> c = ''.'' \<or> c = ''..'' \<or> BROWSER_COMPONENT_BYTES_LIMIT < length c \<or>
         is_internal_name U c \<or> (index = 0 \<and> is_reserved_component P c)
      then None
      else push_browser_segments U P (Suc index) cs (path_push resolved c))"

definition parse_browser_target :: "uuid_ops \<Rightarrow> PathPolicy \<Rightarrow> string \<Rightarrow> string option" where
  "parse_browser_target U P value =
     (case strip_prefix ''/'' value of
        None \<Rightarrow> None
      | Some relative \<Rightarrow>
          if relative = [] \<or> BROWSER_RELATIVE_PATH_BYTES_LIMIT < length relative \<or>
             CHR 0x00 \<in> set relative
          then None
          else push_browser_segments U P 0 (split_on CHR ''/'' relative) (policy_root P))"

definition parse_list_target :: "uuid_ops \<Rightarrow> PathPolicy \<Rightarrow> string \<Rightarrow> string option" where
  "parse_list_target U P value =
     (if value = ''/'' then Some (policy_root P) else parse_browser_target U P value)"

definition resolve_route :: "PathPolicy \<Rightarrow> string \<Rightarrow> string" where
  "resolve_route P path =
     (if path = [] then policy_root P else path_push (policy_root P) path)"

definition is_managed_root :: "PathPolicy \<Rightarrow> string \<Rightarrow> bool" where
  "is_managed_root P path \<longleftrightarrow> path_eq path (policy_root P)"

section \<open>Facts about internal names\<close>

lemma framed_uuid_frame:
  "framed_uuid U pre suf n \<longleftrightarrow> (\<exists>v. n = pre @ v @ suf \<and> is_canonical_uuid U v)"
  by (auto simp: framed_uuid_def strip_prefix_Some strip_suffix_Some split: option.splits)

lemma canonical_hyphenated:
  "parse_str U (hyphenated U u) = Some u \<Longrightarrow> is_canonical_uuid U (hyphenated U u)"
  by (simp add: is_canonical_uuid_def)

lemma generated_names_classified:
  assumes "parse_str U (hyphenated U u) = Some u"
  shows "classify_internal_name U UPLOAD_STAGE_DIRECTORY = Some StageDirectory"
    "classify_internal_name U (upload_readiness_probe_name U u) = Some Readiness"
    "classify_internal_name U (delete_trash_name U u) = Some DeleteTrash"
    "classify_internal_name U (quarantine_name U u) = Some Quarantine"
  using canonical_hyphenated [OF assms]
  by (auto simp: classify_internal_name_def is_quarantine_name_def is_delete_trash_name_def
      is_readiness_name_def framed_uuid_frame upload_readiness_probe_name_def delete_trash_name_def
      quarantine_name_def internal_name_defs)

section \<open>Facts about accepted paths\<close>

text \<open>The names a client may use for an entry.\<close>

definition browser_name :: "uuid_ops \<Rightarrow> string \<Rightarrow> bool" where
  "browser_name U c \<longleftrightarrow>
     plain_segment c \<and> length c \<le> BROWSER_COMPONENT_BYTES_LIMIT \<and> \<not> is_internal_name U c"

lemma push_browser_segments_Some:
  "push_browser_segments U P i cs r = Some p \<longleftrightarrow>
     (\<forall>c \<in> set cs. c \<noteq> [] \<and> c \<noteq> ''.'' \<and> c \<noteq> ''..'' \<and>
        length c \<le> BROWSER_COMPONENT_BYTES_LIMIT \<and> \<not> is_internal_name U c) \<and>
     (i = 0 \<longrightarrow> cs \<noteq> [] \<longrightarrow> \<not> is_reserved_component P (hd cs)) \<and>
     p = foldl path_push r cs"
  by (induction cs arbitrary: i r) (auto simp: not_less)

lemma lossy_chars:
  "to_string_lossy s = s \<or>
   (char_of (239::nat) \<in> set (to_string_lossy s) \<and>
    set (to_string_lossy s) \<subseteq> set s \<union> {char_of (239::nat), char_of (191::nat), char_of (189::nat)})"
proof (induction s rule: to_string_lossy.induct)
  case (1 s)
  let ?n = "snd (utf8_chunk s)"
  let ?R = "{char_of (239::nat), char_of (191::nat), char_of (189::nat)}"
  show ?case
  proof (cases "s = []")
    case True
    then show ?thesis by (simp add: to_string_lossy.simps)
  next
    case False
    have sub: "set (take ?n s) \<subseteq> set s" "set (drop ?n s) \<subseteq> set s"
      by (auto dest: in_set_takeD in_set_dropD)
    from 1 [OF False] show ?thesis
    proof
      assume "to_string_lossy (drop ?n s) = drop ?n s"
      with False sub show ?thesis by (auto simp: to_string_lossy.simps [of s])
    next
      assume "char_of (239::nat) \<in> set (to_string_lossy (drop ?n s)) \<and>
        set (to_string_lossy (drop ?n s)) \<subseteq> set (drop ?n s) \<union> ?R"
      with False sub show ?thesis by (auto simp: to_string_lossy.simps [of s])
    qed
  qed
qed

lemma lossy_plain: "plain_segment s \<Longrightarrow> plain_segment (to_string_lossy s)"
  using lossy_chars [of s]
  by (auto simp: plain_segment_def char_of_def bit_0)

lemma route_parts_Some:
  "route_parts U cs = Some parts \<Longrightarrow>
   \<exists>ns. cs = map Normal ns \<and> parts = map to_string_lossy ns \<and>
        (\<forall>s \<in> set parts. length s \<le> BROWSER_COMPONENT_BYTES_LIMIT \<and> \<not> is_internal_name U s)"
proof (induction U cs arbitrary: parts rule: route_parts.induct)
  case (2 U v cs)
  then obtain ps where ps: "route_parts U cs = Some ps" "parts = to_string_lossy v # ps"
    and ok: "length (to_string_lossy v) \<le> BROWSER_COMPONENT_BYTES_LIMIT" "\<not> is_internal_name U (to_string_lossy v)"
    by (auto simp: Let_def not_less split: if_splits)
  from 2(1) [OF refl _ ps(1)] ok obtain ns where "cs = map Normal ns" "ps = map to_string_lossy ns"
    "\<forall>s \<in> set ps. length s \<le> BROWSER_COMPONENT_BYTES_LIMIT \<and> \<not> is_internal_name U s"
    by (auto simp: not_less)
  with ps ok show ?case by (intro exI [of _ "v # ns"]) auto
qed auto

lemma resolve_join:
  assumes "list_all plain_segment ss"
  shows "components (resolve_route P (join ''/'' ss)) = components (policy_root P) @ map Normal ss"
proof (cases "ss = []")
  case True
  then show ?thesis by (simp add: resolve_route_def)
next
  case False
  then have "join ''/'' ss \<noteq> []"
    using assms by (cases ss) (auto simp: join_concat plain_segment_def)
  then have "resolve_route P (join ''/'' ss) = foldl path_push (policy_root P) ss"
    using False assms by (simp add: resolve_route_def path_push_join)
  then show ?thesis using assms by (simp add: components_push_all)
qed

lemma browser_target_accepts:
  assumes "parse_browser_target U P v = Some p"
  shows "\<exists>segs. list_all (browser_name U) segs \<and>
     components p = components (policy_root P) @ map Normal segs"
proof -
  from assms obtain rel where
    push: "push_browser_segments U P 0 (split_on CHR ''/'' rel) (policy_root P) = Some p"
    by (auto simp: parse_browser_target_def split: option.splits if_splits)
  have "\<forall>c \<in> set (split_on CHR ''/'' rel). CHR ''/'' \<notin> set c"
    using split_on_parts_no_sep by blast
  with push have "list_all (browser_name U) (split_on CHR ''/'' rel)"
    "p = foldl path_push (policy_root P) (split_on CHR ''/'' rel)"
    by (simp_all add: push_browser_segments_Some browser_name_def plain_segment_def list_all_iff)
  with components_push_all [of "split_on CHR ''/'' rel" "policy_root P"] show ?thesis
    by (auto simp: list_all_iff browser_name_def)
qed

lemma route_accepts:
  assumes "parse_route U dec enc P raw = Some r"
  shows "\<exists>segs. r = join ''/'' segs \<and> list_all (browser_name U) segs \<and>
     components (resolve_route P r) = components (policy_root P) @ map Normal segs \<and>
     length r \<le> BROWSER_RELATIVE_PATH_BYTES_LIMIT \<and>
     (segs \<noteq> [] \<and> is_reserved_component P (hd segs) \<longrightarrow> raw = ''/'' @ encode_uri enc r)"
proof -
  from assms obtain path parts where
    parts: "route_parts U (components (trim_matches CHR ''/'' path)) = Some parts" and
    r: "r = join ''/'' parts" "length r \<le> BROWSER_RELATIVE_PATH_BYTES_LIMIT" and
    canon: "is_reserved_component P (hd (split_on CHR ''/'' r)) \<longrightarrow> raw = ''/'' @ encode_uri enc r"
    by (auto simp: parse_route_def Let_def not_less split: option.splits if_splits)
  from route_parts_Some [OF parts] obtain ns where
    ns: "components (trim_matches CHR ''/'' path) = map Normal ns" "parts = map to_string_lossy ns" and
    ok: "\<forall>s \<in> set parts. length s \<le> BROWSER_COMPONENT_BYTES_LIMIT \<and> \<not> is_internal_name U s"
    by blast
  from normal_components_plain [OF ns(1)] ns(2) have plain: "list_all plain_segment parts"
    by (auto simp: list_all_iff intro: lossy_plain)
  have "split_on CHR ''/'' r = parts" if "parts \<noteq> []"
    using that plain unfolding r(1) by (intro split_on_join) (auto simp: list_all_iff plain_segment_def)
  with canon have "parts \<noteq> [] \<and> is_reserved_component P (hd parts) \<longrightarrow> raw = ''/'' @ encode_uri enc r"
    by auto
  moreover from plain ok have "list_all (browser_name U) parts"
    by (auto simp: browser_name_def list_all_iff)
  ultimately show ?thesis using r resolve_join [OF plain, of P] by blast
qed

lemma encode_hex_inj: "encode_hex a = encode_hex b \<Longrightarrow> a = b"
proof -
  assume eq: "encode_hex a = encode_hex b"
  then have "length (encode_hex a) = length (encode_hex b)" by (rule arg_cong)
  then have "length a = length b" unfolding length_encode_hex by linarith
  then have "decode_hex_pairs (map of_char (encode_hex b)) a = (True, b)"
    by (rule decode_hex_pairs_encode)
  moreover have "decode_hex_pairs (map of_char (encode_hex b)) a = (True, a)"
    unfolding eq [symmetric] by (rule decode_hex_pairs_encode) (rule refl)
  ultimately show "a = b" by (metis prod.inject)
qed

lemma encode_hex_lower: "list_all is_lower_hex (encode_hex bs)"
proof -
  have "is_lower_hex (hex_digits ! n)" if "n < 16" for n
  proof -
    have "hex_digits ! n \<in> set hex_digits"
      by (rule nth_mem) (use that in \<open>simp add: hex_digits_def\<close>)
    then show ?thesis
      by (auto simp: hex_digits_def is_lower_hex_def is_ascii_digit_def less_eq_char_def)
  qed
  then show ?thesis by (induction bs) (auto simp: nibble_bounds)
qed

lemma stage_name_recognised:
  assumes "parse_str U (hyphenated U u) = Some u" "length d = 32"
  shows "is_upload_stage_name U (upload_stage_name U (encode_hex d) u)"
    "classify_internal_name U (upload_stage_name U (encode_hex d) u) = None"
proof -
  let ?v = "encode_hex d @ ''-'' @ hyphenated U u"
  have "strip_suffix UPLOAD_TEMP_SUFFIX (?v @ UPLOAD_TEMP_SUFFIX) = Some ?v" by (rule strip_suffix_append)
  then show "is_upload_stage_name U (upload_stage_name U (encode_hex d) u)"
    using assms encode_hex_lower [of d]
    by (simp add: is_upload_stage_name_def upload_stage_name_def canonical_hyphenated)
  have last: "last (upload_stage_name U (encode_hex d) u) = CHR ''t''"
    by (simp add: upload_stage_name_def UPLOAD_TEMP_SUFFIX_def)
  have fr: "\<not> framed_uuid U pre suf n" if "last n \<noteq> last suf" "suf \<noteq> []" for pre suf n
    using that by (auto simp: framed_uuid_frame)
  from last show "classify_internal_name U (upload_stage_name U (encode_hex d) u) = None"
    by (auto simp: classify_internal_name_def is_quarantine_name_def is_delete_trash_name_def
        is_readiness_name_def READINESS_SUFFIX_def DELETE_TRASH_SUFFIX_def QUARANTINE_SUFFIX_def fr)
      (simp add: UPLOAD_STAGE_DIRECTORY_def)
qed

lemma stage_path_shape:
  assumes "upload_temp_path U sha256 t u = Inr s" "CHR ''/'' \<notin> set (hyphenated U u)"
  shows "\<exists>n. path_file_name t = Some n \<and>
     components s = butlast (components t) @ [Normal UPLOAD_STAGE_DIRECTORY,
       Normal (upload_stage_name U (encode_hex (sha256 (to_string_lossy n))) u)]"
proof -
  from assms obtain d n where d: "path_parent t = Some d" and n: "path_file_name t = Some n" and
    s: "s = path_push (path_push d UPLOAD_STAGE_DIRECTORY)
          (upload_stage_name U (encode_hex (sha256 (to_string_lossy n))) u)"
    by (auto simp: upload_temp_path_def Let_def split: option.splits)
  have hex: "CHR ''/'' \<notin> set (encode_hex bs)" for bs
    using encode_hex_lower [of bs]
    by (auto simp: list_all_iff is_lower_hex_def is_ascii_digit_def less_eq_char_def)
  have "plain_segment UPLOAD_STAGE_DIRECTORY"
    "plain_segment (upload_stage_name U (encode_hex (sha256 (to_string_lossy n))) u)"
    using assms(2) hex
    by (auto simp: plain_segment_def upload_stage_name_def internal_name_defs)
  with s n path_parent_components(2) [OF d] show ?thesis by (simp add: components_push)
qed

text \<open>What the proofs rely on of the UUID crate: it parses what it prints, and prints no slash.\<close>

definition uuid_round_trip :: "uuid_ops \<Rightarrow> bool" where
  "uuid_round_trip U \<longleftrightarrow> (\<forall>u. length u = 16 \<longrightarrow> parse_str U (hyphenated U u) = Some u)"

definition uuid_slash_free :: "uuid_ops \<Rightarrow> bool" where
  "uuid_slash_free U \<longleftrightarrow> (\<forall>u. CHR ''/'' \<notin> set (hyphenated U u))"

text \<open>A concrete UUID codec, to see that what is assumed of the crate can hold.\<close>

definition hex_uuid :: uuid_ops where
  "hex_uuid =
     \<lparr> parse_str = (\<lambda>s. Some (map (\<lambda>b. char_of (unat b))
           (snd (decode_hex_to_slice s (replicate (length s div 2) 0))))),
       hyphenated = (\<lambda>u. encode_hex (map of_char u)) \<rparr>"

lemma hex_uuid_ok: "uuid_round_trip hex_uuid" "uuid_slash_free hex_uuid"
proof -
  have "parse_str hex_uuid (hyphenated hex_uuid u) = Some u" if u: "length u = 16" for u
  proof -
    have "decode_hex_to_slice (encode_hex (map of_char u)) (replicate 16 0) = (True, map of_char u)"
      using u by (simp add: decode_hex_to_slice_def saturating_mul_def u64_max_def decode_hex_pairs_encode)
    with u show ?thesis by (simp add: hex_uuid_def unat_of_char comp_def)
  qed
  then show "uuid_round_trip hex_uuid" by (simp add: uuid_round_trip_def)
  have "CHR ''/'' \<notin> set (encode_hex bs)" for bs
    using encode_hex_lower [of bs]
    by (auto simp: list_all_iff is_lower_hex_def is_ascii_digit_def less_eq_char_def)
  then show "uuid_slash_free hex_uuid" by (simp add: uuid_slash_free_def hex_uuid_def)
qed

section \<open>Properties\<close>

text \<open>Claim C25.  A browser target is accepted exactly when it is a slash followed by one or more
  slash-separated names that are all short, plain and not reserved, with no NUL byte and within
  the length limit; the result then is the served root extended by precisely those names, so it
  can neither escape the root nor denote the root itself.\<close>

theorem browser_target_exact:
  "(parse_browser_target U P v = Some p \<longleftrightarrow>
     (\<exists>segs. segs \<noteq> [] \<and> v = ''/'' @ join ''/'' segs \<and> list_all (browser_name U) segs \<and>
        \<not> is_reserved_component P (hd segs) \<and> CHR 0x00 \<notin> set v \<and>
        length v \<le> Suc BROWSER_RELATIVE_PATH_BYTES_LIMIT \<and>
        p = foldl path_push (policy_root P) segs)) \<and>
   (parse_browser_target U P v = Some p \<longrightarrow>
     (\<exists>segs. segs \<noteq> [] \<and> list_all (browser_name U) segs \<and>
        components p = components (policy_root P) @ map Normal segs))"
proof -
  let ?A = "\<lambda>segs. segs \<noteq> [] \<and> v = ''/'' @ join ''/'' segs \<and> list_all (browser_name U) segs \<and>
        \<not> is_reserved_component P (hd segs) \<and> CHR 0x00 \<notin> set v \<and>
        length v \<le> Suc BROWSER_RELATIVE_PATH_BYTES_LIMIT \<and>
        p = foldl path_push (policy_root P) segs"
  have fwd: "\<exists>segs. ?A segs" if "parse_browser_target U P v = Some p"
  proof -
    from that obtain rel where v: "v = ''/'' @ rel" "rel \<noteq> []" and
      len: "length rel \<le> BROWSER_RELATIVE_PATH_BYTES_LIMIT" "CHR 0x00 \<notin> set rel" and
      push: "push_browser_segments U P 0 (split_on CHR ''/'' rel) (policy_root P) = Some p"
      by (auto simp: parse_browser_target_def strip_prefix_Some not_less split: option.splits if_splits)
    have "\<forall>c \<in> set (split_on CHR ''/'' rel). CHR ''/'' \<notin> set c"
      using split_on_parts_no_sep by blast
    with push have "list_all (browser_name U) (split_on CHR ''/'' rel)"
      "\<not> is_reserved_component P (hd (split_on CHR ''/'' rel))"
      "p = foldl path_push (policy_root P) (split_on CHR ''/'' rel)"
      by (simp_all add: push_browser_segments_Some browser_name_def plain_segment_def list_all_iff)
    with v len show ?thesis by (intro exI [of _ "split_on CHR ''/'' rel"]) simp
  qed
  have bwd: "parse_browser_target U P v = Some p" if "?A segs" for segs
  proof -
    from that have sp: "split_on CHR ''/'' (join ''/'' segs) = segs"
      using split_on_join [of segs "CHR ''/''"]
      by (auto simp: list_all_iff browser_name_def plain_segment_def)
    moreover from that have "join ''/'' segs \<noteq> []"
      by (cases segs) (auto simp: join_concat browser_name_def plain_segment_def)
    moreover from that have "push_browser_segments U P 0 segs (policy_root P) = Some p"
      by (simp add: push_browser_segments_Some browser_name_def plain_segment_def list_all_iff)
    ultimately show ?thesis using that
      by (clarsimp simp: parse_browser_target_def strip_prefix_def)
  qed
  have comp: "components p = components (policy_root P) @ map Normal segs" if "?A segs" for segs
    using that components_push_all [of segs "policy_root P"] by (simp add: browser_name_def list_all_iff)
  show ?thesis
  proof (intro conjI impI iffI)
    assume "parse_browser_target U P v = Some p"
    from fwd [OF this] obtain segs where "?A segs" by blast
    with comp [of segs] show "\<exists>segs. segs \<noteq> [] \<and> list_all (browser_name U) segs \<and>
        components p = components (policy_root P) @ map Normal segs" by blast
  qed (use fwd bwd in blast)+
qed

theorem browser_target_exact_witness:
  "parse_browser_target \<lparr> parse_str = (\<lambda>_. None), hyphenated = id \<rparr>
     (new_policy ''/srv/share'' ''__assets__/'') ''/a/b'' = Some ''/srv/share/a/b'' \<and>
   (\<exists>segs. segs \<noteq> [] \<and>
      components ''/srv/share/a/b'' = components ''/srv/share'' @ map Normal segs)"
proof -
  let ?U = "\<lparr> parse_str = (\<lambda>_. None), hyphenated = id \<rparr>"
  let ?P = "new_policy ''/srv/share'' ''__assets__/''"
  have a: "parse_browser_target ?U ?P ''/a/b'' = Some ''/srv/share/a/b''"
    by (simp add: parse_browser_target_def strip_prefix_def new_policy_def strip_suffix_def
        suffix_def internal_name_defs
        BROWSER_RELATIVE_PATH_BYTES_LIMIT_def BROWSER_COMPONENT_BYTES_LIMIT_def
        is_internal_name_def classify_internal_name_def is_quarantine_name_def is_delete_trash_name_def
        is_readiness_name_def framed_uuid_def is_reserved_component_def path_push_def is_absolute_def)
  have r: "policy_root ?P = ''/srv/share''" by (simp add: new_policy_def)
  from a browser_target_exact [of ?U ?P "''/a/b''" "''/srv/share/a/b''"] show ?thesis
    unfolding r by blast
qed

text \<open>Claim C26.  Whatever the percent decoder returns, a route the policy accepts resolves to the
  served root extended by plain, short, non-internal names: dot segments and empty segments are
  gone, no component can climb out of the root, the length limit holds, and a route into a
  reserved namespace is accepted only in its one canonical spelling.\<close>

theorem route_contained:
  assumes "parse_route U dec enc P raw = Some r"
  shows "\<exists>segs. r = join ''/'' segs \<and> list_all (browser_name U) segs \<and>
     components (resolve_route P r) = components (policy_root P) @ map Normal segs \<and>
     length r \<le> BROWSER_RELATIVE_PATH_BYTES_LIMIT \<and>
     (segs \<noteq> [] \<and> is_reserved_component P (hd segs) \<longrightarrow> raw = ''/'' @ encode_uri enc r)"
  using assms by (rule route_accepts)

theorem route_contained_witness:
  "parse_route \<lparr> parse_str = (\<lambda>_. None), hyphenated = id \<rparr> Some id
     (new_policy ''/srv'' ''__assets__/'') ''//x//./y/'' = Some ''x/y'' \<and>
   (\<exists>segs. ''x/y'' = join ''/'' segs \<and>
      components (resolve_route (new_policy ''/srv'' ''__assets__/'') ''x/y'') =
      components ''/srv'' @ map Normal segs)"
proof -
  let ?U = "\<lparr> parse_str = (\<lambda>_. None), hyphenated = id \<rparr>"
  let ?P = "new_policy ''/srv'' ''__assets__/''"
  have l: "to_string_lossy [c] = [c]" if "(of_char c :: nat) < 128" for c
    using that by (simp add: to_string_lossy.simps utf8_chunk_def byte_at_def Let_def)
  have a: "parse_route ?U Some id ?P ''//x//./y/'' = Some ''x/y''"
    by (simp add: parse_route_def decode_uri_def trim_matches_def components_def is_absolute_def l
        new_policy_def strip_suffix_def suffix_def internal_name_defs
        BROWSER_RELATIVE_PATH_BYTES_LIMIT_def BROWSER_COMPONENT_BYTES_LIMIT_def
        is_internal_name_def classify_internal_name_def is_quarantine_name_def is_delete_trash_name_def
        is_readiness_name_def framed_uuid_def strip_prefix_def is_reserved_component_def)
  have r: "policy_root ?P = ''/srv''" by (simp add: new_policy_def)
  from a route_contained [OF a] show ?thesis unfolding r by blast
qed

text \<open>Claim C27.  No request can name one of the server's private files: neither a browser target
  nor a route that the policy accepts ever contains, below the root, the staging directory, a
  readiness probe, a delete-trash name or a quarantine name.  The UUID crate is assumed to parse
  what it prints.\<close>

theorem private_files_unnameable:
  assumes uuid: "uuid_round_trip U"
    and u: "length u = 16"
    and accepted: "parse_browser_target U P v = Some p \<or>
      (parse_route U dec enc P v = Some r \<and> p = resolve_route P r)"
  shows "\<exists>segs. components p = components (policy_root P) @ map Normal segs \<and>
     set segs \<inter> {UPLOAD_STAGE_DIRECTORY, upload_readiness_probe_name U u,
                 delete_trash_name U u, quarantine_name U u} = {}"
proof -
  obtain segs where segs: "list_all (browser_name U) segs"
    "components p = components (policy_root P) @ map Normal segs"
  proof (cases "parse_browser_target U P v = Some p")
    case True
    with browser_target_accepts that show thesis by blast
  next
    case False
    with accepted route_accepts [of U dec enc P v r] that show thesis by blast
  qed
  from uuid u have "parse_str U (hyphenated U u) = Some u" by (simp add: uuid_round_trip_def)
  from generated_names_classified [OF this] segs show ?thesis
    by (auto simp: list_all_iff browser_name_def is_internal_name_def)
qed

theorem private_files_unnameable_witness:
  "let U = \<lparr> parse_str = Some, hyphenated = id \<rparr>; P = new_policy ''/srv'' ''__assets__/'';
       u = ''0123456789abcdef'' in
   uuid_round_trip U \<and> length u = 16 \<and>
   parse_browser_target U P ''/a'' = Some ''/srv/a'' \<and>
   (\<exists>segs. components ''/srv/a'' = components ''/srv'' @ map Normal segs \<and>
      UPLOAD_STAGE_DIRECTORY \<notin> set segs)"
proof -
  let ?U = "\<lparr> parse_str = Some, hyphenated = id \<rparr>" and ?u = "''0123456789abcdef''"
  let ?P = "new_policy ''/srv'' ''__assets__/''"
  have h: "uuid_round_trip ?U" "length ?u = 16"
    by (simp_all add: uuid_round_trip_def)
  have a: "parse_browser_target ?U ?P ''/a'' = Some ''/srv/a''"
    by (simp add: parse_browser_target_def strip_prefix_def new_policy_def strip_suffix_def
        suffix_def internal_name_defs
        BROWSER_RELATIVE_PATH_BYTES_LIMIT_def BROWSER_COMPONENT_BYTES_LIMIT_def
        is_internal_name_def classify_internal_name_def is_quarantine_name_def is_delete_trash_name_def
        is_readiness_name_def framed_uuid_def is_reserved_component_def path_push_def is_absolute_def)
  have r: "policy_root ?P = ''/srv''" by (simp add: new_policy_def)
  have "\<exists>segs. components ''/srv/a'' = components ''/srv'' @ map Normal segs \<and>
      UPLOAD_STAGE_DIRECTORY \<notin> set segs"
    using private_files_unnameable [OF h, of ?P "''/a''" "''/srv/a''"] a unfolding r by blast
  with h a show ?thesis by simp
qed

lemma file_name_components:
  "path_file_name p = Some n \<longleftrightarrow> (\<exists>cs. components p = cs @ [Normal n])"
  by (cases "components p" rule: rev_cases) (auto simp: path_file_name_def split: component.splits)

text \<open>Claim C28.  A staging path is bound to one upload of one target: it lies in the staging
  directory beside the target, its name is recognised as a stage name and is not itself a
  client-visible reserved name, and two staging paths coincide exactly when the targets are the
  same path and the upload ids are equal.  The file names are text, as every name that comes from
  a request is, and the digests of the two names do not collide.\<close>

theorem stage_path_binding:
  assumes uuid: "uuid_round_trip U" "uuid_slash_free U"
    and sha: "\<forall>s. length (sha256 s) = 32"
    and ids: "length id1 = 16" "length id2 = 16"
    and names: "path_file_name t1 = Some n1" "path_file_name t2 = Some n2"
    and utf8: "utf8_valid n1" "utf8_valid n2"
    and no_collision: "sha256 n1 = sha256 n2 \<longrightarrow> n1 = n2"
    and p1: "upload_temp_path U sha256 t1 id1 = Inr s1"
    and p2: "upload_temp_path U sha256 t2 id2 = Inr s2"
  shows "(\<exists>n. components s1 = butlast (components t1) @ [Normal UPLOAD_STAGE_DIRECTORY, Normal n] \<and>
            is_upload_stage_name U n \<and> classify_internal_name U n = None) \<and>
         (path_eq s1 s2 \<longleftrightarrow> path_eq t1 t2 \<and> id1 = id2)"
proof -
  note uuid = uuid [unfolded uuid_round_trip_def uuid_slash_free_def]
  let ?n1 = "upload_stage_name U (encode_hex (sha256 n1)) id1" and ?n2 = "upload_stage_name U (encode_hex (sha256 n2)) id2"
  have s1: "components s1 = butlast (components t1) @ [Normal UPLOAD_STAGE_DIRECTORY, Normal ?n1]"
    using stage_path_shape [OF p1] uuid ids names(1) to_string_lossy_valid [OF utf8(1)] by auto
  have s2: "components s2 = butlast (components t2) @ [Normal UPLOAD_STAGE_DIRECTORY, Normal ?n2]"
    using stage_path_shape [OF p2] uuid ids names(2) to_string_lossy_valid [OF utf8(2)] by auto
  have inj: "id1 = id2" if "hyphenated U id1 = hyphenated U id2"
    using that uuid ids by (metis option.inject)
  have "?n1 = ?n2 \<longleftrightarrow> n1 = n2 \<and> id1 = id2"
    using sha inj no_collision by (auto simp: upload_stage_name_def dest!: encode_hex_inj)
  moreover have "path_eq t1 t2 \<longleftrightarrow> butlast (components t1) = butlast (components t2) \<and> n1 = n2"
    using names by (auto simp: file_name_components path_eq_def)
  moreover have "is_upload_stage_name U ?n1" "classify_internal_name U ?n1 = None"
    using stage_name_recognised uuid ids sha by blast+
  ultimately show ?thesis using s1 s2 by (auto simp: path_eq_def)
qed

text \<open>A digest that tells the two names of the example apart.\<close>

definition demo_digest :: "string \<Rightarrow> 8 word list" where
  "demo_digest name = (if name = ''f'' then 1 else 0) # replicate 31 0"

theorem stage_path_binding_witness:
  "uuid_round_trip hex_uuid \<and> uuid_slash_free hex_uuid \<and> (\<forall>s. length (demo_digest s) = 32) \<and>
   (\<exists>s1 s2 s3. upload_temp_path hex_uuid demo_digest ''d/f'' ''0123456789abcdef'' = Inr s1 \<and>
      upload_temp_path hex_uuid demo_digest ''d/f'' ''fedcba9876543210'' = Inr s2 \<and>
      upload_temp_path hex_uuid demo_digest ''d/g'' ''0123456789abcdef'' = Inr s3 \<and>
      \<not> path_eq s1 s2 \<and> \<not> path_eq s1 s3)"
proof -
  have c: "components ''d/f'' = [Normal ''d'', Normal ''f'']" "components ''d/g'' = [Normal ''d'', Normal ''g'']"
    by (simp_all add: components_def is_absolute_def)
  have name: "path_file_name ''d/f'' = Some ''f''" "path_file_name ''d/g'' = Some ''g''"
    by (simp_all add: path_file_name_def c)
  have utf8: "utf8_valid ''f''" "utf8_valid ''g''"
    by (simp_all add: utf8_valid.simps utf8_chunk_def byte_at_def)
  have p: "\<exists>s. upload_temp_path hex_uuid demo_digest ''d/f'' u = Inr s" "\<exists>s. upload_temp_path hex_uuid demo_digest ''d/g'' u = Inr s" for u
    by (simp_all add: upload_temp_path_def path_parent_def name c)
  obtain s1 s2 s3 where s: "upload_temp_path hex_uuid demo_digest ''d/f'' ''0123456789abcdef'' = Inr s1"
    "upload_temp_path hex_uuid demo_digest ''d/f'' ''fedcba9876543210'' = Inr s2"
    "upload_temp_path hex_uuid demo_digest ''d/g'' ''0123456789abcdef'' = Inr s3"
    using p(1) p(2) by metis
  have sha: "\<forall>s. length (demo_digest s) = 32" by (simp add: demo_digest_def)
  have "\<not> path_eq s1 s2"
    using stage_path_binding [OF hex_uuid_ok sha _ _ name(1) name(1) utf8(1) utf8(1) _ s(1,2)] by simp
  moreover have "\<not> path_eq s1 s3"
    using stage_path_binding [OF hex_uuid_ok sha _ _ name(1) name(2) utf8 _ s(1,3)]
    by (simp add: demo_digest_def path_eq_def c)
  ultimately show ?thesis using s sha hex_uuid_ok by simp
qed

end
