(* ===== verification/Path_Coordinator.thy ===== *)
theory Path_Coordinator
  imports Std_Path
begin

text \<open>
  \<^verbatim>\<open>src/server/path_coordinator.rs\<close>: the leases that serialise filesystem mutations.  A request
  registers a waiter, resolves its paths to semantic keys, and acquires a lease when no live
  lease and no earlier waiter conflicts with those keys.

  The two \<^verbatim>\<open>BTreeMap\<close>s are association lists, the atomic counters wrap at 64 bits, and
  \<^verbatim>\<open>FileIdentity\<close>, a type of an external crate of which only equality is used, is the type
  parameter \<^typ>\<open>'id\<close>.  The tasks running \<^verbatim>\<open>acquire_inner\<close> are interleaved at the granularity of
  its critical sections: \<^verbatim>\<open>step\<close> performs one of them for one task, and a run is any sequence
  of steps.  The answers of the filesystem come with the event that delivers them, so they
  range over everything the filesystem could answer.  The request-admission permit that rides
  along in a lease is not modelled; it does not take part in any decision.
\<close>

section \<open>Keys and their conflicts\<close>

record 'id ResolvedPathKey =
  resolved_parent :: 'id
  unresolved_tail :: "string list"
  ancestor_directories :: "'id list"
  target_directory :: "'id option"

record 'id LeaseKey =
  lexical :: string
  resolved :: "'id ResolvedPathKey"

datatype 'id WaiterState = Resolving "string list" | Resolved "'id LeaseKey list"

definition normalize_key :: "string \<Rightarrow> string" where
  "normalize_key path = foldl (\<lambda>normalized c. path_push normalized (component_str c)) [] (components path)"

definition anchored_tail_is_prefix :: "'id ResolvedPathKey \<Rightarrow> 'id ResolvedPathKey \<Rightarrow> bool" where
  "anchored_tail_is_prefix left right \<longleftrightarrow>
     resolved_parent left = resolved_parent right \<and>
     length (unresolved_tail left) \<le> length (unresolved_tail right) \<and>
     list_all (\<lambda>(l, r). l = r) (zip (unresolved_tail left) (unresolved_tail right))"

definition targets_ancestor :: "'id ResolvedPathKey \<Rightarrow> 'id ResolvedPathKey \<Rightarrow> bool" where
  "targets_ancestor left right \<longleftrightarrow>
     (case target_directory left of None \<Rightarrow> False
      | Some identity \<Rightarrow> identity \<in> set (ancestor_directories right))"

definition resolved_path_strictly_contains :: "'id ResolvedPathKey \<Rightarrow> 'id ResolvedPathKey \<Rightarrow> bool" where
  "resolved_path_strictly_contains ancestor descendant \<longleftrightarrow>
     length (unresolved_tail ancestor) < length (unresolved_tail descendant) \<and>
       anchored_tail_is_prefix ancestor descendant \<or>
     targets_ancestor ancestor descendant"

definition resolved_paths_conflict :: "'id ResolvedPathKey \<Rightarrow> 'id ResolvedPathKey \<Rightarrow> bool" where
  "resolved_paths_conflict left right \<longleftrightarrow>
     anchored_tail_is_prefix left right \<or> anchored_tail_is_prefix right left \<or>
     targets_ancestor left right \<or> targets_ancestor right left"

definition path_keys_conflict :: "'id LeaseKey \<Rightarrow> 'id LeaseKey \<Rightarrow> bool" where
  "path_keys_conflict left right \<longleftrightarrow>
     path_starts_with (lexical left) (lexical right) \<or>
     path_starts_with (lexical right) (lexical left) \<or>
     resolved_paths_conflict (resolved left) (resolved right)"

definition paths_conflict :: "'id LeaseKey list \<Rightarrow> 'id LeaseKey list \<Rightarrow> bool" where
  "paths_conflict left right \<longleftrightarrow> list_ex (\<lambda>l. list_ex (path_keys_conflict l) right) left"

definition path_strictly_contains :: "'id LeaseKey \<Rightarrow> 'id LeaseKey \<Rightarrow> bool" where
  "path_strictly_contains ancestor descendant \<longleftrightarrow>
     \<not> path_eq (lexical ancestor) (lexical descendant) \<and>
       path_starts_with (lexical descendant) (lexical ancestor) \<or>
     resolved_path_strictly_contains (resolved ancestor) (resolved descendant)"

definition paths_identify_same_entry :: "'id LeaseKey \<Rightarrow> 'id LeaseKey \<Rightarrow> bool" where
  "paths_identify_same_entry left right \<longleftrightarrow>
     path_eq (lexical left) (lexical right) \<or>
     resolved_parent (resolved left) = resolved_parent (resolved right) \<and>
     unresolved_tail (resolved left) = unresolved_tail (resolved right)"

definition lexical_overlap :: "string list \<Rightarrow> string list \<Rightarrow> bool" where
  "lexical_overlap lefts rights \<longleftrightarrow>
     list_ex (\<lambda>l. list_ex (\<lambda>r. path_starts_with l r \<or> path_starts_with r l) rights) lefts"

fun waiter_conflicts :: "'id WaiterState \<Rightarrow> 'id LeaseKey list \<Rightarrow> bool" where
  "waiter_conflicts (Resolving lexical_paths) requested =
     lexical_overlap lexical_paths (map lexical requested)"
| "waiter_conflicts (Resolved paths) requested = paths_conflict paths requested"

fun waiter_lexically_conflicts :: "'id WaiterState \<Rightarrow> string list \<Rightarrow> bool" where
  "waiter_lexically_conflicts (Resolving lexical_paths) requested =
     lexical_overlap lexical_paths requested"
| "waiter_lexically_conflicts (Resolved paths) requested =
     lexical_overlap (map lexical paths) requested"

text \<open>\<^verbatim>\<open>RootedFs::conservative_path_key\<close>: the key of the served root, used when resolution fails.\<close>

definition conservative_path_key :: "'id \<Rightarrow> 'id ResolvedPathKey" where
  "conservative_path_key root =
     \<lparr> resolved_parent = root, unresolved_tail = [], ancestor_directories = [root],
       target_directory = Some root \<rparr>"

section \<open>The shared state and its critical sections\<close>

record 'id CoordinatorInner =
  root_identity :: 'id
  leases :: "(u64 \<times> 'id LeaseKey list) list"
  waiters :: "(u64 \<times> 'id WaiterState) list"
  next_id :: u64
  next_waiter_id :: u64
  lease_epoch :: u64
  changes :: u64

datatype AcquireAttempt = Acquired u64 | Blocked | Stale

definition new_coordinator :: "'id \<Rightarrow> 'id CoordinatorInner" where
  "new_coordinator root =
     \<lparr> root_identity = root, leases = [], waiters = [], next_id = 1, next_waiter_id = 1,
       lease_epoch = 0, changes = 0 \<rparr>"

definition send_change :: "'id CoordinatorInner \<Rightarrow> 'id CoordinatorInner" where
  "send_change c = c\<lparr> changes := wrapping_add_u64 (changes c) 1 \<rparr>"

definition earlier_waiters :: "u64 \<Rightarrow> 'id CoordinatorInner \<Rightarrow> 'id WaiterState list" where
  "earlier_waiters waiter_id c = map snd (filter (\<lambda>(ident, _). ident < waiter_id) (waiters c))"

definition try_acquire ::
  "'id CoordinatorInner \<Rightarrow> 'id LeaseKey list \<Rightarrow> u64 \<Rightarrow> u64 \<Rightarrow> 'id CoordinatorInner \<times> AcquireAttempt"
where
  "try_acquire c requested expected_epoch waiter_id =
     (if lease_epoch c \<noteq> expected_epoch then (c, Stale)
      else case map_of (waiters c) waiter_id of
        None \<Rightarrow> (c, Stale)
      | Some waiter \<Rightarrow>
          let became_resolved = (case waiter of Resolving _ \<Rightarrow> True | Resolved _ \<Rightarrow> False);
              c = c\<lparr> waiters := AList.update waiter_id (Resolved requested) (waiters c) \<rparr>;
              blocked = list_ex (\<lambda>(_, held). paths_conflict held requested) (leases c) \<or>
                        list_ex (\<lambda>earlier. waiter_conflicts earlier requested) (earlier_waiters waiter_id c)
          in if blocked then (if became_resolved then send_change c else c, Blocked)
             else let ident = next_id c in
               (send_change (c\<lparr> next_id := wrapping_add_u64 ident 1,
                                waiters := AList.delete waiter_id (waiters c),
                                leases := AList.update ident requested (leases c) \<rparr>),
                Acquired ident))"

text \<open>\<^verbatim>\<open>WaiterRegistration::new\<close> takes its id and enters the table in two separate steps.\<close>

definition allocate_waiter_id :: "'id CoordinatorInner \<Rightarrow> 'id CoordinatorInner \<times> u64" where
  "allocate_waiter_id c =
     (c\<lparr> next_waiter_id := wrapping_add_u64 (next_waiter_id c) 1 \<rparr>, next_waiter_id c)"

definition insert_waiter :: "u64 \<Rightarrow> string list \<Rightarrow> 'id CoordinatorInner \<Rightarrow> 'id CoordinatorInner" where
  "insert_waiter ident lexical_paths c =
     c\<lparr> waiters := AList.update ident (Resolving lexical_paths) (waiters c) \<rparr>"

definition mark_resolving_if_eligible ::
  "u64 \<Rightarrow> string list \<Rightarrow> 'id LeaseKey list option \<Rightarrow> 'id CoordinatorInner \<Rightarrow> 'id CoordinatorInner \<times> bool"
where
  "mark_resolving_if_eligible ident lexical_paths previous_paths c =
     (let blocked_by_earlier =
        list_ex (\<lambda>earlier. case previous_paths of
                   None \<Rightarrow> waiter_lexically_conflicts earlier lexical_paths
                 | Some paths \<Rightarrow> waiter_conflicts earlier paths) (earlier_waiters ident c)
      in if blocked_by_earlier then (c, False)
         else (case map_of (waiters c) ident of
                 None \<Rightarrow> c
               | Some _ \<Rightarrow> c\<lparr> waiters := AList.update ident (Resolving lexical_paths) (waiters c) \<rparr>,
               True))"

text \<open>\<^verbatim>\<open>WaiterRegistration::drop\<close> notifies after it has let go of the waiter table.\<close>

definition remove_waiter :: "u64 \<Rightarrow> 'id CoordinatorInner \<Rightarrow> 'id CoordinatorInner \<times> bool" where
  "remove_waiter ident c =
     (c\<lparr> waiters := AList.delete ident (waiters c) \<rparr>, map_of (waiters c) ident \<noteq> None)"

definition drop_lease :: "u64 \<Rightarrow> 'id CoordinatorInner \<Rightarrow> 'id CoordinatorInner" where
  "drop_lease ident c =
     (case map_of (leases c) ident of
        None \<Rightarrow> c
      | Some _ \<Rightarrow> send_change (c\<lparr> leases := AList.delete ident (leases c),
                                  lease_epoch := wrapping_add_u64 (lease_epoch c) 1 \<rparr>))"

section \<open>Tasks running acquire\<close>

datatype phase =
    Registering            \<comment> \<open>id taken, not yet in the table\<close>
  | LoopTop
  | Updated                \<comment> \<open>after \<^verbatim>\<open>changes.borrow_and_update()\<close>\<close>
  | Loaded u64             \<comment> \<open>after loading \<^verbatim>\<open>expected_epoch\<close>\<close>
  | ResolvingKeys u64      \<comment> \<open>waiting for the filesystem\<close>
  | Trying u64             \<comment> \<open>about to call \<^verbatim>\<open>try_acquire\<close>\<close>
  | Sleeping               \<comment> \<open>waiting in \<^verbatim>\<open>changes.changed()\<close>\<close>
  | Holding u64            \<comment> \<open>owns the lease with this id\<close>
  | Leaving                \<comment> \<open>cancelled: out of the table, notification still due\<close>
  | Ended

record 'id task =
  lexical_paths :: "string list"
  registration :: u64
  seen :: u64
  resolved_paths :: "(u64 \<times> 'id LeaseKey list) option"
  phase :: phase

record 'id system =
  inner :: "'id CoordinatorInner"
  tasks :: "'id task list"

datatype 'id event =
    Start "string list"
  | InsertWaiter nat
  | BorrowChanges nat
  | LoadEpoch nat
  | CheckResolved nat
  | KeysResolved nat "'id ResolvedPathKey option list"
  | TryAcquire nat
  | Wake nat
  | CancelWaiter nat
  | NotifyCancelled nat
  | DropLease nat

fun dedup_paths :: "string list \<Rightarrow> string list" where
  "dedup_paths (x # y # ys) =
     (if path_eq x y then dedup_paths (x # ys) else x # dedup_paths (y # ys))"
| "dedup_paths xs = xs"

definition request_paths :: "string list \<Rightarrow> string list" where
  "request_paths paths = dedup_paths (sort_key components (map normalize_key paths))"

definition set_task :: "nat \<Rightarrow> 'id task \<Rightarrow> 'id CoordinatorInner \<Rightarrow> 'id system \<Rightarrow> 'id system" where
  "set_task i t c s = s\<lparr> inner := c, tasks := (tasks s)[i := t] \<rparr>"

definition lease_keys ::
  "'id \<Rightarrow> string list \<Rightarrow> 'id ResolvedPathKey option list \<Rightarrow> 'id LeaseKey list"
where
  "lease_keys root paths answers =
     map2 (\<lambda>path answer.
        \<lparr> lexical = path,
          resolved = (case answer of Some key \<Rightarrow> key | None \<Rightarrow> conservative_path_key root) \<rparr>)
       paths answers"

text \<open>
  One critical section of \<^verbatim>\<open>acquire_inner\<close> for the task the event names; \<^term>\<open>None\<close> when the task is
  not at that point of the code.
\<close>

definition task_step :: "'id event \<Rightarrow> nat \<Rightarrow> 'id task \<Rightarrow> 'id system \<Rightarrow> 'id system option" where
  "task_step e i t s =
     (let c = inner s in
      case (e, phase t) of
        (InsertWaiter _, Registering) \<Rightarrow>
          Some (set_task i (t\<lparr> seen := changes c, phase := LoopTop \<rparr>)
            (insert_waiter (registration t) (lexical_paths t) c) s)
      | (BorrowChanges _, LoopTop) \<Rightarrow>
          Some (set_task i (t\<lparr> seen := changes c, phase := Updated \<rparr>) c s)
      | (LoadEpoch _, Updated) \<Rightarrow>
          Some (set_task i (t\<lparr> phase := Loaded (lease_epoch c) \<rparr>) c s)
      | (CheckResolved _, Loaded expected_epoch) \<Rightarrow>
          if map_option fst (resolved_paths t) = Some expected_epoch
          then Some (set_task i (t\<lparr> phase := Trying expected_epoch \<rparr>) c s)
          else (case mark_resolving_if_eligible (registration t) (lexical_paths t)
                       (map_option snd (resolved_paths t)) c of
                  (c', False) \<Rightarrow> Some (set_task i (t\<lparr> phase := Sleeping \<rparr>) c' s)
                | (c', True) \<Rightarrow> Some (set_task i (t\<lparr> phase := ResolvingKeys expected_epoch \<rparr>) c' s))
      | (KeysResolved _ answers, ResolvingKeys expected_epoch) \<Rightarrow>
          if length answers = length (lexical_paths t)
          then Some (set_task i
                 (t\<lparr> resolved_paths :=
                       Some (expected_epoch, lease_keys (root_identity c) (lexical_paths t) answers),
                     phase := Trying expected_epoch \<rparr>) c s)
          else None
      | (TryAcquire _, Trying expected_epoch) \<Rightarrow>
          (case resolved_paths t of
             None \<Rightarrow> None
           | Some (_, paths) \<Rightarrow>
               (case try_acquire c paths expected_epoch (registration t) of
                  (c', Acquired ident) \<Rightarrow> Some (set_task i (t\<lparr> phase := Holding ident \<rparr>) c' s)
                | (c', Stale) \<Rightarrow> Some (set_task i (t\<lparr> phase := LoopTop \<rparr>) c' s)
                | (c', Blocked) \<Rightarrow> Some (set_task i (t\<lparr> phase := Sleeping \<rparr>) c' s)))
      | (Wake _, Sleeping) \<Rightarrow>
          if seen t \<noteq> changes c then Some (set_task i (t\<lparr> phase := LoopTop \<rparr>) c s) else None
      | (CancelWaiter _, ResolvingKeys _) \<Rightarrow>
          (case remove_waiter (registration t) c of
             (c', removed) \<Rightarrow> Some (set_task i (t\<lparr> phase := if removed then Leaving else Ended \<rparr>) c' s))
      | (CancelWaiter _, Sleeping) \<Rightarrow>
          (case remove_waiter (registration t) c of
             (c', removed) \<Rightarrow> Some (set_task i (t\<lparr> phase := if removed then Leaving else Ended \<rparr>) c' s))
      | (NotifyCancelled _, Leaving) \<Rightarrow>
          Some (set_task i (t\<lparr> phase := Ended \<rparr>) (send_change c) s)
      | (DropLease _, Holding ident) \<Rightarrow>
          Some (set_task i (t\<lparr> phase := Ended \<rparr>) (drop_lease ident c) s)
      | _ \<Rightarrow> None)"

fun event_task :: "'id event \<Rightarrow> nat option" where
  "event_task (Start _) = None"
| "event_task (InsertWaiter i) = Some i"
| "event_task (BorrowChanges i) = Some i"
| "event_task (LoadEpoch i) = Some i"
| "event_task (CheckResolved i) = Some i"
| "event_task (KeysResolved i _) = Some i"
| "event_task (TryAcquire i) = Some i"
| "event_task (Wake i) = Some i"
| "event_task (CancelWaiter i) = Some i"
| "event_task (NotifyCancelled i) = Some i"
| "event_task (DropLease i) = Some i"

fun step :: "'id system \<Rightarrow> 'id event \<Rightarrow> 'id system option" where
  "step s (Start paths) =
     (case allocate_waiter_id (inner s) of
        (c, ident) \<Rightarrow>
          Some (s\<lparr> inner := c,
                   tasks := tasks s @ [\<lparr> lexical_paths = request_paths paths, registration = ident,
                                         seen = 0, resolved_paths = None, phase = Registering \<rparr>] \<rparr>))"
| "step s e =
     (case event_task e of
        None \<Rightarrow> None
      | Some i \<Rightarrow> if i < length (tasks s) then task_step e i (tasks s ! i) s else None)"

fun run :: "'id system \<Rightarrow> 'id event list \<Rightarrow> 'id system option" where
  "run s [] = Some s"
| "run s (e # es) = (case step s e of None \<Rightarrow> None | Some s' \<Rightarrow> run s' es)"

text \<open>States reachable from a new coordinator, with the number of steps taken.\<close>

inductive reachable :: "'id \<Rightarrow> nat \<Rightarrow> 'id system \<Rightarrow> bool" where
  init: "reachable root 0 \<lparr> inner = new_coordinator root, tasks = [] \<rparr>"
| more: "\<lbrakk> reachable root n s; step s e = Some s' \<rbrakk> \<Longrightarrow> reachable root (Suc n) s'"

section \<open>Facts about conflicts\<close>

lemma all_zip_prefix:
  "length xs \<le> length ys \<Longrightarrow> list_all (\<lambda>(l, r). l = r) (zip xs ys) \<longleftrightarrow> prefix xs ys"
proof (induction xs arbitrary: ys)
  case (Cons x xs)
  then show ?case by (cases ys) auto
qed simp

lemma anchored_tail_prefix:
  "anchored_tail_is_prefix k k' \<longleftrightarrow>
     resolved_parent k = resolved_parent k' \<and> prefix (unresolved_tail k) (unresolved_tail k')"
  unfolding anchored_tail_is_prefix_def by (auto simp: all_zip_prefix prefix_length_le)

lemma resolved_paths_conflict_sym: "resolved_paths_conflict k k' = resolved_paths_conflict k' k"
  by (auto simp: resolved_paths_conflict_def)

lemma path_keys_conflict_sym: "path_keys_conflict k k' = path_keys_conflict k' k"
  by (auto simp: path_keys_conflict_def resolved_paths_conflict_sym)

lemma paths_conflict_iff:
  "paths_conflict xs ys \<longleftrightarrow> (\<exists>x \<in> set xs. \<exists>y \<in> set ys. path_keys_conflict x y)"
  by (auto simp: paths_conflict_def list_ex_iff)

lemma paths_conflict_sym: "paths_conflict xs ys = paths_conflict ys xs"
  unfolding paths_conflict_iff using path_keys_conflict_sym by blast

lemma lexical_overlap_iff:
  "lexical_overlap ps qs \<longleftrightarrow>
     (\<exists>p \<in> set ps. \<exists>q \<in> set qs. path_starts_with p q \<or> path_starts_with q p)"
  by (auto simp: lexical_overlap_def list_ex_iff)

lemma lexical_overlap_conflict:
  "lexical_overlap (map lexical ks) (map lexical ks') \<Longrightarrow> paths_conflict ks ks'"
  by (auto simp: lexical_overlap_iff paths_conflict_iff path_keys_conflict_def)

fun waiter_paths :: "'id WaiterState \<Rightarrow> string list" where
  "waiter_paths (Resolving ps) = ps"
| "waiter_paths (Resolved ks) = map lexical ks"

lemma lexical_overlap_waiter:
  "lexical_overlap (waiter_paths w) (map lexical ks) \<Longrightarrow> waiter_conflicts w ks"
  by (cases w) (auto intro: lexical_overlap_conflict)

lemma conservative_conflicts:
  "root \<in> set (ancestor_directories k) \<Longrightarrow> resolved_paths_conflict (conservative_path_key root) k"
  by (simp add: resolved_paths_conflict_def targets_ancestor_def conservative_path_key_def)

section \<open>Keys in a directory tree\<close>

text \<open>
  A directory tree gives every directory its one physical path below the root.  A key denotes
  the entry at path \<^term>\<open>p\<close> when it is what resolution finds there: the deepest existing directory, the
  names below it, the directories above it, and the directory at \<^term>\<open>p\<close> itself if there is one.
\<close>

definition directory_tree :: "('id \<Rightarrow> string list option) \<Rightarrow> bool" where
  "directory_tree dp \<longleftrightarrow>
     (\<forall>d d' p. dp d = Some p \<longrightarrow> dp d' = Some p \<longrightarrow> d = d') \<and>
     (\<forall>d p q. dp d = Some q \<longrightarrow> prefix p q \<longrightarrow> (\<exists>d'. dp d' = Some p))"

definition key_at :: "('id \<Rightarrow> string list option) \<Rightarrow> 'id ResolvedPathKey \<Rightarrow> string list \<Rightarrow> bool" where
  "key_at dp k p \<longleftrightarrow>
     (\<exists>q. dp (resolved_parent k) = Some q \<and> p = q @ unresolved_tail k \<and>
        (\<forall>d. d \<in> set (ancestor_directories k) \<longleftrightarrow> (\<exists>r. dp d = Some r \<and> prefix r q)) \<and>
        (\<forall>d. target_directory k = Some d \<longleftrightarrow> dp d = Some p) \<and>
        (1 < length (unresolved_tail k) \<longrightarrow>
           (\<forall>d r. dp d = Some r \<longrightarrow> \<not> prefix (q @ [hd (unresolved_tail k)]) r)))"

lemma key_conflict_nested:
  assumes "key_at dp k p" "key_at dp k' p'"
    "anchored_tail_is_prefix k k' \<or> targets_ancestor k k'"
  shows "prefix p p'"
  using assms
  by (auto simp: key_at_def anchored_tail_prefix targets_ancestor_def split: option.splits)

lemma nested_key_conflict:
  assumes tree: "directory_tree dp" and k: "key_at dp k p" and k': "key_at dp k' p'"
    and le: "prefix p p'"
  shows "resolved_paths_conflict k k'"
proof -
  from k obtain q where q: "dp (resolved_parent k) = Some q" "p = q @ unresolved_tail k"
    "\<And>d. d \<in> set (ancestor_directories k) \<longleftrightarrow> (\<exists>r. dp d = Some r \<and> prefix r q)"
    "\<And>d. target_directory k = Some d \<longleftrightarrow> dp d = Some p"
    "\<And>d r. 1 < length (unresolved_tail k) \<Longrightarrow> dp d = Some r \<Longrightarrow>
        \<not> prefix (q @ [hd (unresolved_tail k)]) r" by (auto simp: key_at_def)
  from k' obtain q' where q': "dp (resolved_parent k') = Some q'" "p' = q' @ unresolved_tail k'"
    "\<And>d. d \<in> set (ancestor_directories k') \<longleftrightarrow> (\<exists>r. dp d = Some r \<and> prefix r q')"
    "\<And>d. target_directory k' = Some d \<longleftrightarrow> dp d = Some p'"
    "\<And>d r. 1 < length (unresolved_tail k') \<Longrightarrow> dp d = Some r \<Longrightarrow>
        \<not> prefix (q' @ [hd (unresolved_tail k')]) r" by (auto simp: key_at_def)
  have comparable: "prefix q q' \<or> prefix q' q"
    using le q(2) q'(2) by (metis append_prefixD prefix_same_cases prefixI)
  consider (same) "q = q'" | (below) "prefix p q'" | (above) "strict_prefix q' q"
    | (gap) "strict_prefix q q'" "\<not> prefix p q'"
    using comparable by (auto simp: strict_prefix_def)
  then show ?thesis
  proof cases
    case same
    with tree q q' le show ?thesis
      by (auto simp: directory_tree_def resolved_paths_conflict_def anchored_tail_prefix)
  next
    case below
    with tree q'(1) obtain d where "dp d = Some p" unfolding directory_tree_def by meson
    then have "target_directory k = Some d" "d \<in> set (ancestor_directories k')"
      using below q(4) q'(3) by blast+
    then show ?thesis by (simp add: resolved_paths_conflict_def targets_ancestor_def)
  next
    case gap
    then obtain x xs where xs: "q' = q @ x # xs" by (auto elim: strict_prefixE')
    have "prefix p (q' @ unresolved_tail k')" using le q'(2) by simp
    with gap(2) have "prefix q' p" by (metis prefixI prefix_same_cases)
    with xs q(2) have t: "prefix (x # xs) (unresolved_tail k)" by auto
    moreover have "x # xs \<noteq> unresolved_tail k" using gap(2) q(2) xs by auto
    ultimately have "1 < length (unresolved_tail k)" "hd (unresolved_tail k) = x"
      by (auto elim!: prefixE)
    with q(5) [OF _ q'(1)] xs show ?thesis by simp
  next
    case above
    then obtain x xs where xs: "q = q' @ x # xs" by (auto elim: strict_prefixE')
    with le q(2) q'(2) have t: "prefix (x # xs @ unresolved_tail k) (unresolved_tail k')" by simp
    then have "hd (unresolved_tail k') = x" "unresolved_tail k' \<noteq> []" by (auto elim!: prefixE)
    with q'(5) [OF _ q(1)] xs have "length (unresolved_tail k') \<le> 1" by (metis append_Cons append_Nil append_assoc not_le prefixI)
    with t have "unresolved_tail k' = [x]" "xs = []" "unresolved_tail k = []"
      by (auto elim!: prefixE)
    then have "target_directory k' = Some (resolved_parent k)"
      "resolved_parent k \<in> set (ancestor_directories k)"
      using q(1,3) q'(2,4) xs by simp_all
    then show ?thesis by (simp add: resolved_paths_conflict_def targets_ancestor_def)
  qed
qed

section \<open>The step relation\<close>

lemma filter_less_update [simp]:
  "filter (\<lambda>(i, _). i < w) (AList.update w x ws) = filter (\<lambda>(i, _). i < (w :: nat)) ws"
  by (induction ws) auto

lemma ex_earlier:
  "list_ex P (earlier_waiters w c) \<longleftrightarrow> (\<exists>i st. (i, st) \<in> set (waiters c) \<and> i < w \<and> P st)"
  by (force simp: earlier_waiters_def list_ex_iff)

lemma earlier_update [simp]:
  "earlier_waiters w (c\<lparr>waiters := AList.update w x (waiters c)\<rparr>) = earlier_waiters w c"
  by (simp add: earlier_waiters_def)

text \<open>What one critical section does to the task and the shared state, one rule per outcome.\<close>

inductive section_step ::
  "'id task \<Rightarrow> 'id CoordinatorInner \<Rightarrow> 'id task \<Rightarrow> 'id CoordinatorInner \<Rightarrow> bool"
where
  inserted: "phase t = Registering \<Longrightarrow>
    section_step t c (t\<lparr>seen := changes c, phase := LoopTop\<rparr>)
      (c\<lparr>waiters := AList.update (registration t) (Resolving (lexical_paths t)) (waiters c)\<rparr>)"
| borrowed: "phase t = LoopTop \<Longrightarrow>
    section_step t c (t\<lparr>seen := changes c, phase := Updated\<rparr>) c"
| loaded: "phase t = Updated \<Longrightarrow>
    section_step t c (t\<lparr>phase := Loaded (lease_epoch c)\<rparr>) c"
| current: "\<lbrakk> phase t = Loaded e; resolved_paths t = Some (e, ks) \<rbrakk> \<Longrightarrow>
    section_step t c (t\<lparr>phase := Trying e\<rparr>) c"
| waits: "\<lbrakk> phase t = Loaded e; (i, st) \<in> set (waiters c); i < registration t \<rbrakk> \<Longrightarrow>
    section_step t c (t\<lparr>phase := Sleeping\<rparr>) c"
| resolves: "\<lbrakk> phase t = Loaded e; map_of (waiters c) (registration t) = Some w \<rbrakk> \<Longrightarrow>
    section_step t c (t\<lparr>phase := ResolvingKeys e\<rparr>)
      (c\<lparr>waiters := AList.update (registration t) (Resolving (lexical_paths t)) (waiters c)\<rparr>)"
| unlisted: "\<lbrakk> phase t = Loaded e; map_of (waiters c) (registration t) = None \<rbrakk> \<Longrightarrow>
    section_step t c (t\<lparr>phase := ResolvingKeys e\<rparr>) c"
| answered: "\<lbrakk> phase t = ResolvingKeys e; length answers = length (lexical_paths t) \<rbrakk> \<Longrightarrow>
    section_step t c
      (t\<lparr>resolved_paths := Some (e, lease_keys (root_identity c) (lexical_paths t) answers),
         phase := Trying e\<rparr>) c"
| acquired: "\<lbrakk> phase t = Trying e; resolved_paths t = Some (e', ks); lease_epoch c = e;
      \<forall>(a, held) \<in> set (leases c). \<not> paths_conflict held ks;
      \<forall>(i, st) \<in> set (waiters c). i < registration t \<longrightarrow> \<not> waiter_conflicts st ks \<rbrakk> \<Longrightarrow>
    section_step t c (t\<lparr>phase := Holding (next_id c)\<rparr>)
      (c\<lparr>next_id := wrapping_add_u64 (next_id c) 1,
         waiters := AList.delete (registration t) (waiters c),
         leases := AList.update (next_id c) ks (leases c),
         changes := wrapping_add_u64 (changes c) 1\<rparr>)"
| stale: "phase t = Trying e \<Longrightarrow>
    section_step t c (t\<lparr>phase := LoopTop\<rparr>) c"
| blocked: "\<lbrakk> phase t = Trying e; resolved_paths t = Some (e', ks);
      v = changes c \<or> v = wrapping_add_u64 (changes c) 1;
      (\<exists>(a, held) \<in> set (leases c). paths_conflict held ks) \<or>
      (\<exists>(i, st) \<in> set (waiters c). i < registration t) \<rbrakk> \<Longrightarrow>
    section_step t c (t\<lparr>phase := Sleeping\<rparr>)
      (c\<lparr>waiters := AList.update (registration t) (Resolved ks) (waiters c), changes := v\<rparr>)"
| woken: "\<lbrakk> phase t = Sleeping; seen t \<noteq> changes c \<rbrakk> \<Longrightarrow>
    section_step t c (t\<lparr>phase := LoopTop\<rparr>) c"
| cancelled: "\<lbrakk> phase t = Sleeping \<or> phase t = ResolvingKeys e; map_of (waiters c) (registration t) = Some w \<rbrakk> \<Longrightarrow>
    section_step t c (t\<lparr>phase := Leaving\<rparr>)
      (c\<lparr>waiters := AList.delete (registration t) (waiters c)\<rparr>)"
| cancelled_unlisted: "\<lbrakk> phase t = Sleeping \<or> phase t = ResolvingKeys e; map_of (waiters c) (registration t) = None \<rbrakk> \<Longrightarrow>
    section_step t c (t\<lparr>phase := Ended\<rparr>)
      (c\<lparr>waiters := AList.delete (registration t) (waiters c)\<rparr>)"
| notified: "phase t = Leaving \<Longrightarrow>
    section_step t c (t\<lparr>phase := Ended\<rparr>) (c\<lparr>changes := wrapping_add_u64 (changes c) 1\<rparr>)"
| released: "\<lbrakk> phase t = Holding a; map_of (leases c) a = Some ks \<rbrakk> \<Longrightarrow>
    section_step t c (t\<lparr>phase := Ended\<rparr>)
      (c\<lparr>leases := AList.delete a (leases c), lease_epoch := wrapping_add_u64 (lease_epoch c) 1,
         changes := wrapping_add_u64 (changes c) 1\<rparr>)"
| released_unlisted: "\<lbrakk> phase t = Holding a; map_of (leases c) a = None \<rbrakk> \<Longrightarrow>
    section_step t c (t\<lparr>phase := Ended\<rparr>) c"

lemma mark_section:
  assumes "mark_resolving_if_eligible (registration t) (lexical_paths t) prev c = (c', ok)"
    "phase t = Loaded e"
  shows "section_step t c (t\<lparr>phase := if ok then ResolvingKeys e else Sleeping\<rparr>) c'"
  using assms
  by (auto simp: mark_resolving_if_eligible_def Let_def ex_earlier
      intro: section_step.intros split: if_splits option.splits)

lemma try_section:
  assumes "try_acquire c ks e (registration t) = (c', r)"
    "phase t = Trying e" "resolved_paths t = Some (e', ks)"
  shows "section_step t c
     (t\<lparr>phase := (case r of Acquired a \<Rightarrow> Holding a | Blocked \<Rightarrow> Sleeping | Stale \<Rightarrow> LoopTop)\<rparr>) c'"
proof (cases r)
  case (Acquired a)
  with assms have c': "a = next_id c" "lease_epoch c = e"
    "c' = c\<lparr>next_id := wrapping_add_u64 (next_id c) 1,
         waiters := AList.delete (registration t) (waiters c),
         leases := AList.update (next_id c) ks (leases c),
         changes := wrapping_add_u64 (changes c) 1\<rparr>"
    "\<forall>(a, held) \<in> set (leases c). \<not> paths_conflict held ks"
    "\<forall>(i, st) \<in> set (waiters c). i < registration t \<longrightarrow> \<not> waiter_conflicts st ks"
    unfolding try_acquire_def Let_def earlier_update
    by (auto simp: send_change_def ex_earlier
        list_ex_iff [where xs = "leases c"] AList.delete_update_same split: if_splits option.splits)
  from acquired [OF assms(2,3) c'(2,4,5)] c'(1,3) Acquired show ?thesis by simp
next
  case Stale
  with assms show ?thesis
    by (auto simp: try_acquire_def Let_def split: if_splits option.splits intro: stale)
next
  case Blocked
  with assms have c': "changes c' = changes c \<or> changes c' = wrapping_add_u64 (changes c) 1"
    "c' = c\<lparr>waiters := AList.update (registration t) (Resolved ks) (waiters c), changes := changes c'\<rparr>"
    "(\<exists>(a, held) \<in> set (leases c). paths_conflict held ks) \<or>
      (\<exists>(i, st) \<in> set (waiters c). i < registration t)"
    unfolding try_acquire_def Let_def earlier_update
    by (auto simp: send_change_def ex_earlier
        list_ex_iff [where xs = "leases c"] split: if_splits option.splits)
  from blocked [OF assms(2,3) c'(1,3)] c'(2) [symmetric] Blocked show ?thesis by simp
qed

lemma task_section:
  assumes "task_step e i t s = Some s'"
  obtains t' c' where "s' = set_task i t' c' s" "section_step t (inner s) t' c'"
proof (cases "\<exists>x. phase t = Loaded x \<and> map_option fst (resolved_paths t) \<noteq> Some x")
  case True
  then obtain x where x: "phase t = Loaded x" "map_option fst (resolved_paths t) \<noteq> Some x" by blast
  obtain c' ok where m: "mark_resolving_if_eligible (registration t) (lexical_paths t)
      (map_option snd (resolved_paths t)) (inner s) = (c', ok)" by fastforce
  from mark_section [OF m x(1)] assms x m that show thesis
    by (cases e; cases ok) (auto simp: task_step_def Let_def)
next
  case False
  show thesis
  proof (cases "\<exists>x. phase t = Trying x")
    case True
    then obtain x where x: "phase t = Trying x" by blast
    with assms obtain y ks where ks: "resolved_paths t = Some (y, ks)"
      by (cases e) (auto simp: task_step_def Let_def split: option.splits)
    obtain c' r where m: "try_acquire (inner s) ks x (registration t) = (c', r)" by fastforce
    from try_section [OF m x ks] assms x m ks that show thesis
      by (cases e; cases r) (auto simp: task_step_def Let_def)
  next
    case nt: False
    show thesis
      using assms nt False that
      by (cases e; cases "phase t")
        (auto simp: task_step_def Let_def insert_waiter_def remove_waiter_def send_change_def
          drop_lease_def simp del: One_nat_def intro: section_step.intros split: if_splits option.splits)
  qed
qed

section \<open>The invariant\<close>

fun active :: "phase \<Rightarrow> bool" where
  "active Registering = False"
| "active (Holding _) = False"
| "active Leaving = False"
| "active Ended = False"
| "active _ = True"

definition counters_ok :: "nat \<Rightarrow> 'id CoordinatorInner \<Rightarrow> bool" where
  "counters_ok n c \<longleftrightarrow>
     next_id c \<le> Suc n \<and> next_waiter_id c \<le> Suc n \<and> changes c \<le> n \<and> lease_epoch c \<le> n"

definition leases_ok :: "'id CoordinatorInner \<Rightarrow> bool" where
  "leases_ok c \<longleftrightarrow>
     distinct (map fst (leases c)) \<and>
     (\<forall>a ks. map_of (leases c) a = Some ks \<longrightarrow> a < next_id c) \<and>
     (\<forall>a b ka kb. map_of (leases c) a = Some ka \<longrightarrow> map_of (leases c) b = Some kb \<longrightarrow> a \<noteq> b \<longrightarrow>
        \<not> paths_conflict ka kb)"

definition registered_ok :: "'id CoordinatorInner \<Rightarrow> 'id task \<Rightarrow> bool" where
  "registered_ok c t \<longleftrightarrow>
     registration t < next_waiter_id c \<and>
     (if active (phase t)
      then \<exists>st. map_of (waiters c) (registration t) = Some st \<and> waiter_paths st = lexical_paths t
      else map_of (waiters c) (registration t) = None)"

definition waiters_ok :: "'id system \<Rightarrow> bool" where
  "waiters_ok s \<longleftrightarrow>
     distinct (map fst (waiters (inner s))) \<and>
     (\<forall>i < length (tasks s). registered_ok (inner s) (tasks s ! i)) \<and>
     distinct (map registration (tasks s)) \<and>
     (\<forall>w st. map_of (waiters (inner s)) w = Some st \<longrightarrow> w \<in> registration ` set (tasks s))"

definition keys_ok :: "'id CoordinatorInner \<Rightarrow> 'id task \<Rightarrow> bool" where
  "keys_ok c t \<longleftrightarrow>
     seen t \<le> changes c \<and>
     (\<forall>e ks. resolved_paths t = Some (e, ks) \<longrightarrow> map lexical ks = lexical_paths t) \<and>
     (\<forall>e. phase t = Trying e \<longrightarrow> (\<exists>ks. resolved_paths t = Some (e, ks))) \<and>
     (\<forall>a. phase t = Holding a \<longrightarrow>
        (\<exists>e ks. resolved_paths t = Some (e, ks) \<and> map_of (leases c) a = Some ks))"

definition holders_ok :: "'id system \<Rightarrow> bool" where
  "holders_ok s \<longleftrightarrow>
     (\<forall>i < length (tasks s). keys_ok (inner s) (tasks s ! i)) \<and>
     (\<forall>i < length (tasks s). \<forall>j < length (tasks s). \<forall>a.
        phase (tasks s ! i) = Holding a \<longrightarrow> phase (tasks s ! j) = Holding a \<longrightarrow> i = j) \<and>
     (\<forall>a ks. map_of (leases (inner s)) a = Some ks \<longrightarrow>
        (\<exists>i < length (tasks s). phase (tasks s ! i) = Holding a))"

text \<open>A sleeping task with no change to wake it has a reason to sleep.\<close>

definition has_reason :: "'id system \<Rightarrow> 'id task \<Rightarrow> bool" where
  "has_reason s t \<longleftrightarrow>
     (\<exists>a held e ks. map_of (leases (inner s)) a = Some held \<and> resolved_paths t = Some (e, ks) \<and>
        paths_conflict held ks) \<or>
     (\<exists>w < registration t. map_of (waiters (inner s)) w \<noteq> None) \<or>
     (\<exists>j < length (tasks s). phase (tasks s ! j) = Leaving)"

definition sleepers_ok :: "'id system \<Rightarrow> bool" where
  "sleepers_ok s \<longleftrightarrow>
     (\<forall>i < length (tasks s). phase (tasks s ! i) = Sleeping \<longrightarrow>
        seen (tasks s ! i) = changes (inner s) \<longrightarrow> has_reason s (tasks s ! i))"

definition coordinator_inv :: "nat \<Rightarrow> 'id system \<Rightarrow> bool" where
  "coordinator_inv n s \<longleftrightarrow>
     counters_ok n (inner s) \<and> leases_ok (inner s) \<and> waiters_ok s \<and> holders_ok s \<and> sleepers_ok s"

text \<open>The counters do not wrap in fewer than \<^verbatim>\<open>u64::MAX\<close> steps.\<close>

lemma bump [simp]: "x < u64_max \<Longrightarrow> wrapping_add_u64 x 1 = Suc x"
  by (simp add: wrapping_add_u64_def u64_max_def)

lemma bump_Suc [simp]: "x < u64_max \<Longrightarrow> wrapping_add_u64 x (Suc 0) = Suc x"
  using bump by simp

lemma counters_section:
  assumes "section_step t c t' c'" "counters_ok n c" "Suc n < u64_max"
  shows "counters_ok (Suc n) c'"
  using assms by cases (auto simp: counters_ok_def)

lemma map_of_mem: "distinct (map fst xs) \<Longrightarrow> (a, b) \<in> set xs \<longleftrightarrow> map_of xs a = Some b"
  by (simp add: map_of_eq_Some_iff)

lemma leases_section:
  assumes "section_step t c t' c'" "leases_ok c" "counters_ok n c" "Suc n < u64_max"
  shows "leases_ok c'"
  using assms
proof cases
  case (acquired e e' ks)
  let ?a = "next_id c"
  have lt: "?a < u64_max" using assms by (simp add: counters_ok_def)
  have d: "distinct (map fst (leases c))" using assms by (simp add: leases_ok_def)
  have free: "\<not> paths_conflict held ks" if "map_of (leases c) a = Some held" for a held
    using acquired that map_of_mem [OF d] by fastforce
  then have free': "\<not> paths_conflict ks held" if "map_of (leases c) a = Some held" for a held
    using that paths_conflict_sym by blast
  show ?thesis
    using assms(2) acquired lt free free'
    by (auto simp: leases_ok_def AList.update_conv' AList.distinct_update less_Suc_eq split: if_splits)
next
  case (released a ks)
  then show ?thesis
    using assms by (auto simp: leases_ok_def AList.delete_conv' AList.distinct_delete split: if_splits)
qed (auto simp: leases_ok_def)

lemma section_task_frame:
  "section_step t c t' c' \<Longrightarrow> registration t' = registration t \<and> lexical_paths t' = lexical_paths t"
  by (cases rule: section_step.cases) auto

lemma section_waiter_frame:
  assumes "section_step t c t' c'"
  shows "next_waiter_id c' = next_waiter_id c"
    "w \<noteq> registration t \<Longrightarrow> map_of (waiters c') w = map_of (waiters c) w"
    "distinct (map fst (waiters c)) \<Longrightarrow> distinct (map fst (waiters c'))"
  using assms
  by (auto elim!: section_step.cases simp: AList.update_conv' AList.distinct_update AList.distinct_delete)

lemma section_registered:
  assumes "section_step t c t' c'" "registered_ok c t" "keys_ok c t"
  shows "registered_ok c' t'"
  using assms
  by cases (auto simp: registered_ok_def keys_ok_def AList.update_conv' AList.delete_conv')

lemma registered_other:
  assumes "section_step t c t' c'" "registered_ok c u" "registration u \<noteq> registration t"
  shows "registered_ok c' u"
  using assms(2,3) section_waiter_frame [OF assms(1)] by (simp add: registered_ok_def)

lemma set_task_simps [simp]:
  "inner (set_task i t c s) = c" "tasks (set_task i t c s) = (tasks s)[i := t]"
  by (simp_all add: set_task_def)

lemma waiters_section:
  assumes st: "section_step (tasks s ! i) (inner s) t' c'" and i: "i < length (tasks s)"
    and w: "waiters_ok s" and h: "holders_ok s"
  shows "waiters_ok (set_task i t' c' s)"
proof -
  let ?t = "tasks s ! i"
  note fr = section_task_frame [OF st]
  have regs: "map registration ((tasks s)[i := t']) = map registration (tasks s)"
    using fr by (metis list_update_id map_update)
  have "registered_ok c' ((tasks s)[i := t'] ! j)" if j: "j < length (tasks s)" for j
  proof (cases "j = i")
    case True
    with st i w h show ?thesis
      by (auto simp: waiters_ok_def holders_ok_def intro: section_registered)
  next
    case False
    with w i j have "registration (tasks s ! j) \<noteq> registration ?t"
      by (auto simp: waiters_ok_def distinct_conv_nth)
    with False j w registered_other [OF st] show ?thesis by (simp add: waiters_ok_def)
  qed
  moreover have "v \<in> registration ` set (tasks s)" if v: "map_of (waiters c') v = Some x" for v x
  proof (cases "v = registration ?t")
    case False
    with v w section_waiter_frame(2) [OF st] show ?thesis by (auto simp: waiters_ok_def)
  qed (use i in auto)
  ultimately show ?thesis
    using w section_waiter_frame(3) [OF st] regs
    by (simp add: waiters_ok_def flip: set_map del: set_map image_set)
qed

lemma lease_below: "leases_ok c \<Longrightarrow> map_of (leases c) a = Some ks \<Longrightarrow> a < next_id c"
  by (simp add: leases_ok_def)

lemma section_lease_frame:
  assumes st: "section_step t c t' c'" and a: "map_of (leases c) a = Some ks" "leases_ok c"
    and own: "phase t \<noteq> Holding a"
  shows "map_of (leases c') a = Some ks"
proof -
  have "a \<noteq> next_id c" using lease_below [OF a(2,1)] by simp
  with st a(1) own show ?thesis by cases (auto simp: AList.update_conv')
qed

lemma section_changes_mono:
  assumes "section_step t c t' c'" "counters_ok n c" "Suc n < u64_max"
  shows "changes c \<le> changes c'"
  using assms by cases (auto simp: counters_ok_def)

lemma lease_keys_lexical [simp]:
  "length answers = length paths \<Longrightarrow> map lexical (lease_keys root paths answers) = paths"
  by (induction answers paths rule: list_induct2) (auto simp: lease_keys_def)

lemma section_keys:
  assumes "section_step t c t' c'" "keys_ok c t" "counters_ok n c" "Suc n < u64_max"
  shows "keys_ok c' t'"
  using assms by cases (auto simp: keys_ok_def counters_ok_def AList.update_conv' intro: le_SucI)

lemma keys_other:
  assumes st: "section_step t c t' c'" and u: "keys_ok c u" and l: "leases_ok c"
    and c: "counters_ok n c" "Suc n < u64_max"
    and other: "\<And>a. phase u = Holding a \<Longrightarrow> phase t \<noteq> Holding a"
  shows "keys_ok c' u"
proof -
  have "map_of (leases c') a = Some ks"
    if "phase u = Holding a" "map_of (leases c) a = Some ks" for a ks
    using section_lease_frame [OF st that(2) l other [OF that(1)]] .
  with u section_changes_mono [OF st c] show ?thesis
    by (auto simp: keys_ok_def)
qed

lemma holders_section:
  assumes st: "section_step (tasks s ! i) (inner s) t' c'" and i: "i < length (tasks s)"
    and h: "holders_ok s" and l: "leases_ok (inner s)"
    and c: "counters_ok n (inner s)" "Suc n < u64_max"
  shows "holders_ok (set_task i t' c' s)"
proof -
  let ?t = "tasks s ! i" and ?c = "inner s"
  have keys: "keys_ok c' ((tasks s)[i := t'] ! j)" if j: "j < length (tasks s)" for j
  proof (cases "j = i")
    case True
    with st i h c show ?thesis by (auto simp: holders_ok_def intro: section_keys)
  next
    case False
    with h i j have "\<And>a. phase (tasks s ! j) = Holding a \<Longrightarrow> phase ?t \<noteq> Holding a"
      by (auto simp: holders_ok_def)
    from keys_other [OF st _ l c this] False j h show ?thesis by (simp add: holders_ok_def)
  qed
  have fresh: "phase (tasks s ! j) \<noteq> Holding (next_id ?c)" if "j < length (tasks s)" for j
  proof
    assume "phase (tasks s ! j) = Holding (next_id ?c)"
    moreover have "keys_ok ?c (tasks s ! j)" using h that by (simp add: holders_ok_def)
    ultimately obtain ks where "map_of (leases ?c) (next_id ?c) = Some ks" by (auto simp: keys_ok_def)
    from lease_below [OF l this] show False by simp
  qed
  have uniq: "phase t' = Holding a \<Longrightarrow> phase (tasks s ! j) = Holding a \<Longrightarrow> j = i"
    if "j < length (tasks s)" for j a
    using st fresh [OF that] by cases auto
  have held: "\<exists>j < length (tasks s). phase ((tasks s)[i := t'] ! j) = Holding a"
    if a: "map_of (leases c') a = Some ks" for a ks
  proof (cases "phase t' = Holding a")
    case True
    with i show ?thesis by force
  next
    case False
    with st a have "map_of (leases ?c) a = Some ks \<and> phase ?t \<noteq> Holding a"
      by cases (auto simp: AList.update_conv' AList.delete_conv' split: if_splits)
    moreover from this h obtain j where "j < length (tasks s)" "phase (tasks s ! j) = Holding a"
      by (auto simp: holders_ok_def)
    ultimately show ?thesis by (metis nth_list_update_neq)
  qed
  from keys uniq held h i show ?thesis
    by (auto simp: holders_ok_def nth_list_update)
qed

text \<open>A section that does not signal a change takes nothing away that another task may wait for.\<close>

lemma quiet_section:
  assumes "section_step t c t' c'" "changes c' = changes c" "counters_ok n c" "Suc n < u64_max"
  shows "leases c' = leases c" "phase t \<noteq> Leaving"
    "map_of (waiters c) w \<noteq> None \<Longrightarrow> map_of (waiters c') w \<noteq> None \<or> phase t' = Leaving"
  using assms
  by (auto elim!: section_step.cases simp: counters_ok_def AList.update_conv' AList.delete_conv')

lemma listed_key: "(i, x) \<in> set xs \<Longrightarrow> map_of xs i \<noteq> None"
  by (metis map_of_eq_None_iff fst_conv image_eqI)

lemma section_sleeper:
  assumes st: "section_step t c t' c'" and sleep: "phase t' = Sleeping" "seen t' = changes c'"
    and l: "leases_ok c"
  shows "(\<exists>a held e ks. map_of (leases c') a = Some held \<and> resolved_paths t' = Some (e, ks) \<and>
            paths_conflict held ks) \<or>
         (\<exists>w < registration t'. map_of (waiters c') w \<noteq> None)"
  using st
proof cases
  case (waits e i x)
  from listed_key [OF waits(4)] waits show ?thesis by auto
next
  case (blocked e e' ks v)
  then consider (l) a held where "(a, held) \<in> set (leases c)" "paths_conflict held ks"
    | (w) i x where "(i, x) \<in> set (waiters c)" "i < registration t" by auto
  then show ?thesis
  proof cases
    case l
    with map_of_mem \<open>leases_ok c\<close> have "map_of (leases c) a = Some held"
      by (auto simp: leases_ok_def)
    with l blocked show ?thesis by auto
  next
    case w
    have "map_of (waiters c') i \<noteq> None"
      using listed_key [OF w(1)] w(2) blocked(2) by (simp add: AList.update_conv')
    with w(2) blocked(1) show ?thesis by auto
  qed
qed (use sleep in auto)

lemma reason_other:
  assumes st: "section_step (tasks s ! i) (inner s) t' c'" and i: "i < length (tasks s)"
    and quiet: "changes c' = changes (inner s)"
    and c: "counters_ok n (inner s)" "Suc n < u64_max"
    and r: "has_reason s u"
  shows "has_reason (set_task i t' c' s) u"
proof -
  note q = quiet_section [OF st quiet c]
  consider (lease) a held e ks where "map_of (leases (inner s)) a = Some held"
      "resolved_paths u = Some (e, ks)" "paths_conflict held ks"
    | (earlier) w where "w < registration u" "map_of (waiters (inner s)) w \<noteq> None"
    | (leaving) j where "j < length (tasks s)" "phase (tasks s ! j) = Leaving"
    using r unfolding has_reason_def by blast
  then show ?thesis
  proof cases
    case lease
    with q(1) show ?thesis by (auto simp: has_reason_def)
  next
    case earlier
    from q(3) [OF earlier(2)] show ?thesis
    proof
      assume "map_of (waiters c') w \<noteq> None"
      with earlier(1) show ?thesis by (auto simp: has_reason_def)
    next
      assume "phase t' = Leaving"
      with i show ?thesis unfolding has_reason_def by (intro disjI2 exI [of _ i]) simp
    qed
  next
    case leaving
    with q(2) i have "phase ((tasks s)[i := t'] ! j) = Leaving" by (cases "j = i") auto
    with leaving(1) show ?thesis by (auto simp: has_reason_def)
  qed
qed

lemma sleepers_section:
  assumes st: "section_step (tasks s ! i) (inner s) t' c'" and i: "i < length (tasks s)"
    and z: "sleepers_ok s" and h: "holders_ok s" and l: "leases_ok (inner s)"
    and c: "counters_ok n (inner s)" "Suc n < u64_max"
  shows "sleepers_ok (set_task i t' c' s)"
  unfolding sleepers_ok_def
proof (intro allI impI)
  fix j
  assume "j < length (tasks (set_task i t' c' s))"
    and sleep: "phase (tasks (set_task i t' c' s) ! j) = Sleeping"
      "seen (tasks (set_task i t' c' s) ! j) = changes (inner (set_task i t' c' s))"
  then have j: "j < length (tasks s)" by simp
  show "has_reason (set_task i t' c' s) (tasks (set_task i t' c' s) ! j)"
  proof (cases "j = i")
    case True
    with sleep i have "phase t' = Sleeping" "seen t' = changes c'" by simp_all
    from section_sleeper [OF st this l] True i show ?thesis by (auto simp: has_reason_def)
  next
    case False
    with sleep have u: "phase (tasks s ! j) = Sleeping" "seen (tasks s ! j) = changes c'" by simp_all
    have "seen (tasks s ! j) \<le> changes (inner s)" using h j by (simp add: holders_ok_def keys_ok_def)
    with u section_changes_mono [OF st c] have q: "changes c' = changes (inner s)" by simp
    with z j u have "has_reason s (tasks s ! j)" by (simp add: sleepers_ok_def)
    from reason_other [OF st i q c this] False show ?thesis by simp
  qed
qed

lemma coordinator_section:
  assumes "section_step (tasks s ! i) (inner s) t' c'" "i < length (tasks s)"
    "coordinator_inv n s" "Suc n < u64_max"
  shows "coordinator_inv (Suc n) (set_task i t' c' s)"
  using assms(2-) counters_section [OF assms(1)] leases_section [OF assms(1)] waiters_section [OF assms(1)]
    holders_section [OF assms(1)] sleepers_section [OF assms(1)]
  unfolding coordinator_inv_def set_task_simps by blast

lemma step_task:
  assumes "step s e = Some s'" "event_task e = Some i"
  shows "i < length (tasks s) \<and> task_step e i (tasks s ! i) s = Some s'"
  using assms by (cases e) (auto split: if_splits)

lemma coordinator_start:
  assumes inv: "coordinator_inv n s" and n: "Suc n < u64_max"
    and st: "step s (Start ps) = Some s'"
  shows "coordinator_inv (Suc n) s'"
proof -
  let ?t = "\<lparr>lexical_paths = request_paths ps, registration = next_waiter_id (inner s), seen = 0,
      resolved_paths = None, phase = Registering\<rparr> :: 'a task"
  let ?c = "(inner s)\<lparr>next_waiter_id := Suc (next_waiter_id (inner s))\<rparr>"
  have "next_waiter_id (inner s) < u64_max"
    using inv n by (simp add: coordinator_inv_def counters_ok_def)
  then have s': "s' = s\<lparr>inner := ?c, tasks := tasks s @ [?t]\<rparr>"
    using st by (auto simp: allocate_waiter_id_def)
  have below: "registration (tasks s ! i) < next_waiter_id (inner s)" if "i < length (tasks s)" for i
    using inv that by (simp add: coordinator_inv_def waiters_ok_def registered_ok_def)
  then have new: "next_waiter_id (inner s) \<notin> registration ` set (tasks s)"
    by (fastforce simp: in_set_conv_nth)
  then have none: "map_of (waiters (inner s)) (next_waiter_id (inner s)) = None"
    using inv by (cases "map_of (waiters (inner s)) (next_waiter_id (inner s))")
      (auto simp: coordinator_inv_def waiters_ok_def)
  have counters: "counters_ok (Suc n) (inner s')"
    using inv by (auto simp: s' coordinator_inv_def counters_ok_def)
  have leases: "leases_ok (inner s')"
    using inv by (auto simp: s' coordinator_inv_def leases_ok_def)
  have waiters: "waiters_ok s'"
    using inv below new none
    by (auto simp: s' coordinator_inv_def waiters_ok_def registered_ok_def nth_append less_Suc_eq)
  have holders: "holders_ok s'"
    using inv by (auto simp: s' coordinator_inv_def holders_ok_def keys_ok_def nth_append less_Suc_eq)
  have sleepers: "sleepers_ok s'"
    using inv unfolding coordinator_inv_def sleepers_ok_def has_reason_def
    by (auto simp: s' nth_append less_Suc_eq)
  from counters leases waiters holders sleepers show ?thesis by (simp add: coordinator_inv_def)
qed

lemma coordinator_step:
  assumes inv: "coordinator_inv n s" and n: "Suc n < u64_max" and st: "step s e = Some s'"
  shows "coordinator_inv (Suc n) s'"
proof (cases "event_task e")
  case None
  then obtain ps where "e = Start ps" by (cases e) auto
  with coordinator_start [OF inv n] st show ?thesis by simp
next
  case (Some i)
  with st step_task have i: "i < length (tasks s)" "task_step e i (tasks s ! i) s = Some s'" by blast+
  from i(2) obtain t' c' where "s' = set_task i t' c' s" "section_step (tasks s ! i) (inner s) t' c'"
    by (rule task_section)
  with coordinator_section [OF _ i(1) inv n] show ?thesis by simp
qed

lemma coordinator_init: "coordinator_inv 0 \<lparr> inner = new_coordinator root, tasks = [] \<rparr>"
  by (simp add: coordinator_inv_def counters_ok_def leases_ok_def waiters_ok_def holders_ok_def
      sleepers_ok_def new_coordinator_def)

lemma reachable_inv:
  "reachable root n s \<Longrightarrow> n < u64_max \<Longrightarrow> coordinator_inv n s"
  by (induction rule: reachable.induct) (auto intro: coordinator_init coordinator_step)

section \<open>Progress of the first waiter\<close>

definition earliest :: "'id system \<Rightarrow> nat \<Rightarrow> bool" where
  "earliest s i \<longleftrightarrow>
     i < length (tasks s) \<and> active (phase (tasks s ! i)) \<and>
     (\<forall>j < length (tasks s). active (phase (tasks s ! j)) \<longrightarrow>
        registration (tasks s ! i) \<le> registration (tasks s ! j))"

text \<open>
  Within \<^term>\<open>k\<close> steps of its own the task gets a lease, the filesystem answering
  \<^term>\<open>answers\<close> whenever it is asked.
\<close>

definition acquires :: "nat \<Rightarrow> nat \<Rightarrow> 'id ResolvedPathKey option list \<Rightarrow> 'id system \<Rightarrow> bool" where
  "acquires k i answers s \<longleftrightarrow>
     (\<exists>es s' a. length es \<le> k \<and>
        (\<forall>e \<in> set es. event_task e = Some i \<and> (\<forall>j ans. e = KeysResolved j ans \<longrightarrow> ans = answers)) \<and>
        run s es = Some s' \<and> phase (tasks s' ! i) = Holding a)"

text \<open>Nothing stands in the way of task \<^term>\<open>i\<close>.\<close>

definition unopposed :: "'id system \<Rightarrow> nat \<Rightarrow> bool" where
  "unopposed s i \<longleftrightarrow>
     i < length (tasks s) \<and> leases (inner s) = [] \<and>
     earlier_waiters (registration (tasks s ! i)) (inner s) = [] \<and>
     map_of (waiters (inner s)) (registration (tasks s ! i)) \<noteq> None"

lemma acquires_step:
  assumes "step s e = Some s'" "acquires k i answers s'" "event_task e = Some i"
    "\<And>j ans. e = KeysResolved j ans \<Longrightarrow> ans = answers"
  shows "acquires (Suc k) i answers s"
proof -
  from assms(2) obtain es s'' a where es: "length es \<le> k"
    "\<forall>e \<in> set es. event_task e = Some i \<and> (\<forall>j ans. e = KeysResolved j ans \<longrightarrow> ans = answers)"
    "run s' es = Some s''" "phase (tasks s'' ! i) = Holding a" unfolding acquires_def by blast
  show ?thesis
    unfolding acquires_def
    by (rule exI [of _ "e # es"], rule exI [of _ s''], rule exI [of _ a]) (use assms(1,3,4) es in auto)
qed

lemma acquires_mono: "acquires k i answers s \<Longrightarrow> k \<le> l \<Longrightarrow> acquires l i answers s"
  unfolding acquires_def by (meson order.trans)

lemma acquires_trying:
  assumes "unopposed s i" "phase (tasks s ! i) = Trying (lease_epoch (inner s))"
    "resolved_paths (tasks s ! i) = Some (e, ks)"
  shows "acquires 1 i answers s"
proof -
  obtain a s' where "step s (TryAcquire i) = Some s'" "phase (tasks s' ! i) = Holding a"
    using assms
    by (auto simp: unopposed_def task_step_def Let_def try_acquire_def set_task_def)
  then show ?thesis
    unfolding acquires_def by (intro exI [of _ "[TryAcquire i]"]) auto
qed

lemma acquires_resolving:
  assumes un: "unopposed s i" and ph: "phase (tasks s ! i) = ResolvingKeys (lease_epoch (inner s))"
    and ans: "length answers = length (lexical_paths (tasks s ! i))"
  shows "acquires 2 i answers s"
proof -
  let ?t = "(tasks s ! i)\<lparr>resolved_paths := Some (lease_epoch (inner s),
      lease_keys (root_identity (inner s)) (lexical_paths (tasks s ! i)) answers),
      phase := Trying (lease_epoch (inner s))\<rparr>"
  let ?s = "set_task i ?t (inner s) s"
  have "step s (KeysResolved i answers) = Some ?s"
    using assms by (simp add: unopposed_def task_step_def Let_def)
  moreover have "acquires 1 i answers ?s"
    by (rule acquires_trying) (use un in \<open>auto simp: unopposed_def\<close>)
  ultimately have "acquires (Suc 1) i answers s"
    by (rule acquires_step) simp_all
  then show ?thesis by (simp add: numeral_2_eq_2)
qed

lemma acquires_loaded:
  assumes un: "unopposed s i" and ph: "phase (tasks s ! i) = Loaded (lease_epoch (inner s))"
    and ans: "length answers = length (lexical_paths (tasks s ! i))"
  shows "acquires 3 i answers s"
proof (cases "map_option fst (resolved_paths (tasks s ! i)) = Some (lease_epoch (inner s))")
  case True
  let ?s = "set_task i ((tasks s ! i)\<lparr>phase := Trying (lease_epoch (inner s))\<rparr>) (inner s) s"
  from True obtain ks where ks: "resolved_paths (tasks s ! i) = Some (lease_epoch (inner s), ks)" by auto
  have "step s (CheckResolved i) = Some ?s"
    using un ph True by (simp add: unopposed_def task_step_def Let_def)
  moreover have "acquires 1 i answers ?s"
    by (rule acquires_trying) (use un ks in \<open>auto simp: unopposed_def\<close>)
  ultimately have "acquires (Suc 1) i answers s"
    by (rule acquires_step) simp_all
  then show ?thesis by (rule acquires_mono) simp
next
  case False
  let ?t = "tasks s ! i"
  let ?c = "(inner s)\<lparr>waiters := AList.update (registration ?t) (Resolving (lexical_paths ?t)) (waiters (inner s))\<rparr>"
  let ?s = "set_task i (?t\<lparr>phase := ResolvingKeys (lease_epoch (inner s))\<rparr>) ?c s"
  have "step s (CheckResolved i) = Some ?s"
    using un ph False
    by (auto simp: unopposed_def task_step_def Let_def mark_resolving_if_eligible_def)
  moreover have "acquires 2 i answers ?s"
    by (rule acquires_resolving) (use un ans in \<open>auto simp: unopposed_def AList.update_conv'\<close>)
  ultimately have "acquires (Suc 2) i answers s"
    by (rule acquires_step) simp_all
  then show ?thesis by simp
qed

lemma acquires_top:
  assumes un: "unopposed s i" and ph: "phase (tasks s ! i) \<in> {LoopTop, Updated}"
    and ans: "length answers = length (lexical_paths (tasks s ! i))"
  shows "acquires 5 i answers s"
proof -
  have updated: "acquires (Suc 3) i answers s"
    if un: "unopposed s i" and ph: "phase (tasks s ! i) = Updated"
      and ans: "length answers = length (lexical_paths (tasks s ! i))" for s :: "'a system"
  proof -
    let ?s = "set_task i ((tasks s ! i)\<lparr>phase := Loaded (lease_epoch (inner s))\<rparr>) (inner s) s"
    have "step s (LoadEpoch i) = Some ?s"
      using un ph by (simp add: unopposed_def task_step_def Let_def)
    moreover have "acquires 3 i answers ?s"
      by (rule acquires_loaded) (use un ans in \<open>auto simp: unopposed_def\<close>)
    ultimately show ?thesis by (rule acquires_step) simp_all
  qed
  show ?thesis
  proof (cases "phase (tasks s ! i) = Updated")
    case True
    with updated [OF un _ ans] acquires_mono show ?thesis by fastforce
  next
    case False
    let ?s = "set_task i ((tasks s ! i)\<lparr>seen := changes (inner s), phase := Updated\<rparr>) (inner s) s"
    have "step s (BorrowChanges i) = Some ?s"
      using un ph False by (simp add: unopposed_def task_step_def Let_def)
    moreover have "acquires (Suc 3) i answers ?s"
      by (rule updated) (use un ans in \<open>auto simp: unopposed_def\<close>)
    ultimately have "acquires (Suc (Suc 3)) i answers s" by (rule acquires_step) simp_all
    then show ?thesis by simp
  qed
qed

text \<open>From an outdated epoch the task runs into \<^verbatim>\<open>Stale\<close> and starts over.\<close>

lemma acquires_from_trying:
  assumes un: "unopposed s i" and ph: "phase (tasks s ! i) = Trying e"
    and ks: "resolved_paths (tasks s ! i) = Some (x, ks)"
    and ans: "length answers = length (lexical_paths (tasks s ! i))"
  shows "acquires 6 i answers s"
proof (cases "e = lease_epoch (inner s)")
  case True
  with acquires_trying [OF un _ ks] ph have "acquires 1 i answers s" by simp
  then show ?thesis by (rule acquires_mono) simp
next
  case False
  let ?s = "set_task i ((tasks s ! i)\<lparr>phase := LoopTop\<rparr>) (inner s) s"
  have "step s (TryAcquire i) = Some ?s"
    using un ph ks False by (simp add: unopposed_def task_step_def Let_def try_acquire_def)
  moreover have "acquires 5 i answers ?s"
    by (rule acquires_top) (use un ans in \<open>auto simp: unopposed_def\<close>)
  ultimately have "acquires (Suc 5) i answers s" by (rule acquires_step) simp_all
  then show ?thesis by simp
qed

lemma acquires_from_resolving:
  assumes un: "unopposed s i" and ph: "phase (tasks s ! i) = ResolvingKeys e"
    and ans: "length answers = length (lexical_paths (tasks s ! i))"
  shows "acquires 7 i answers s"
proof -
  let ?t = "(tasks s ! i)\<lparr>resolved_paths := Some (e,
      lease_keys (root_identity (inner s)) (lexical_paths (tasks s ! i)) answers), phase := Trying e\<rparr>"
  let ?s = "set_task i ?t (inner s) s"
  have "step s (KeysResolved i answers) = Some ?s"
    using un ph ans by (simp add: unopposed_def task_step_def Let_def)
  moreover have "acquires 6 i answers ?s"
    by (rule acquires_from_trying) (use un ans in \<open>auto simp: unopposed_def\<close>)
  ultimately have "acquires (Suc 6) i answers s" by (rule acquires_step) simp_all
  then show ?thesis by simp
qed

lemma acquires_from_loaded:
  assumes un: "unopposed s i" and ph: "phase (tasks s ! i) = Loaded e"
    and ans: "length answers = length (lexical_paths (tasks s ! i))"
  shows "acquires 8 i answers s"
proof (cases "map_option fst (resolved_paths (tasks s ! i)) = Some e")
  case True
  let ?s = "set_task i ((tasks s ! i)\<lparr>phase := Trying e\<rparr>) (inner s) s"
  from True obtain ks where ks: "resolved_paths (tasks s ! i) = Some (e, ks)" by auto
  have "step s (CheckResolved i) = Some ?s"
    using un ph True by (simp add: unopposed_def task_step_def Let_def)
  moreover have "acquires 6 i answers ?s"
    by (rule acquires_from_trying) (use un ks ans in \<open>auto simp: unopposed_def\<close>)
  ultimately have "acquires (Suc 6) i answers s" by (rule acquires_step) simp_all
  then show ?thesis by (rule acquires_mono) simp
next
  case False
  let ?t = "tasks s ! i"
  let ?c = "(inner s)\<lparr>waiters := AList.update (registration ?t) (Resolving (lexical_paths ?t)) (waiters (inner s))\<rparr>"
  let ?s = "set_task i (?t\<lparr>phase := ResolvingKeys e\<rparr>) ?c s"
  have "step s (CheckResolved i) = Some ?s"
    using un ph False
    by (auto simp: unopposed_def task_step_def Let_def mark_resolving_if_eligible_def)
  moreover have "acquires 7 i answers ?s"
    by (rule acquires_from_resolving) (use un ans in \<open>auto simp: unopposed_def AList.update_conv'\<close>)
  ultimately have "acquires (Suc 7) i answers s" by (rule acquires_step) simp_all
  then show ?thesis by simp
qed

lemma earliest_first:
  assumes inv: "coordinator_inv n s" and e: "earliest s i" and w: "w < registration (tasks s ! i)"
  shows "map_of (waiters (inner s)) w = None"
proof (cases "map_of (waiters (inner s)) w")
  case (Some st)
  with inv obtain j where j: "j < length (tasks s)" "w = registration (tasks s ! j)"
    by (force simp: coordinator_inv_def waiters_ok_def in_set_conv_nth)
  moreover have "active (phase (tasks s ! j))"
    using inv j Some by (force simp: coordinator_inv_def waiters_ok_def registered_ok_def split: if_splits)
  ultimately show ?thesis using e w by (force simp: earliest_def)
qed

lemma earliest_unopposed:
  assumes inv: "coordinator_inv n s" and e: "earliest s i"
    and none: "\<And>j a. j < length (tasks s) \<Longrightarrow> phase (tasks s ! j) \<noteq> Holding a"
  shows "unopposed s i"
proof -
  have "leases (inner s) = []"
  proof (rule ccontr)
    assume "leases (inner s) \<noteq> []"
    then obtain a ks where "map_of (leases (inner s)) a = Some ks"
      by (metis list.exhaust map_of_Cons_code(2) surj_pair)
    with inv none show False by (auto simp: coordinator_inv_def holders_ok_def)
  qed
  moreover have "earlier_waiters (registration (tasks s ! i)) (inner s) = []"
    using earliest_first [OF inv e] listed_key
    by (fastforce simp: earlier_waiters_def filter_empty_conv)
  moreover have "map_of (waiters (inner s)) (registration (tasks s ! i)) \<noteq> None"
    using inv e by (force simp: coordinator_inv_def waiters_ok_def registered_ok_def earliest_def)
  ultimately show ?thesis using e by (simp add: unopposed_def earliest_def)
qed

lemma waiting_phase:
  assumes "active ph"
  obtains (top) "ph \<in> {LoopTop, Updated}" | (loaded) e where "ph = Loaded e"
    | (resolving) e where "ph = ResolvingKeys e" | (trying) e where "ph = Trying e"
    | (sleeping) "ph = Sleeping"
  using assms by (cases ph) auto

lemma run_reachable:
  "reachable root n s \<Longrightarrow> run s es = Some s' \<Longrightarrow> reachable root (n + length es) s'"
proof (induction es arbitrary: n s)
  case (Cons e es)
  then obtain s1 where s1: "step s e = Some s1" "run s1 es = Some s'" by (auto split: option.splits)
  from reachable.more [OF Cons.prems(1) s1(1)] Cons.IH [OF _ s1(2)] show ?case by fastforce
qed simp

section \<open>A concrete run\<close>

definition demo_key :: "string \<Rightarrow> nat ResolvedPathKey" where
  "demo_key name =
     \<lparr> resolved_parent = 0, unresolved_tail = [name], ancestor_directories = [0],
       target_directory = None \<rparr>"

definition demo_init :: "nat system" where
  "demo_init = \<lparr> inner = new_coordinator 0, tasks = [] \<rparr>"

definition demo_acquire :: "nat \<Rightarrow> string \<Rightarrow> nat event list" where
  "demo_acquire i name =
     [Start [''/'' @ name], InsertWaiter i, BorrowChanges i, LoadEpoch i, CheckResolved i,
      KeysResolved i [Some (demo_key name)], TryAcquire i]"

text \<open>Two tasks get their leases, a third one asks for the path of the first and goes to sleep.\<close>

definition demo_events :: "nat event list" where
  "demo_events = demo_acquire 0 ''a'' @ demo_acquire 1 ''b'' @ demo_acquire 2 ''a'' @
     [Wake 2, BorrowChanges 2, LoadEpoch 2, CheckResolved 2, TryAcquire 2]"

lemmas demo_defs = demo_key_def demo_init_def demo_acquire_def demo_events_def new_coordinator_def
  task_step_def Let_def set_task_def insert_waiter_def mark_resolving_if_eligible_def
  earlier_waiters_def lease_keys_def try_acquire_def send_change_def allocate_waiter_id_def
  request_paths_def normalize_key_def components_def is_absolute_def path_push_def
  paths_conflict_def path_keys_conflict_def path_starts_with_def resolved_paths_conflict_def
  anchored_tail_is_prefix_def targets_ancestor_def lexical_overlap_def wrapping_add_u64_def u64_max_def

lemma demo_run: "\<exists>s. run demo_init demo_events = Some s \<and> length (tasks s) = 3 \<and>
   phase (tasks s ! 0) = Holding 1 \<and> phase (tasks s ! 1) = Holding 2 \<and> phase (tasks s ! 2) = Sleeping \<and>
   seen (tasks s ! 2) = changes (inner s)"
  by (simp add: demo_defs)

lemma demo_reachable:
  "\<lbrakk> run demo_init es = Some s; length es = n \<rbrakk> \<Longrightarrow> reachable 0 n s"
  using run_reachable [OF reachable.init, of 0 es s] by (simp add: demo_init_def)

lemma length_demo_events: "length demo_events = 26"
  by (simp add: demo_events_def demo_acquire_def)

section \<open>Properties\<close>

text \<open>Claim C1.  Mutual exclusion: however the requests are interleaved, two tasks that own leases at
  the same time own them on keys that do not conflict; in particular no path of one of them is
  the same as, above or below a path of the other, and neither reaches the other's entry
  through a symbolic link.\<close>

theorem leases_exclusive:
  assumes "reachable root n s" "n < u64_max" "i < length (tasks s)" "j < length (tasks s)" "i \<noteq> j"
    and "phase (tasks s ! i) = Holding a" "phase (tasks s ! j) = Holding b"
  shows "\<exists>ki kj. map_of (leases (inner s)) a = Some ki \<and> map_of (leases (inner s)) b = Some kj \<and>
     map lexical ki = lexical_paths (tasks s ! i) \<and> map lexical kj = lexical_paths (tasks s ! j) \<and>
     \<not> paths_conflict ki kj \<and>
     \<not> lexical_overlap (lexical_paths (tasks s ! i)) (lexical_paths (tasks s ! j))"
proof -
  have inv: "coordinator_inv n s" by (rule reachable_inv [OF assms(1,2)])
  have keys: "\<exists>e ks. resolved_paths (tasks s ! k) = Some (e, ks) \<and> map_of (leases (inner s)) c = Some ks \<and>
      map lexical ks = lexical_paths (tasks s ! k)"
    if "k < length (tasks s)" "phase (tasks s ! k) = Holding c" for k c
    using inv that unfolding coordinator_inv_def holders_ok_def keys_ok_def by blast
  from keys [OF assms(3,6)] keys [OF assms(4,7)] obtain ki kj where
    k: "map_of (leases (inner s)) a = Some ki" "map_of (leases (inner s)) b = Some kj"
      "map lexical ki = lexical_paths (tasks s ! i)" "map lexical kj = lexical_paths (tasks s ! j)"
    by blast
  have "a \<noteq> b" using inv assms unfolding coordinator_inv_def holders_ok_def by blast
  with inv k(1,2) have "\<not> paths_conflict ki kj" unfolding coordinator_inv_def leases_ok_def by blast
  with k lexical_overlap_conflict show ?thesis by metis
qed

theorem leases_exclusive_witness:
  "\<exists>s :: nat system. reachable 0 26 s \<and> 26 < u64_max \<and> length (tasks s) = 3 \<and>
     phase (tasks s ! 0) = Holding 1 \<and> phase (tasks s ! 1) = Holding 2 \<and>
     \<not> lexical_overlap (lexical_paths (tasks s ! 0)) (lexical_paths (tasks s ! 1))"
proof -
  obtain s where s: "run demo_init demo_events = Some s" "length (tasks s) = 3"
    and ph: "phase (tasks s ! 0) = Holding 1" "phase (tasks s ! 1) = Holding 2"
    using demo_run by blast
  have r: "reachable 0 26 s" by (rule demo_reachable [OF s(1) length_demo_events])
  have small: "26 < u64_max" by (simp add: u64_max_def)
  from leases_exclusive [OF r small, of 0 1] s(2) ph
  have "\<not> lexical_overlap (lexical_paths (tasks s ! 0)) (lexical_paths (tasks s ! 1))" by auto
  with r small s(2) ph show ?thesis by blast
qed

text \<open>Claim C22.  No overtaking: when a task acquires its lease, no task that registered before it and
  is still waiting has a path equal to, above or below one of its paths, nor resolved keys that
  conflict with the keys it acquires.\<close>

theorem no_overtaking:
  assumes "reachable root n s" "n < u64_max" and i: "i < length (tasks s)"
    and acq: "step s (TryAcquire i) = Some s'" "phase (tasks s' ! i) = Holding a"
    and j: "j < length (tasks s)" "active (phase (tasks s ! j))"
      "registration (tasks s ! j) < registration (tasks s ! i)"
  shows "\<not> lexical_overlap (lexical_paths (tasks s ! j)) (lexical_paths (tasks s ! i)) \<and>
     (\<exists>w ks. map_of (waiters (inner s)) (registration (tasks s ! j)) = Some w \<and>
        map_of (leases (inner s')) a = Some ks \<and> \<not> waiter_conflicts w ks)"
proof -
  have inv: "coordinator_inv n s" by (rule reachable_inv [OF assms(1,2)])
  from step_task [OF acq(1)] have "task_step (TryAcquire i) i (tasks s ! i) s = Some s'" by simp
  then obtain t' c' where s': "s' = set_task i t' c' s" and st: "section_step (tasks s ! i) (inner s) t' c'"
    by (rule task_section)
  from inv j obtain w where w: "map_of (waiters (inner s)) (registration (tasks s ! j)) = Some w"
    "waiter_paths w = lexical_paths (tasks s ! j)"
    unfolding coordinator_inv_def waiters_ok_def registered_ok_def by force
  have "phase t' = Holding a" using acq(2) s' i by simp
  with st obtain e ks where ks: "resolved_paths (tasks s ! i) = Some (e, ks)"
    "map_of (leases c') a = Some ks"
    "\<forall>(k, x) \<in> set (waiters (inner s)). k < registration (tasks s ! i) \<longrightarrow> \<not> waiter_conflicts x ks"
    by cases (auto simp: AList.update_conv')
  from ks(3) map_of_SomeD [OF w(1)] j(3) have free: "\<not> waiter_conflicts w ks" by auto
  have "map lexical ks = lexical_paths (tasks s ! i)"
    using inv i ks(1) unfolding coordinator_inv_def holders_ok_def keys_ok_def by blast
  with lexical_overlap_waiter [of w ks] free w ks(2) s' show ?thesis by auto
qed

theorem no_overtaking_witness:
  "\<exists>(s :: nat system) s'. reachable 0 8 s \<and> 8 < u64_max \<and> length (tasks s) = 2 \<and>
     step s (TryAcquire 1) = Some s' \<and> phase (tasks s' ! 1) = Holding 1 \<and>
     active (phase (tasks s ! 0)) \<and> registration (tasks s ! 0) < registration (tasks s ! 1) \<and>
     \<not> lexical_overlap (lexical_paths (tasks s ! 0)) (lexical_paths (tasks s ! 1))"
proof -
  let ?es = "[Start [''/a''], InsertWaiter 0, Start [''/b''], InsertWaiter 1, BorrowChanges 1, LoadEpoch 1,
      CheckResolved 1, KeysResolved 1 [Some (demo_key ''b'')]]"
  obtain s s' where s: "run demo_init ?es = Some s" "length (tasks s) = 2"
    "step s (TryAcquire 1) = Some s'" "phase (tasks s' ! 1) = Holding 1"
    "active (phase (tasks s ! 0))" "registration (tasks s ! 0) < registration (tasks s ! 1)"
    by (simp add: demo_defs)
  have r: "reachable 0 8 s" by (rule demo_reachable [OF s(1)]) simp
  have small: "8 < u64_max" by (simp add: u64_max_def)
  from no_overtaking [OF r small, of 1 s' 1 0] s
  have "\<not> lexical_overlap (lexical_paths (tasks s ! 0)) (lexical_paths (tasks s ! 1))" by auto
  with r small s show ?thesis by blast
qed

text \<open>Claim C23.  No lost wake-up: a task at the head of the queue sleeps with no change pending only
  while some other task owns a lease that conflicts with the keys it asked for (a cancelled
  task that has left the queue but not yet signalled aside).\<close>

theorem head_sleeps_for_a_lease:
  assumes "reachable root n s" "n < u64_max" and e: "earliest s i"
    and sleep: "phase (tasks s ! i) = Sleeping" "step s (Wake i) = None"
    and settled: "\<forall>j < length (tasks s). phase (tasks s ! j) \<noteq> Leaving"
  shows "\<exists>j a held e ks. j < length (tasks s) \<and> phase (tasks s ! j) = Holding a \<and>
     map_of (leases (inner s)) a = Some held \<and> resolved_paths (tasks s ! i) = Some (e, ks) \<and>
     paths_conflict held ks"
proof -
  have inv: "coordinator_inv n s" by (rule reachable_inv [OF assms(1,2)])
  have i: "i < length (tasks s)" using e by (simp add: earliest_def)
  with sleep have "seen (tasks s ! i) = changes (inner s)"
    by (auto simp: task_step_def Let_def split: if_splits)
  with inv i sleep(1) have "has_reason s (tasks s ! i)"
    by (simp add: coordinator_inv_def sleepers_ok_def)
  with earliest_first [OF inv e] settled obtain a held x ks where
    "map_of (leases (inner s)) a = Some held" "resolved_paths (tasks s ! i) = Some (x, ks)"
    "paths_conflict held ks" by (fastforce simp: has_reason_def)
  moreover from this inv obtain j where "j < length (tasks s)" "phase (tasks s ! j) = Holding a"
    unfolding coordinator_inv_def holders_ok_def by blast
  ultimately show ?thesis by blast
qed

theorem head_sleeps_for_a_lease_witness:
  "\<exists>s :: nat system. reachable 0 26 s \<and> 26 < u64_max \<and> earliest s 2 \<and>
     phase (tasks s ! 2) = Sleeping \<and> step s (Wake 2) = None \<and>
     (\<exists>j a held. phase (tasks s ! j) = Holding a \<and> map_of (leases (inner s)) a = Some held)"
proof -
  obtain s where s: "run demo_init demo_events = Some s" "length (tasks s) = 3"
    and ph: "phase (tasks s ! 0) = Holding 1" "phase (tasks s ! 1) = Holding 2"
      "phase (tasks s ! 2) = Sleeping" "seen (tasks s ! 2) = changes (inner s)"
    using demo_run by blast
  have r: "reachable 0 26 s" by (rule demo_reachable [OF s(1) length_demo_events])
  have small: "26 < u64_max" by (simp add: u64_max_def)
  have three: "j < 3 \<longleftrightarrow> j = 0 \<or> j = 1 \<or> j = 2" for j :: nat by auto
  have e: "earliest s 2" using ph s(2) by (auto simp: earliest_def three)
  have w: "step s (Wake 2) = None" using ph s(2) by (simp add: task_step_def Let_def)
  have "\<forall>j < length (tasks s). phase (tasks s ! j) \<noteq> Leaving" using ph s(2) by (auto simp: three)
  from head_sleeps_for_a_lease [OF r small e ph(3) w this] r small e ph(3) w show ?thesis by blast
qed

text \<open>Nothing held and awake or about to be woken: the earliest task gets its lease by itself.\<close>

lemma earliest_acquires:
  assumes inv: "coordinator_inv n s" and e: "earliest s i"
    and none: "\<forall>j < length (tasks s). \<forall>a. phase (tasks s ! j) \<noteq> Holding a"
    and woken: "phase (tasks s ! i) = Sleeping \<Longrightarrow> seen (tasks s ! i) \<noteq> changes (inner s)"
    and ans: "length answers = length (lexical_paths (tasks s ! i))"
  shows "acquires 8 i answers s"
proof -
  have un: "unopposed s i" using earliest_unopposed [OF inv e] none by blast
  have act: "active (phase (tasks s ! i))" and i: "i < length (tasks s)"
    using e by (simp_all add: earliest_def)
  from act show ?thesis
  proof (cases rule: waiting_phase)
    case top
    from acquires_mono [OF acquires_top [OF un this ans]] show ?thesis by simp
  next
    case (loaded x)
    from acquires_from_loaded [OF un this ans] show ?thesis .
  next
    case (resolving x)
    from acquires_mono [OF acquires_from_resolving [OF un this ans]] show ?thesis by simp
  next
    case (trying x)
    with inv i obtain ks where "resolved_paths (tasks s ! i) = Some (x, ks)"
      unfolding coordinator_inv_def holders_ok_def keys_ok_def by blast
    from acquires_mono [OF acquires_from_trying [OF un trying this ans]] show ?thesis by simp
  next
    case sleeping
    then have "step s (Wake i) = Some (set_task i ((tasks s ! i)\<lparr>phase := LoopTop\<rparr>) (inner s) s)"
      using i woken by (simp add: task_step_def Let_def)
    moreover have "acquires 5 i answers (set_task i ((tasks s ! i)\<lparr>phase := LoopTop\<rparr>) (inner s) s)"
      by (rule acquires_top) (use un ans in \<open>auto simp: unopposed_def\<close>)
    ultimately have "acquires (Suc 5) i answers s" by (rule acquires_step) simp_all
    then show ?thesis by (rule acquires_mono) simp
  qed
qed

text \<open>The notification a cancelled task still owes is always possible and wakes every sleeper.\<close>

lemma notify_cancelled:
  assumes inv: "coordinator_inv n s" "Suc n < u64_max" and j: "j < length (tasks s)" "phase (tasks s ! j) = Leaving"
  shows "\<exists>s'. step s (NotifyCancelled j) = Some s' \<and> coordinator_inv (Suc n) s' \<and>
    length (tasks s') = length (tasks s) \<and> phase (tasks s' ! j) = Ended \<and>
    (\<forall>i < length (tasks s). i \<noteq> j \<longrightarrow> tasks s' ! i = tasks s ! i \<and> seen (tasks s ! i) < changes (inner s'))"
proof -
  let ?s = "set_task j ((tasks s ! j)\<lparr>phase := Ended\<rparr>) (send_change (inner s)) s"
  have st: "step s (NotifyCancelled j) = Some ?s" using j by (simp add: task_step_def Let_def)
  have "changes (inner s) < u64_max" using inv by (auto simp: coordinator_inv_def counters_ok_def)
  then have "changes (inner ?s) = Suc (changes (inner s))" by (simp add: send_change_def)
  moreover have "seen (tasks s ! i) \<le> changes (inner s)" if "i < length (tasks s)" for i
    using inv(1) that by (simp add: coordinator_inv_def holders_ok_def keys_ok_def)
  ultimately have "\<forall>i < length (tasks s). i \<noteq> j \<longrightarrow> tasks ?s ! i = tasks s ! i \<and> seen (tasks s ! i) < changes (inner ?s)"
    by (simp add: less_Suc_eq_le)
  then show ?thesis
    by (intro exI [of _ ?s] conjI) (use st coordinator_step [OF inv st] j in simp_all)
qed

text \<open>Claim C21.  The first waiter gets its lease.  Once no lease is held, the earliest registered task
  acquires its lease within eight of its own steps, wherever in the loop it is and whatever the
  filesystem answers about its paths, unless it sleeps while a cancelled task still owes its
  notification.  Such a notification is always possible, and after any one of them the earliest
  task again needs at most eight steps of its own.\<close>

theorem first_waiter_acquires:
  assumes "reachable root n s" "Suc n < u64_max" and e: "earliest s i"
    and none: "\<forall>j < length (tasks s). \<forall>a. phase (tasks s ! j) \<noteq> Holding a"
    and ans: "length answers = length (lexical_paths (tasks s ! i))"
  shows "((phase (tasks s ! i) = Sleeping \<longrightarrow> (\<forall>j < length (tasks s). phase (tasks s ! j) \<noteq> Leaving)) \<longrightarrow> acquires 8 i answers s) \<and>
    (\<forall>j < length (tasks s). phase (tasks s ! j) = Leaving \<longrightarrow>
      (\<exists>s'. step s (NotifyCancelled j) = Some s' \<and> acquires 8 i answers s'))"
proof (intro conjI impI allI)
  have inv: "coordinator_inv n s" using reachable_inv [OF assms(1)] assms(2) by simp
  show "acquires 8 i answers s"
    if settled: "phase (tasks s ! i) = Sleeping \<longrightarrow> (\<forall>j < length (tasks s). phase (tasks s ! j) \<noteq> Leaving)"
  proof (rule earliest_acquires [OF inv e none _ ans])
    assume sleeping: "phase (tasks s ! i) = Sleeping"
    have "leases (inner s) = []" using earliest_unopposed [OF inv e] none by (auto simp: unopposed_def)
    then have "\<not> has_reason s (tasks s ! i)"
      using earliest_first [OF inv e] settled sleeping by (auto simp: has_reason_def)
    with inv e sleeping show "seen (tasks s ! i) \<noteq> changes (inner s)"
      by (auto simp: coordinator_inv_def sleepers_ok_def earliest_def)
  qed
  fix j assume j: "j < length (tasks s)" "phase (tasks s ! j) = Leaving"
  then have "i \<noteq> j" and i: "i < length (tasks s)" using e by (auto simp: earliest_def)
  obtain s' where s': "step s (NotifyCancelled j) = Some s'" "coordinator_inv (Suc n) s'"
    "length (tasks s') = length (tasks s)" "phase (tasks s' ! j) = Ended"
    "\<And>k. k < length (tasks s) \<Longrightarrow> k \<noteq> j \<Longrightarrow> tasks s' ! k = tasks s ! k \<and> seen (tasks s ! k) < changes (inner s')"
    using notify_cancelled [OF inv assms(2) j] by blast
  have same: "tasks s' ! k = tasks s ! k" if "k < length (tasks s)" "active (phase (tasks s' ! k))" for k
    using s'(4,5) that by (cases "k = j") auto
  have at: "tasks s' ! i = tasks s ! i" "seen (tasks s ! i) \<noteq> changes (inner s')" using s'(5) [OF i \<open>i \<noteq> j\<close>] by simp_all
  have "registration (tasks s ! i) \<le> registration (tasks s' ! k)" if "k < length (tasks s)" "active (phase (tasks s' ! k))" for k
    using same [OF that] that e by (simp add: earliest_def)
  then have "earliest s' i" using e i by (simp add: earliest_def s'(3) at(1))
  moreover have "\<forall>k < length (tasks s'). \<forall>a. phase (tasks s' ! k) \<noteq> Holding a"
  proof (intro allI impI)
    fix k a assume "k < length (tasks s')"
    then show "phase (tasks s' ! k) \<noteq> Holding a" using none s'(3-5) by (cases "k = j") auto
  qed
  ultimately have "acquires 8 i answers s'"
    by (rule earliest_acquires [OF s'(2)]) (simp_all add: at ans)
  with s'(1) show "\<exists>s'. step s (NotifyCancelled j) = Some s' \<and> acquires 8 i answers s'" by blast
qed

theorem first_waiter_acquires_witness:
  "\<exists>s :: nat system. reachable 0 4 s \<and> Suc 4 < u64_max \<and> earliest s 0 \<and> acquires 8 0 [None] s"
proof -
  let ?es = "[Start [''/a''], InsertWaiter 0, Start [''/b''], InsertWaiter 1]"
  obtain s where s: "run demo_init ?es = Some s" "length (tasks s) = 2"
    "phase (tasks s ! 0) = LoopTop" "phase (tasks s ! 1) = LoopTop"
    "registration (tasks s ! 0) \<le> registration (tasks s ! 1)"
    "length (lexical_paths (tasks s ! 0)) = 1"
    by (simp add: demo_defs)
  have r: "reachable 0 4 s" by (rule demo_reachable [OF s(1)]) simp
  have small: "Suc 4 < u64_max" by (simp add: u64_max_def)
  have two: "j < 2 \<longleftrightarrow> j = 0 \<or> j = 1" for j :: nat by auto
  have e: "earliest s 0" using s by (auto simp: earliest_def two)
  have "acquires 8 0 [None] s"
    using first_waiter_acquires [OF r small e, of "[None]"] s by (simp add: two)
  with r small e show ?thesis by blast
qed

text \<open>Claim C24.  Semantic keys conflict exactly when the entries they denote are nested: in any
  directory tree, for the keys of two entries, the conflict test answers yes if and only if the
  physical path of one entry is a prefix of the physical path of the other.\<close>

theorem resolved_conflict_exact:
  assumes "directory_tree dp" "key_at dp k p" "key_at dp k' p'"
  shows "resolved_paths_conflict k k' \<longleftrightarrow> prefix p p' \<or> prefix p' p"
proof
  assume "resolved_paths_conflict k k'"
  with key_conflict_nested assms(2,3) show "prefix p p' \<or> prefix p' p"
    unfolding resolved_paths_conflict_def by blast
next
  assume "prefix p p' \<or> prefix p' p"
  with nested_key_conflict [OF assms(1)] assms(2,3) resolved_paths_conflict_sym
  show "resolved_paths_conflict k k'" by blast
qed

text \<open>A root with one directory \<^verbatim>\<open>d\<close>: moving \<^verbatim>\<open>d\<close> conflicts with writing \<^verbatim>\<open>d/x\<close>, not with writing \<^verbatim>\<open>e\<close>.\<close>

definition demo_tree :: "nat \<Rightarrow> string list option" where
  "demo_tree d = (if d = 0 then Some [] else if d = 1 then Some [''d''] else None)"

theorem resolved_conflict_exact_witness:
  "let d = \<lparr>resolved_parent = 0, unresolved_tail = [''d''], ancestor_directories = [0], target_directory = Some 1\<rparr>;
       x = \<lparr>resolved_parent = 1, unresolved_tail = [''x''], ancestor_directories = [0, 1], target_directory = None\<rparr>
   in directory_tree demo_tree \<and> key_at demo_tree d [''d''] \<and> key_at demo_tree x [''d'', ''x''] \<and>
      key_at demo_tree (demo_key ''e'') [''e''] \<and>
      resolved_paths_conflict d x \<and> \<not> resolved_paths_conflict d (demo_key ''e'')"
proof -
  let ?d = "\<lparr>resolved_parent = 0, unresolved_tail = [''d''], ancestor_directories = [0], target_directory = Some 1\<rparr> :: nat ResolvedPathKey"
  let ?x = "\<lparr>resolved_parent = 1, unresolved_tail = [''x''], ancestor_directories = [0, 1], target_directory = None\<rparr> :: nat ResolvedPathKey"
  have t: "directory_tree demo_tree"
    unfolding directory_tree_def demo_tree_def by (auto simp: prefix_Cons split: if_splits)
  have d: "key_at demo_tree ?d [''d'']" by (auto simp: key_at_def demo_tree_def split: if_splits)
  have x: "key_at demo_tree ?x [''d'', ''x'']" by (auto simp: key_at_def demo_tree_def split: if_splits)
  have e: "key_at demo_tree (demo_key ''e'') [''e'']"
    by (auto simp: key_at_def demo_tree_def demo_key_def split: if_splits)
  from resolved_conflict_exact [OF t d x] resolved_conflict_exact [OF t d e] t d x e
  show ?thesis by (simp add: Let_def)
qed

end
