(* ===== verification/Store_Model.thy ===== *)
theory Store_Model
  imports Std_Path
begin

text \<open>
  \<^verbatim>\<open>src/server/state_store/model.rs\<close> and the parts of \<^verbatim>\<open>src/server/state_store.rs\<close> every command
  uses: the stored values and their validation, the limits, the store clock, the rows of the
  SQLite tables with the constraints of \<^verbatim>\<open>CURRENT_SCHEMA\<close>, and the transaction frame.

  A BLOB, a TEXT and a path are byte strings; an SQLite INTEGER is an \<^typ>\<open>int\<close> that the code keeps in
  the range of \<^verbatim>\<open>i64\<close>.  What a command reads from outside comes in a \<^verbatim>\<open>tick\<close>: the wall clock, the
  monotonic clock in nanoseconds, the random identifier it would draw, and whether SQLite
  executes its transaction, and a read that precedes the transaction.  A transaction that fails, for whatever reason, leaves the tables as
  they were.
\<close>

section \<open>Errors\<close>

datatype store_error =
    MonotonicBackwards | ClockUnrepresentable | ClockOverflow | ExpirationOverflow
  | SqlFailure | ConstraintFailure
  | InvalidOperationState int | MissingTerminalState | MissingHttpStatus | InvalidHttpStatus
  | InvalidTerminalState int | InvalidFingerprint
  | StatusOutOfRange | SucceededStatus | SucceededCode | FailedStatus | FailedCode | CodeLength
  | PathEmpty | PathTooLong | PathNul | SamePaths
  | OffsetBeyondLength | LengthUnrepresentable | OffsetUnrepresentable | NotFullyDurable
  | LimitNotPositive | LimitTooLarge
  | InvalidUploadState int | InvalidUploadRow
  | InvalidPurgeState int | InvalidPurgeRow | NotPrepared | UnexpectedRevision | UnexpectedAttempts
  | InvalidLimits

type_synonym 'a result = "store_error + 'a"

section \<open>Stored values\<close>

record RootIdentity =
  root_device :: u64
  root_inode :: u64

text \<open>\<^verbatim>\<open>OperationKey\<close>, \<^verbatim>\<open>UploadSessionKey\<close> and \<^verbatim>\<open>PurgeJobKey\<close>: a 32-byte owner digest and a 16-byte id.\<close>

record StoreKey =
  owner :: blob
  key_id :: blob

definition key_ok :: "StoreKey \<Rightarrow> bool" where
  "key_ok k \<longleftrightarrow> length (owner k) = 32 \<and> length (key_id k) = 16"

definition OPERATION_RESERVED :: int where "OPERATION_RESERVED = 0"
definition OPERATION_COMMIT_STARTED :: int where "OPERATION_COMMIT_STARTED = 1"
definition OPERATION_COMPLETED :: int where "OPERATION_COMPLETED = 2"
definition UPLOAD_RUNNING :: int where "UPLOAD_RUNNING = 0"
definition UPLOAD_COMMIT_STARTED :: int where "UPLOAD_COMMIT_STARTED = 1"
definition UPLOAD_COMMITTED :: int where "UPLOAD_COMMITTED = 2"
definition UPLOAD_REJECTED :: int where "UPLOAD_REJECTED = 3"
definition UPLOAD_UNKNOWN :: int where "UPLOAD_UNKNOWN = 4"
definition UPLOAD_AWAITING_CONFIRMATION :: int where "UPLOAD_AWAITING_CONFIRMATION = 5"
definition PURGE_PREPARED :: int where "PURGE_PREPARED = 0"
definition PURGE_READY :: int where "PURGE_READY = 1"
definition PURGE_CLAIMED :: int where "PURGE_CLAIMED = 2"
definition UNKNOWN_STATUS :: nat where "UNKNOWN_STATUS = 500"
definition UNKNOWN_CODE :: string where "UNKNOWN_CODE = ''outcome_uncertain''"
definition MAX_ERROR_CODE_CHARS :: nat where "MAX_ERROR_CODE_CHARS = 128"

lemmas state_codes [simp] =
  OPERATION_RESERVED_def OPERATION_COMMIT_STARTED_def OPERATION_COMPLETED_def
  UPLOAD_RUNNING_def UPLOAD_COMMIT_STARTED_def UPLOAD_COMMITTED_def UPLOAD_REJECTED_def
  UPLOAD_UNKNOWN_def UPLOAD_AWAITING_CONFIRMATION_def
  PURGE_PREPARED_def PURGE_READY_def PURGE_CLAIMED_def

datatype StoredTerminalState = Succeeded | Failed | UnknownOutcome

fun terminal_code :: "StoredTerminalState \<Rightarrow> int" where
  "terminal_code Succeeded = 0"
| "terminal_code Failed = 1"
| "terminal_code UnknownOutcome = 2"

definition terminal_from_database :: "int \<Rightarrow> StoredTerminalState result" where
  "terminal_from_database value =
     (if value = 0 then Inr Succeeded
      else if value = 1 then Inr Failed
      else if value = 2 then Inr UnknownOutcome
      else Inl (InvalidTerminalState value))"

record StoredOutcome =
  status :: nat
  outcome_state :: StoredTerminalState
  code :: "string option"

text \<open>\<^verbatim>\<open>str::chars().count()\<close> on UTF-8 text, and SQLite's \<^verbatim>\<open>length\<close> of a TEXT, which stops at NUL.\<close>

definition char_count :: "string \<Rightarrow> nat" where
  "char_count s = length (filter (\<lambda>c. \<not> is_cont (of_char c)) s)"

definition sql_text_length :: "string \<Rightarrow> nat" where
  "sql_text_length s = char_count (takeWhile (\<lambda>c. c \<noteq> CHR 0x00) s)"

definition is_success :: "nat \<Rightarrow> bool" where
  "is_success s \<longleftrightarrow> 200 \<le> s \<and> s \<le> 299"

definition validate_outcome :: "StoredOutcome \<Rightarrow> unit result" where
  "validate_outcome oc =
     (if \<not> (100 \<le> status oc \<and> status oc \<le> 599) then Inl StatusOutOfRange
      else if outcome_state oc = Succeeded \<and> \<not> is_success (status oc) then Inl SucceededStatus
      else if outcome_state oc = Succeeded \<and> code oc \<noteq> None then Inl SucceededCode
      else if outcome_state oc \<noteq> Succeeded \<and> is_success (status oc) then Inl FailedStatus
      else if outcome_state oc \<noteq> Succeeded \<and> code oc = None then Inl FailedCode
      else case code oc of
        None \<Rightarrow> Inr ()
      | Some c \<Rightarrow> if 1 \<le> char_count c \<and> char_count c \<le> MAX_ERROR_CODE_CHARS then Inr () else Inl CodeLength)"

datatype StoreBegin = Started blob | OperationRunning | Replay StoredOutcome | BeginConflict | BeginFull

datatype StoreStatus = StatusRunning | Completed StoredOutcome | StatusNotFound

record StoredFileIdentity =
  device :: u64
  inode :: u64

datatype StoredUploadState =
  UploadRunning | CommitStarted | Committed | Rejected | UnknownUpload | AwaitingConfirmation

fun upload_code :: "StoredUploadState \<Rightarrow> int" where
  "upload_code UploadRunning = UPLOAD_RUNNING"
| "upload_code CommitStarted = UPLOAD_COMMIT_STARTED"
| "upload_code Committed = UPLOAD_COMMITTED"
| "upload_code Rejected = UPLOAD_REJECTED"
| "upload_code UnknownUpload = UPLOAD_UNKNOWN"
| "upload_code AwaitingConfirmation = UPLOAD_AWAITING_CONFIRMATION"

definition upload_from_database :: "int \<Rightarrow> StoredUploadState result" where
  "upload_from_database value =
     (if value = UPLOAD_RUNNING then Inr UploadRunning
      else if value = UPLOAD_COMMIT_STARTED then Inr CommitStarted
      else if value = UPLOAD_COMMITTED then Inr Committed
      else if value = UPLOAD_REJECTED then Inr Rejected
      else if value = UPLOAD_UNKNOWN then Inr UnknownUpload
      else if value = UPLOAD_AWAITING_CONFIRMATION then Inr AwaitingConfirmation
      else Inl (InvalidUploadState value))"

fun is_terminal :: "StoredUploadState \<Rightarrow> bool" where
  "is_terminal Committed = True"
| "is_terminal Rejected = True"
| "is_terminal UnknownUpload = True"
| "is_terminal _ = False"

record StoredUploadSession =
  us_key :: StoreKey
  target_path :: string
  stage_path :: string
  upload_length :: u64
  durable_offset :: u64
  us_state :: StoredUploadState
  stage_identity :: "StoredFileIdentity option"
  target_revision :: "blob option"

record ExpiredUploadSession =
  expired_session :: StoredUploadSession
  expired_at_ms :: i64

datatype RejectUploadSession =
    RejectNotFound | BindingConflict
  | StateConflict StoredUploadSession | RejectedNow StoredUploadSession

definition MAX_PATH_BYTES :: nat where "MAX_PATH_BYTES = 65536"

definition validate_stored_path :: "string \<Rightarrow> unit result" where
  "validate_stored_path path =
     (if path = [] then Inl PathEmpty
      else if \<not> length path \<le> MAX_PATH_BYTES then Inl PathTooLong
      else if CHR 0x00 \<in> set path then Inl PathNul
      else Inr ())"

fun fully_durable_state :: "StoredUploadState \<Rightarrow> bool" where
  "fully_durable_state CommitStarted = True"
| "fully_durable_state Committed = True"
| "fully_durable_state AwaitingConfirmation = True"
| "fully_durable_state _ = False"

definition validate_session :: "StoredUploadSession \<Rightarrow> unit result" where
  "validate_session s =
     (case validate_stored_path (target_path s) of Inl e \<Rightarrow> Inl e
      | Inr _ \<Rightarrow> (case validate_stored_path (stage_path s) of Inl e \<Rightarrow> Inl e
      | Inr _ \<Rightarrow>
          if path_eq (target_path s) (stage_path s) then Inl SamePaths
          else if \<not> durable_offset s \<le> upload_length s then Inl OffsetBeyondLength
          else if \<not> int (upload_length s) \<le> i64_max then Inl LengthUnrepresentable
          else if \<not> int (durable_offset s) \<le> i64_max then Inl OffsetUnrepresentable
          else if fully_durable_state (us_state s) \<and> durable_offset s \<noteq> upload_length s
          then Inl NotFullyDurable
          else Inr ()))"

datatype StoreUploadSession = SessionInserted | Updated | Unchanged | SessionConflict | SessionFull

datatype StoredPurgeState = Prepared | Ready | Claimed

fun purge_code :: "StoredPurgeState \<Rightarrow> int" where
  "purge_code Prepared = PURGE_PREPARED"
| "purge_code Ready = PURGE_READY"
| "purge_code Claimed = PURGE_CLAIMED"

definition purge_from_database :: "int \<Rightarrow> StoredPurgeState result" where
  "purge_from_database value =
     (if value = PURGE_PREPARED then Inr Prepared
      else if value = PURGE_READY then Inr Ready
      else if value = PURGE_CLAIMED then Inr Claimed
      else Inl (InvalidPurgeState value))"

record StoredPurgeJob =
  pj_key :: StoreKey
  pj_target_path :: string
  trash_path :: string
  source_identity :: StoredFileIdentity
  trash_revision :: "blob option"
  is_directory :: bool
  pj_state :: StoredPurgeState
  attempts :: nat

definition validate_new :: "StoredPurgeJob \<Rightarrow> unit result" where
  "validate_new j =
     (case validate_stored_path (pj_target_path j) of Inl e \<Rightarrow> Inl e
      | Inr _ \<Rightarrow> (case validate_stored_path (trash_path j) of Inl e \<Rightarrow> Inl e
      | Inr _ \<Rightarrow>
          if path_eq (pj_target_path j) (trash_path j) then Inl SamePaths
          else if pj_state j \<noteq> Prepared then Inl NotPrepared
          else if trash_revision j \<noteq> None then Inl UnexpectedRevision
          else if attempts j \<noteq> 0 then Inl UnexpectedAttempts
          else Inr ()))"

datatype StorePurgeJob = JobInserted | Existing | JobConflict | JobFull

record StatePathCursor =
  cursor_kind :: i64
  cursor_owner :: blob
  cursor_id :: blob
  cursor_slot :: i64

record StateBlockingPath =
  blocking_path :: string
  allows_exact_replacement :: bool

record StatePathPage =
  paths :: "StateBlockingPath list"
  next_cursor :: "StatePathCursor option"

section \<open>Limits\<close>

record RepositoryLimits =
  r_upload_capacity :: usize
  r_upload_per_owner :: usize
  r_purge_capacity :: usize
  r_purge_per_owner :: usize

definition REPOSITORY_LIMITS :: RepositoryLimits where
  "REPOSITORY_LIMITS =
     \<lparr> r_upload_capacity = 16384, r_upload_per_owner = 4096,
       r_purge_capacity = 4096, r_purge_per_owner = 1024 \<rparr>"

record Limits =
  capacity :: i64
  per_owner :: i64
  ttl_ms :: i64
  upload_ttl_ms :: i64
  upload_capacity :: i64
  upload_per_owner :: i64
  purge_capacity :: i64
  purge_per_owner :: i64

text \<open>\<^verbatim>\<open>Duration::as_millis\<close> of a duration in nanoseconds, and its conversion to \<^verbatim>\<open>i64\<close>.\<close>

definition as_millis :: "nat \<Rightarrow> nat" where
  "as_millis ns = ns div 1000000"

definition duration_ms :: "nat \<Rightarrow> i64 result" where
  "duration_ms ns =
     (case i64_try_from (as_millis ns) of None \<Rightarrow> Inl InvalidLimits | Some ms \<Rightarrow> Inr ms)"

definition validate_limits ::
  "usize \<Rightarrow> usize \<Rightarrow> nat \<Rightarrow> nat \<Rightarrow> RepositoryLimits \<Rightarrow> Limits result"
where
  "validate_limits cap per ttl upload_ttl repository =
     (if \<not> 0 < cap then Inl InvalidLimits
      else if \<not> (1 \<le> per \<and> per \<le> cap) then Inl InvalidLimits
      else case (i64_try_from cap, i64_try_from per, duration_ms ttl, duration_ms upload_ttl) of
        (Some c, Some p, Inr t, Inr ut) \<Rightarrow>
          if \<not> (0 < r_upload_capacity repository \<and> 1 \<le> r_upload_per_owner repository \<and>
                r_upload_per_owner repository \<le> r_upload_capacity repository)
          then Inl InvalidLimits
          else if \<not> (0 < r_purge_capacity repository \<and> 1 \<le> r_purge_per_owner repository \<and>
                     r_purge_per_owner repository \<le> r_purge_capacity repository)
          then Inl InvalidLimits
          else (case (i64_try_from (r_upload_capacity repository), i64_try_from (r_upload_per_owner repository),
                      i64_try_from (r_purge_capacity repository), i64_try_from (r_purge_per_owner repository)) of
                  (Some uc, Some up, Some pc, Some pp) \<Rightarrow>
                    Inr \<lparr> capacity = c, per_owner = p, ttl_ms = t, upload_ttl_ms = ut,
                          upload_capacity = uc, upload_per_owner = up,
                          purge_capacity = pc, purge_per_owner = pp \<rparr>
                | _ \<Rightarrow> Inl InvalidLimits)
      | _ \<Rightarrow> Inl InvalidLimits)"

definition query_limit :: "usize \<Rightarrow> i64 result" where
  "query_limit limit =
     (if \<not> 0 < limit then Inl LimitNotPositive
      else case i64_try_from limit of None \<Rightarrow> Inl LimitTooLarge | Some l \<Rightarrow> Inr l)"

section \<open>The store clock\<close>

record StoreClock =
  wall_anchor_ms :: i64
  monotonic_anchor :: nat
  last_ms :: i64

definition new_clock :: "i64 \<Rightarrow> nat \<Rightarrow> StoreClock" where
  "new_clock wall_now monotonic_now =
     \<lparr> wall_anchor_ms = wall_now, monotonic_anchor = monotonic_now, last_ms = wall_now \<rparr>"

definition observe :: "i64 option \<Rightarrow> nat \<Rightarrow> StoreClock \<Rightarrow> StoreClock \<times> i64 result" where
  "observe wall_now_ms monotonic_now c =
     (if monotonic_now < monotonic_anchor c then (c, Inl MonotonicBackwards)
      else case i64_try_from (as_millis (monotonic_now - monotonic_anchor c)) of
        None \<Rightarrow> (c, Inl ClockUnrepresentable)
      | Some elapsed_ms \<Rightarrow>
          (case checked_add_i64 (wall_anchor_ms c) elapsed_ms of
             None \<Rightarrow> (c, Inl ClockOverflow)
           | Some candidate \<Rightarrow>
               let (c, candidate) =
                 (case wall_now_ms of
                    Some wall \<Rightarrow>
                      if candidate < wall
                      then (c\<lparr> wall_anchor_ms := wall, monotonic_anchor := monotonic_now \<rparr>, wall)
                      else (c, candidate)
                  | None \<Rightarrow> (c, candidate));
                   candidate = max candidate (last_ms c)
               in (c\<lparr> last_ms := candidate \<rparr>, Inr candidate)))"

definition expiration_time :: "i64 \<Rightarrow> i64 \<Rightarrow> i64 result" where
  "expiration_time now ttl =
     (case checked_add_i64 now ttl of None \<Rightarrow> Inl ExpirationOverflow | Some t \<Rightarrow> Inr t)"

section \<open>The tables\<close>

record operation_row =
  o_owner :: blob
  o_id :: blob
  o_fingerprint :: blob
  o_lease :: blob
  o_state :: i64
  o_terminal_state :: "i64 option"
  o_http_status :: "i64 option"
  o_error_code :: "string option"
  o_created_at_ms :: i64
  o_updated_at_ms :: i64
  o_expires_at_ms :: "i64 option"

text \<open>
  SQL conditions are three-valued; a \<^verbatim>\<open>CHECK\<close> constraint rejects a row only when its condition is
  false, so an unknown condition passes.
\<close>

type_synonym sql_bool = "bool option"

definition sql_and :: "sql_bool \<Rightarrow> sql_bool \<Rightarrow> sql_bool" where
  "sql_and a b =
     (if a = Some False \<or> b = Some False then Some False
      else if a = Some True \<and> b = Some True then Some True else None)"

definition sql_not :: "sql_bool \<Rightarrow> sql_bool" where
  "sql_not a = map_option Not a"

definition sql_or :: "sql_bool \<Rightarrow> sql_bool \<Rightarrow> sql_bool" where
  "sql_or a b = sql_not (sql_and (sql_not a) (sql_not b))"

definition is_null :: "'a option \<Rightarrow> sql_bool" where
  "is_null x = Some (x = None)"

definition sql_in :: "int option \<Rightarrow> int list \<Rightarrow> sql_bool" where
  "sql_in x vs = map_option (\<lambda>v. v \<in> set vs) x"

definition sql_between :: "int \<Rightarrow> int \<Rightarrow> int option \<Rightarrow> sql_bool" where
  "sql_between lo hi x = map_option (\<lambda>v. lo \<le> v \<and> v \<le> hi) x"

definition check_passes :: "sql_bool \<Rightarrow> bool" where
  "check_passes c \<longleftrightarrow> c \<noteq> Some False"

lemmas sql_defs = sql_and_def sql_not_def sql_or_def is_null_def sql_in_def sql_between_def check_passes_def

definition operation_lifecycle_check :: "operation_row \<Rightarrow> sql_bool" where
  "operation_lifecycle_check r =
     sql_or
       (sql_and (sql_in (Some (o_state r)) [0, 1])
        (sql_and (is_null (o_terminal_state r))
         (sql_and (is_null (o_http_status r))
          (sql_and (is_null (o_error_code r)) (is_null (o_expires_at_ms r))))))
       (sql_and (sql_in (Some (o_state r)) [2])
        (sql_and (sql_not (is_null (o_terminal_state r)))
         (sql_and (sql_between 100 599 (o_http_status r))
          (sql_and (sql_not (is_null (o_expires_at_ms r)))
           (sql_or
             (sql_and (sql_in (o_terminal_state r) [0])
              (sql_and (sql_between 200 299 (o_http_status r)) (is_null (o_error_code r))))
             (sql_and (sql_in (o_terminal_state r) [1, 2])
              (sql_and (sql_not (sql_between 200 299 (o_http_status r)))
               (sql_not (is_null (o_error_code r))))))))))"

definition operation_check :: "operation_row \<Rightarrow> bool" where
  "operation_check r \<longleftrightarrow>
     length (o_owner r) = 32 \<and> length (o_id r) = 16 \<and> length (o_fingerprint r) = 32 \<and>
     length (o_lease r) = 16 \<and> o_state r \<in> {0, 1, 2} \<and>
     check_passes (sql_in (o_terminal_state r) [0, 1, 2]) \<and>
     check_passes (sql_or (is_null (o_error_code r))
       (sql_between 1 128 (map_option (\<lambda>c. int (sql_text_length c)) (o_error_code r)))) \<and>
     check_passes (operation_lifecycle_check r)"

record upload_row =
  u_owner :: blob
  u_id :: blob
  u_target_path :: blob
  u_stage_path :: blob
  u_length :: i64
  u_offset :: i64
  u_state :: i64
  u_stage_device_be :: "blob option"
  u_stage_inode_be :: "blob option"
  u_target_revision :: "blob option"
  u_updated_at_ms :: i64
  u_expires_at_ms :: i64

definition null_or_length :: "nat \<Rightarrow> blob option \<Rightarrow> bool" where
  "null_or_length n b \<longleftrightarrow> (case b of None \<Rightarrow> True | Some x \<Rightarrow> length x = n)"

definition upload_check :: "upload_row \<Rightarrow> bool" where
  "upload_check r \<longleftrightarrow>
     length (u_owner r) = 32 \<and> length (u_id r) = 16 \<and>
     1 \<le> length (u_target_path r) \<and> length (u_target_path r) \<le> 65536 \<and>
     1 \<le> length (u_stage_path r) \<and> length (u_stage_path r) \<le> 65536 \<and>
     0 \<le> u_length r \<and> 0 \<le> u_offset r \<and> u_state r \<in> {0, 1, 2, 3, 4, 5} \<and>
     null_or_length 8 (u_stage_device_be r) \<and> null_or_length 8 (u_stage_inode_be r) \<and>
     null_or_length 32 (u_target_revision r) \<and>
     u_target_path r \<noteq> u_stage_path r \<and> u_offset r \<le> u_length r \<and>
     (u_stage_device_be r = None) = (u_stage_inode_be r = None) \<and>
     (u_state r \<noteq> 2 \<or> u_offset r = u_length r) \<and>
     (u_state r \<noteq> 1 \<or> u_offset r = u_length r) \<and>
     (u_state r \<noteq> 5 \<or> u_offset r = u_length r)"

record purge_row =
  p_owner :: blob
  p_id :: blob
  p_target_path :: blob
  p_trash_path :: blob
  p_source_device_be :: blob
  p_source_inode_be :: blob
  p_trash_revision :: "blob option"
  p_is_directory :: i64
  p_state :: i64
  p_attempts :: i64
  p_next_attempt_at_ms :: i64
  p_created_at_ms :: i64
  p_updated_at_ms :: i64

definition purge_check :: "purge_row \<Rightarrow> bool" where
  "purge_check r \<longleftrightarrow>
     length (p_owner r) = 32 \<and> length (p_id r) = 16 \<and>
     1 \<le> length (p_target_path r) \<and> length (p_target_path r) \<le> 65536 \<and>
     1 \<le> length (p_trash_path r) \<and> length (p_trash_path r) \<le> 65536 \<and>
     length (p_source_device_be r) = 8 \<and> length (p_source_inode_be r) = 8 \<and>
     null_or_length 32 (p_trash_revision r) \<and>
     p_is_directory r \<in> {0, 1} \<and> p_state r \<in> {0, 1, 2} \<and>
     0 \<le> p_attempts r \<and> p_attempts r \<le> 4294967295 \<and>
     p_target_path r \<noteq> p_trash_path r"

record database =
  operations :: "operation_row list"
  upload_sessions :: "upload_row list"
  purge_jobs :: "purge_row list"

definition o_key :: "operation_row \<Rightarrow> blob \<times> blob" where "o_key r = (o_owner r, o_id r)"
definition u_key :: "upload_row \<Rightarrow> blob \<times> blob" where "u_key r = (u_owner r, u_id r)"
definition p_key :: "purge_row \<Rightarrow> blob \<times> blob" where "p_key r = (p_owner r, p_id r)"

definition pair_of_key :: "StoreKey \<Rightarrow> blob \<times> blob" where
  "pair_of_key k = (owner k, key_id k)"

text \<open>
  \<^verbatim>\<open>INSERT\<close> fails on a violated constraint or a key that is already there, \<^verbatim>\<open>UPDATE\<close> on a violated
  constraint of a changed row.
\<close>

definition insert_row ::
  "('r \<Rightarrow> bool) \<Rightarrow> ('r \<Rightarrow> 'k) \<Rightarrow> 'r \<Rightarrow> 'r list \<Rightarrow> 'r list result"
where
  "insert_row check pk r rows =
     (if check r \<and> \<not> exists_where (\<lambda>r'. pk r' = pk r) rows then Inr (rows @ [r])
      else Inl ConstraintFailure)"

definition update_rows ::
  "('r \<Rightarrow> bool) \<Rightarrow> ('r \<Rightarrow> bool) \<Rightarrow> ('r \<Rightarrow> 'r) \<Rightarrow> 'r list \<Rightarrow> ('r list \<times> int) result"
where
  "update_rows check P f rows =
     (if list_all (\<lambda>r. P r \<longrightarrow> check (f r)) rows
      then Inr (update_where P f rows, count_where P rows)
      else Inl ConstraintFailure)"

section \<open>The worker\<close>

record StoreWorker =
  connection :: database
  clock :: StoreClock
  limits :: Limits
  deferred_abandons :: "(StoreKey \<times> blob) list"

record tick =
  wall :: "i64 option"
  monotonic :: nat
  fresh :: blob
  sql_ok :: bool
  read_ok :: bool

definition now_ms :: "tick \<Rightarrow> StoreWorker \<Rightarrow> StoreWorker \<times> i64 result" where
  "now_ms t w = (case observe (wall t) (monotonic t) (clock w) of (c, r) \<Rightarrow> (w\<lparr> clock := c \<rparr>, r))"

definition transact ::
  "tick \<Rightarrow> StoreWorker \<Rightarrow> (database \<Rightarrow> (database \<times> 'a) result) \<Rightarrow> StoreWorker \<times> 'a result"
where
  "transact t w body =
     (if \<not> sql_ok t then (w, Inl SqlFailure)
      else case body (connection w) of
        Inl e \<Rightarrow> (w, Inl e)
      | Inr (db, r) \<Rightarrow> (w\<lparr> connection := db \<rparr>, Inr r))"

text \<open>A command that reads the clock and then runs one transaction.\<close>

definition timed ::
  "tick \<Rightarrow> StoreWorker \<Rightarrow> (i64 \<Rightarrow> database \<Rightarrow> (database \<times> 'a) result) \<Rightarrow> StoreWorker \<times> 'a result"
where
  "timed t w body =
     (case now_ms t w of
        (w', Inl e) \<Rightarrow> (w', Inl e)
      | (w', Inr now) \<Rightarrow> transact t w' (body now))"

definition read_only ::
  "tick \<Rightarrow> StoreWorker \<Rightarrow> (database \<Rightarrow> 'a result) \<Rightarrow> StoreWorker \<times> 'a result"
where
  "read_only t w query = (w, if sql_ok t then query (connection w) else Inl SqlFailure)"

section \<open>Facts about SQL conditions\<close>

lemma sql_logic:
  "sql_and (Some True) c = c" "sql_and c (Some True) = c"
  "sql_and (Some False) c = Some False" "sql_and c (Some False) = Some False"
  "sql_or (Some True) c = Some True" "sql_or c (Some True) = Some True"
  "sql_or (Some False) c = c" "sql_or c (Some False) = c"
  "sql_and (Some a) (Some b) = Some (a \<and> b)" "sql_or (Some a) (Some b) = Some (a \<or> b)"
  "sql_not (Some a) = Some (\<not> a)"
  by (cases c; cases a; cases b; auto simp: sql_defs)+

section \<open>Facts about stored values\<close>

lemma terminal_round_trip [simp]: "terminal_from_database (terminal_code x) = Inr x"
  by (cases x) (simp_all add: terminal_from_database_def)

lemma upload_round_trip [simp]: "upload_from_database (upload_code x) = Inr x"
  by (cases x) (simp_all add: upload_from_database_def)

lemma purge_round_trip [simp]: "purge_from_database (purge_code x) = Inr x"
  by (cases x) (simp_all add: purge_from_database_def)

lemma upload_from_database_Inr:
  "upload_from_database v = Inr x \<longleftrightarrow> v = upload_code x"
  by (cases x) (auto simp: upload_from_database_def)

lemma purge_from_database_Inr:
  "purge_from_database v = Inr x \<longleftrightarrow> v = purge_code x"
  by (cases x) (auto simp: purge_from_database_def)

lemma terminal_from_database_Inr:
  "terminal_from_database v = Inr x \<longleftrightarrow> v = terminal_code x"
  by (cases x) (auto simp: terminal_from_database_def)

lemma upload_code_inj [simp]: "upload_code x = upload_code y \<longleftrightarrow> x = y"
  by (cases x; cases y) simp_all

lemma purge_code_inj [simp]: "purge_code x = purge_code y \<longleftrightarrow> x = y"
  by (cases x; cases y) simp_all

lemma terminal_code_inj [simp]: "terminal_code x = terminal_code y \<longleftrightarrow> x = y"
  by (cases x; cases y) simp_all

lemma validate_stored_path_ok:
  "validate_stored_path p = Inr u \<longleftrightarrow> p \<noteq> [] \<and> length p \<le> 65536 \<and> CHR 0x00 \<notin> set p"
  by (auto simp: validate_stored_path_def MAX_PATH_BYTES_def)

lemma validate_session_ok:
  "validate_session s = Inr u \<longleftrightarrow>
     validate_stored_path (target_path s) = Inr () \<and> validate_stored_path (stage_path s) = Inr () \<and>
     \<not> path_eq (target_path s) (stage_path s) \<and> durable_offset s \<le> upload_length s \<and>
     int (upload_length s) \<le> i64_max \<and>
     (fully_durable_state (us_state s) \<longrightarrow> durable_offset s = upload_length s)"
  by (auto simp: validate_session_def split: sum.splits)

lemma validate_new_ok:
  "validate_new j = Inr u \<longleftrightarrow>
     validate_stored_path (pj_target_path j) = Inr () \<and> validate_stored_path (trash_path j) = Inr () \<and>
     \<not> path_eq (pj_target_path j) (trash_path j) \<and> pj_state j = Prepared \<and>
     trash_revision j = None \<and> attempts j = 0"
  by (auto simp: validate_new_def split: sum.splits)

lemma validate_outcome_ok:
  "validate_outcome oc = Inr u \<longleftrightarrow>
     100 \<le> status oc \<and> status oc \<le> 599 \<and>
     (outcome_state oc = Succeeded \<longleftrightarrow> is_success (status oc)) \<and>
     (outcome_state oc = Succeeded \<longleftrightarrow> code oc = None) \<and>
     (\<forall>c. code oc = Some c \<longrightarrow> 1 \<le> char_count c \<and> char_count c \<le> MAX_ERROR_CODE_CHARS)"
  by (auto simp: validate_outcome_def split: option.splits)

lemma char_count_ascii:
  "list_all (\<lambda>c. of_char c < (128 :: nat)) s \<Longrightarrow> char_count s = length s"
  by (induction s) (auto simp: char_count_def is_cont_def)

section \<open>Facts about the clock\<close>

definition clock_ok :: "StoreClock \<Rightarrow> bool" where
  "clock_ok c \<longleftrightarrow> in_i64 (wall_anchor_ms c) \<and> in_i64 (last_ms c)"

text \<open>A wall clock reading is converted from the system time, so it is a non-negative \<^verbatim>\<open>i64\<close>.\<close>

definition wall_ok :: "i64 option \<Rightarrow> bool" where
  "wall_ok w \<longleftrightarrow> (case w of None \<Rightarrow> True | Some x \<Rightarrow> 0 \<le> x \<and> in_i64 x)"

lemma observe_Inr:
  assumes "observe w m c = (c', Inr now)"
  shows "last_ms c \<le> now" "last_ms c' = now" "w = Some x \<Longrightarrow> x \<le> now"
    "clock_ok c \<Longrightarrow> wall_ok w \<Longrightarrow> clock_ok c' \<and> in_i64 now"
    "wall_anchor_ms c + int (as_millis (m - monotonic_anchor c)) \<le> now"
  using assms
  by (auto simp: observe_def Let_def clock_ok_def wall_ok_def checked_add_i64_def i64_try_from_def
      in_i64_def max_def split: if_splits option.splits prod.splits)

lemma observe_Inl:
  "observe w m c = (c', Inl e) \<Longrightarrow> c' = c"
  by (auto simp: observe_def Let_def split: if_splits option.splits prod.splits)

fun clock_readings :: "StoreClock \<Rightarrow> (i64 option \<times> nat) list \<Rightarrow> i64 list" where
  "clock_readings c [] = []"
| "clock_readings c ((w, m) # obs) =
     (case observe w m c of
        (c', Inl e) \<Rightarrow> clock_readings c' obs
      | (c', Inr now) \<Rightarrow> now # clock_readings c' obs)"

definition clock_step :: "StoreClock \<Rightarrow> i64 option \<times> nat \<Rightarrow> StoreClock" where
  "clock_step c o' = (case o' of (w, m) \<Rightarrow> fst (observe w m c))"

interpretation clock: monotone_machine clock_step "\<lambda>_. True" "\<lambda>_. True" "\<lambda>c c'. last_ms c \<le> last_ms c'"
proof unfold_locales
  fix c :: StoreClock and o' :: "i64 option \<times> nat"
  obtain w m where o': "o' = (w, m)" by fastforce
  obtain c' r where ob: "observe w m c = (c', r)" by fastforce
  show "last_ms c \<le> last_ms (clock_step c o')"
  proof (cases r)
    case (Inl e)
    with ob observe_Inl [of w m c c' e] show ?thesis by (simp add: o' clock_step_def)
  next
    case (Inr now)
    with ob observe_Inr(1,2) [of w m c c' now] show ?thesis by (simp add: o' clock_step_def)
  qed
qed auto

lemma clock_readings_sorted: "sorted (last_ms c # clock_readings c obs)"
proof (induction obs arbitrary: c)
  case (Cons o' obs)
  obtain w m where o': "o' = (w, m)" by fastforce
  obtain c' r where ob: "observe w m c = (c', r)" by fastforce
  show ?case
  proof (cases r)
    case (Inl e)
    with ob observe_Inl [of w m c c' e] Cons.IH [of c'] show ?thesis by (simp add: o')
  next
    case (Inr now)
    with ob observe_Inr(1,2) [of w m c c' now] Cons.IH [of c'] show ?thesis by (auto simp: o')
  qed
qed simp

section \<open>Facts about transactions\<close>

lemma timed_frame [simp]:
  "limits (fst (timed t w body)) = limits w"
  "deferred_abandons (fst (timed t w body)) = deferred_abandons w"
  by (auto simp: timed_def now_ms_def transact_def split: sum.splits prod.splits)

lemma read_only_frame [simp]: "fst (read_only t w q) = w"
  by (simp add: read_only_def)

text \<open>
  The command either fails and leaves the tables alone, or reads a time, and its transaction
  succeeds.
\<close>

lemma timed_cases:
  obtains (failed) e where "snd (timed t w body) = Inl e" "connection (fst (timed t w body)) = connection w"
      "last_ms (clock w) \<le> last_ms (clock (fst (timed t w body)))"
  | (done') now db r where "observe (wall t) (monotonic t) (clock w) = (clock (fst (timed t w body)), Inr now)"
      "sql_ok t" "body now (connection w) = Inr (db, r)"
      "snd (timed t w body) = Inr r" "connection (fst (timed t w body)) = db"
proof -
  obtain c r where ob: "observe (wall t) (monotonic t) (clock w) = (c, r)" by fastforce
  show thesis
  proof (cases r)
    case (Inl e)
    with ob have "timed t w body = (w\<lparr>clock := c\<rparr>, Inl e)" by (simp add: timed_def now_ms_def)
    with observe_Inl ob Inl failed show thesis by fastforce
  next
    case (Inr now)
    then have tm: "timed t w body = transact t (w\<lparr>clock := c\<rparr>) (body now)"
      using ob by (simp add: timed_def now_ms_def)
    have le: "last_ms (clock w) \<le> last_ms c" using observe_Inr(1,2) ob Inr by fastforce
    show thesis
    proof (cases "sql_ok t \<and> (\<exists>db r. body now (connection w) = Inr (db, r))")
      case True
      then obtain db r where b: "sql_ok t" "body now (connection w) = Inr (db, r)" by blast
      with tm have "timed t w body = (w\<lparr>clock := c, connection := db\<rparr>, Inr r)"
        by (simp add: transact_def)
      with ob Inr b done' show thesis by simp
    next
      case False
      then have "\<exists>e. timed t w body = (w\<lparr>clock := c\<rparr>, Inl e)"
        by (cases "sql_ok t"; cases "body now (connection w)") (auto simp: tm transact_def)
      with le failed show thesis by fastforce
    qed
  qed
qed

lemma timed_clock_ok:
  assumes a: "clock_ok (clock w)" "wall_ok (wall t)"
  shows "clock_ok (clock (fst (timed t w body)))"
proof -
  obtain c r where ob: "observe (wall t) (monotonic t) (clock w) = (c, r)" by fastforce
  have "clock_ok c"
  proof (cases r)
    case (Inl e)
    with observe_Inl ob a(1) show ?thesis by blast
  next
    case (Inr now)
    with observe_Inr(4) ob a show ?thesis by blast
  qed
  with ob show ?thesis
    by (auto simp: timed_def now_ms_def transact_def split: sum.splits prod.splits)
qed

section \<open>Properties\<close>

text \<open>The store clock never runs backwards: whatever the wall clock and the monotonic
  clock report, the times it hands out form a non-decreasing sequence from the time it was
  created; each of them is at least the wall time read with it and at least the anchored time
  plus the monotonic time elapsed, and an error leaves the clock as it was.\<close>

lemma store_clock_monotone:
  "sorted (last_ms c # clock_readings c obs) \<and>
   (case observe w m c of
      (c', Inr now) \<Rightarrow>
        last_ms c' = now \<and> (case w of None \<Rightarrow> True | Some x \<Rightarrow> x \<le> now) \<and>
        wall_anchor_ms c + int (as_millis (m - monotonic_anchor c)) \<le> now
    | (c', Inl e) \<Rightarrow> c' = c)"
proof
  show "sorted (last_ms c # clock_readings c obs)" by (rule clock_readings_sorted)
  obtain c' r where ob: "observe w m c = (c', r)" by fastforce
  show "case observe w m c of
      (c', Inr now) \<Rightarrow>
        last_ms c' = now \<and> (case w of None \<Rightarrow> True | Some x \<Rightarrow> x \<le> now) \<and>
        wall_anchor_ms c + int (as_millis (m - monotonic_anchor c)) \<le> now
    | (c', Inl e) \<Rightarrow> c' = c"
  proof (cases r)
    case (Inl e)
    with ob observe_Inl [of w m c c' e] show ?thesis by simp
  next
    case (Inr now)
    with ob observe_Inr(2,3,5) [of w m c c' now] show ?thesis by (auto split: option.splits)
  qed
qed

end
