(* ===== verification/Store_Operation.thy ===== *)
theory Store_Operation
  imports Store_Model
begin

text \<open>
  \<^verbatim>\<open>src/server/state_store/operation.rs\<close>: the idempotency records of mutating requests.  A request
  begins an operation under a key and a fingerprint, marks the point of no return, and
  completes or abandons it; the record of a completed operation answers repetitions until it
  expires.  The lemmas show the table invariant, the lease discipline and the replay guarantee.
\<close>

section \<open>Commands\<close>

text \<open>\<^verbatim>\<open>LoadedOperation\<close> and \<^verbatim>\<open>load_operation\<close>; the row is read back as it was stored.\<close>

definition is_operation :: "StoreKey \<Rightarrow> operation_row \<Rightarrow> bool" where
  "is_operation key r \<longleftrightarrow> o_owner r = owner key \<and> o_id r = key_id key"

definition into_outcome :: "operation_row \<Rightarrow> StoredOutcome result" where
  "into_outcome r =
     (case o_terminal_state r of
        None \<Rightarrow> Inl MissingTerminalState
      | Some st \<Rightarrow>
          (case o_http_status r of
             None \<Rightarrow> Inl MissingHttpStatus
           | Some http \<Rightarrow>
               (case u16_try_from http of
                  None \<Rightarrow> Inl InvalidHttpStatus
                | Some s \<Rightarrow>
                    (case terminal_from_database st of
                       Inl e \<Rightarrow> Inl e
                     | Inr terminal \<Rightarrow>
                         let oc = \<lparr> status = s, outcome_state = terminal, code = o_error_code r \<rparr> in
                         (case validate_outcome oc of Inl e \<Rightarrow> Inl e | Inr _ \<Rightarrow> Inr oc)))))"

definition load_operation :: "StoreKey \<Rightarrow> database \<Rightarrow> operation_row option result" where
  "load_operation key db =
     (case select_where (is_operation key) (operations db) of
        None \<Rightarrow> Inr None
      | Some r \<Rightarrow>
          (case try_into_array 32 (o_fingerprint r) of
             None \<Rightarrow> Inl InvalidFingerprint
           | Some _ \<Rightarrow> Inr (Some r)))"

definition is_expired :: "i64 \<Rightarrow> operation_row \<Rightarrow> bool" where
  "is_expired now r \<longleftrightarrow>
     o_state r = OPERATION_COMPLETED \<and> (case o_expires_at_ms r of None \<Rightarrow> False | Some t \<Rightarrow> t \<le> now)"

definition purge_expired :: "i64 \<Rightarrow> database \<Rightarrow> database" where
  "purge_expired now db = db\<lparr> operations := delete_where (is_expired now) (operations db) \<rparr>"

definition reserved_row :: "StoreKey \<Rightarrow> blob \<Rightarrow> blob \<Rightarrow> i64 \<Rightarrow> operation_row" where
  "reserved_row key fingerprint lease now =
     \<lparr> o_owner = owner key, o_id = key_id key, o_fingerprint = fingerprint, o_lease = lease,
       o_state = OPERATION_RESERVED, o_terminal_state = None, o_http_status = None,
       o_error_code = None, o_created_at_ms = now, o_updated_at_ms = now, o_expires_at_ms = None \<rparr>"

definition begin_operation_tx ::
  "Limits \<Rightarrow> blob \<Rightarrow> StoreKey \<Rightarrow> blob \<Rightarrow> i64 \<Rightarrow> database \<Rightarrow> (database \<times> StoreBegin) result"
where
  "begin_operation_tx L lease key fingerprint now db =
     (let db = purge_expired now db in
      case load_operation key db of
        Inl e \<Rightarrow> Inl e
      | Inr (Some existing) \<Rightarrow>
          if o_fingerprint existing \<noteq> fingerprint then Inr (db, BeginConflict)
          else if o_state existing \<in> {OPERATION_RESERVED, OPERATION_COMMIT_STARTED}
          then Inr (db, OperationRunning)
          else if o_state existing = OPERATION_COMPLETED
          then (case into_outcome existing of Inl e \<Rightarrow> Inl e | Inr oc \<Rightarrow> Inr (db, Replay oc))
          else Inl (InvalidOperationState (o_state existing))
      | Inr None \<Rightarrow>
          let global_count = count_where (\<lambda>_. True) (operations db);
              owner_count = count_where (\<lambda>r. o_owner r = owner key) (operations db) in
          if capacity L \<le> global_count \<or> per_owner L \<le> owner_count then Inr (db, BeginFull)
          else (case insert_row operation_check o_key (reserved_row key fingerprint lease now)
                       (operations db) of
                  Inl e \<Rightarrow> Inl e
                | Inr rows \<Rightarrow> Inr (db\<lparr> operations := rows \<rparr>, Started lease)))"

definition begin_operation ::
  "tick \<Rightarrow> StoreKey \<Rightarrow> blob \<Rightarrow> StoreWorker \<Rightarrow> StoreWorker \<times> StoreBegin result"
where
  "begin_operation t key fingerprint w =
     timed t w (begin_operation_tx (limits w) (fresh t) key fingerprint)"

definition operation_status_tx ::
  "StoreKey \<Rightarrow> i64 \<Rightarrow> database \<Rightarrow> (database \<times> StoreStatus) result"
where
  "operation_status_tx key now db =
     (let db = purge_expired now db in
      case load_operation key db of
        Inl e \<Rightarrow> Inl e
      | Inr None \<Rightarrow> Inr (db, StatusNotFound)
      | Inr (Some r) \<Rightarrow>
          if o_state r \<in> {OPERATION_RESERVED, OPERATION_COMMIT_STARTED} then Inr (db, StatusRunning)
          else if o_state r = OPERATION_COMPLETED
          then (case into_outcome r of Inl e \<Rightarrow> Inl e | Inr oc \<Rightarrow> Inr (db, Completed oc))
          else Inl (InvalidOperationState (o_state r)))"

definition operation_status :: "tick \<Rightarrow> StoreKey \<Rightarrow> StoreWorker \<Rightarrow> StoreWorker \<times> StoreStatus result" where
  "operation_status t key w = timed t w (operation_status_tx key)"

text \<open>The conditions and assignments of the \<^verbatim>\<open>UPDATE\<close> and \<^verbatim>\<open>DELETE\<close> statements.\<close>

definition leased_in :: "StoreKey \<Rightarrow> blob \<Rightarrow> i64 set \<Rightarrow> operation_row \<Rightarrow> bool" where
  "leased_in key lease states r \<longleftrightarrow> is_operation key r \<and> o_lease r = lease \<and> o_state r \<in> states"

definition set_commit_started :: "i64 \<Rightarrow> operation_row \<Rightarrow> operation_row" where
  "set_commit_started now r = r\<lparr> o_state := OPERATION_COMMIT_STARTED, o_updated_at_ms := now \<rparr>"

definition set_completed :: "StoredOutcome \<Rightarrow> i64 \<Rightarrow> i64 \<Rightarrow> operation_row \<Rightarrow> operation_row" where
  "set_completed oc now expires_at r =
     r\<lparr> o_state := OPERATION_COMPLETED, o_terminal_state := Some (terminal_code (outcome_state oc)),
        o_http_status := Some (int (status oc)), o_error_code := code oc,
        o_updated_at_ms := now, o_expires_at_ms := Some expires_at \<rparr>"

definition mark_commit_started_tx ::
  "StoreKey \<Rightarrow> blob \<Rightarrow> i64 \<Rightarrow> database \<Rightarrow> (database \<times> bool) result"
where
  "mark_commit_started_tx key lease now db =
     (case update_rows operation_check (leased_in key lease {OPERATION_RESERVED})
             (set_commit_started now) (operations db) of
        Inl e \<Rightarrow> Inl e
      | Inr (rows, changed) \<Rightarrow> Inr (db\<lparr> operations := rows \<rparr>, changed = 1))"

definition mark_operation_commit_started ::
  "tick \<Rightarrow> StoreKey \<Rightarrow> blob \<Rightarrow> StoreWorker \<Rightarrow> StoreWorker \<times> bool result"
where
  "mark_operation_commit_started t key lease w = timed t w (mark_commit_started_tx key lease)"

definition complete_operation_tx ::
  "Limits \<Rightarrow> StoreKey \<Rightarrow> blob \<Rightarrow> StoredOutcome \<Rightarrow> i64 \<Rightarrow> database \<Rightarrow> (database \<times> bool) result"
where
  "complete_operation_tx L key lease oc now db =
     (case expiration_time now (ttl_ms L) of
        Inl e \<Rightarrow> Inl e
      | Inr expires_at \<Rightarrow>
          (case update_rows operation_check
                  (leased_in key lease {OPERATION_RESERVED, OPERATION_COMMIT_STARTED})
                  (set_completed oc now expires_at) (operations db) of
             Inl e \<Rightarrow> Inl e
           | Inr (rows, changed) \<Rightarrow> Inr (db\<lparr> operations := rows \<rparr>, changed = 1)))"

text \<open>The handle validates the outcome before the actor ever sees the command.\<close>

definition complete_operation ::
  "tick \<Rightarrow> StoreKey \<Rightarrow> blob \<Rightarrow> StoredOutcome \<Rightarrow> StoreWorker \<Rightarrow> StoreWorker \<times> bool result"
where
  "complete_operation t key lease oc w =
     (case validate_outcome oc of
        Inl e \<Rightarrow> (w, Inl e)
      | Inr _ \<Rightarrow> timed t w (complete_operation_tx (limits w) key lease oc))"

definition uncertain :: StoredOutcome where
  "uncertain = \<lparr> status = UNKNOWN_STATUS, outcome_state = UnknownOutcome, code = Some UNKNOWN_CODE \<rparr>"

definition abandon_operation_tx ::
  "Limits \<Rightarrow> StoreKey \<Rightarrow> blob \<Rightarrow> i64 \<Rightarrow> database \<Rightarrow> (database \<times> unit) result"
where
  "abandon_operation_tx L key lease now db =
     (case expiration_time now (ttl_ms L) of
        Inl e \<Rightarrow> Inl e
      | Inr expires_at \<Rightarrow>
          let reserved = leased_in key lease {OPERATION_RESERVED};
              removed = count_where reserved (operations db);
              rows = delete_where reserved (operations db) in
          if removed = 0
          then (case update_rows operation_check (leased_in key lease {OPERATION_COMMIT_STARTED})
                       (set_completed uncertain now expires_at) rows of
                  Inl e \<Rightarrow> Inl e
                | Inr (rows, _) \<Rightarrow> Inr (db\<lparr> operations := rows \<rparr>, ()))
          else Inr (db\<lparr> operations := rows \<rparr>, ()))"

definition abandon_operation :: "tick \<Rightarrow> StoreKey \<Rightarrow> blob \<Rightarrow> StoreWorker \<Rightarrow> StoreWorker \<times> unit result" where
  "abandon_operation t key lease w = timed t w (abandon_operation_tx (limits w) key lease)"

section \<open>The operation commands as a machine\<close>

datatype operation_command =
    Begin StoreKey blob
  | Status StoreKey
  | MarkCommitStarted StoreKey blob
  | Complete StoreKey blob StoredOutcome
  | Abandon StoreKey blob

fun operation_step :: "StoreWorker \<Rightarrow> tick \<times> operation_command \<Rightarrow> StoreWorker" where
  "operation_step w (t, Begin key fp) = fst (begin_operation t key fp w)"
| "operation_step w (t, Status key) = fst (operation_status t key w)"
| "operation_step w (t, MarkCommitStarted key lease) = fst (mark_operation_commit_started t key lease w)"
| "operation_step w (t, Complete key lease oc) = fst (complete_operation t key lease oc w)"
| "operation_step w (t, Abandon key lease) = fst (abandon_operation t key lease w)"

text \<open>What the argument types of the commands guarantee.\<close>

fun command_ok :: "operation_command \<Rightarrow> bool" where
  "command_ok (Begin key fp) \<longleftrightarrow> key_ok key \<and> length fp = 32"
| "command_ok (Status key) \<longleftrightarrow> key_ok key"
| "command_ok (MarkCommitStarted key lease) \<longleftrightarrow> key_ok key \<and> length lease = 16"
| "command_ok (Complete key lease oc) \<longleftrightarrow> key_ok key \<and> length lease = 16 \<and> status oc \<le> 65535"
| "command_ok (Abandon key lease) \<longleftrightarrow> key_ok key \<and> length lease = 16"

definition tick_ok :: "tick \<Rightarrow> bool" where
  "tick_ok t \<longleftrightarrow> wall_ok (wall t) \<and> length (fresh t) = 16"

fun operation_event_ok :: "tick \<times> operation_command \<Rightarrow> bool" where
  "operation_event_ok (t, c) \<longleftrightarrow> tick_ok t \<and> command_ok c"

section \<open>The table invariant\<close>

definition operation_row_ok :: "operation_row \<Rightarrow> bool" where
  "operation_row_ok r \<longleftrightarrow>
     operation_check r \<and> (o_state r = OPERATION_COMPLETED \<longrightarrow> (\<exists>oc. into_outcome r = Inr oc))"

definition operations_ok :: "Limits \<Rightarrow> database \<Rightarrow> bool" where
  "operations_ok L db \<longleftrightarrow>
     keys_distinct o_key (operations db) \<and> list_all operation_row_ok (operations db) \<and>
     count_where (\<lambda>_. True) (operations db) \<le> capacity L \<and>
     (\<forall>ow. count_where (\<lambda>r. o_owner r = ow) (operations db) \<le> per_owner L)"

interpretation commit_update: row_update o_key "set_commit_started now" for now
  by unfold_locales (simp add: o_key_def set_commit_started_def)

interpretation complete_update: row_update o_key "set_completed oc now expires_at" for oc now expires_at
  by unfold_locales (simp add: o_key_def set_completed_def)

lemma is_operation_key: "is_operation key r \<longleftrightarrow> o_key r = pair_of_key key"
  by (auto simp: is_operation_def o_key_def pair_of_key_def)

lemma update_rows_Inr:
  "update_rows check P f rows = Inr (rows', n) \<longleftrightarrow>
     rows' = update_where P f rows \<and> n = count_where P rows \<and> (\<forall>r \<in> set rows. P r \<longrightarrow> check (f r))"
  by (auto simp: update_rows_def list_all_iff)

lemma insert_row_Inr:
  "insert_row check pk r rows = Inr rows' \<longleftrightarrow>
     rows' = rows @ [r] \<and> check r \<and> pk r \<notin> pk ` set rows"
  by (auto simp: insert_row_def exists_where_def list_ex_iff dest: sym)

lemma operation_check_open:
  assumes "operation_check r" "o_state r \<in> {0, 1}"
  shows "o_terminal_state r = None \<and> o_http_status r = None \<and> o_error_code r = None \<and> o_expires_at_ms r = None"
proof -
  have "sql_in (Some (o_state r)) [0, 1] = Some True" "sql_in (Some (o_state r)) [2] = Some False"
    using assms(2) by (auto simp: sql_in_def)
  then have "check_passes (operation_lifecycle_check r) \<longleftrightarrow> ?thesis"
    by (auto simp: operation_lifecycle_check_def is_null_def sql_logic check_passes_def)
  with assms(1) show ?thesis by (simp add: operation_check_def)
qed

lemma operation_check_completed:
  assumes "operation_check r" "o_state r = 2"
  shows "o_terminal_state r \<noteq> None \<and> o_expires_at_ms r \<noteq> None"
proof -
  have "sql_in (Some (o_state r)) [0, 1] = Some False" "sql_in (Some (o_state r)) [2] = Some True"
    using assms(2) by (auto simp: sql_in_def)
  moreover have "check_passes (operation_lifecycle_check r)" using assms(1) by (simp add: operation_check_def)
  ultimately show ?thesis
    by (cases "o_terminal_state r"; cases "o_expires_at_ms r")
      (simp_all add: operation_lifecycle_check_def is_null_def sql_logic check_passes_def)
qed

lemma operation_check_state: "operation_check r \<Longrightarrow> o_state r \<in> {0, 1, 2}"
  by (simp add: operation_check_def)

lemma into_outcome_completed:
  assumes "validate_outcome oc = Inr u"
  shows "into_outcome (set_completed oc now expires_at r) = Inr oc"
proof -
  have "status oc \<le> 599" using assms by (auto simp: validate_outcome_ok)
  then have "u16_try_from (int (status oc)) = Some (status oc)" by (simp add: u16_try_from_def)
  then show ?thesis using assms by (cases oc) (simp add: into_outcome_def set_completed_def Let_def)
qed

lemma uncertain_valid: "validate_outcome uncertain = Inr ()"
  unfolding validate_outcome_ok
  by (simp add: uncertain_def UNKNOWN_STATUS_def UNKNOWN_CODE_def is_success_def char_count_def
      is_cont_def MAX_ERROR_CODE_CHARS_def)

lemma operations_ok_delete:
  "operations_ok L db \<Longrightarrow> operations_ok L (db\<lparr>operations := delete_where P (operations db)\<rparr>)"
  unfolding operations_ok_def
  by (auto simp: list_all_iff intro: order_trans [OF count_delete_where_le])

lemma operations_ok_update:
  assumes ok: "operations_ok L db" and f: "row_update o_key f"
    and rows: "\<And>r. r \<in> set (operations db) \<Longrightarrow> P r \<Longrightarrow> operation_row_ok (f r)"
  shows "operations_ok L (db\<lparr>operations := update_where P f (operations db)\<rparr>)"
proof -
  have "o_owner (f r) = o_owner r" for r
    using row_update.pk_frame [OF f, of r] by (simp add: o_key_def)
  then have "count_where (\<lambda>r. o_owner r = ow) (update_where P f (operations db)) =
      count_where (\<lambda>r. o_owner r = ow) (operations db)" for ow
    by (simp add: count_update_where)
  with ok rows row_update.distinct_update [OF f] show ?thesis
    by (auto simp: operations_ok_def list_all_iff set_update_where count_update_where)
qed

text \<open>What the successful transactions do to the tables.\<close>

lemma reserved_row_fields [simp]:
  "o_fingerprint (reserved_row key fp lease now) = fp" "o_lease (reserved_row key fp lease now) = lease"
  "o_state (reserved_row key fp lease now) = 0" "o_owner (reserved_row key fp lease now) = owner key"
  "is_operation key (reserved_row key fp lease now)"
  by (simp_all add: reserved_row_def is_operation_def)

lemma load_operation_Inr:
  "load_operation key db = Inr x \<Longrightarrow> select_where (is_operation key) (operations db) = x"
  by (auto simp: load_operation_def split: option.splits)

lemma begin_tx_cases:
  assumes "begin_operation_tx L lease key fp now db = Inr (db', res)"
  obtains (found) r where "select_where (is_operation key) (operations (purge_expired now db)) = Some r"
      "db' = purge_expired now db"
      "res = BeginConflict \<and> o_fingerprint r \<noteq> fp \<or>
       res = OperationRunning \<and> o_fingerprint r = fp \<and> o_state r \<in> {0, 1} \<or>
       (\<exists>oc. res = Replay oc \<and> o_fingerprint r = fp \<and> o_state r = 2 \<and> into_outcome r = Inr oc)"
  | (full) "select_where (is_operation key) (operations (purge_expired now db)) = None"
      "db' = purge_expired now db" "res = BeginFull"
  | (started) "select_where (is_operation key) (operations (purge_expired now db)) = None"
      "db' = (purge_expired now db)\<lparr>operations := operations (purge_expired now db) @
          [reserved_row key fp lease now]\<rparr>"
      "res = Started lease" "operation_check (reserved_row key fp lease now)"
      "o_key (reserved_row key fp lease now) \<notin> o_key ` set (operations (purge_expired now db))"
      "count_where (\<lambda>_. True) (operations (purge_expired now db)) < capacity L"
      "count_where (\<lambda>r. o_owner r = owner key) (operations (purge_expired now db)) < per_owner L"
proof -
  define db1 where "db1 = purge_expired now db"
  note assms = assms [unfolded begin_operation_tx_def Let_def, folded db1_def]
  note found = found [folded db1_def] and full = full [folded db1_def] and started = started [folded db1_def]
  obtain x where x: "load_operation key db1 = Inr x" using assms by (cases "load_operation key db1") auto
  note sel = load_operation_Inr [OF x]
  show thesis
  proof (cases x)
    case None
    note sel = sel [unfolded None]
    show thesis
    proof (cases "capacity L \<le> count_where (\<lambda>_. True) (operations db1) \<or>
        per_owner L \<le> count_where (\<lambda>r. o_owner r = owner key) (operations db1)")
      case True
      with assms x None have "db' = db1" "res = BeginFull" by simp_all
      with sel show thesis by (rule full)
    next
      case False
      with assms x None have r: "db' = db1\<lparr>operations := operations db1 @ [reserved_row key fp lease now]\<rparr>"
        "res = Started lease" "operation_check (reserved_row key fp lease now)"
        "o_key (reserved_row key fp lease now) \<notin> o_key ` set (operations db1)"
        by (simp_all add: insert_row_Inr split: sum.splits)
      from False have "count_where (\<lambda>_. True) (operations db1) < capacity L"
        "count_where (\<lambda>r. o_owner r = owner key) (operations db1) < per_owner L" by simp_all
      with sel r show thesis by (rule started)
    qed
  next
    case (Some r)
    note sel = sel [unfolded Some]
    from assms x Some have "db' = db1" "res = BeginConflict \<and> o_fingerprint r \<noteq> fp \<or>
       res = OperationRunning \<and> o_fingerprint r = fp \<and> o_state r \<in> {0, 1} \<or>
       (\<exists>oc. res = Replay oc \<and> o_fingerprint r = fp \<and> o_state r = 2 \<and> into_outcome r = Inr oc)"
      by (auto split: if_splits sum.splits)
    with sel show thesis by (rule found)
  qed
qed

lemma status_tx_db:
  "operation_status_tx key now db = Inr (db', res) \<Longrightarrow> db' = purge_expired now db"
  by (auto simp: operation_status_tx_def Let_def split: if_splits sum.splits option.splits)

lemma mark_tx_Inr:
  "mark_commit_started_tx key lease now db = Inr (db', changed) \<longleftrightarrow>
     db' = db\<lparr>operations := update_where (leased_in key lease {0}) (set_commit_started now) (operations db)\<rparr> \<and>
     changed = (count_where (leased_in key lease {0}) (operations db) = 1) \<and>
     (\<forall>r \<in> set (operations db). leased_in key lease {0} r \<longrightarrow> operation_check (set_commit_started now r))"
  by (auto simp: mark_commit_started_tx_def update_rows_def list_all_iff split: if_splits)

lemma complete_tx_Inr:
  "complete_operation_tx L key lease oc now db = Inr (db', changed) \<longleftrightarrow>
     in_i64 (now + ttl_ms L) \<and>
     db' = db\<lparr>operations := update_where (leased_in key lease {0, 1})
                 (set_completed oc now (now + ttl_ms L)) (operations db)\<rparr> \<and>
     changed = (count_where (leased_in key lease {0, 1}) (operations db) = 1) \<and>
     (\<forall>r \<in> set (operations db). leased_in key lease {0, 1} r \<longrightarrow>
        operation_check (set_completed oc now (now + ttl_ms L) r))"
  by (auto simp: complete_operation_tx_def expiration_time_def checked_add_i64_def update_rows_def
      list_all_iff split: if_splits)

lemma abandon_tx_cases:
  assumes "abandon_operation_tx L key lease now db = Inr (db', u)"
  obtains (removed) "db' = db\<lparr>operations := delete_where (leased_in key lease {0}) (operations db)\<rparr>"
      "count_where (leased_in key lease {0}) (operations db) \<noteq> 0"
  | (updated) "db' = db\<lparr>operations := update_where (leased_in key lease {1})
                  (set_completed uncertain now (now + ttl_ms L)) (operations db)\<rparr>"
      "count_where (leased_in key lease {0}) (operations db) = 0"
      "\<forall>r \<in> set (operations db). leased_in key lease {1} r \<longrightarrow>
        operation_check (set_completed uncertain now (now + ttl_ms L) r)"
proof -
  have "delete_where (leased_in key lease {0}) (operations db) = operations db"
    if "count_where (leased_in key lease {0}) (operations db) = 0"
    using that by (auto simp: count_where_0 delete_where_def filter_id_conv)
  with assms that show thesis
    by (auto simp: abandon_operation_tx_def expiration_time_def checked_add_i64_def update_rows_def
        list_all_iff Let_def split: if_splits)
qed

lemma purge_expired_fields [simp]:
  "upload_sessions (purge_expired now db) = upload_sessions db"
  "purge_jobs (purge_expired now db) = purge_jobs db"
  "operations (purge_expired now db) = delete_where (is_expired now) (operations db)"
  by (simp_all add: purge_expired_def)

lemma purge_expired_ok: "operations_ok L db \<Longrightarrow> operations_ok L (purge_expired now db)"
  by (simp add: purge_expired_def operations_ok_delete)

lemma begin_tx_ok:
  assumes ok: "operations_ok L db" and tx: "begin_operation_tx L lease key fp now db = Inr (db', res)"
  shows "operations_ok L db'"
  using tx
proof (cases rule: begin_tx_cases)
  case started
  let ?rows = "operations (purge_expired now db)"
  have "operations_ok L (purge_expired now db)" using ok by (rule purge_expired_ok)
  with started(4-7) show ?thesis
    unfolding started(2) operations_ok_def
    by (auto simp: keys_distinct_append list_all_iff operation_row_ok_def)
qed (use ok in \<open>auto intro: purge_expired_ok\<close>)

lemma completed_row_ok:
  "\<lbrakk> validate_outcome oc = Inr (); operation_check (set_completed oc now e r) \<rbrakk> \<Longrightarrow>
   operation_row_ok (set_completed oc now e r)"
  by (auto simp: operation_row_ok_def into_outcome_completed)

lemma mark_tx_ok:
  assumes "operations_ok L db" "mark_commit_started_tx key lease now db = Inr (db', res)"
  shows "operations_ok L db'"
proof -
  have "operations_ok L (db\<lparr>operations := update_where (leased_in key lease {0}) (set_commit_started now)
      (operations db)\<rparr>)"
    by (rule operations_ok_update [OF assms(1) commit_update.row_update_axioms])
      (use assms(2) in \<open>auto simp: mark_tx_Inr operation_row_ok_def set_commit_started_def\<close>)
  with assms(2) show ?thesis by (simp add: mark_tx_Inr)
qed

lemma complete_tx_ok:
  assumes "operations_ok L db" "validate_outcome oc = Inr ()"
    "complete_operation_tx L key lease oc now db = Inr (db', res)"
  shows "operations_ok L db'"
proof -
  have "operations_ok L (db\<lparr>operations := update_where (leased_in key lease {0, 1})
      (set_completed oc now (now + ttl_ms L)) (operations db)\<rparr>)"
    by (rule operations_ok_update [OF assms(1) complete_update.row_update_axioms])
      (use assms(2,3) completed_row_ok in \<open>auto simp: complete_tx_Inr\<close>)
  with assms(3) show ?thesis by (simp add: complete_tx_Inr)
qed

lemma abandon_tx_ok:
  assumes ok: "operations_ok L db" and tx: "abandon_operation_tx L key lease now db = Inr (db', res)"
  shows "operations_ok L db'"
  using tx
proof (cases rule: abandon_tx_cases)
  case removed
  with ok operations_ok_delete show ?thesis by simp
next
  case updated
  have "operations_ok L (db\<lparr>operations := update_where (leased_in key lease {1})
      (set_completed uncertain now (now + ttl_ms L)) (operations db)\<rparr>)"
    by (rule operations_ok_update [OF ok complete_update.row_update_axioms])
      (use updated(3) completed_row_ok uncertain_valid in auto)
  with updated(1) show ?thesis by simp
qed

lemma timed_keeps:
  assumes "P (connection w)" "\<And>now db' r. body now (connection w) = Inr (db', r) \<Longrightarrow> P db'"
  shows "P (connection (fst (timed t w body)))"
  by (cases rule: timed_cases [of t w body]) (use assms in auto)

lemmas timed_keeps_ok = timed_keeps [where P = "operations_ok L" for L]

definition operation_store_ok :: "StoreWorker \<Rightarrow> bool" where
  "operation_store_ok w \<longleftrightarrow> clock_ok (clock w) \<and> operations_ok (limits w) (connection w)"

lemma complete_operation_fst:
  "fst (complete_operation t key lease oc w) =
     (if validate_outcome oc = Inr () then fst (timed t w (complete_operation_tx (limits w) key lease oc)) else w)"
  by (auto simp: complete_operation_def split: sum.splits)

lemma operation_step_frame:
  "limits (operation_step w e) = limits w" "deferred_abandons (operation_step w e) = deferred_abandons w"
  by (cases e; cases "snd e"; simp add: begin_operation_def operation_status_def
      mark_operation_commit_started_def complete_operation_fst abandon_operation_def)+

lemma operation_step_ok:
  assumes ok: "operation_store_ok w" and e: "operation_event_ok e"
  shows "operation_store_ok (operation_step w e)"
proof -
  obtain t c where tc: "e = (t, c)" by fastforce
  have wall: "wall_ok (wall t)" and cl: "clock_ok (clock w)" and ops: "operations_ok (limits w) (connection w)"
    using ok e by (auto simp: tc tick_ok_def operation_store_ok_def)
  have "clock_ok (clock (operation_step w e))"
    using cl wall
    by (cases c) (simp_all add: tc timed_clock_ok begin_operation_def operation_status_def
      mark_operation_commit_started_def complete_operation_fst abandon_operation_def)
  moreover have "operations_ok (limits w) (connection (operation_step w e))"
  proof (cases c)
    case (Begin key fp)
    show ?thesis unfolding tc Begin operation_step.simps begin_operation_def
      by (rule timed_keeps_ok [OF ops]) (rule begin_tx_ok [OF ops])
  next
    case (Status key)
    show ?thesis unfolding tc Status operation_step.simps operation_status_def
      by (rule timed_keeps_ok [OF ops]) (use status_tx_db purge_expired_ok [OF ops] in blast)
  next
    case (MarkCommitStarted key lease)
    show ?thesis unfolding tc MarkCommitStarted operation_step.simps mark_operation_commit_started_def
      by (rule timed_keeps_ok [OF ops]) (rule mark_tx_ok [OF ops])
  next
    case (Complete key lease oc)
    have "operations_ok (limits w)
        (connection (fst (timed t w (complete_operation_tx (limits w) key lease oc))))"
      if "validate_outcome oc = Inr ()"
      by (rule timed_keeps_ok [OF ops]) (rule complete_tx_ok [OF ops that])
    with ops show ?thesis by (simp add: tc Complete complete_operation_fst)
  next
    case (Abandon key lease)
    show ?thesis unfolding tc Abandon operation_step.simps abandon_operation_def
      by (rule timed_keeps_ok [OF ops]) (rule abandon_tx_ok [OF ops])
  qed
  ultimately show ?thesis by (simp add: operation_store_ok_def operation_step_frame)
qed

interpretation operation_machine: invariant_machine operation_step operation_event_ok operation_store_ok
  by unfold_locales (rule operation_step_ok)

section \<open>Rows that commands leave alone\<close>

text \<open>A row that some lease still owns is changed only by commands that present this lease.\<close>

fun uses_lease :: "StoreKey \<Rightarrow> blob \<Rightarrow> operation_command \<Rightarrow> bool" where
  "uses_lease key lease (MarkCommitStarted k l) \<longleftrightarrow> k = key \<and> l = lease"
| "uses_lease key lease (Complete k l _) \<longleftrightarrow> k = key \<and> l = lease"
| "uses_lease key lease (Abandon k l) \<longleftrightarrow> k = key \<and> l = lease"
| "uses_lease key lease _ \<longleftrightarrow> False"

lemma key_of_operation: "is_operation k r \<Longrightarrow> is_operation k' r \<Longrightarrow> k = k'"
  by (simp add: is_operation_def)

lemma update_keeps: "\<lbrakk> r \<in> set rows; \<not> P r \<rbrakk> \<Longrightarrow> r \<in> set (update_where P f rows)"
  by (force simp: set_update_where)

lemma purge_keeps: "\<lbrakk> r \<in> set (operations db); \<not> is_expired now r \<rbrakk> \<Longrightarrow> r \<in> set (operations (purge_expired now db))"
  by simp

lemma begin_tx_keeps:
  assumes "begin_operation_tx L lease key fp now db = Inr (db', res)"
    "r \<in> set (operations db)" "\<not> is_expired now r"
  shows "r \<in> set (operations db')"
  using assms(1) by (cases rule: begin_tx_cases) (use assms(2,3) in auto)

lemma tx_keeps_leased:
  assumes r: "r \<in> set (operations db)" "is_operation key r" "o_lease r = lease" "o_state r \<in> {0, 1}"
  shows "mark_commit_started_tx k l now db = Inr (db', m) \<Longrightarrow> (k, l) \<noteq> (key, lease) \<Longrightarrow> r \<in> set (operations db')"
    "complete_operation_tx L k l oc now db = Inr (db', m) \<Longrightarrow> (k, l) \<noteq> (key, lease) \<Longrightarrow> r \<in> set (operations db')"
    "abandon_operation_tx L k l now db = Inr (db', u) \<Longrightarrow> (k, l) \<noteq> (key, lease) \<Longrightarrow> r \<in> set (operations db')"
proof -
  assume other: "(k, l) \<noteq> (key, lease)"
  then have no: "\<not> leased_in k l S r" for S
    using r key_of_operation by (auto simp: leased_in_def)
  show "mark_commit_started_tx k l now db = Inr (db', m) \<Longrightarrow> r \<in> set (operations db')"
    using r(1) no by (auto simp: mark_tx_Inr update_keeps)
  show "complete_operation_tx L k l oc now db = Inr (db', m) \<Longrightarrow> r \<in> set (operations db')"
    using r(1) no by (auto simp: complete_tx_Inr update_keeps)
  show "r \<in> set (operations db')" if "abandon_operation_tx L k l now db = Inr (db', u)"
    using that by (cases rule: abandon_tx_cases) (use r(1) no in \<open>auto simp: update_keeps\<close>)
qed

lemma open_not_expired: "o_state r \<in> {0, 1} \<Longrightarrow> \<not> is_expired now r"
  by (auto simp: is_expired_def)

lemmas timed_keeps_row = timed_keeps [where P = "\<lambda>db. r \<in> set (operations db)" for r]

lemma status_tx_keeps:
  assumes "operation_status_tx key now db = Inr (db', res)" "r \<in> set (operations db)" "\<not> is_expired now r"
  shows "r \<in> set (operations db')"
  unfolding status_tx_db [OF assms(1)] using assms(2,3) by simp

lemma step_keeps_leased:
  assumes r: "r \<in> set (operations (connection w))" "is_operation key r" "o_lease r = lease" "o_state r \<in> {0, 1}"
    and e: "\<not> uses_lease key lease (snd e)"
  shows "r \<in> set (operations (connection (operation_step w e)))"
proof -
  obtain t c where tc: "e = (t, c)" by fastforce
  note ne = open_not_expired [OF r(4)]
  show ?thesis
  proof (cases c)
    case (Begin k fp)
    show ?thesis unfolding tc Begin operation_step.simps begin_operation_def
      by (rule timed_keeps_row [OF r(1)]) (rule begin_tx_keeps [OF _ r(1) ne])
  next
    case (Status k)
    show ?thesis unfolding tc Status operation_step.simps operation_status_def
      by (rule timed_keeps_row [OF r(1)]) (rule status_tx_keeps [OF _ r(1) ne])
  next
    case (MarkCommitStarted k l)
    with e have "(k, l) \<noteq> (key, lease)" by (auto simp: tc)
    then show ?thesis unfolding tc MarkCommitStarted operation_step.simps mark_operation_commit_started_def
      using tx_keeps_leased(1) [OF r] by (blast intro: timed_keeps_row [OF r(1)])
  next
    case (Complete k l oc)
    with e have "(k, l) \<noteq> (key, lease)" by (auto simp: tc)
    then have "r \<in> set (operations (connection (fst (timed t w (complete_operation_tx (limits w) k l oc)))))"
      using tx_keeps_leased(2) [OF r] by (blast intro: timed_keeps_row [OF r(1)])
    with r(1) show ?thesis by (simp add: tc Complete complete_operation_fst)
  next
    case (Abandon k l)
    with e have "(k, l) \<noteq> (key, lease)" by (auto simp: tc)
    then show ?thesis unfolding tc Abandon operation_step.simps abandon_operation_def
      using tx_keeps_leased(3) [OF r] by (blast intro: timed_keeps_row [OF r(1)])
  qed
qed

lemma run_keeps_leased:
  assumes "r \<in> set (operations (connection w))" "is_operation key r" "o_lease r = lease" "o_state r \<in> {0, 1}"
    "list_all (\<lambda>e. \<not> uses_lease key lease (snd e)) es"
  shows "r \<in> set (operations (connection (run_steps operation_step w es)))"
  using assms by (induction es arbitrary: w) (auto intro: step_keeps_leased)

text \<open>A completed row stays until the clock reaches its expiry.\<close>

lemma completed_not_leased: "o_state r = 2 \<Longrightarrow> \<not> leased_in k l {0} r \<and> \<not> leased_in k l {1} r \<and> \<not> leased_in k l {0, 1} r"
  by (simp add: leased_in_def)

lemma timed_keeps_until:
  assumes r: "r \<in> set (operations (connection w))"
    and tx: "\<And>now db' x. \<lbrakk> body now (connection w) = Inr (db', x); now < e \<rbrakk> \<Longrightarrow> r \<in> set (operations db')"
  shows "r \<in> set (operations (connection (fst (timed t w body)))) \<or> e \<le> last_ms (clock (fst (timed t w body)))"
proof (cases rule: timed_cases [of t w body])
  case (done' now db x)
  with tx observe_Inr(2) [OF done'(1)] show ?thesis by force
qed (use r in simp)

lemma completed_tx_keeps:
  assumes r: "r \<in> set (operations db)" "o_state r = 2"
  shows "mark_commit_started_tx k l now db = Inr (db', m) \<Longrightarrow> r \<in> set (operations db')"
    "complete_operation_tx L k l oc now db = Inr (db', m) \<Longrightarrow> r \<in> set (operations db')"
    "abandon_operation_tx L k l now db = Inr (db', u) \<Longrightarrow> r \<in> set (operations db')"
proof -
  show "mark_commit_started_tx k l now db = Inr (db', m) \<Longrightarrow> r \<in> set (operations db')"
    using r(1) completed_not_leased [OF r(2)] by (simp add: mark_tx_Inr update_keeps)
  show "complete_operation_tx L k l oc now db = Inr (db', m) \<Longrightarrow> r \<in> set (operations db')"
    using r(1) completed_not_leased [OF r(2)] by (simp add: complete_tx_Inr update_keeps)
  show "r \<in> set (operations db')" if "abandon_operation_tx L k l now db = Inr (db', u)"
    using that by (cases rule: abandon_tx_cases)
      (use r(1) completed_not_leased [OF r(2)] in \<open>auto simp: update_keeps\<close>)
qed

lemma step_keeps_completed:
  assumes r: "r \<in> set (operations (connection w))" "o_state r = 2" "o_expires_at_ms r = Some e"
  shows "r \<in> set (operations (connection (operation_step w ev))) \<or> e \<le> last_ms (clock (operation_step w ev))"
proof -
  obtain t c where tc: "ev = (t, c)" by fastforce
  have live: "\<not> is_expired now r" if "now < e" for now using that r by (simp add: is_expired_def)
  show ?thesis
  proof (cases c)
    case (Begin k fp)
    show ?thesis unfolding tc Begin operation_step.simps begin_operation_def
      by (rule timed_keeps_until [OF r(1)]) (rule begin_tx_keeps [OF _ r(1) live])
  next
    case (Status k)
    show ?thesis unfolding tc Status operation_step.simps operation_status_def
      by (rule timed_keeps_until [OF r(1)]) (rule status_tx_keeps [OF _ r(1) live])
  next
    case (MarkCommitStarted k l)
    show ?thesis unfolding tc MarkCommitStarted operation_step.simps mark_operation_commit_started_def
      by (rule timed_keeps_until [OF r(1)]) (rule completed_tx_keeps(1) [OF r(1,2)])
  next
    case (Complete k l oc)
    have "r \<in> set (operations (connection (fst (timed t w (complete_operation_tx (limits w) k l oc))))) \<or>
        e \<le> last_ms (clock (fst (timed t w (complete_operation_tx (limits w) k l oc))))"
      by (rule timed_keeps_until [OF r(1)]) (rule completed_tx_keeps(2) [OF r(1,2)])
    with r(1) show ?thesis by (simp add: tc Complete complete_operation_fst)
  next
    case (Abandon k l)
    show ?thesis unfolding tc Abandon operation_step.simps abandon_operation_def
      by (rule timed_keeps_until [OF r(1)]) (rule completed_tx_keeps(3) [OF r(1,2)])
  qed
qed

lemma timed_clock_mono: "last_ms (clock w) \<le> last_ms (clock (fst (timed t w body)))"
  by (cases rule: timed_cases [of t w body]) (use observe_Inr(1,2) in fastforce)+

lemma step_clock_mono: "last_ms (clock w) \<le> last_ms (clock (operation_step w e))"
  by (cases e; cases "snd e") (simp_all add: begin_operation_def operation_status_def timed_clock_mono
      mark_operation_commit_started_def complete_operation_fst abandon_operation_def)

lemma run_keeps_completed:
  assumes "r \<in> set (operations (connection w)) \<or> e \<le> last_ms (clock w)"
    "o_state r = 2" "o_expires_at_ms r = Some e"
  shows "r \<in> set (operations (connection (run_steps operation_step w es))) \<or>
    e \<le> last_ms (clock (run_steps operation_step w es))"
  using assms(1)
proof (induction es arbitrary: w)
  case (Cons ev es)
  have "r \<in> set (operations (connection (operation_step w ev))) \<or> e \<le> last_ms (clock (operation_step w ev))"
    using Cons.prems step_keeps_completed [OF _ assms(2,3), of w ev] step_clock_mono [of w ev] by auto
  from Cons.IH [OF this] show ?case by simp
qed simp

section \<open>Answers to a repeated request\<close>

lemma select_operation:
  assumes "keys_distinct o_key rows" "r \<in> set rows" "is_operation key r"
  shows "select_where (is_operation key) rows = Some r"
proof -
  have "is_operation key = (\<lambda>r'. o_key r' = o_key r)"
    using assms(3) by (auto simp: is_operation_key fun_eq_iff)
  with select_where_key [OF assms(1,2)] show ?thesis by simp
qed

lemma begin_finds:
  assumes ok: "operation_store_ok w" and r: "r \<in> set (operations (connection w))" "is_operation key r"
    and beg: "begin_operation t key fp w = (w2, Inr res)" and live: "\<not> is_expired (last_ms (clock w2)) r"
  shows "res = BeginConflict \<and> o_fingerprint r \<noteq> fp \<or>
       res = OperationRunning \<and> o_fingerprint r = fp \<and> o_state r \<in> {0, 1} \<or>
       (\<exists>oc. res = Replay oc \<and> o_fingerprint r = fp \<and> o_state r = 2 \<and> into_outcome r = Inr oc)"
proof (cases rule: timed_cases [of t w "begin_operation_tx (limits w) (fresh t) key fp"])
  case (failed e)
  with beg show ?thesis by (simp add: begin_operation_def)
next
  case (done' now db x)
  have now: "now = last_ms (clock w2)"
    using observe_Inr(2) [OF done'(1)] beg by (simp add: begin_operation_def)
  have d: "keys_distinct o_key (operations (purge_expired now (connection w)))"
    using ok by (simp add: operation_store_ok_def operations_ok_def)
  have sel: "select_where (is_operation key) (operations (purge_expired now (connection w))) = Some r"
    by (rule select_operation [OF d _ r(2)]) (use r(1) live now in simp)
  have "x = res" using done'(4) beg by (simp add: begin_operation_def)
  from done'(3) this show ?thesis by (cases rule: begin_tx_cases) (use sel in \<open>simp_all del: select_where_None\<close>)
qed

lemma begin_lease: "begin_operation t key fp w = (w1, Inr (Started lease)) \<Longrightarrow> lease = fresh t"
proof -
  let ?tx = "begin_operation_tx (limits w) (fresh t) key fp"
  assume b: "begin_operation t key fp w = (w1, Inr (Started lease))"
  show ?thesis
  proof (cases rule: timed_cases [of t w ?tx])
    case (failed e)
    with b show ?thesis by (simp add: begin_operation_def)
  next
    case (done' now db x)
    with b have "?tx now (connection w) = Inr (db, Started lease)" by (simp add: begin_operation_def)
    then show ?thesis by (cases rule: begin_tx_cases) auto
  qed
qed

lemma begin_started:
  assumes "begin_operation t key fp w = (w1, Inr (Started lease))"
  obtains now where "reserved_row key fp lease now \<in> set (operations (connection w1))"
proof (cases rule: timed_cases [of t w "begin_operation_tx (limits w) (fresh t) key fp"])
  case (failed e)
  with assms show thesis by (simp add: begin_operation_def)
next
  case (done' now db x)
  with assms have "begin_operation_tx (limits w) (fresh t) key fp now (connection w) =
      Inr (connection w1, Started lease)" by (simp add: begin_operation_def)
  then show thesis
    by (cases rule: begin_tx_cases) (use that in auto)
qed

lemma complete_done:
  assumes ok: "operation_store_ok w" and c: "complete_operation t key lease oc w = (w1, Inr True)"
  obtains r now where "r \<in> set (operations (connection w))" "leased_in key lease {0, 1} r"
    "now = last_ms (clock w1)" "validate_outcome oc = Inr ()"
    "set_completed oc now (now + ttl_ms (limits w)) r \<in> set (operations (connection w1))"
proof -
  have v: "validate_outcome oc = Inr ()" using c by (cases "validate_outcome oc") (auto simp: complete_operation_def)
  with c have c': "timed t w (complete_operation_tx (limits w) key lease oc) = (w1, Inr True)"
    by (simp add: complete_operation_def)
  show thesis
  proof (cases rule: timed_cases [of t w "complete_operation_tx (limits w) key lease oc"])
    case (failed e)
    with c' show thesis by simp
  next
    case (done' now db x)
    then have now: "now = last_ms (clock w1)" using observe_Inr(2) [OF done'(1)] c' by simp
    from done'(3-5) c' have tx: "complete_operation_tx (limits w) key lease oc now (connection w) =
        Inr (connection w1, True)" by simp
    then have "count_where (leased_in key lease {0, 1}) (operations (connection w)) \<noteq> 0"
      by (simp add: complete_tx_Inr)
    then obtain r where r: "r \<in> set (operations (connection w))" "leased_in key lease {0, 1} r"
      unfolding count_where_0 by blast
    with tx have "set_completed oc now (now + ttl_ms (limits w)) r \<in> set (operations (connection w1))"
      by (force simp: complete_tx_Inr set_update_where)
    with r now v that show thesis by blast
  qed
qed

text \<open>Errors that come from the clocks or from SQLite, not from the stored data.\<close>

text \<open>What the completion of an operation guarantees to later requests.\<close>

lemma completed_replays:
  assumes ok: "operation_store_ok w" and t: "tick_ok t" "key_ok key" "length lease = 16" "status oc \<le> 65535"
    and r: "r \<in> set (operations (connection w))" "is_operation key r"
    and finished: "complete_operation t key lease oc w = (w1, Inr True)"
    and es: "list_all operation_event_ok es"
    and again: "begin_operation t' key fp (run_steps operation_step w1 es) = (w2, Inr res)"
    and retained: "last_ms (clock w2) < last_ms (clock w1) + ttl_ms (limits w)"
  shows "res = (if fp = o_fingerprint r then Replay oc else BeginConflict)"
proof -
  have "operation_store_ok (operation_step w (t, Complete key lease oc))"
    by (rule operation_step_ok [OF ok]) (use t in simp)
  then have ok1: "operation_store_ok w1" using finished by simp
  obtain r' now where r': "r' \<in> set (operations (connection w))" "leased_in key lease {0, 1} r'"
    "now = last_ms (clock w1)" "validate_outcome oc = Inr ()"
    "set_completed oc now (now + ttl_ms (limits w)) r' \<in> set (operations (connection w1))"
    using complete_done [OF ok finished] .
  have same: "r' = r"
    using keys_distinct_eqD [of o_key "operations (connection w)" r' r] ok r r'(1,2)
    by (simp add: operation_store_ok_def operations_ok_def is_operation_key leased_in_def)
  let ?c = "set_completed oc now (now + ttl_ms (limits w)) r"
  have c: "o_state ?c = 2" "o_expires_at_ms ?c = Some (now + ttl_ms (limits w))" "is_operation key ?c"
    "o_fingerprint ?c = o_fingerprint r" using r(2) by (simp_all add: set_completed_def is_operation_def)
  let ?w = "run_steps operation_step w1 es"
  have ok2: "operation_store_ok ?w" by (rule operation_machine.run_inv [OF ok1 es])
  have "last_ms (clock ?w) \<le> last_ms (clock w2)"
    using timed_clock_mono [of ?w t' "begin_operation_tx (limits ?w) (fresh t') key fp"] again
    by (simp add: begin_operation_def)
  with retained run_keeps_completed [OF _ c(1,2), of w1 es] r'(3,5) same
  have in': "?c \<in> set (operations (connection ?w))" by fastforce
  have live: "\<not> is_expired (last_ms (clock w2)) ?c" using c(2) retained r'(3) by (simp add: is_expired_def)
  from begin_finds [OF ok2 in' c(3) again live] c(1,4) into_outcome_completed [OF r'(4)]
  show ?thesis by auto
qed

fun environment_error :: "store_error \<Rightarrow> bool" where
  "environment_error MonotonicBackwards = True"
| "environment_error ClockUnrepresentable = True"
| "environment_error ClockOverflow = True"
| "environment_error ExpirationOverflow = True"
| "environment_error SqlFailure = True"
| "environment_error _ = False"

lemma observe_error: "observe w m c = (c', Inl e) \<Longrightarrow> environment_error e"
  by (auto simp: observe_def Let_def split: if_splits option.splits prod.splits)

lemma timed_error:
  assumes "snd (timed t w body) = Inl e" "\<And>now e. body now (connection w) = Inl e \<Longrightarrow> environment_error e"
  shows "environment_error e"
proof -
  obtain c r where ob: "observe (wall t) (monotonic t) (clock w) = (c, r)" by fastforce
  show ?thesis
  proof (cases r)
    case (Inl x)
    with ob assms(1) observe_error [of "wall t" "monotonic t" "clock w" c x] show ?thesis
      by (simp add: timed_def now_ms_def)
  next
    case (Inr now)
    with ob assms(1) assms(2) [of now e] show ?thesis
      by (auto simp: timed_def now_ms_def transact_def split: if_splits sum.splits)
  qed
qed

lemma load_operation_ok:
  assumes "operations_ok L db"
  shows "load_operation key db = Inr (select_where (is_operation key) (operations db))"
proof (cases "select_where (is_operation key) (operations db)")
  case (Some r)
  then have "operation_check r"
    using assms select_where_Some by (fastforce simp: operations_ok_def list_all_iff operation_row_ok_def)
  with Some show ?thesis by (simp add: load_operation_def try_into_array_def operation_check_def)
qed (simp add: load_operation_def del: select_where_None)

lemma selected_ok:
  "\<lbrakk> operations_ok L db; select_where (is_operation key) (operations db) = Some r \<rbrakk> \<Longrightarrow> operation_row_ok r"
  using select_where_Some by (fastforce simp: operations_ok_def list_all_iff)

lemma reserved_row_check:
  "\<lbrakk> key_ok key; length fp = 32; length lease = 16 \<rbrakk> \<Longrightarrow> operation_check (reserved_row key fp lease now)"
  by (simp add: operation_check_def reserved_row_def key_ok_def operation_lifecycle_check_def
      sql_in_def is_null_def sql_logic check_passes_def)

lemma begin_tx_error:
  assumes ok: "operations_ok L db" and key: "key_ok key" "length fp = 32" "length lease = 16"
  shows "begin_operation_tx L lease key fp now db \<noteq> Inl e"
proof
  define db1 where "db1 = purge_expired now db"
  assume "begin_operation_tx L lease key fp now db = Inl e"
  note bad = this [unfolded begin_operation_tx_def Let_def, folded db1_def]
  have ok1: "operations_ok L db1" unfolding db1_def using ok by (rule purge_expired_ok)
  note load = load_operation_ok [OF ok1, of key]
  show False
  proof (cases "select_where (is_operation key) (operations db1)")
    case None
    then have "\<forall>r \<in> set (operations db1). o_key r \<noteq> o_key (reserved_row key fp lease now)"
      by (auto simp: o_key_def reserved_row_def is_operation_def)
    with bad load None reserved_row_check [OF key] show False
      by (auto simp: insert_row_def exists_where_def list_ex_iff simp del: select_where_None split: if_splits)
  next
    case (Some r)
    from selected_ok [OF ok1 Some] have "o_state r \<in> {0, 1, 2}" "o_state r = 2 \<longrightarrow> (\<exists>oc. into_outcome r = Inr oc)"
      by (simp_all add: operation_row_ok_def operation_check_def)
    with bad load Some show False by (auto split: if_splits)
  qed
qed

lemma status_tx_error:
  assumes ok: "operations_ok L db"
  shows "operation_status_tx key now db \<noteq> Inl e"
proof
  define db1 where "db1 = purge_expired now db"
  assume "operation_status_tx key now db = Inl e"
  note bad = this [unfolded operation_status_tx_def Let_def, folded db1_def]
  have ok1: "operations_ok L db1" unfolding db1_def using ok by (rule purge_expired_ok)
  note load = load_operation_ok [OF ok1, of key]
  show False
  proof (cases "select_where (is_operation key) (operations db1)")
    case None
    with bad load show False by (simp del: select_where_None)
  next
    case (Some r)
    from selected_ok [OF ok1 Some] have "o_state r \<in> {0, 1, 2}" "o_state r = 2 \<longrightarrow> (\<exists>oc. into_outcome r = Inr oc)"
      by (simp_all add: operation_row_ok_def operation_check_def)
    with bad load Some show False by (auto split: if_splits)
  qed
qed

lemma commit_started_check:
  assumes "operation_check r" "o_state r = 0"
  shows "operation_check (set_commit_started now r)"
  using assms operation_check_open [OF assms(1)]
  by (simp add: operation_check_def set_commit_started_def operation_lifecycle_check_def
      sql_in_def is_null_def sql_logic check_passes_def)

lemma completed_check:
  assumes r: "operation_check r" and v: "validate_outcome oc = Inr ()"
    and nul: "\<And>c. code oc = Some c \<Longrightarrow> CHR 0x00 \<notin> set c"
  shows "operation_check (set_completed oc now e r)"
proof -
  let ?r = "set_completed oc now e r"
  have len: "sql_text_length c = char_count c" if "code oc = Some c" for c
  proof -
    have "takeWhile (\<lambda>x. x \<noteq> CHR 0x00) c = c" using nul [OF that] by (auto simp: takeWhile_eq_all_conv)
    then show ?thesis unfolding sql_text_length_def by (simp only:)
  qed
  note v = v [unfolded validate_outcome_ok]
  have "check_passes (sql_or (is_null (o_error_code ?r))
      (sql_between 1 128 (map_option (\<lambda>c. int (sql_text_length c)) (o_error_code ?r))))"
    using v len
    by (cases "code oc") (auto simp: set_completed_def is_null_def sql_between_def sql_logic check_passes_def
        MAX_ERROR_CODE_CHARS_def)
  moreover have "check_passes (operation_lifecycle_check ?r)"
    using v
    by (cases "outcome_state oc"; cases "code oc")
      (simp_all add: operation_lifecycle_check_def set_completed_def is_null_def sql_between_def sql_in_def
        sql_logic check_passes_def is_success_def)
  moreover have "check_passes (sql_in (o_terminal_state ?r) [0, 1, 2])"
    by (cases "outcome_state oc") (simp_all add: set_completed_def sql_in_def check_passes_def)
  ultimately show ?thesis using r by (simp add: operation_check_def set_completed_def)
qed

lemma row_check: "operations_ok L db \<Longrightarrow> r \<in> set (operations db) \<Longrightarrow> operation_check r"
  by (simp add: operations_ok_def list_all_iff operation_row_ok_def)

lemma mark_tx_error: "operations_ok L db \<Longrightarrow> mark_commit_started_tx key lease now db \<noteq> Inl e"
  using row_check commit_started_check
  by (fastforce simp: mark_commit_started_tx_def update_rows_def list_all_iff leased_in_def split: if_splits)

lemma complete_tx_error:
  assumes "operations_ok L db" "validate_outcome oc = Inr ()" "\<And>c. code oc = Some c \<Longrightarrow> CHR 0x00 \<notin> set c"
    "complete_operation_tx L key lease oc now db = Inl e"
  shows "environment_error e"
  using assms(4) completed_check [OF row_check [OF assms(1)] assms(2,3)]
  by (auto simp: complete_operation_tx_def expiration_time_def checked_add_i64_def update_rows_def
      list_all_iff split: if_splits)

lemma abandon_tx_error:
  assumes "operations_ok L db" "abandon_operation_tx L key lease now db = Inl e"
  shows "environment_error e"
proof -
  have "CHR 0x00 \<notin> set UNKNOWN_CODE" by (simp add: UNKNOWN_CODE_def)
  then have "operation_check (set_completed uncertain now x r)" if "r \<in> set (operations db)" for r x
    using completed_check [OF row_check [OF assms(1) that] uncertain_valid] by (simp add: uncertain_def)
  with assms(2) show ?thesis
    by (auto simp: abandon_operation_tx_def expiration_time_def checked_add_i64_def update_rows_def
        list_all_iff Let_def split: if_splits)
qed

section \<open>A concrete store\<close>

definition demo_limits :: Limits where
  "demo_limits = \<lparr> capacity = 8, per_owner = 4, ttl_ms = 1000, upload_ttl_ms = 1000, upload_capacity = 8,
     upload_per_owner = 4, purge_capacity = 8, purge_per_owner = 4 \<rparr>"

definition demo_worker :: StoreWorker where
  "demo_worker =
     \<lparr> connection = \<lparr> operations = [], upload_sessions = [], purge_jobs = [] \<rparr>,
       clock = new_clock 10 0, limits = demo_limits, deferred_abandons = [] \<rparr>"

definition demo_store_key :: StoreKey where
  "demo_store_key = \<lparr> owner = replicate 32 CHR ''o'', key_id = replicate 16 CHR ''i'' \<rparr>"

definition demo_tick :: "nat \<Rightarrow> tick" where
  "demo_tick n = \<lparr> wall = Some 10, monotonic = n * 1000000, fresh = replicate 16 CHR ''l'', sql_ok = True, read_ok = True \<rparr>"

definition demo_fp :: blob where "demo_fp = replicate 32 CHR ''f''"

definition demo_outcome :: StoredOutcome where
  "demo_outcome = \<lparr> status = 201, outcome_state = Succeeded, code = None \<rparr>"

lemmas demo_store_defs = demo_limits_def demo_worker_def demo_store_key_def demo_tick_def demo_fp_def
  demo_outcome_def new_clock_def

lemma demo_ok:
  "operation_store_ok demo_worker" "tick_ok (demo_tick n)" "key_ok demo_store_key" "length demo_fp = 32"
  by (simp_all add: demo_store_defs operation_store_ok_def clock_ok_def in_i64_def i64_min_def i64_max_def
      operations_ok_def keys_distinct_def count_where_def tick_ok_def wall_ok_def key_ok_def)

lemmas demo_eval = demo_store_defs begin_operation_def timed_def now_ms_def observe_def as_millis_def
  i64_try_from_def i64_max_def i64_min_def checked_add_i64_def in_i64_def Let_def transact_def
  begin_operation_tx_def purge_expired_def delete_where_def load_operation_def select_where_def
  count_where_def insert_row_def exists_where_def reserved_row_def operation_check_def
  operation_lifecycle_check_def sql_in_def is_null_def sql_logic check_passes_def is_operation_def
  o_key_def try_into_array_def is_expired_def complete_operation_def complete_operation_tx_def
  validate_outcome_def is_success_def expiration_time_def update_rows_def update_where_def
  leased_in_def set_completed_def sql_between_def into_outcome_def u16_try_from_def terminal_from_database_def

definition demo_started :: StoreWorker where
  "demo_started = fst (begin_operation (demo_tick 0) demo_store_key demo_fp demo_worker)"

lemma demo_begin: "begin_operation (demo_tick 0) demo_store_key demo_fp demo_worker =
    (demo_started, Inr (Started (replicate 16 CHR ''l'')))"
  unfolding demo_started_def by (simp add: demo_eval)

section \<open>Properties\<close>

text \<open>The operation table stays well formed: whatever commands the store executes, and
  however its transactions fail, no key has two rows, every row satisfies the constraints of
  the schema, every completed row can be read back as an outcome, and neither the global nor
  any owner's number of rows exceeds its limit.\<close>

lemma operation_table_invariant:
  assumes "operation_store_ok w" "list_all operation_event_ok es"
  shows "operations_ok (limits (run_steps operation_step w es)) (connection (run_steps operation_step w es))"
  using operation_machine.run_inv [OF assms] by (simp add: operation_store_ok_def)

text \<open>Claim C2.  An operation has one owner: after a request was told it started the operation, and
  for as long as no command presents the lease it was given, every other request under the
  same key is told that the operation is running, or that it conflicts when its fingerprint
  differs; none is ever told to start it again.\<close>

theorem operation_exclusive:
  assumes ok: "operation_store_ok w" and t: "tick_ok t" "key_ok key" "length fp = 32"
    and begun: "begin_operation t key fp w = (w1, Inr (Started lease))"
    and es: "list_all operation_event_ok es" "list_all (\<lambda>e. \<not> uses_lease key lease (snd e)) es"
    and again: "begin_operation t' key fp' (run_steps operation_step w1 es) = (w2, Inr res)"
  shows "res = (if fp' = fp then OperationRunning else BeginConflict)"
proof -
  have "operation_store_ok (operation_step w (t, Begin key fp))"
    by (rule operation_step_ok [OF ok]) (use t in simp)
  then have ok1: "operation_store_ok w1" using begun by simp
  obtain now where r: "reserved_row key fp lease now \<in> set (operations (connection w1))"
    using begin_started [OF begun] .
  from run_keeps_leased [OF r _ _ _ es(2)]
  have r': "reserved_row key fp lease now \<in> set (operations (connection (run_steps operation_step w1 es)))"
    by simp
  have "\<not> is_expired (last_ms (clock w2)) (reserved_row key fp lease now)" by (simp add: is_expired_def)
  from begin_finds [OF operation_machine.run_inv [OF ok1 es(1)] r' _ again this]
  show ?thesis by auto
qed

theorem operation_exclusive_witness:
  "let (w2, res) = begin_operation (demo_tick 2) demo_store_key demo_fp demo_started
   in begin_operation (demo_tick 0) demo_store_key demo_fp demo_worker =
        (demo_started, Inr (Started (replicate 16 CHR ''l''))) \<and>
      operation_store_ok demo_worker \<and> res = Inr OperationRunning"
proof -
  obtain w2 where a: "begin_operation (demo_tick 2) demo_store_key demo_fp demo_started = (w2, Inr OperationRunning)"
    unfolding demo_started_def by (simp add: demo_eval)
  have "OperationRunning = (if demo_fp = demo_fp then OperationRunning else BeginConflict)"
    by (rule operation_exclusive [OF demo_ok(1) demo_ok(2) demo_ok(3) demo_ok(4) demo_begin, of "[]"])
      (use a in simp_all)
  with a demo_begin demo_ok(1) show ?thesis by simp
qed

text \<open>Claim C3.  A completed operation answers repetitions: once a request has completed its operation
  with an outcome, then, whatever happens in between and until the clock reaches the time of
  completion plus the retention time, a request with the same key and fingerprint gets exactly
  that outcome, one with another fingerprint a conflict.\<close>

theorem completed_operation_replays:
  assumes ok: "operation_store_ok w" and t: "tick_ok t" "key_ok key" "length lease = 16" "status oc \<le> 65535"
    and r: "r \<in> set (operations (connection w))" "is_operation key r"
    and finished: "complete_operation t key lease oc w = (w1, Inr True)"
    and es: "list_all operation_event_ok es"
    and again: "begin_operation t' key fp (run_steps operation_step w1 es) = (w2, Inr res)"
    and retained: "last_ms (clock w2) < last_ms (clock w1) + ttl_ms (limits w)"
  shows "res = (if fp = o_fingerprint r then Replay oc else BeginConflict)"
  by (rule completed_replays [OF assms])

theorem completed_operation_replays_witness:
  "\<exists>w1 w2. complete_operation (demo_tick 5) demo_store_key (replicate 16 CHR ''l'') demo_outcome demo_started =
       (w1, Inr True) \<and>
     begin_operation (demo_tick 900) demo_store_key demo_fp w1 = (w2, Inr (Replay demo_outcome)) \<and>
     last_ms (clock w2) < last_ms (clock w1) + ttl_ms demo_limits"
proof -
  obtain w1 w2 where a: "complete_operation (demo_tick 5) demo_store_key (replicate 16 CHR ''l'') demo_outcome
      demo_started = (w1, Inr True)"
    "begin_operation (demo_tick 900) demo_store_key demo_fp w1 = (w2, Inr (Replay demo_outcome))"
    "last_ms (clock w2) < last_ms (clock w1) + ttl_ms demo_limits"
    unfolding demo_started_def by (simp add: demo_eval)
  let ?r = "reserved_row demo_store_key demo_fp (replicate 16 CHR ''l'') 10"
  have r: "?r \<in> set (operations (connection demo_started))" "o_fingerprint ?r = demo_fp"
    unfolding demo_started_def by (simp_all add: demo_eval)
  have ok: "operation_store_ok demo_started"
    using operation_step_ok [OF demo_ok(1), of "(demo_tick 0, Begin demo_store_key demo_fp)"] demo_ok
    by (simp add: demo_started_def)
  have l: "limits demo_started = demo_limits"
    by (simp add: demo_started_def begin_operation_def) (simp add: demo_worker_def)
  have "Replay demo_outcome = (if demo_fp = o_fingerprint ?r then Replay demo_outcome else BeginConflict)"
    by (rule completed_operation_replays [OF ok demo_ok(2) demo_ok(3) _ _ r(1) _ a(1), of "[]"])
      (use a(2,3) l in \<open>simp_all add: demo_outcome_def\<close>)
  with a show ?thesis by blast
qed

text \<open>On a well-formed store the operation commands fail only because of the clocks or
  SQLite: no constraint is violated and no stored row turns out to be unreadable.  Completing
  with an invalid outcome is refused before the store is touched.\<close>

lemma operation_errors_environmental:
  assumes ok: "operation_store_ok w" and args: "tick_ok t" "key_ok key" "length fp = 32"
    and nul: "\<forall>c. code oc = Some c \<longrightarrow> CHR 0x00 \<notin> set c"
  shows "(\<forall>e. snd (begin_operation t key fp w) = Inl e \<longrightarrow> environment_error e) \<and>
    (\<forall>e. snd (operation_status t key w) = Inl e \<longrightarrow> environment_error e) \<and>
    (\<forall>e. snd (mark_operation_commit_started t key lease w) = Inl e \<longrightarrow> environment_error e) \<and>
    (\<forall>e. snd (abandon_operation t key lease w) = Inl e \<longrightarrow> environment_error e) \<and>
    (\<forall>e. complete_operation t key lease oc w = (w', Inl e) \<longrightarrow>
       environment_error e \<or> validate_outcome oc = Inl e \<and> w' = w)"
proof -
  have ops: "operations_ok (limits w) (connection w)" using ok by (simp add: operation_store_ok_def)
  have len: "length (fresh t) = 16" using args(1) by (simp add: tick_ok_def)
  have 1: "environment_error e" if "snd (begin_operation t key fp w) = Inl e" for e
    by (rule timed_error [OF that [unfolded begin_operation_def]])
      (use begin_tx_error [OF ops args(2,3) len] in blast)
  have 2: "environment_error e" if "snd (operation_status t key w) = Inl e" for e
    by (rule timed_error [OF that [unfolded operation_status_def]]) (use status_tx_error [OF ops] in blast)
  have 3: "environment_error e" if "snd (mark_operation_commit_started t key lease w) = Inl e" for e
    by (rule timed_error [OF that [unfolded mark_operation_commit_started_def]])
      (use mark_tx_error [OF ops] in blast)
  have 4: "environment_error e" if "snd (abandon_operation t key lease w) = Inl e" for e
    by (rule timed_error [OF that [unfolded abandon_operation_def]]) (rule abandon_tx_error [OF ops])
  have 5: "environment_error e \<or> validate_outcome oc = Inl e \<and> w' = w"
    if c: "complete_operation t key lease oc w = (w', Inl e)" for e
  proof (cases "validate_outcome oc")
    case (Inl x)
    with c show ?thesis by (simp add: complete_operation_def)
  next
    case (Inr u)
    with c have "snd (timed t w (complete_operation_tx (limits w) key lease oc)) = Inl e"
      by (simp add: complete_operation_def)
    then have "environment_error e"
      by (rule timed_error) (rule complete_tx_error [OF ops], use Inr nul in auto)
    then show ?thesis ..
  qed
  from 1 2 3 4 5 show ?thesis by blast
qed

text \<open>What the constraint says of a completed row: a missing status leaves its ranges undecided.\<close>

lemma completed_lifecycle:
  assumes "o_state r = 2"
  shows "check_passes (operation_lifecycle_check r) \<longleftrightarrow>
    (\<exists>st. o_terminal_state r = Some st \<and> o_expires_at_ms r \<noteq> None \<and>
       (st = 0 \<and> o_error_code r = None \<or> st \<in> {1, 2} \<and> o_error_code r \<noteq> None) \<and>
       (case o_http_status r of None \<Rightarrow> True | Some h \<Rightarrow> 100 \<le> h \<and> h \<le> 599 \<and> (st = 0 \<longleftrightarrow> 200 \<le> h \<and> h \<le> 299)))"
  using assms
  by (cases "o_terminal_state r"; cases "o_expires_at_ms r"; cases "o_error_code r"; cases "o_http_status r")
    (auto simp: operation_lifecycle_check_def sql_logic sql_defs)

lemma sql_text_length_plain:
  assumes "CHR 0x00 \<notin> set c"
  shows "sql_text_length c = char_count c"
proof -
  have "takeWhile (\<lambda>x. x \<noteq> CHR 0x00) c = c" using assms by (intro takeWhile_eq_all_conv [THEN iffD2] ballI) auto
  then show ?thesis unfolding sql_text_length_def by (simp only:)
qed

text \<open>Claim C40.  The table constraint is weaker than what can be read back, by exactly one case.  A
  completed row that the \<^verbatim>\<open>CHECK\<close> constraints admit, with an error code free of NUL bytes, yields an
  outcome if and only if it has an HTTP status; and as an unknown condition passes a \<^verbatim>\<open>CHECK\<close>, the
  status can be missing from any of them: the constraints still admit the row, and no outcome can
  be read from it.\<close>

theorem schema_readability_exact:
  assumes c: "operation_check r" "o_state r = OPERATION_COMPLETED"
    and nul: "\<forall>c. o_error_code r = Some c \<longrightarrow> CHR 0x00 \<notin> set c"
  shows "((\<exists>oc. into_outcome r = Inr oc) \<longleftrightarrow> o_http_status r \<noteq> None) \<and>
    operation_check (r\<lparr>o_http_status := None\<rparr>) \<and> into_outcome (r\<lparr>o_http_status := None\<rparr>) = Inl MissingHttpStatus"
proof -
  have two: "o_state r = 2" using c(2) by (simp add: OPERATION_COMPLETED_def)
  have "check_passes (operation_lifecycle_check r)" using c(1) by (simp add: operation_check_def)
  then obtain st where st: "o_terminal_state r = Some st" "o_expires_at_ms r \<noteq> None"
    "st = 0 \<and> o_error_code r = None \<or> st \<in> {1, 2} \<and> o_error_code r \<noteq> None"
    and http: "case o_http_status r of None \<Rightarrow> True | Some h \<Rightarrow> 100 \<le> h \<and> h \<le> 599 \<and> (st = 0 \<longleftrightarrow> 200 \<le> h \<and> h \<le> 299)"
    unfolding completed_lifecycle [OF two] by (elim exE conjE)
  have code: "1 \<le> char_count x \<and> char_count x \<le> MAX_ERROR_CODE_CHARS" if x: "o_error_code r = Some x" for x
  proof -
    have "check_passes (sql_or (is_null (Some x)) (sql_between 1 128 (Some (int (sql_text_length x)))))"
      using c(1) by (simp add: operation_check_def x)
    moreover have "sql_text_length x = char_count x" using nul x by (intro sql_text_length_plain) simp
    ultimately show ?thesis
      by (simp add: is_null_def sql_between_def sql_logic check_passes_def MAX_ERROR_CODE_CHARS_def)
  qed
  have "\<exists>oc. into_outcome r = Inr oc" if h: "o_http_status r = Some h" for h
  proof -
    have range: "100 \<le> h \<and> h \<le> 599 \<and> (st = 0 \<longleftrightarrow> 200 \<le> h \<and> h \<le> 299)" using http h by simp
    have "st \<in> {0, 1, 2}" using st(3) by blast
    then have "\<exists>ts. terminal_from_database st = Inr ts \<and> (ts = Succeeded \<longleftrightarrow> st = 0)"
      by (elim insertE emptyE) (simp_all add: terminal_from_database_def)
    then obtain ts where ts: "terminal_from_database st = Inr ts" "ts = Succeeded \<longleftrightarrow> st = 0" by blast
    have succeeded: "is_success (nat h) \<longleftrightarrow> st = 0" "100 \<le> nat h" "nat h \<le> 599" using range by (auto simp: is_success_def)
    have coded: "o_error_code r = None \<longleftrightarrow> st = 0" using st(3) by auto
    have "validate_outcome \<lparr> status = nat h, outcome_state = ts, code = o_error_code r \<rparr> = Inr ()"
      unfolding validate_outcome_ok using code by (simp add: succeeded ts(2) coded)
    with h range st(1) ts(1) show ?thesis by (simp add: into_outcome_def u16_try_from_def Let_def)
  qed
  moreover have "into_outcome (r\<lparr>o_http_status := None\<rparr>) = Inl MissingHttpStatus" by (simp add: into_outcome_def st(1))
  moreover have "into_outcome r = Inl MissingHttpStatus" if "o_http_status r = None"
    using that by (simp add: into_outcome_def st(1))
  moreover have "operation_check (r\<lparr>o_http_status := None\<rparr>)"
  proof -
    have "check_passes (operation_lifecycle_check (r\<lparr>o_http_status := None\<rparr>))"
      using completed_lifecycle [of "r\<lparr>o_http_status := None\<rparr>"] two st(1-3) by simp
    with c(1) show ?thesis by (simp add: operation_check_def)
  qed
  ultimately show ?thesis by (cases "o_http_status r") simp_all
qed

theorem schema_readability_exact_witness:
  "let r = set_completed demo_outcome 0 1 (reserved_row demo_store_key demo_fp (replicate 16 CHR ''l'') 0)
   in (\<exists>oc. into_outcome r = Inr oc) \<and> operation_check (r\<lparr>o_http_status := None\<rparr>) \<and>
      into_outcome (r\<lparr>o_http_status := None\<rparr>) = Inl MissingHttpStatus"
proof -
  let ?r = "set_completed demo_outcome 0 1 (reserved_row demo_store_key demo_fp (replicate 16 CHR ''l'') 0)"
  have "operation_check ?r" "o_state ?r = OPERATION_COMPLETED" "\<forall>c. o_error_code ?r = Some c \<longrightarrow> CHR 0x00 \<notin> set c"
    "o_http_status ?r \<noteq> None"
    by (simp_all add: demo_eval sql_defs)
  with schema_readability_exact [of ?r] show ?thesis by (simp add: Let_def)
qed

end
