(* ===== verification/Store_Upload.thy ===== *)
theory Store_Upload
  imports Store_Operation
begin

text \<open>
  \<^verbatim>\<open>src/server/state_store/upload.rs\<close>: the durable records of resumable uploads.  A session binds an
  upload id to a target path, a staging path and a length, and moves through the states of an
  upload while its durable offset grows.  The lemmas show that rows and sessions correspond,
  that no command moves a session backwards, and that the page queries enumerate the table.
\<close>

section \<open>Rows and sessions\<close>

text \<open>\<^verbatim>\<open>PathBuf\<close> equality is componentwise, so the derived equality of sessions is too.\<close>

definition session_eq :: "StoredUploadSession \<Rightarrow> StoredUploadSession \<Rightarrow> bool" where
  "session_eq a b \<longleftrightarrow>
     us_key a = us_key b \<and> path_eq (target_path a) (target_path b) \<and>
     path_eq (stage_path a) (stage_path b) \<and> upload_length a = upload_length b \<and>
     durable_offset a = durable_offset b \<and> us_state a = us_state b \<and>
     stage_identity a = stage_identity b \<and> target_revision a = target_revision b"

definition decode_identity :: "blob option \<Rightarrow> blob option \<Rightarrow> StoredFileIdentity option result" where
  "decode_identity dev ino =
     (case (dev, ino) of
        (None, None) \<Rightarrow> Inr None
      | (Some d, Some i) \<Rightarrow>
          (case (try_into_array 8 d, try_into_array 8 i) of
             (Some d, Some i) \<Rightarrow>
               Inr (Some \<lparr> device = u64_from_be_bytes d, inode = u64_from_be_bytes i \<rparr>)
           | _ \<Rightarrow> Inl InvalidUploadRow)
      | _ \<Rightarrow> Inl InvalidUploadRow)"

definition decode_revision :: "blob option \<Rightarrow> blob option result" where
  "decode_revision revision =
     (case revision of
        None \<Rightarrow> Inr None
      | Some b \<Rightarrow> (case try_into_array 32 b of None \<Rightarrow> Inl InvalidUploadRow | Some b \<Rightarrow> Inr (Some b)))"

definition decode_upload_row :: "upload_row \<Rightarrow> StoredUploadSession result" where
  "decode_upload_row r =
     (case decode_identity (u_stage_device_be r) (u_stage_inode_be r) of
        Inl e \<Rightarrow> Inl e
      | Inr identity \<Rightarrow>
          (case (try_into_array 32 (u_owner r), try_into_array 16 (u_id r),
                 u64_try_from (u_length r), u64_try_from (u_offset r)) of
             (Some ow, Some i, Some len, Some off) \<Rightarrow>
               (case upload_from_database (u_state r) of
                  Inl e \<Rightarrow> Inl e
                | Inr st \<Rightarrow>
                    (case decode_revision (u_target_revision r) of
                       Inl e \<Rightarrow> Inl e
                     | Inr revision \<Rightarrow>
                         let session =
                           \<lparr> us_key = \<lparr> owner = ow, key_id = i \<rparr>, target_path = u_target_path r,
                             stage_path = u_stage_path r, upload_length = len, durable_offset = off,
                             us_state = st, stage_identity = identity, target_revision = revision \<rparr>
                         in (case validate_session session of Inl e \<Rightarrow> Inl e | Inr _ \<Rightarrow> Inr session)))
           | _ \<Rightarrow> Inl InvalidUploadRow))"

text \<open>The row that \<^verbatim>\<open>save_upload_session\<close> writes; the lengths must fit an \<^verbatim>\<open>i64\<close>.\<close>

definition encode_upload_row :: "StoredUploadSession \<Rightarrow> i64 \<Rightarrow> i64 \<Rightarrow> upload_row result" where
  "encode_upload_row s now expires_at =
     (case (i64_try_from (upload_length s), i64_try_from (durable_offset s)) of
        (Some len, Some off) \<Rightarrow>
          Inr \<lparr> u_owner = owner (us_key s), u_id = key_id (us_key s), u_target_path = target_path s,
                u_stage_path = stage_path s, u_length = len, u_offset = off,
                u_state = upload_code (us_state s),
                u_stage_device_be = map_option (\<lambda>i. u64_to_be_bytes (device i)) (stage_identity s),
                u_stage_inode_be = map_option (\<lambda>i. u64_to_be_bytes (inode i)) (stage_identity s),
                u_target_revision = target_revision s, u_updated_at_ms = now,
                u_expires_at_ms = expires_at \<rparr>
      | _ \<Rightarrow> Inl LengthUnrepresentable)"

definition is_upload :: "StoreKey \<Rightarrow> upload_row \<Rightarrow> bool" where
  "is_upload key r \<longleftrightarrow> u_owner r = owner key \<and> u_id r = key_id key"

definition load_upload_session :: "StoreKey \<Rightarrow> database \<Rightarrow> StoredUploadSession option result" where
  "load_upload_session key db =
     (case select_where (is_upload key) (upload_sessions db) of
        None \<Rightarrow> Inr None
      | Some r \<Rightarrow> (case decode_upload_row r of Inl e \<Rightarrow> Inl e | Inr s \<Rightarrow> Inr (Some s)))"

definition decode_expired_upload_row :: "upload_row \<Rightarrow> ExpiredUploadSession result" where
  "decode_expired_upload_row r =
     (case decode_upload_row r of
        Inl e \<Rightarrow> Inl e
      | Inr s \<Rightarrow> Inr \<lparr> expired_session = s, expired_at_ms = u_expires_at_ms r \<rparr>)"

definition load_expired_upload_session :: "StoreKey \<Rightarrow> database \<Rightarrow> ExpiredUploadSession option result" where
  "load_expired_upload_session key db =
     (case select_where (is_upload key) (upload_sessions db) of
        None \<Rightarrow> Inr None
      | Some r \<Rightarrow> (case decode_expired_upload_row r of Inl e \<Rightarrow> Inl e | Inr s \<Rightarrow> Inr (Some s)))"

text \<open>\<^verbatim>\<open>rows.map(decode).collect()\<close>: the first row that cannot be decoded is the error.\<close>

fun collect_rows :: "('r \<Rightarrow> 'a result) \<Rightarrow> 'r list \<Rightarrow> 'a list result" where
  "collect_rows f [] = Inr []"
| "collect_rows f (r # rs) =
     (case f r of
        Inl e \<Rightarrow> Inl e
      | Inr a \<Rightarrow> (case collect_rows f rs of Inl e \<Rightarrow> Inl e | Inr as \<Rightarrow> Inr (a # as)))"

section \<open>Queries\<close>

definition upload_order :: "upload_row list \<Rightarrow> upload_row list" where
  "upload_order rows = sort_key u_key rows"

definition after_key :: "StoreKey option \<Rightarrow> upload_row \<Rightarrow> bool" where
  "after_key after r \<longleftrightarrow>
     (case after of
        None \<Rightarrow> True
      | Some k \<Rightarrow> owner k < u_owner r \<or> u_owner r = owner k \<and> key_id k < u_id r)"

definition upload_sessions_page ::
  "tick \<Rightarrow> StoreKey option \<Rightarrow> i64 \<Rightarrow> StoreWorker \<Rightarrow> StoreWorker \<times> StoredUploadSession list result"
where
  "upload_sessions_page t after limit w =
     (if \<not> 0 < limit then (w, Inl LimitNotPositive)
      else read_only t w (\<lambda>db.
        if after = None \<and> upload_capacity (limits w) < count_where (\<lambda>_. True) (upload_sessions db)
        then Inl InvalidLimits
        else collect_rows decode_upload_row
               (take (nat limit) (filter (after_key after) (upload_order (upload_sessions db))))))"

definition expired_upload_sessions ::
  "tick \<Rightarrow> StoreKey option \<Rightarrow> i64 \<Rightarrow> StoreWorker \<Rightarrow> StoreWorker \<times> ExpiredUploadSession list result"
where
  "expired_upload_sessions t after limit w =
     (case now_ms t w of
        (w', Inl e) \<Rightarrow> (w', Inl e)
      | (w', Inr now) \<Rightarrow>
          read_only t w' (\<lambda>db. collect_rows decode_expired_upload_row
            (take (nat limit)
              (filter (\<lambda>r. u_expires_at_ms r \<le> now \<and> u_state r \<noteq> UPLOAD_COMMIT_STARTED \<and> after_key after r)
                 (upload_order (upload_sessions db))))))"

definition expired_eq :: "ExpiredUploadSession \<Rightarrow> ExpiredUploadSession \<Rightarrow> bool" where
  "expired_eq a b \<longleftrightarrow>
     session_eq (expired_session a) (expired_session b) \<and> expired_at_ms a = expired_at_ms b"

definition expired_upload_session_matches ::
  "tick \<Rightarrow> ExpiredUploadSession \<Rightarrow> StoreWorker \<Rightarrow> StoreWorker \<times> bool result"
where
  "expired_upload_session_matches t expected w =
     (case now_ms t w of
        (w', Inl e) \<Rightarrow> (w', Inl e)
      | (w', Inr now) \<Rightarrow>
          if now < expired_at_ms expected then (w', Inr False)
          else read_only t w' (\<lambda>db.
            case load_expired_upload_session (us_key (expired_session expected)) db of
              Inl e \<Rightarrow> Inl e
            | Inr None \<Rightarrow> Inr False
            | Inr (Some x) \<Rightarrow> Inr (expired_eq x expected)))"

section \<open>Saving a session\<close>

definition transition_allowed :: "StoredUploadSession \<Rightarrow> StoredUploadSession \<Rightarrow> bool" where
  "transition_allowed existing proposed \<longleftrightarrow>
     (if us_state existing = us_state proposed
      then \<not> is_terminal (us_state existing) \<or>
           durable_offset existing = durable_offset proposed \<and>
           stage_identity existing = stage_identity proposed
      else (us_state existing, us_state proposed) \<in>
             {(UploadRunning, CommitStarted), (UploadRunning, Rejected), (UploadRunning, UnknownUpload),
              (CommitStarted, Committed), (CommitStarted, Rejected), (CommitStarted, UnknownUpload),
              (CommitStarted, AwaitingConfirmation),
              (AwaitingConfirmation, CommitStarted), (AwaitingConfirmation, Rejected)})"

definition merge_upload_session ::
  "StoredUploadSession \<Rightarrow> StoredUploadSession \<Rightarrow> StoredUploadSession option"
where
  "merge_upload_session existing proposed =
     (if us_key existing \<noteq> us_key proposed \<or>
         \<not> path_eq (target_path existing) (target_path proposed) \<or>
         \<not> path_eq (stage_path existing) (stage_path proposed) \<or>
         upload_length existing \<noteq> upload_length proposed \<or>
         durable_offset proposed < durable_offset existing \<or>
         (case (stage_identity existing, stage_identity proposed) of
            (Some a, Some b) \<Rightarrow> a \<noteq> b
          | (Some _, None) \<Rightarrow> True
          | _ \<Rightarrow> False)
      then None
      else
        let revision_change_allowed =
          target_revision existing = target_revision proposed \<or>
          us_state existing = us_state proposed \<and> \<not> is_terminal (us_state existing) \<or>
          us_state existing = AwaitingConfirmation
        in if \<not> transition_allowed existing proposed \<or> \<not> revision_change_allowed then None
           else Some proposed)"

text \<open>Expired terminal sessions that have nothing left to clean up.\<close>

definition reclaimable :: "i64 \<Rightarrow> upload_row \<Rightarrow> bool" where
  "reclaimable now r \<longleftrightarrow>
     u_expires_at_ms r \<le> now \<and>
     (u_state r \<in> {UPLOAD_COMMITTED, UPLOAD_UNKNOWN} \<or>
      u_state r = UPLOAD_REJECTED \<and> u_stage_device_be r = None \<and> u_stage_inode_be r = None)"

definition conflicting_stage :: "StoredUploadSession \<Rightarrow> upload_row \<Rightarrow> bool" where
  "conflicting_stage proposed r \<longleftrightarrow>
     u_stage_path r = stage_path proposed \<and>
     u_state r \<in> {UPLOAD_RUNNING, UPLOAD_COMMIT_STARTED, UPLOAD_AWAITING_CONFIRMATION} \<and>
     \<not> is_upload (us_key proposed) r"

definition refresh_row :: "upload_row \<Rightarrow> upload_row \<Rightarrow> upload_row" where
  "refresh_row new r =
     r\<lparr> u_offset := u_offset new, u_state := u_state new, u_stage_device_be := u_stage_device_be new,
        u_stage_inode_be := u_stage_inode_be new, u_target_revision := u_target_revision new,
        u_updated_at_ms := u_updated_at_ms new, u_expires_at_ms := u_expires_at_ms new \<rparr>"

text \<open>\<^verbatim>\<open>INSERT .. ON CONFLICT DO UPDATE\<close>: the constraints hold for the row offered and the row updated.\<close>

definition upsert_upload :: "upload_row \<Rightarrow> upload_row list \<Rightarrow> upload_row list result" where
  "upsert_upload new rows =
     (if \<not> upload_check new then Inl ConstraintFailure
      else if exists_where (\<lambda>r. u_key r = u_key new) rows
      then (case update_rows upload_check (\<lambda>r. u_key r = u_key new) (refresh_row new) rows of
              Inl e \<Rightarrow> Inl e
            | Inr (rows', _) \<Rightarrow> Inr rows')
      else Inr (rows @ [new]))"

definition write_session ::
  "StoredUploadSession \<Rightarrow> StoreUploadSession \<Rightarrow> i64 \<Rightarrow> i64 \<Rightarrow> database \<Rightarrow>
   (database \<times> StoreUploadSession) result"
where
  "write_session stored res now expires_at db =
     (case encode_upload_row stored now expires_at of
        Inl e \<Rightarrow> Inl e
      | Inr row \<Rightarrow>
          (case upsert_upload row (upload_sessions db) of
             Inl e \<Rightarrow> Inl e
           | Inr rows \<Rightarrow> Inr (db\<lparr> upload_sessions := rows \<rparr>, res)))"

definition save_upload_session_tx ::
  "Limits \<Rightarrow> StoredUploadSession \<Rightarrow> i64 \<Rightarrow> i64 \<Rightarrow> database \<Rightarrow> (database \<times> StoreUploadSession) result"
where
  "save_upload_session_tx L proposed ttl now db =
     (case expiration_time now ttl of
        Inl e \<Rightarrow> Inl e
      | Inr expires_at \<Rightarrow>
          let db = db\<lparr> upload_sessions := delete_where (reclaimable now) (upload_sessions db) \<rparr> in
          (case load_upload_session (us_key proposed) db of
             Inl e \<Rightarrow> Inl e
           | Inr existing \<Rightarrow>
               if \<not> is_terminal (us_state proposed) \<and>
                  exists_where (conflicting_stage proposed) (upload_sessions db)
               then Inr (db, SessionConflict)
               else (case existing of
                 None \<Rightarrow>
                   if upload_capacity L \<le> count_where (\<lambda>_. True) (upload_sessions db) \<or>
                      upload_per_owner L \<le>
                        count_where (\<lambda>r. u_owner r = owner (us_key proposed)) (upload_sessions db)
                   then Inr (db, SessionFull)
                   else write_session proposed SessionInserted now expires_at db
               | Some e \<Rightarrow>
                   (case merge_upload_session e proposed of
                      None \<Rightarrow> Inr (db, SessionConflict)
                    | Some stored \<Rightarrow>
                        write_session stored (if session_eq stored e then Unchanged else Updated)
                          now expires_at db))))"

definition save_upload_session ::
  "tick \<Rightarrow> StoredUploadSession \<Rightarrow> nat \<Rightarrow> StoreWorker \<Rightarrow> StoreWorker \<times> StoreUploadSession result"
where
  "save_upload_session t session ttl w =
     (case validate_session session of
        Inl e \<Rightarrow> (w, Inl e)
      | Inr _ \<Rightarrow>
          (case duration_ms ttl of
             Inl e \<Rightarrow> (w, Inl e)
           | Inr ms \<Rightarrow> timed t w (save_upload_session_tx (limits w) session ms)))"

section \<open>Rejecting and removing a session\<close>

definition reject_check :: "string \<Rightarrow> string \<Rightarrow> StoredUploadSession option \<Rightarrow> RejectUploadSession option" where
  "reject_check target stage found =
     (case found of
        None \<Rightarrow> Some RejectNotFound
      | Some s \<Rightarrow>
          if \<not> path_eq (target_path s) target \<or> \<not> path_eq (stage_path s) stage then Some BindingConflict
          else if us_state s = Rejected then Some (RejectedNow s)
          else if us_state s \<noteq> AwaitingConfirmation then Some (StateConflict s)
          else None)"

definition reject_row :: "i64 \<Rightarrow> i64 \<Rightarrow> upload_row \<Rightarrow> upload_row" where
  "reject_row now expires_at r =
     r\<lparr> u_state := UPLOAD_REJECTED, u_updated_at_ms := now, u_expires_at_ms := expires_at \<rparr>"

definition reject_upload_session_tx ::
  "StoreKey \<Rightarrow> string \<Rightarrow> string \<Rightarrow> i64 \<Rightarrow> i64 \<Rightarrow> database \<Rightarrow> (database \<times> RejectUploadSession) result"
where
  "reject_upload_session_tx key target stage ttl now db =
     (case expiration_time now ttl of
        Inl e \<Rightarrow> Inl e
      | Inr expires_at \<Rightarrow>
          (case load_upload_session key db of
             Inl e \<Rightarrow> Inl e
           | Inr found \<Rightarrow>
               (case reject_check target stage found of
                  Some answer \<Rightarrow> Inr (db, answer)
                | None \<Rightarrow>
                    (case update_rows upload_check
                            (\<lambda>r. is_upload key r \<and> u_state r = UPLOAD_AWAITING_CONFIRMATION)
                            (reject_row now expires_at) (upload_sessions db) of
                       Inl e \<Rightarrow> Inl e
                     | Inr (rows, updated) \<Rightarrow>
                         if updated \<noteq> 1 then Inl InvalidUploadRow
                         else Inr (db\<lparr> upload_sessions := rows \<rparr>,
                                   RejectedNow ((the found)\<lparr> us_state := Rejected \<rparr>))))))"

definition reject_upload_session ::
  "tick \<Rightarrow> StoreKey \<Rightarrow> string \<Rightarrow> string \<Rightarrow> nat \<Rightarrow> StoreWorker \<Rightarrow> StoreWorker \<times> RejectUploadSession result"
where
  "reject_upload_session t key target stage ttl w =
     (case validate_stored_path target of Inl e \<Rightarrow> (w, Inl e)
      | Inr _ \<Rightarrow> (case validate_stored_path stage of Inl e \<Rightarrow> (w, Inl e)
      | Inr _ \<Rightarrow> (case duration_ms ttl of Inl e \<Rightarrow> (w, Inl e)
      | Inr ms \<Rightarrow>
          if \<not> read_ok t then (w, Inl SqlFailure)
          else (case load_upload_session key (connection w) of
                  Inl e \<Rightarrow> (w, Inl e)
                | Inr found \<Rightarrow>
                    (case reject_check target stage found of
                       Some answer \<Rightarrow> (w, Inr answer)
                     | None \<Rightarrow> timed t w (reject_upload_session_tx key target stage ms))))))"

definition remove_session_tx :: "StoredUploadSession \<Rightarrow> database \<Rightarrow> (database \<times> bool) result" where
  "remove_session_tx expected db =
     (case load_upload_session (us_key expected) db of
        Inl e \<Rightarrow> Inl e
      | Inr found \<Rightarrow>
          if (case found of None \<Rightarrow> False | Some s \<Rightarrow> session_eq s expected)
          then (if count_where (is_upload (us_key expected)) (upload_sessions db) \<noteq> 1 then Inl InvalidUploadRow
                else Inr (db\<lparr> upload_sessions := delete_where (is_upload (us_key expected)) (upload_sessions db) \<rparr>,
                          True))
          else Inr (db, False))"

definition remove_upload_session_if_matches ::
  "tick \<Rightarrow> StoredUploadSession \<Rightarrow> StoreWorker \<Rightarrow> StoreWorker \<times> bool result"
where
  "remove_upload_session_if_matches t expected w =
     (case validate_session expected of
        Inl e \<Rightarrow> (w, Inl e)
      | Inr _ \<Rightarrow> transact t w (remove_session_tx expected))"

definition remove_expired_tx :: "ExpiredUploadSession \<Rightarrow> i64 \<Rightarrow> database \<Rightarrow> (database \<times> bool) result" where
  "remove_expired_tx expected now db =
     (let key = us_key (expired_session expected) in
      if now < expired_at_ms expected then Inr (db, False)
      else (case load_expired_upload_session key db of
              Inl e \<Rightarrow> Inl e
            | Inr found \<Rightarrow>
                if (case found of None \<Rightarrow> False | Some x \<Rightarrow> expired_eq x expected)
                then
                  let due = (\<lambda>r. is_upload key r \<and> u_expires_at_ms r = expired_at_ms expected \<and>
                                 u_expires_at_ms r \<le> now) in
                  Inr (db\<lparr> upload_sessions := delete_where due (upload_sessions db) \<rparr>,
                       count_where due (upload_sessions db) = 1)
                else Inr (db, False)))"

definition remove_expired_upload_session_if_matches ::
  "tick \<Rightarrow> ExpiredUploadSession \<Rightarrow> StoreWorker \<Rightarrow> StoreWorker \<times> bool result"
where
  "remove_expired_upload_session_if_matches t expected w =
     (case validate_session (expired_session expected) of
        Inl e \<Rightarrow> (w, Inl e)
      | Inr _ \<Rightarrow> timed t w (remove_expired_tx expected))"

section \<open>Rows and sessions correspond\<close>

text \<open>What the types of a session guarantee.\<close>

definition session_typed :: "StoredUploadSession \<Rightarrow> bool" where
  "session_typed s \<longleftrightarrow>
     key_ok (us_key s) \<and>
     (\<forall>i. stage_identity s = Some i \<longrightarrow> device i \<le> u64_max \<and> inode i \<le> u64_max) \<and>
     (\<forall>b. target_revision s = Some b \<longrightarrow> length b = 32)"

lemma decode_identity_encoded:
  assumes "\<forall>i. x = Some i \<longrightarrow> device i \<le> u64_max \<and> inode i \<le> u64_max"
  shows "decode_identity (map_option (\<lambda>i. u64_to_be_bytes (device i)) x)
           (map_option (\<lambda>i. u64_to_be_bytes (inode i)) x) = Inr x"
  using assms by (cases x) (simp_all add: decode_identity_def)

lemma decode_revision_encoded:
  "\<forall>b. x = Some b \<longrightarrow> length b = 32 \<Longrightarrow> decode_revision x = Inr x"
  by (cases x) (simp_all add: decode_revision_def try_into_array_def)

lemma encode_upload_Inr:
  assumes "validate_session s = Inr ()"
  shows "\<exists>row. encode_upload_row s now e = Inr row"
proof -
  have "int (durable_offset s) \<le> i64_max" "int (upload_length s) \<le> i64_max"
    using assms by (auto simp: validate_session_ok)
  then show ?thesis by (simp add: encode_upload_row_def i64_try_from_def)
qed

text \<open>The fields a session is decoded from, and what the encoding stores in them.\<close>

lemma encoded_fields:
  assumes "encode_upload_row s now e = Inr row"
  shows "u_owner row = owner (us_key s)" "u_id row = key_id (us_key s)" "u_target_path row = target_path s"
    "u_stage_path row = stage_path s" "u_length row = int (upload_length s)"
    "u_offset row = int (durable_offset s)" "u_state row = upload_code (us_state s)"
    "u_stage_device_be row = map_option (\<lambda>i. u64_to_be_bytes (device i)) (stage_identity s)"
    "u_stage_inode_be row = map_option (\<lambda>i. u64_to_be_bytes (inode i)) (stage_identity s)"
    "u_target_revision row = target_revision s" "u_expires_at_ms row = e" "u_updated_at_ms row = now"
  using assms by (auto simp: encode_upload_row_def i64_try_from_def split: option.splits if_splits)

lemma decode_fields:
  assumes "session_typed s" "validate_session s = Inr ()"
    "u_owner row = owner (us_key s)" "u_id row = key_id (us_key s)" "u_target_path row = target_path s"
    "u_stage_path row = stage_path s" "u_length row = int (upload_length s)"
    "u_offset row = int (durable_offset s)" "u_state row = upload_code (us_state s)"
    "u_stage_device_be row = map_option (\<lambda>i. u64_to_be_bytes (device i)) (stage_identity s)"
    "u_stage_inode_be row = map_option (\<lambda>i. u64_to_be_bytes (inode i)) (stage_identity s)"
    "u_target_revision row = target_revision s"
  shows "decode_upload_row row = Inr s"
  using assms
  by (cases "us_key s"; cases s)
    (simp add: decode_upload_row_def session_typed_def key_ok_def decode_identity_encoded
      decode_revision_encoded try_into_array_def Let_def)

lemma upload_code_range: "upload_code x \<in> {0, 1, 2, 3, 4, 5}"
  by (cases x) simp_all

lemma path_eq_same: "\<not> path_eq p q \<Longrightarrow> p \<noteq> q" by auto

lemma check_fields:
  assumes "session_typed s" "validate_session s = Inr ()"
    "u_owner row = owner (us_key s)" "u_id row = key_id (us_key s)" "u_target_path row = target_path s"
    "u_stage_path row = stage_path s" "u_length row = int (upload_length s)"
    "u_offset row = int (durable_offset s)" "u_state row = upload_code (us_state s)"
    "u_stage_device_be row = map_option (\<lambda>i. u64_to_be_bytes (device i)) (stage_identity s)"
    "u_stage_inode_be row = map_option (\<lambda>i. u64_to_be_bytes (inode i)) (stage_identity s)"
    "u_target_revision row = target_revision s"
  shows "upload_check row"
proof -
  have "null_or_length 8 (u_stage_device_be row)" "null_or_length 8 (u_stage_inode_be row)"
    "(u_stage_device_be row = None) = (u_stage_inode_be row = None)"
    using assms(10,11) by (cases "stage_identity s"; simp add: null_or_length_def)+
  moreover have "null_or_length 32 (u_target_revision row)"
    using assms(1,12) by (auto simp: null_or_length_def session_typed_def split: option.splits)
  moreover have "u_offset row = u_length row" if "u_state row \<in> {1, 2, 5}"
    using that assms(2,7-9) by (cases "us_state s") (auto simp: validate_session_ok)
  moreover have "1 \<le> length (target_path s)" "1 \<le> length (stage_path s)"
    "length (target_path s) \<le> 65536" "length (stage_path s) \<le> 65536" "target_path s \<noteq> stage_path s"
    "durable_offset s \<le> upload_length s"
    using assms(2) by (auto simp: validate_session_ok validate_stored_path_ok Suc_le_eq)
  moreover have "u_state row \<in> {0, 1, 2, 3, 4, 5}" using assms(9) upload_code_range by simp
  ultimately show ?thesis
    using assms(1,3-8) unfolding upload_check_def session_typed_def key_ok_def by simp
qed

lemma encoded_row_ok:
  assumes s: "session_typed s" "validate_session s = Inr ()" and row: "encode_upload_row s now e = Inr row"
  shows "upload_check row" "decode_upload_row row = Inr s"
  by (rule check_fields [OF s encoded_fields(1-10) [OF row]], rule decode_fields [OF s encoded_fields(1-10) [OF row]])

lemma decode_identity_Inr:
  assumes "decode_identity d i = Inr x"
  shows "(x = None \<longleftrightarrow> d = None) \<and> (x = None \<longleftrightarrow> i = None) \<and>
    (\<forall>y. x = Some y \<longrightarrow> device y \<le> u64_max \<and> inode y \<le> u64_max)"
  using assms
  by (auto simp: decode_identity_def u64_from_be_bytes_bound split: option.splits)

lemma decode_upload_Inr:
  assumes "decode_upload_row r = Inr s"
  shows "u_owner r = owner (us_key s)" "u_id r = key_id (us_key s)" "target_path s = u_target_path r"
    "stage_path s = u_stage_path r" "u_length r = int (upload_length s)" "u_offset r = int (durable_offset s)"
    "u_state r = upload_code (us_state s)" "validate_session s = Inr ()" "session_typed s"
    "stage_identity s = None \<longleftrightarrow> u_stage_device_be r = None"
    "decode_identity (u_stage_device_be r) (u_stage_inode_be r) = Inr (stage_identity s)"
    "u_target_revision r = target_revision s"
proof -
  obtain identity where i: "decode_identity (u_stage_device_be r) (u_stage_inode_be r) = Inr identity"
    using assms by (auto simp: decode_upload_row_def split: sum.splits)
  obtain revision where v: "decode_revision (u_target_revision r) = Inr revision"
    using assms i by (auto simp: decode_upload_row_def split: sum.splits option.splits)
  have rv: "u_target_revision r = revision \<and> (\<forall>b. revision = Some b \<longrightarrow> length b = 32)"
    using v by (auto simp: decode_revision_def split: option.splits)
  have "length (u_owner r) = 32" "length (u_id r) = 16" "0 \<le> u_length r" "0 \<le> u_offset r"
    "u_owner r = owner (us_key s)" "u_id r = key_id (us_key s)" "target_path s = u_target_path r"
    "stage_path s = u_stage_path r" "upload_length s = nat (u_length r)" "durable_offset s = nat (u_offset r)"
    "u_state r = upload_code (us_state s)" "validate_session s = Inr ()" "stage_identity s = identity"
    "target_revision s = revision"
    using assms i v
    by (auto simp: decode_upload_row_def u64_try_from_def upload_from_database_Inr Let_def
        split: sum.splits option.splits if_splits)
  note f = this
  show "u_owner r = owner (us_key s)" "u_id r = key_id (us_key s)" "target_path s = u_target_path r"
    "stage_path s = u_stage_path r" "u_length r = int (upload_length s)" "u_offset r = int (durable_offset s)"
    "u_state r = upload_code (us_state s)" "validate_session s = Inr ()"
    "u_target_revision r = target_revision s"
    using f rv by simp_all
  show "stage_identity s = None \<longleftrightarrow> u_stage_device_be r = None"
    "decode_identity (u_stage_device_be r) (u_stage_inode_be r) = Inr (stage_identity s)"
    using decode_identity_Inr [OF i] f i by simp_all
  show "session_typed s"
    using f rv decode_identity_Inr [OF i] by (simp add: session_typed_def key_ok_def)
qed

lemma refreshed_row:
  assumes r: "decode_upload_row r = Inr e" and p: "session_typed p" "validate_session p = Inr ()"
    and m: "us_key p = us_key e" "upload_length p = upload_length e"
    and row: "encode_upload_row p now x = Inr row"
  shows "decode_upload_row (refresh_row row r) =
           Inr (p\<lparr>target_path := target_path e, stage_path := stage_path e\<rparr>)"
    "upload_check (refresh_row row r)"
proof -
  let ?p = "p\<lparr>target_path := target_path e, stage_path := stage_path e\<rparr>"
  note d = decode_upload_Inr [OF r] and f = encoded_fields [OF row]
  have v: "validate_session ?p = Inr ()"
    using p(2) d(8) m by (simp add: validate_session_ok)
  have t: "session_typed ?p" using p(1) by (simp add: session_typed_def)
  show "decode_upload_row (refresh_row row r) = Inr ?p"
    by (rule decode_fields [OF t v]) (use d f m in \<open>simp_all add: refresh_row_def\<close>)
  show "upload_check (refresh_row row r)"
    by (rule check_fields [OF t v]) (use d f m in \<open>simp_all add: refresh_row_def\<close>)
qed

section \<open>The table invariant\<close>

definition upload_row_ok :: "upload_row \<Rightarrow> bool" where
  "upload_row_ok r \<longleftrightarrow> upload_check r \<and> (\<exists>s. decode_upload_row r = Inr s)"

definition active_row :: "upload_row \<Rightarrow> bool" where
  "active_row r \<longleftrightarrow> u_state r \<in> {UPLOAD_RUNNING, UPLOAD_COMMIT_STARTED, UPLOAD_AWAITING_CONFIRMATION}"

text \<open>No two uploads that are still in progress share a staging file.\<close>

definition stages_exclusive :: "upload_row list \<Rightarrow> bool" where
  "stages_exclusive rows \<longleftrightarrow>
     (\<forall>r \<in> set rows. \<forall>r' \<in> set rows. active_row r \<longrightarrow> active_row r' \<longrightarrow>
        u_stage_path r = u_stage_path r' \<longrightarrow> u_key r = u_key r')"

definition uploads_ok :: "Limits \<Rightarrow> database \<Rightarrow> bool" where
  "uploads_ok L db \<longleftrightarrow>
     keys_distinct u_key (upload_sessions db) \<and> list_all upload_row_ok (upload_sessions db) \<and>
     stages_exclusive (upload_sessions db) \<and>
     count_where (\<lambda>_. True) (upload_sessions db) \<le> upload_capacity L \<and>
     (\<forall>ow. count_where (\<lambda>r. u_owner r = ow) (upload_sessions db) \<le> upload_per_owner L)"

interpretation refresh_update: row_update u_key "refresh_row new" for new
  by unfold_locales (simp add: u_key_def refresh_row_def)

interpretation reject_update: row_update u_key "reject_row now expires_at" for now expires_at
  by unfold_locales (simp add: u_key_def reject_row_def)

lemma is_upload_key: "is_upload key r \<longleftrightarrow> u_key r = pair_of_key key"
  by (auto simp: is_upload_def u_key_def pair_of_key_def)

lemma is_upload_fun: "is_upload key = (\<lambda>r. u_key r = pair_of_key key)"
  by (simp add: fun_eq_iff is_upload_key)

lemma decoded_key: "decode_upload_row r = Inr s \<Longrightarrow> u_key r = pair_of_key (us_key s)"
  using decode_upload_Inr(1,2) by (simp add: u_key_def pair_of_key_def)

lemma uploads_ok_delete:
  "uploads_ok L db \<Longrightarrow> uploads_ok L (db\<lparr>upload_sessions := delete_where P (upload_sessions db)\<rparr>)"
  unfolding uploads_ok_def stages_exclusive_def
  by (auto simp: list_all_iff intro: order_trans [OF count_delete_where_le])

lemma uploads_ok_update:
  assumes ok: "uploads_ok L db" and f: "row_update u_key f"
    and rows: "\<And>r. r \<in> set (upload_sessions db) \<Longrightarrow> P r \<Longrightarrow> upload_row_ok (f r)"
    and stage: "\<And>r. u_stage_path (f r) = u_stage_path r"
    and act: "\<And>r. r \<in> set (upload_sessions db) \<Longrightarrow> P r \<Longrightarrow> active_row (f r) \<Longrightarrow> active_row r"
  shows "uploads_ok L (db\<lparr>upload_sessions := update_where P f (upload_sessions db)\<rparr>)"
proof -
  let ?rows = "upload_sessions db" and ?f = "\<lambda>r. if P r then f r else r"
  have pk: "u_key (?f r) = u_key r" for r by (simp add: row_update.pk_frame [OF f])
  have ow: "u_owner (f r) = u_owner r" for r
    using row_update.pk_frame [OF f, of r] by (simp add: u_key_def)
  have mem: "\<exists>r \<in> set ?rows. x = ?f r" if "x \<in> set (update_where P f ?rows)" for x
    using that by (auto simp: set_update_where)
  have st: "u_stage_path (?f r) = u_stage_path r" for r by (simp add: stage)
  have ac: "active_row r" if "r \<in> set ?rows" "active_row (?f r)" for r
    using that act [of r] by (cases "P r") simp_all
  have "stages_exclusive (update_where P f ?rows)"
    unfolding stages_exclusive_def
  proof (intro ballI impI)
    fix x y
    assume xy: "x \<in> set (update_where P f ?rows)" "y \<in> set (update_where P f ?rows)"
      "active_row x" "active_row y" "u_stage_path x = u_stage_path y"
    obtain r r' where r: "r \<in> set ?rows" "x = ?f r" "r' \<in> set ?rows" "y = ?f r'"
      using mem [OF xy(1)] mem [OF xy(2)] by blast
    have "active_row r" "active_row r'" using ac r xy(3,4) by blast+
    moreover have "u_stage_path r = u_stage_path r'" using xy(5) unfolding r st .
    ultimately have "u_key r = u_key r'"
      using ok r(1,3) unfolding uploads_ok_def stages_exclusive_def by blast
    then show "u_key x = u_key y" unfolding r pk .
  qed
  moreover have "list_all upload_row_ok (update_where P f ?rows)"
    unfolding list_all_iff
  proof
    fix x assume "x \<in> set (update_where P f ?rows)"
    then obtain r where r: "r \<in> set ?rows" "x = ?f r" using mem by blast
    have "upload_row_ok r" using ok r(1) unfolding uploads_ok_def list_all_iff by blast
    then show "upload_row_ok x" unfolding r(2) using rows [OF r(1)] by (cases "P r") simp_all
  qed
  moreover have "count_where (\<lambda>_. True) (update_where P f ?rows) = count_where (\<lambda>_. True) ?rows"
    by (rule count_update_where) simp
  moreover have "count_where (\<lambda>r. u_owner r = b) (update_where P f ?rows) = count_where (\<lambda>r. u_owner r = b) ?rows" for b
    by (rule count_update_where) (simp add: ow)
  ultimately show ?thesis
    using ok row_update.distinct_update [OF f] unfolding uploads_ok_def by simp
qed

lemma load_upload_ok:
  assumes "uploads_ok L db"
  shows "\<exists>found. load_upload_session key db = Inr found \<and>
    (case found of
       None \<Rightarrow> \<forall>r \<in> set (upload_sessions db). \<not> is_upload key r
     | Some s \<Rightarrow> us_key s = key \<and> (\<exists>r \<in> set (upload_sessions db). is_upload key r \<and> decode_upload_row r = Inr s))"
proof (cases "select_where (is_upload key) (upload_sessions db)")
  case None
  then have "load_upload_session key db = Inr None"
    unfolding load_upload_session_def by (simp del: select_where_None)
  with None show ?thesis by auto
next
  case (Some r)
  then have r: "r \<in> set (upload_sessions db)" "is_upload key r" using select_where_Some by fastforce+
  then obtain s where s: "decode_upload_row r = Inr s"
    using assms by (auto simp: uploads_ok_def list_all_iff upload_row_ok_def)
  have "us_key s = key" using decode_upload_Inr(1,2) [OF s] r(2) by (simp add: is_upload_def)
  with Some r s show ?thesis by (auto simp: load_upload_session_def)
qed

lemma the_upload_row:
  assumes "uploads_ok L db" "r \<in> set (upload_sessions db)" "is_upload key r"
  shows "select_where (is_upload key) (upload_sessions db) = Some r"
  using select_where_key [of u_key "upload_sessions db" r] assms
  by (simp add: uploads_ok_def is_upload_fun)

text \<open>What a successful save does to the table.\<close>

definition reclaim :: "i64 \<Rightarrow> database \<Rightarrow> database" where
  "reclaim now db = db\<lparr> upload_sessions := delete_where (reclaimable now) (upload_sessions db) \<rparr>"

lemma reclaim_fields [simp]:
  "operations (reclaim now db) = operations db" "purge_jobs (reclaim now db) = purge_jobs db"
  "upload_sessions (reclaim now db) = delete_where (reclaimable now) (upload_sessions db)"
  by (simp_all add: reclaim_def)

lemma reclaim_ok: "uploads_ok L db \<Longrightarrow> uploads_ok L (reclaim now db)"
  by (simp add: reclaim_def uploads_ok_delete)

lemma upsert_Inr:
  "upsert_upload new rows = Inr rows' \<longleftrightarrow>
     upload_check new \<and>
     (if exists_where (\<lambda>r. u_key r = u_key new) rows
      then rows' = update_where (\<lambda>r. u_key r = u_key new) (refresh_row new) rows \<and>
           (\<forall>r \<in> set rows. u_key r = u_key new \<longrightarrow> upload_check (refresh_row new r))
      else rows' = rows @ [new])"
  by (auto simp: upsert_upload_def update_rows_def list_all_iff split: if_splits)

lemma merge_Some:
  assumes "merge_upload_session e p = Some s"
  shows "s = p" "us_key p = us_key e" "upload_length p = upload_length e"
    "path_eq (target_path e) (target_path p)" "path_eq (stage_path e) (stage_path p)"
    "durable_offset e \<le> durable_offset p" "transition_allowed e p"
    "stage_identity e \<noteq> None \<longrightarrow> stage_identity p = stage_identity e"
  using assms
  by (auto simp: merge_upload_session_def Let_def split: if_splits option.splits)

lemma write_session_Inr:
  assumes "write_session s res now x db = Inr (db', answer)"
  obtains row rows where "encode_upload_row s now x = Inr row" "answer = res"
    "upsert_upload row (upload_sessions db) = Inr rows" "db' = db\<lparr>upload_sessions := rows\<rparr>"
  using assms by (auto simp: write_session_def split: sum.splits)

lemma encoded_key: "encode_upload_row s now x = Inr row \<Longrightarrow> u_key row = pair_of_key (us_key s)"
  using encoded_fields(1,2) by (simp add: u_key_def pair_of_key_def)

lemma save_tx_cases:
  assumes ok: "uploads_ok L db" and tx: "save_upload_session_tx L p ttl now db = Inr (db', res)"
  obtains (refused) "db' = reclaim now db" "res \<in> {SessionConflict, SessionFull}"
  | (inserted) row where "res = SessionInserted"
      "encode_upload_row p now (now + ttl) = Inr row"
      "db' = (reclaim now db)\<lparr>upload_sessions := upload_sessions (reclaim now db) @ [row]\<rparr>"
      "\<forall>r \<in> set (upload_sessions (reclaim now db)). u_key r \<noteq> u_key row"
      "count_where (\<lambda>_. True) (upload_sessions (reclaim now db)) < upload_capacity L"
      "count_where (\<lambda>r. u_owner r = u_owner row) (upload_sessions (reclaim now db)) < upload_per_owner L"
      "is_terminal (us_state p) \<or> \<not> exists_where (conflicting_stage p) (upload_sessions (reclaim now db))"
  | (merged) row e where "res = (if session_eq p e then Unchanged else Updated)"
      "encode_upload_row p now (now + ttl) = Inr row"
      "\<exists>r \<in> set (upload_sessions (reclaim now db)). u_key r = u_key row \<and> decode_upload_row r = Inr e"
      "merge_upload_session e p = Some p"
      "db' = (reclaim now db)\<lparr>upload_sessions :=
         update_where (\<lambda>r. u_key r = u_key row) (refresh_row row) (upload_sessions (reclaim now db))\<rparr>"
proof -
  define db1 where "db1 = reclaim now db"
  have ok1: "uploads_ok L db1" using ok by (simp add: db1_def reclaim_ok)
  have fold: "db\<lparr>upload_sessions := delete_where (reclaimable now) (upload_sessions db)\<rparr> = db1"
    by (simp add: db1_def reclaim_def)
  have x: "expiration_time now ttl = Inr (now + ttl)"
    using tx by (auto simp: save_upload_session_tx_def expiration_time_def checked_add_i64_def split: if_splits)
  note tx = tx [unfolded save_upload_session_tx_def x sum.case Let_def fold]
  note refused = refused [folded db1_def] and inserted = inserted [folded db1_def]
    and merged = merged [folded db1_def]
  obtain found where l: "load_upload_session (us_key p) db1 = Inr found" and
    f: "case found of None \<Rightarrow> \<forall>r \<in> set (upload_sessions db1). \<not> is_upload (us_key p) r
        | Some s \<Rightarrow> us_key s = us_key p \<and>
            (\<exists>r \<in> set (upload_sessions db1). is_upload (us_key p) r \<and> decode_upload_row r = Inr s)"
    using load_upload_ok [OF ok1, of "us_key p"] by blast
  note tx = tx [unfolded l sum.case]
  show thesis
  proof (cases "\<not> is_terminal (us_state p) \<and> exists_where (conflicting_stage p) (upload_sessions db1)")
    case True
    with tx refused show thesis by simp
  next
    case nc: False
    show thesis
    proof (cases found)
      case None
      show thesis
      proof (cases "upload_capacity L \<le> count_where (\<lambda>_. True) (upload_sessions db1) \<or>
          upload_per_owner L \<le> count_where (\<lambda>r. u_owner r = owner (us_key p)) (upload_sessions db1)")
        case True
        with tx nc None refused show thesis by simp
      next
        case False
        with tx nc None have "write_session p SessionInserted now (now + ttl) db1 = Inr (db', res)" by auto
        then obtain row rows where w: "encode_upload_row p now (now + ttl) = Inr row" "res = SessionInserted"
          "upsert_upload row (upload_sessions db1) = Inr rows" "db' = db1\<lparr>upload_sessions := rows\<rparr>"
          by (rule write_session_Inr)
        have no: "\<forall>r \<in> set (upload_sessions db1). u_key r \<noteq> u_key row"
          using f None encoded_key [OF w(1)] by (simp add: is_upload_key)
        then have "rows = upload_sessions db1 @ [row]"
          using w(3) by (auto simp: upsert_Inr exists_where_def list_ex_iff)
        with w no False nc show thesis
          by (intro inserted) (auto simp: encoded_fields(1) [OF w(1)])
      qed
    next
      case (Some e)
      with tx nc have m: "(case merge_upload_session e p of None \<Rightarrow> Inr (db1, SessionConflict)
          | Some stored \<Rightarrow> write_session stored (if session_eq stored e then Unchanged else Updated)
               now (now + ttl) db1) = Inr (db', res)"
        by (simp only: if_False option.case)
      show thesis
      proof (cases "merge_upload_session e p")
        case None
        with m refused show thesis by simp
      next
        case (Some s)
        have s: "s = p" by (rule merge_Some(1) [OF Some])
        with m Some have "write_session p (if session_eq p e then Unchanged else Updated) now (now + ttl) db1
            = Inr (db', res)" by simp
        then obtain row rows where w: "encode_upload_row p now (now + ttl) = Inr row"
          "res = (if session_eq p e then Unchanged else Updated)"
          "upsert_upload row (upload_sessions db1) = Inr rows" "db' = db1\<lparr>upload_sessions := rows\<rparr>"
          by (rule write_session_Inr)
        have r: "\<exists>r \<in> set (upload_sessions db1). u_key r = u_key row \<and> decode_upload_row r = Inr e"
          using f \<open>found = Some e\<close> encoded_key [OF w(1)] by (simp add: is_upload_key)
        then have "exists_where (\<lambda>r. u_key r = u_key row) (upload_sessions db1)"
          by (auto simp: exists_where_def list_ex_iff)
        with w(3) have "rows = update_where (\<lambda>r. u_key r = u_key row) (refresh_row row) (upload_sessions db1)"
          by (simp add: upsert_Inr)
        with w r Some s show thesis by (intro merged) auto
      qed
    qed
  qed
qed

text \<open>A row moves on: its binding is fixed, the durable offset does not shrink, the staging file is
  bound once, and the state follows the allowed transitions.\<close>

definition progressed :: "StoredUploadSession \<Rightarrow> StoredUploadSession \<Rightarrow> bool" where
  "progressed s s' \<longleftrightarrow>
     us_key s' = us_key s \<and> target_path s' = target_path s \<and> stage_path s' = stage_path s \<and>
     upload_length s' = upload_length s \<and> durable_offset s \<le> durable_offset s' \<and>
     (stage_identity s \<noteq> None \<longrightarrow> stage_identity s' = stage_identity s) \<and>
     (s' = s \<or> transition_allowed s s')"

definition row_progress :: "upload_row \<Rightarrow> upload_row \<Rightarrow> bool" where
  "row_progress r r' \<longleftrightarrow>
     (\<exists>s s'. decode_upload_row r = Inr s \<and> decode_upload_row r' = Inr s' \<and> progressed s s')"

lemma row_progress_refl: "upload_row_ok r \<Longrightarrow> row_progress r r"
  by (auto simp: row_progress_def upload_row_ok_def progressed_def)

lemma ok_row: "\<lbrakk> uploads_ok L db; r \<in> set (upload_sessions db) \<rbrakk> \<Longrightarrow> upload_row_ok r"
  by (simp add: uploads_ok_def list_all_iff)

lemma active_decoded: "decode_upload_row r = Inr s \<Longrightarrow> active_row r \<longleftrightarrow> \<not> is_terminal (us_state s)"
  using decode_upload_Inr(7) [of r s] by (cases "us_state s") (simp_all add: active_row_def)

lemma transition_active:
  "\<lbrakk> transition_allowed s s'; \<not> is_terminal (us_state s') \<rbrakk> \<Longrightarrow> \<not> is_terminal (us_state s)"
  by (auto simp: transition_allowed_def split: if_splits)

lemma transition_paths:
  "transition_allowed s (p\<lparr>target_path := a, stage_path := b\<rparr>) = transition_allowed s p"
  by (simp add: transition_allowed_def)

lemma stages_exclusive_append:
  assumes "stages_exclusive rows"
    "\<And>r. r \<in> set rows \<Longrightarrow> active_row r \<Longrightarrow> active_row row \<Longrightarrow> u_stage_path r = u_stage_path row \<Longrightarrow> u_key r = u_key row"
  shows "stages_exclusive (rows @ [row])"
  unfolding stages_exclusive_def
proof (intro ballI impI)
  fix x y
  assume xy: "x \<in> set (rows @ [row])" "y \<in> set (rows @ [row])" "active_row x" "active_row y"
    "u_stage_path x = u_stage_path y"
  from xy(1,2) consider "x \<in> set rows" "y \<in> set rows" | "x \<in> set rows" "y = row" | "x = row" "y \<in> set rows" | "x = row" "y = row"
    by (simp, blast)
  then show "u_key x = u_key y"
  proof cases
    case 1
    with assms(1) xy(3-5) show ?thesis unfolding stages_exclusive_def by blast
  next
    case 2
    then show ?thesis using assms(2) [OF 2(1) xy(3)] xy(4,5) by blast
  next
    case 3
    have "u_key y = u_key row" by (rule assms(2) [OF 3(2) xy(4)]) (use xy(3,5) 3(1) in simp_all)
    with 3(1) show ?thesis by simp
  qed simp
qed

lemma merged_row:
  assumes "decode_upload_row r = Inr e" "merge_upload_session e p = Some p"
    "session_typed p" "validate_session p = Inr ()" "encode_upload_row p now x = Inr row"
  shows "upload_row_ok (refresh_row row r)" "row_progress r (refresh_row row r)"
    "active_row (refresh_row row r) \<Longrightarrow> active_row r"
proof -
  note m = merge_Some [OF assms(2)]
  note d = refreshed_row [OF assms(1,3,4) m(2,3) assms(5)]
  show "upload_row_ok (refresh_row row r)" using d by (simp add: upload_row_ok_def)
  have tr: "transition_allowed e (p\<lparr>target_path := target_path e, stage_path := stage_path e\<rparr>)"
    using m(7) by (simp add: transition_paths)
  show "row_progress r (refresh_row row r)"
    using d(1) assms(1) m tr by (auto simp: row_progress_def progressed_def)
  show "active_row (refresh_row row r) \<Longrightarrow> active_row r"
    using transition_active [OF tr] by (simp add: active_decoded [OF assms(1)] active_decoded [OF d(1)])
qed

lemma save_tx_ok:
  assumes ok: "uploads_ok L db" and p: "session_typed p" "validate_session p = Inr ()"
    and tx: "save_upload_session_tx L p ttl now db = Inr (db', res)"
  shows "uploads_ok L db'"
  using ok tx
proof (cases rule: save_tx_cases)
  case refused
  with ok show ?thesis by (simp add: reclaim_ok)
next
  case (inserted row)
  let ?rows = "upload_sessions (reclaim now db)"
  note row = encoded_row_ok [OF p inserted(2)]
  have st: "u_key r = u_key row" if "r \<in> set ?rows" "active_row r" "active_row row"
    "u_stage_path r = u_stage_path row" for r
  proof (rule ccontr)
    assume "u_key r \<noteq> u_key row"
    then have "conflicting_stage p r"
      using that encoded_key [OF inserted(2)] encoded_fields(4) [OF inserted(2)]
      by (simp add: conflicting_stage_def is_upload_key active_row_def)
    moreover have "\<not> is_terminal (us_state p)" using that(3) active_decoded [OF row(2)] by simp
    ultimately show False using inserted(7) that(1) by (auto simp: exists_where_def list_ex_iff)
  qed
  have ok1: "uploads_ok L (reclaim now db)" using ok by (rule reclaim_ok)
  have "stages_exclusive (?rows @ [row])"
    by (rule stages_exclusive_append) (use ok1 st in \<open>simp_all add: uploads_ok_def\<close>)
  moreover have "list_all upload_row_ok (?rows @ [row])"
    using ok1 row by (auto simp: uploads_ok_def upload_row_ok_def)
  moreover have "keys_distinct u_key (?rows @ [row])"
    using ok1 inserted(4) unfolding uploads_ok_def keys_distinct_append by auto
  moreover have "count_where (\<lambda>r. u_owner r = ow) (?rows @ [row]) \<le> upload_per_owner L" for ow
    using ok1 inserted(6) by (cases "ow = u_owner row") (simp_all add: uploads_ok_def)
  ultimately show ?thesis
    unfolding inserted(3) uploads_ok_def using inserted(5) by simp
next
  case (merged row e)
  let ?rows = "upload_sessions (reclaim now db)"
  have ok1: "uploads_ok L (reclaim now db)" using ok by (rule reclaim_ok)
  have e: "decode_upload_row r = Inr e" if "r \<in> set ?rows" "u_key r = u_key row" for r
  proof -
    obtain r' where r': "r' \<in> set ?rows" "u_key r' = u_key row" "decode_upload_row r' = Inr e"
      using merged(3) by blast
    have "keys_distinct u_key ?rows" using ok1 unfolding uploads_ok_def by (rule conjunct1)
    then have "r = r'" using keys_distinct_eqD that r'(1,2) by fastforce
    with r'(3) show ?thesis by simp
  qed
  show ?thesis unfolding merged(5)
  proof (rule uploads_ok_update [OF ok1 refresh_update.row_update_axioms])
    fix r assume "r \<in> set ?rows" "u_key r = u_key row"
    note d = merged_row [OF e [OF this] merged(4) p merged(2)]
    show "upload_row_ok (refresh_row row r)" "active_row (refresh_row row r) \<Longrightarrow> active_row r"
      by (rule d(1), rule d(3))
  qed (simp add: refresh_row_def)
qed

text \<open>What the other commands do to the table.\<close>

lemma rejected_row:
  assumes "decode_upload_row r = Inr s" "us_state s = AwaitingConfirmation"
  shows "decode_upload_row (reject_row now x r) = Inr (s\<lparr>us_state := Rejected\<rparr>)"
    "row_progress r (reject_row now x r)" "\<not> active_row (reject_row now x r)"
proof -
  note d = decode_upload_Inr [OF assms(1)]
  let ?s = "s\<lparr>us_state := Rejected\<rparr>"
  have v: "validate_session ?s = Inr ()"
    using d(8) assms(2) by (simp add: validate_session_ok)
  show 1: "decode_upload_row (reject_row now x r) = Inr ?s"
    using assms d v
    by (cases "us_key s"; cases s)
      (auto simp: decode_upload_row_def reject_row_def upload_from_database_def Let_def u64_try_from_def
        split: sum.splits option.splits if_splits)
  show "row_progress r (reject_row now x r)"
    using 1 assms by (simp add: row_progress_def progressed_def transition_allowed_def)
  show "\<not> active_row (reject_row now x r)" by (simp add: active_row_def reject_row_def)
qed

lemma reject_check_None:
  "reject_check target stage found = None \<longleftrightarrow>
     (\<exists>s. found = Some s \<and> us_state s = AwaitingConfirmation \<and>
          path_eq (target_path s) target \<and> path_eq (stage_path s) stage)"
  by (auto simp: reject_check_def split: option.splits)

lemma reject_tx_cases:
  assumes ok: "uploads_ok L db" and tx: "reject_upload_session_tx key target stage ttl now db = Inr (db', res)"
  obtains (same) "db' = db"
  | (rejected) r s where "r \<in> set (upload_sessions db)" "is_upload key r" "decode_upload_row r = Inr s"
      "us_state s = AwaitingConfirmation" "res = RejectedNow (s\<lparr>us_state := Rejected\<rparr>)"
      "db' = db\<lparr>upload_sessions := update_where (\<lambda>r. is_upload key r \<and> u_state r = UPLOAD_AWAITING_CONFIRMATION)
         (reject_row now (now + ttl)) (upload_sessions db)\<rparr>"
      "\<forall>r \<in> set (upload_sessions db). is_upload key r \<and> u_state r = UPLOAD_AWAITING_CONFIRMATION \<longrightarrow>
         upload_check (reject_row now (now + ttl) r)"
proof -
  have x: "expiration_time now ttl = Inr (now + ttl)"
    using tx by (auto simp: reject_upload_session_tx_def expiration_time_def checked_add_i64_def split: if_splits)
  obtain found where l: "load_upload_session key db = Inr found" and
    f: "case found of None \<Rightarrow> \<forall>r \<in> set (upload_sessions db). \<not> is_upload key r
        | Some s \<Rightarrow> us_key s = key \<and>
            (\<exists>r \<in> set (upload_sessions db). is_upload key r \<and> decode_upload_row r = Inr s)"
    using load_upload_ok [OF ok, of key] by blast
  show thesis
  proof (cases "reject_check target stage found")
    case (Some a)
    with tx x l same show thesis by (simp add: reject_upload_session_tx_def)
  next
    case None
    then obtain s where s: "found = Some s" "us_state s = AwaitingConfirmation" by (auto simp: reject_check_None)
    with f obtain r where r: "r \<in> set (upload_sessions db)" "is_upload key r" "decode_upload_row r = Inr s"
      by auto
    have "res = RejectedNow (s\<lparr>us_state := Rejected\<rparr>) \<and>
      db' = db\<lparr>upload_sessions := update_where (\<lambda>r. is_upload key r \<and> u_state r = UPLOAD_AWAITING_CONFIRMATION)
         (reject_row now (now + ttl)) (upload_sessions db)\<rparr> \<and>
      (\<forall>r \<in> set (upload_sessions db). is_upload key r \<and> u_state r = UPLOAD_AWAITING_CONFIRMATION \<longrightarrow>
         upload_check (reject_row now (now + ttl) r))"
      using tx unfolding reject_upload_session_tx_def x l sum.case None option.case update_rows_def
      by (simp add: s list_all_iff split: if_splits)
    with r s(2) rejected show thesis by blast
  qed
qed

lemma the_same_row:
  "\<lbrakk> uploads_ok L db; r \<in> set (upload_sessions db); r' \<in> set (upload_sessions db); is_upload key r; is_upload key r' \<rbrakk>
   \<Longrightarrow> r = r'"
  unfolding uploads_ok_def is_upload_key by (rule keys_distinct_eqD [of u_key]) simp_all

lemma reject_tx_ok:
  assumes ok: "uploads_ok L db" and tx: "reject_upload_session_tx key target stage ttl now db = Inr (db', res)"
  shows "uploads_ok L db'"
  using ok tx
proof (cases rule: reject_tx_cases)
  case (rejected r s)
  show ?thesis unfolding rejected(6)
  proof (rule uploads_ok_update [OF ok reject_update.row_update_axioms])
    fix r' assume r': "r' \<in> set (upload_sessions db)" "is_upload key r' \<and> u_state r' = UPLOAD_AWAITING_CONFIRMATION"
    then have "r' = r" using the_same_row [OF ok] rejected(1,2) by blast
    with rejected_row [OF rejected(3,4)] rejected(7) r'
    show "upload_row_ok (reject_row now (now + ttl) r')"
      "active_row (reject_row now (now + ttl) r') \<Longrightarrow> active_row r'"
      by (simp_all add: upload_row_ok_def)
  qed (simp add: reject_row_def)
qed (simp add: ok)

lemma remove_tx_cases:
  assumes ok: "uploads_ok L db" and tx: "remove_session_tx x db = Inr (db', res)"
  obtains (same) "db' = db" "\<not> res"
  | (removed) r s where "r \<in> set (upload_sessions db)" "is_upload (us_key x) r" "decode_upload_row r = Inr s"
      "session_eq s x" "res"
      "db' = db\<lparr>upload_sessions := delete_where (is_upload (us_key x)) (upload_sessions db)\<rparr>"
proof -
  obtain found where l: "load_upload_session (us_key x) db = Inr found" and
    f: "case found of None \<Rightarrow> \<forall>r \<in> set (upload_sessions db). \<not> is_upload (us_key x) r
        | Some s \<Rightarrow> us_key s = us_key x \<and>
            (\<exists>r \<in> set (upload_sessions db). is_upload (us_key x) r \<and> decode_upload_row r = Inr s)"
    using load_upload_ok [OF ok, of "us_key x"] by blast
  show thesis
  proof (cases found)
    case None
    with tx l same show thesis by (simp add: remove_session_tx_def)
  next
    case (Some s)
    with f obtain r where r: "r \<in> set (upload_sessions db)" "is_upload (us_key x) r" "decode_upload_row r = Inr s"
      by auto
    show thesis
    proof (cases "session_eq s x")
      case True
      with tx l Some have "res" "db' = db\<lparr>upload_sessions := delete_where (is_upload (us_key x)) (upload_sessions db)\<rparr>"
        by (simp_all add: remove_session_tx_def split: if_splits)
      with r True removed show thesis by blast
    qed (use tx l Some same in \<open>simp add: remove_session_tx_def\<close>)
  qed
qed

lemma remove_expired_tx_cases:
  assumes ok: "uploads_ok L db" and tx: "remove_expired_tx x now db = Inr (db', res)"
  obtains (same) "db' = db"
  | (removed) r y where "r \<in> set (upload_sessions db)" "is_upload (us_key (expired_session x)) r"
      "decode_expired_upload_row r = Inr y" "expired_eq y x" "u_expires_at_ms r \<le> now"
      "db' = db\<lparr>upload_sessions := delete_where (\<lambda>r. is_upload (us_key (expired_session x)) r \<and>
         u_expires_at_ms r = expired_at_ms x \<and> u_expires_at_ms r \<le> now) (upload_sessions db)\<rparr>"
proof (cases "now < expired_at_ms x")
  case True
  with tx same show thesis by (simp add: remove_expired_tx_def Let_def)
next
  case False
  let ?key = "us_key (expired_session x)"
  show thesis
  proof (cases "select_where (is_upload ?key) (upload_sessions db)")
    case None
    then have "load_expired_upload_session ?key db = Inr None"
      unfolding load_expired_upload_session_def by (simp del: select_where_None)
    with tx False same show thesis by (simp add: remove_expired_tx_def Let_def)
  next
    case (Some r)
    then have r: "r \<in> set (upload_sessions db)" "is_upload ?key r" using select_where_Some by fastforce+
    then obtain s where "decode_upload_row r = Inr s" using ok_row [OF ok] by (auto simp: upload_row_ok_def)
    then obtain y where y: "decode_expired_upload_row r = Inr y" "expired_at_ms y = u_expires_at_ms r"
      by (simp add: decode_expired_upload_row_def)
    then have l: "load_expired_upload_session ?key db = Inr (Some y)"
      using Some by (simp add: load_expired_upload_session_def)
    show thesis
    proof (cases "expired_eq y x")
      case True
      with y(2) False have "u_expires_at_ms r \<le> now" by (simp add: expired_eq_def)
      moreover have "db' = db\<lparr>upload_sessions := delete_where (\<lambda>r. is_upload ?key r \<and>
         u_expires_at_ms r = expired_at_ms x \<and> u_expires_at_ms r \<le> now) (upload_sessions db)\<rparr>"
        using tx l False True by (simp add: remove_expired_tx_def Let_def)
      ultimately show thesis using removed r y True by blast
    qed (use tx l False same in \<open>simp add: remove_expired_tx_def Let_def\<close>)
  qed
qed

section \<open>The upload commands as a machine\<close>

datatype upload_command =
    SaveUpload StoredUploadSession nat
  | RejectUpload StoreKey string string nat
  | RemoveUploadIfMatches StoredUploadSession
  | RemoveExpiredUploadIfMatches ExpiredUploadSession

fun upload_step :: "StoreWorker \<Rightarrow> tick \<times> upload_command \<Rightarrow> StoreWorker" where
  "upload_step w (t, SaveUpload s ttl) = fst (save_upload_session t s ttl w)"
| "upload_step w (t, RejectUpload key target stage ttl) = fst (reject_upload_session t key target stage ttl w)"
| "upload_step w (t, RemoveUploadIfMatches s) = fst (remove_upload_session_if_matches t s w)"
| "upload_step w (t, RemoveExpiredUploadIfMatches x) = fst (remove_expired_upload_session_if_matches t x w)"

fun upload_event_ok :: "tick \<times> upload_command \<Rightarrow> bool" where
  "upload_event_ok (t, SaveUpload s _) \<longleftrightarrow> tick_ok t \<and> session_typed s"
| "upload_event_ok (t, _) \<longleftrightarrow> tick_ok t"

definition upload_store_ok :: "StoreWorker \<Rightarrow> bool" where
  "upload_store_ok w \<longleftrightarrow> clock_ok (clock w) \<and> uploads_ok (limits w) (connection w)"

text \<open>Every command either leaves the worker alone or runs one transaction.\<close>

lemma save_fst:
  obtains (skip) "fst (save_upload_session t s ttl w) = w"
  | (run) ms where "validate_session s = Inr ()"
      "fst (save_upload_session t s ttl w) = fst (timed t w (save_upload_session_tx (limits w) s ms))"
  by (cases "validate_session s"; cases "duration_ms ttl") (auto simp: save_upload_session_def)

lemma reject_fst:
  obtains (skip) "fst (reject_upload_session t key target stage ttl w) = w"
  | (run) ms where
      "fst (reject_upload_session t key target stage ttl w) =
       fst (timed t w (reject_upload_session_tx key target stage ms))"
proof -
  have "fst (reject_upload_session t key target stage ttl w) = w \<or>
      (\<exists>ms. fst (reject_upload_session t key target stage ttl w) =
        fst (timed t w (reject_upload_session_tx key target stage ms)))"
    unfolding reject_upload_session_def by (auto split: sum.splits option.splits)
  with that show thesis by blast
qed

lemma transact_cases:
  obtains (failed) "fst (transact t w body) = w"
  | (done') db r where "sql_ok t" "body (connection w) = Inr (db, r)" "fst (transact t w body) = w\<lparr>connection := db\<rparr>"
      "snd (transact t w body) = Inr r"
  by (cases "sql_ok t"; cases "body (connection w)") (auto simp: transact_def)

lemma remove_fst:
  obtains (skip) "fst (remove_upload_session_if_matches t x w) = w"
  | (run) db r where "remove_session_tx x (connection w) = Inr (db, r)"
      "fst (remove_upload_session_if_matches t x w) = w\<lparr>connection := db\<rparr>"
proof (cases "validate_session x")
  case (Inr u)
  then have *: "fst (remove_upload_session_if_matches t x w) = fst (transact t w (remove_session_tx x))"
    by (simp add: remove_upload_session_if_matches_def)
  show thesis
    by (rule transact_cases [of t w "remove_session_tx x"]) (use * skip run in auto)
qed (use skip in \<open>simp add: remove_upload_session_if_matches_def\<close>)

lemma remove_expired_fst:
  obtains (skip) "fst (remove_expired_upload_session_if_matches t x w) = w"
  | (run) "fst (remove_expired_upload_session_if_matches t x w) = fst (timed t w (remove_expired_tx x))"
  by (cases "validate_session (expired_session x)") (auto simp: remove_expired_upload_session_if_matches_def)

text \<open>A fact about the table and the time holds after a command when it holds of the old table at
  every time and of every table a transaction can produce at its own time.\<close>

lemma timed_rel:
  assumes "\<And>now. Q now (connection w)" "\<And>now db' r. body now (connection w) = Inr (db', r) \<Longrightarrow> Q now db'"
  shows "Q (last_ms (clock (fst (timed t w body)))) (connection (fst (timed t w body)))"
proof (cases rule: timed_cases [of t w body])
  case (failed e)
  with assms(1) show ?thesis by simp
next
  case (done' now db r)
  with assms(2) observe_Inr(2) [OF done'(1)] show ?thesis by simp
qed

lemma upload_step_frame:
  "limits (upload_step w e) = limits w" "deferred_abandons (upload_step w e) = deferred_abandons w"
proof -
  obtain t c where tc: "e = (t, c)" by fastforce
  have "limits (upload_step w e) = limits w \<and> deferred_abandons (upload_step w e) = deferred_abandons w"
  proof (cases c)
    case (SaveUpload s ttl)
    then show ?thesis by (cases rule: save_fst [of t s ttl w]) (simp_all add: tc)
  next
    case (RejectUpload key target stage ttl)
    then show ?thesis by (cases rule: reject_fst [of t key target stage ttl w]) (simp_all add: tc)
  next
    case (RemoveUploadIfMatches x)
    then show ?thesis by (cases rule: remove_fst [of t x w]) (simp_all add: tc)
  next
    case (RemoveExpiredUploadIfMatches x)
    then show ?thesis by (cases rule: remove_expired_fst [of t x w]) (simp_all add: tc)
  qed
  then show "limits (upload_step w e) = limits w" "deferred_abandons (upload_step w e) = deferred_abandons w"
    by simp_all
qed

lemmas timed_uploads_ok = timed_keeps [where P = "uploads_ok L" for L]

lemma upload_step_ok:
  assumes ok: "upload_store_ok w" and e: "upload_event_ok e"
  shows "upload_store_ok (upload_step w e)"
proof -
  obtain t c where tc: "e = (t, c)" by fastforce
  have wall: "wall_ok (wall t)" using e by (cases c) (auto simp: tc tick_ok_def)
  have cl: "clock_ok (clock w)" and ups: "uploads_ok (limits w) (connection w)"
    using ok by (auto simp: upload_store_ok_def)
  note ck = timed_clock_ok [OF cl wall]
  have "clock_ok (clock (upload_step w e)) \<and> uploads_ok (limits w) (connection (upload_step w e))"
  proof (cases c)
    case (SaveUpload s ttl)
    then have s: "session_typed s" using e by (simp add: tc)
    show ?thesis unfolding tc SaveUpload upload_step.simps
    proof (cases rule: save_fst [of t s ttl w])
      case (run ms)
      show "clock_ok (clock (fst (save_upload_session t s ttl w))) \<and>
          uploads_ok (limits w) (connection (fst (save_upload_session t s ttl w)))"
        unfolding run(2) by (intro conjI ck timed_uploads_ok [OF ups]) (rule save_tx_ok [OF ups s run(1)])
    qed (simp add: cl ups)
  next
    case (RejectUpload key target stage ttl)
    show ?thesis unfolding tc RejectUpload upload_step.simps
    proof (cases rule: reject_fst [of t key target stage ttl w])
      case (run ms)
      show "clock_ok (clock (fst (reject_upload_session t key target stage ttl w))) \<and>
          uploads_ok (limits w) (connection (fst (reject_upload_session t key target stage ttl w)))"
        unfolding run by (intro conjI ck timed_uploads_ok [OF ups]) (rule reject_tx_ok [OF ups])
    qed (simp add: cl ups)
  next
    case (RemoveUploadIfMatches x)
    show ?thesis unfolding tc RemoveUploadIfMatches upload_step.simps
    proof (cases rule: remove_fst [of t x w])
      case (run db r)
      have "uploads_ok (limits w) db"
        using ups run(1) by (cases rule: remove_tx_cases) (simp_all add: ups uploads_ok_delete)
      with cl run(2) show "clock_ok (clock (fst (remove_upload_session_if_matches t x w))) \<and>
          uploads_ok (limits w) (connection (fst (remove_upload_session_if_matches t x w)))" by simp
    qed (simp add: cl ups)
  next
    case (RemoveExpiredUploadIfMatches x)
    have tx: "uploads_ok (limits w) db'" if "remove_expired_tx x now (connection w) = Inr (db', r)" for now db' r
      using ups that by (cases rule: remove_expired_tx_cases) (simp_all add: ups uploads_ok_delete)
    show ?thesis unfolding tc RemoveExpiredUploadIfMatches upload_step.simps
    proof (cases rule: remove_expired_fst [of t x w])
      case run
      show "clock_ok (clock (fst (remove_expired_upload_session_if_matches t x w))) \<and>
          uploads_ok (limits w) (connection (fst (remove_expired_upload_session_if_matches t x w)))"
        unfolding run by (intro conjI ck timed_uploads_ok [OF ups]) (rule tx)
    qed (simp add: cl ups)
  qed
  then show ?thesis by (simp add: upload_store_ok_def upload_step_frame)
qed

interpretation upload_machine: invariant_machine upload_step upload_event_ok upload_store_ok
  by unfold_locales (rule upload_step_ok)

section \<open>The fate of a session\<close>

text \<open>Why a command may drop a row, and which rows it may add.\<close>

fun lost_allowed :: "upload_command \<Rightarrow> i64 \<Rightarrow> upload_row \<Rightarrow> bool" where
  "lost_allowed (SaveUpload _ _) now r \<longleftrightarrow> reclaimable now r"
| "lost_allowed (RejectUpload _ _ _ _) now r \<longleftrightarrow> False"
| "lost_allowed (RemoveUploadIfMatches x) now r \<longleftrightarrow>
     (case decode_upload_row r of Inl _ \<Rightarrow> False | Inr s \<Rightarrow> session_eq s x)"
| "lost_allowed (RemoveExpiredUploadIfMatches x) now r \<longleftrightarrow>
     u_expires_at_ms r \<le> now \<and>
     (case decode_expired_upload_row r of Inl _ \<Rightarrow> False | Inr y \<Rightarrow> expired_eq y x)"

fun gain_allowed :: "upload_command \<Rightarrow> upload_row \<Rightarrow> bool" where
  "gain_allowed (SaveUpload s _) r \<longleftrightarrow> decode_upload_row r = Inr s"
| "gain_allowed _ r \<longleftrightarrow> False"

abbreviation rows_fate :: "upload_command \<Rightarrow> i64 \<Rightarrow> upload_row list \<Rightarrow> upload_row list \<Rightarrow> bool" where
  "rows_fate c now \<equiv> table_fate row_progress (lost_allowed c now) (gain_allowed c)"

lemma ok_progress: "\<lbrakk> uploads_ok L db; r \<in> set (upload_sessions db) \<rbrakk> \<Longrightarrow> row_progress r r"
  by (rule row_progress_refl) (rule ok_row)

lemma fate_refl: "uploads_ok L db \<Longrightarrow> rows_fate c now (upload_sessions db) (upload_sessions db)"
  by (rule table_fate_same) (rule ok_progress)

lemma fate_delete:
  assumes "uploads_ok L db" "\<And>r. r \<in> set (upload_sessions db) \<Longrightarrow> P r \<Longrightarrow> lost_allowed c now r"
  shows "rows_fate c now (upload_sessions db) (delete_where P (upload_sessions db))"
  by (rule table_fate_delete) (rule ok_progress [OF assms(1)], assumption, rule assms(2))

lemma fate_update:
  assumes "uploads_ok L db" "\<And>r. r \<in> set (upload_sessions db) \<Longrightarrow> P r \<Longrightarrow> row_progress r (f r)"
  shows "rows_fate c now (upload_sessions db) (update_where P f (upload_sessions db))"
  by (rule table_fate_update) (rule ok_progress [OF assms(1)], assumption, rule assms(2))

lemma save_tx_fate:
  assumes ok: "uploads_ok L db" and p: "session_typed p" "validate_session p = Inr ()"
    and tx: "save_upload_session_tx L p ttl now db = Inr (db', res)"
  shows "rows_fate (SaveUpload p t) now (upload_sessions db) (upload_sessions db')"
proof (rule table_fate_after_delete [where P = "reclaimable now"])
  have ok1: "uploads_ok L (reclaim now db)" using ok by (rule reclaim_ok)
  note same = fate_refl [OF ok1, of "SaveUpload p t" now, unfolded reclaim_fields]
  show "rows_fate (SaveUpload p t) now (delete_where (reclaimable now) (upload_sessions db)) (upload_sessions db')"
    using ok tx
  proof (cases rule: save_tx_cases)
    case refused
    with same show ?thesis by simp
  next
    case (inserted row)
    with same encoded_row_ok(2) [OF p inserted(2)] show ?thesis
      by (auto simp: table_fate_def)
  next
    case (merged row e)
    have "rows_fate (SaveUpload p t) now (upload_sessions (reclaim now db))
        (update_where (\<lambda>r. u_key r = u_key row) (refresh_row row) (upload_sessions (reclaim now db)))"
    proof (rule fate_update [OF ok1])
      fix r assume r: "r \<in> set (upload_sessions (reclaim now db))" "u_key r = u_key row"
      obtain r' where r': "r' \<in> set (upload_sessions (reclaim now db))" "u_key r' = u_key row" "decode_upload_row r' = Inr e"
        using merged(3) by blast
      have "keys_distinct u_key (upload_sessions (reclaim now db))"
        using ok1 unfolding uploads_ok_def by (rule conjunct1)
      then have "r = r'" using keys_distinct_eqD r r'(1,2) by fastforce
      with r'(3) merged_row(2) [OF _ merged(4) p merged(2)] show "row_progress r (refresh_row row r)" by blast
    qed
    with merged(5) show ?thesis by simp
  qed
qed simp_all

lemma reject_tx_fate:
  assumes ok: "uploads_ok L db" and tx: "reject_upload_session_tx key target stage ttl now db = Inr (db', res)"
  shows "rows_fate (RejectUpload k a b t) now (upload_sessions db) (upload_sessions db')"
  using ok tx
proof (cases rule: reject_tx_cases)
  case same
  with fate_refl [OF ok] show ?thesis by simp
next
  case (rejected r s)
  have "rows_fate (RejectUpload k a b t) now (upload_sessions db)
     (update_where (\<lambda>r. is_upload key r \<and> u_state r = UPLOAD_AWAITING_CONFIRMATION)
         (reject_row now (now + ttl)) (upload_sessions db))"
  proof (rule fate_update [OF ok])
    fix r' assume r': "r' \<in> set (upload_sessions db)" "is_upload key r' \<and> u_state r' = UPLOAD_AWAITING_CONFIRMATION"
    then have "r' = r" using the_same_row [OF ok] rejected(1,2) by blast
    with rejected_row(2) [OF rejected(3,4)] show "row_progress r' (reject_row now (now + ttl) r')" by simp
  qed
  with rejected(6) show ?thesis by simp
qed

lemma remove_tx_fate:
  assumes ok: "uploads_ok L db" and tx: "remove_session_tx x db = Inr (db', res)"
  shows "rows_fate (RemoveUploadIfMatches x) now (upload_sessions db) (upload_sessions db')"
  using ok tx
proof (cases rule: remove_tx_cases)
  case same
  with fate_refl [OF ok] show ?thesis by simp
next
  case (removed r s)
  have "lost_allowed (RemoveUploadIfMatches x) now r'"
    if "r' \<in> set (upload_sessions db)" "is_upload (us_key x) r'" for r'
    using the_same_row [OF ok that(1) removed(1) that(2) removed(2)] removed(3,4) by simp
  with fate_delete [OF ok] removed(6) show ?thesis by simp
qed

lemma remove_expired_tx_fate:
  assumes ok: "uploads_ok L db" and tx: "remove_expired_tx x now db = Inr (db', res)"
  shows "rows_fate (RemoveExpiredUploadIfMatches x) now (upload_sessions db) (upload_sessions db')"
  using ok tx
proof (cases rule: remove_expired_tx_cases)
  case same
  with fate_refl [OF ok] show ?thesis by simp
next
  case (removed r y)
  have "lost_allowed (RemoveExpiredUploadIfMatches x) now r'"
    if "r' \<in> set (upload_sessions db)" "is_upload (us_key (expired_session x)) r'" for r'
    using the_same_row [OF ok that(1) removed(1) that(2) removed(2)] removed(3-5) by simp
  then have "rows_fate (RemoveExpiredUploadIfMatches x) now (upload_sessions db)
      (delete_where (\<lambda>r. is_upload (us_key (expired_session x)) r \<and> u_expires_at_ms r = expired_at_ms x \<and>
         u_expires_at_ms r \<le> now) (upload_sessions db))"
    by (intro fate_delete [OF ok]) blast
  with removed(6) show ?thesis by simp
qed

lemmas timed_fate = timed_rel [where Q = "\<lambda>now db. rows_fate c now rows (upload_sessions db)" for c rows]

lemma upload_step_fate:
  assumes ok: "upload_store_ok w" and e: "upload_event_ok (t, c)"
  shows "rows_fate c (last_ms (clock (upload_step w (t, c)))) (upload_sessions (connection w))
    (upload_sessions (connection (upload_step w (t, c))))"
proof -
  have ups: "uploads_ok (limits w) (connection w)" using ok by (simp add: upload_store_ok_def)
  note same = fate_refl [OF ups]
  show ?thesis
  proof (cases c)
    case (SaveUpload s ttl)
    then have s: "session_typed s" using e by simp
    show ?thesis
    proof (cases rule: save_fst [of t s ttl w])
      case (run ms)
      show ?thesis unfolding SaveUpload upload_step.simps run(2) by (rule timed_fate [OF same]) (rule save_tx_fate [OF ups s run(1)])
    qed (simp add: SaveUpload same)
  next
    case (RejectUpload key target stage ttl)
    show ?thesis
    proof (cases rule: reject_fst [of t key target stage ttl w])
      case (run ms)
      show ?thesis unfolding RejectUpload upload_step.simps run by (rule timed_fate [OF same]) (rule reject_tx_fate [OF ups])
    qed (simp add: RejectUpload same)
  next
    case (RemoveUploadIfMatches x)
    show ?thesis
    proof (cases rule: remove_fst [of t x w])
      case (run db r)
      show ?thesis unfolding RemoveUploadIfMatches upload_step.simps run(2) using remove_tx_fate [OF ups run(1)] by simp
    qed (simp add: RemoveUploadIfMatches same)
  next
    case (RemoveExpiredUploadIfMatches x)
    show ?thesis
    proof (cases rule: remove_expired_fst [of t x w])
      case run
      show ?thesis unfolding RemoveExpiredUploadIfMatches upload_step.simps run by (rule timed_fate [OF same]) (rule remove_expired_tx_fate [OF ups])
    qed (simp add: RemoveExpiredUploadIfMatches same)
  qed
qed

section \<open>Errors\<close>

lemma expiration_error: "expiration_time now ttl = Inl e \<Longrightarrow> environment_error e"
  by (auto simp: expiration_time_def split: option.splits)

lemma upsert_total:
  assumes "upload_check new" "\<And>r. r \<in> set rows \<Longrightarrow> u_key r = u_key new \<Longrightarrow> upload_check (refresh_row new r)"
  shows "\<exists>rows'. upsert_upload new rows = Inr rows'"
  using assms by (auto simp: upsert_Inr)

lemma save_tx_error:
  assumes ok: "uploads_ok L db" and p: "session_typed p" "validate_session p = Inr ()"
    and tx: "save_upload_session_tx L p ttl now db = Inl e"
  shows "environment_error e"
proof (cases "expiration_time now ttl")
  case (Inl x)
  with tx expiration_error show ?thesis by (simp add: save_upload_session_tx_def)
next
  case (Inr x)
  define db1 where "db1 = reclaim now db"
  have ok1: "uploads_ok L db1" using ok by (simp add: db1_def reclaim_ok)
  have fold: "db\<lparr>upload_sessions := delete_where (reclaimable now) (upload_sessions db)\<rparr> = db1"
    by (simp add: db1_def reclaim_def)
  obtain found where l: "load_upload_session (us_key p) db1 = Inr found" and
    f: "case found of None \<Rightarrow> \<forall>r \<in> set (upload_sessions db1). \<not> is_upload (us_key p) r
        | Some s \<Rightarrow> us_key s = us_key p \<and>
            (\<exists>r \<in> set (upload_sessions db1). is_upload (us_key p) r \<and> decode_upload_row r = Inr s)"
    using load_upload_ok [OF ok1, of "us_key p"] by blast
  obtain row where row: "encode_upload_row p now x = Inr row" using encode_upload_Inr [OF p(2)] by blast
  have check: "upload_check (refresh_row row r)"
    if "merge_upload_session s p = Some p" "found = Some s" "r \<in> set (upload_sessions db1)" "u_key r = u_key row" for s r
  proof -
    note found = that(2)
    obtain r' where r': "r' \<in> set (upload_sessions db1)" "is_upload (us_key p) r'" "decode_upload_row r' = Inr s"
      using f found by auto
    have "is_upload (us_key p) r" using that(4) encoded_key [OF row] by (simp add: is_upload_key)
    then have "r = r'" using the_same_row [OF ok1 that(3) r'(1) _ r'(2)] by blast
    with r'(3) refreshed_row(2) [OF _ p _ _ row] merge_Some(2,3) [OF that(1)] show ?thesis by simp
  qed
  have w: "\<exists>res'. write_session p res now x db1 = Inr res'"
    if "\<And>r. r \<in> set (upload_sessions db1) \<Longrightarrow> u_key r = u_key row \<Longrightarrow> upload_check (refresh_row row r)" for res
    using upsert_total [OF encoded_row_ok(1) [OF p row], of "upload_sessions db1"] that row
    by (auto simp: write_session_def)
  note tx = tx [unfolded save_upload_session_tx_def Inr sum.case Let_def fold l]
  show ?thesis
  proof (cases found)
    case None
    then have "r \<in> set (upload_sessions db1) \<Longrightarrow> u_key r \<noteq> u_key row" for r
      using f encoded_key [OF row] by (simp add: is_upload_key)
    with w [of SessionInserted] tx None show ?thesis by (auto split: if_splits)
  next
    case (Some s)
    with tx obtain stored where m: "merge_upload_session s p = Some stored"
      by (auto split: if_splits option.splits)
    with merge_Some(1) [OF m] have m': "merge_upload_session s p = Some p" by simp
    with w [OF check [OF m' Some], of "if session_eq p s then Unchanged else Updated"] tx Some show ?thesis
      by (auto split: if_splits)
  qed
qed

lemma reject_tx_error:
  assumes ok: "uploads_ok L db" and tx: "reject_upload_session_tx key target stage ttl now db = Inl e"
  shows "environment_error e"
proof (cases "expiration_time now ttl")
  case (Inl x)
  with tx expiration_error show ?thesis by (simp add: reject_upload_session_tx_def)
next
  case (Inr x)
  let ?P = "\<lambda>r. is_upload key r \<and> u_state r = UPLOAD_AWAITING_CONFIRMATION"
  obtain found where l: "load_upload_session key db = Inr found" and
    f: "case found of None \<Rightarrow> \<forall>r \<in> set (upload_sessions db). \<not> is_upload key r
        | Some s \<Rightarrow> us_key s = key \<and>
            (\<exists>r \<in> set (upload_sessions db). is_upload key r \<and> decode_upload_row r = Inr s)"
    using load_upload_ok [OF ok, of key] by blast
  note tx = tx [unfolded reject_upload_session_tx_def Inr sum.case l]
  then have "reject_check target stage found = None" by (cases "reject_check target stage found") simp_all
  then obtain s where s: "found = Some s" "us_state s = AwaitingConfirmation" by (auto simp: reject_check_None)
  with f obtain r where r: "r \<in> set (upload_sessions db)" "is_upload key r" "decode_upload_row r = Inr s" by auto
  have P: "?P r" using r(2) decode_upload_Inr(7) [OF r(3)] s(2) by simp
  have only: "r' = r" if "r' \<in> set (upload_sessions db)" "?P r'" for r'
    using the_same_row [OF ok that(1) r(1)] that(2) r(2) by blast
  have "upload_check (reject_row now x r)"
  proof -
    have "upload_check r" using ok_row [OF ok r(1)] by (simp add: upload_row_ok_def)
    then show ?thesis using P decode_upload_Inr(6) [OF r(3)]
      by (simp add: upload_check_def reject_row_def)
  qed
  then have chk: "\<forall>r' \<in> set (upload_sessions db). ?P r' \<longrightarrow> upload_check (reject_row now x r')" using only by blast
  have "keys_distinct u_key (upload_sessions db)" using ok unfolding uploads_ok_def by (rule conjunct1)
  then have "count_where ?P (upload_sessions db) \<le> 1"
    unfolding is_upload_key by (rule count_where_key_le1)
  moreover have "count_where ?P (upload_sessions db) \<noteq> 0" using r(1) P by (auto simp: count_where_0)
  ultimately have "count_where ?P (upload_sessions db) = 1"
    using count_where_nonneg [of ?P "upload_sessions db"] by linarith
  with tx chk \<open>reject_check target stage found = None\<close> show ?thesis
    by (simp add: update_rows_def list_all_iff split: if_splits)
qed

lemma remove_tx_error:
  assumes ok: "uploads_ok L db" and tx: "remove_session_tx x db = Inl e"
  shows False
proof -
  obtain found where l: "load_upload_session (us_key x) db = Inr found" and
    f: "case found of None \<Rightarrow> \<forall>r \<in> set (upload_sessions db). \<not> is_upload (us_key x) r
        | Some s \<Rightarrow> us_key s = us_key x \<and>
            (\<exists>r \<in> set (upload_sessions db). is_upload (us_key x) r \<and> decode_upload_row r = Inr s)"
    using load_upload_ok [OF ok, of "us_key x"] by blast
  with tx have n: "count_where (is_upload (us_key x)) (upload_sessions db) \<noteq> 1" and "found \<noteq> None"
    by (auto simp: remove_session_tx_def split: if_splits option.splits)
  with f obtain r where r: "r \<in> set (upload_sessions db)" "is_upload (us_key x) r" by auto
  have "keys_distinct u_key (upload_sessions db)" using ok unfolding uploads_ok_def by (rule conjunct1)
  then have "count_where (\<lambda>r. u_key r = pair_of_key (us_key x) \<and> True) (upload_sessions db) \<le> 1"
    by (rule count_where_key_le1)
  then have "count_where (is_upload (us_key x)) (upload_sessions db) \<le> 1" by (simp add: is_upload_fun)
  moreover have "count_where (is_upload (us_key x)) (upload_sessions db) \<noteq> 0" using r by (auto simp: count_where_0)
  ultimately show False
    using n count_where_nonneg [of "is_upload (us_key x)" "upload_sessions db"] by linarith
qed

lemma remove_expired_tx_error:
  assumes ok: "uploads_ok L db" and tx: "remove_expired_tx x now db = Inl e"
  shows False
proof -
  let ?key = "us_key (expired_session x)"
  have "\<exists>y. load_expired_upload_session ?key db = Inr y"
  proof (cases "select_where (is_upload ?key) (upload_sessions db)")
    case None
    then show ?thesis unfolding load_expired_upload_session_def by (simp del: select_where_None)
  next
    case (Some r)
    then have "r \<in> set (upload_sessions db)" using select_where_Some by fastforce
    then obtain s where "decode_upload_row r = Inr s" using ok_row [OF ok] by (auto simp: upload_row_ok_def)
    with Some show ?thesis by (simp add: load_expired_upload_session_def decode_expired_upload_row_def)
  qed
  with tx show False by (auto simp: remove_expired_tx_def Let_def split: if_splits option.splits)
qed

section \<open>Pages\<close>

definition sessions_of :: "upload_row list \<Rightarrow> StoredUploadSession list" where
  "sessions_of rows = map (\<lambda>r. projr (decode_upload_row r)) rows"

definition sessions_in_order :: "database \<Rightarrow> StoredUploadSession list" where
  "sessions_in_order db = sessions_of (upload_order (upload_sessions db))"

definition key_of_pair :: "blob \<times> blob \<Rightarrow> StoreKey" where
  "key_of_pair p = \<lparr> owner = fst p, key_id = snd p \<rparr>"

definition session_page :: "database \<Rightarrow> (blob \<times> blob) option \<Rightarrow> nat \<Rightarrow> StoredUploadSession list" where
  "session_page db after n =
     sessions_of (take n (filter (after_key (map_option key_of_pair after)) (upload_order (upload_sessions db))))"

lemma key_of_pair_inv [simp]: "key_of_pair (pair_of_key k) = k"
  by (simp add: key_of_pair_def pair_of_key_def)

lemma after_key_less: "after_key (Some (key_of_pair p)) r \<longleftrightarrow> p < u_key r"
  by (cases p) (auto simp: after_key_def key_of_pair_def u_key_def less_prod_def less_le)

lemma after_key_None [simp]: "after_key None = (\<lambda>_. True)"
  by (simp add: fun_eq_iff after_key_def)

lemma collect_rows_total:
  "(\<And>r. r \<in> set rows \<Longrightarrow> \<exists>a. f r = Inr a) \<Longrightarrow> collect_rows f rows = Inr (map (\<lambda>r. projr (f r)) rows)"
proof (induction rows)
  case (Cons r rows)
  then obtain a where "f r = Inr a" by auto
  with Cons show ?case by simp
qed simp

lemma session_key:
  assumes "uploads_ok L db" "r \<in> set (upload_sessions db)"
  shows "pair_of_key (us_key (projr (decode_upload_row r))) = u_key r"
  using ok_row [OF assms] decoded_key by (auto simp: upload_row_ok_def)

lemma order_set [simp]: "set (upload_order rows) = set rows"
  by (simp add: upload_order_def)

lemma order_strict:
  assumes "keys_distinct u_key rows"
  shows "sorted_wrt (<) (map u_key (upload_order rows))"
proof -
  have "sorted (map u_key (upload_order rows))" by (simp add: upload_order_def)
  moreover have "distinct (map u_key (upload_order rows))"
    using assms by (simp add: keys_distinct_def upload_order_def distinct_map)
  ultimately show ?thesis by (simp add: strict_sorted_iff)
qed

lemma sessions_keys:
  assumes "uploads_ok L db" "set rows \<subseteq> set (upload_sessions db)"
  shows "map (\<lambda>s. pair_of_key (us_key s)) (sessions_of rows) = map u_key rows"
  using session_key [OF assms(1)] assms(2) by (auto simp: sessions_of_def)

lemma filter_sessions:
  assumes "uploads_ok L db" "set rows \<subseteq> set (upload_sessions db)"
  shows "filter (\<lambda>s. k < pair_of_key (us_key s)) (sessions_of rows) = sessions_of (filter (\<lambda>r. k < u_key r) rows)"
  using session_key [OF assms(1)] assms(2) by (induction rows) (auto simp: sessions_of_def)

interpretation upload_pages:
  keyset_pages "\<lambda>s. pair_of_key (us_key s)" session_page sessions_in_order "uploads_ok L" for L
proof
  fix db n k assume ok: "uploads_ok L db"
  then have "keys_distinct u_key (upload_sessions db)" unfolding uploads_ok_def by (rule conjunct1)
  with order_strict sessions_keys [OF ok, of "upload_order (upload_sessions db)"]
  show "sorted_wrt (<) (map (\<lambda>s. pair_of_key (us_key s)) (sessions_in_order db))"
    by (simp add: sessions_in_order_def)
  show "session_page db None n = take n (sessions_in_order db)"
    by (simp add: session_page_def sessions_in_order_def sessions_of_def take_map)
  have "after_key (map_option key_of_pair (Some k)) = (\<lambda>r. k < u_key r)"
    by (simp add: fun_eq_iff after_key_less)
  then show "session_page db (Some k) n = take n (filter (\<lambda>s. k < pair_of_key (us_key s)) (sessions_in_order db))"
    using filter_sessions [OF ok, of "upload_order (upload_sessions db)" k]
    by (simp add: session_page_def sessions_in_order_def sessions_of_def take_map)
qed

text \<open>The page command returns these pages.\<close>

lemma upload_sessions_page_Inr:
  assumes "upload_store_ok w" "sql_ok t" "0 < limit"
  shows "upload_sessions_page t after limit w =
           (w, Inr (session_page (connection w) (map_option pair_of_key after) (nat limit)))"
proof -
  have ok: "uploads_ok (limits w) (connection w)" using assms(1) by (simp add: upload_store_ok_def)
  then have "count_where (\<lambda>_. True) (upload_sessions (connection w)) \<le> upload_capacity (limits w)"
    by (simp add: uploads_ok_def)
  moreover have "collect_rows decode_upload_row (take (nat limit) (filter (after_key after) (upload_order (upload_sessions (connection w)))))
      = Inr (sessions_of (take (nat limit) (filter (after_key after) (upload_order (upload_sessions (connection w))))))"
    unfolding sessions_of_def
    by (rule collect_rows_total) (use ok_row [OF ok] in \<open>auto simp: upload_row_ok_def dest!: in_set_takeD\<close>)
  moreover have "map_option key_of_pair (map_option pair_of_key after) = after"
    by (cases after) simp_all
  ultimately show ?thesis
    using assms(2,3) by (simp add: upload_sessions_page_def read_only_def session_page_def)
qed

section \<open>A concrete upload\<close>

definition demo_session :: StoredUploadSession where
  "demo_session =
     \<lparr> us_key = demo_store_key, target_path = ''a'', stage_path = ''b'', upload_length = 5,
       durable_offset = 0, us_state = UploadRunning, stage_identity = None, target_revision = None \<rparr>"

definition demo_saved :: StoreWorker where
  "demo_saved = fst (save_upload_session (demo_tick 0) demo_session 500 demo_worker)"

lemma demo_paths: "\<not> path_eq ''a'' ''b''" by code_simp

definition demo_row :: upload_row where
  "demo_row = projr (encode_upload_row demo_session 10 10)"

lemma demo_session_fields [simp]:
  "us_key demo_session = demo_store_key" "target_path demo_session = ''a''" "stage_path demo_session = ''b''"
  "upload_length demo_session = 5" "durable_offset demo_session = 0" "us_state demo_session = UploadRunning"
  "stage_identity demo_session = None" "target_revision demo_session = None"
  by (simp_all add: demo_session_def)

lemma demo_upload_ok:
  "upload_store_ok demo_worker" "session_typed demo_session" "validate_session demo_session = Inr ()"
proof -
  show "upload_store_ok demo_worker"
    using demo_ok(1)
    by (simp add: upload_store_ok_def operation_store_ok_def uploads_ok_def stages_exclusive_def
        demo_worker_def keys_distinct_def count_where_def demo_limits_def)
  show "session_typed demo_session"
    using demo_ok(3) by (simp add: session_typed_def)
  show "validate_session demo_session = Inr ()"
    by (simp add: validate_session_ok validate_stored_path_ok demo_paths i64_max_def)
qed

lemma demo_encoded: "encode_upload_row demo_session 10 10 = Inr demo_row"
  using encode_upload_Inr [OF demo_upload_ok(3), of 10 10] by (auto simp: demo_row_def)

lemma demo_save_result:
  "save_upload_session (demo_tick 0) demo_session 500 demo_worker =
     (demo_worker\<lparr>connection := \<lparr> operations = [], upload_sessions = [demo_row], purge_jobs = [] \<rparr>\<rparr>,
      Inr SessionInserted)"
  using demo_upload_ok(3) demo_encoded encoded_row_ok(1) [OF demo_upload_ok(2,3) demo_encoded]
  by (simp add: save_upload_session_def duration_ms_def i64_try_from_def as_millis_def i64_max_def
   timed_def now_ms_def observe_def demo_tick_def demo_worker_def new_clock_def checked_add_i64_def in_i64_def i64_min_def
   Let_def transact_def save_upload_session_tx_def expiration_time_def delete_where_def load_upload_session_def
    select_where_def exists_where_def count_where_def demo_limits_def write_session_def upsert_upload_def)
lemma demo_saved_fields:
  "upload_sessions (connection demo_saved) = [demo_row]" "limits demo_saved = demo_limits"
  "clock demo_saved = clock demo_worker"
  by (simp_all add: demo_saved_def demo_save_result) (simp add: demo_worker_def)

lemma demo_save:
  "save_upload_session (demo_tick 0) demo_session 500 demo_worker = (demo_saved, Inr SessionInserted)"
  by (simp add: demo_saved_def demo_save_result)

lemma demo_row_decodes: "decode_upload_row demo_row = Inr demo_session"
  by (rule encoded_row_ok(2) [OF demo_upload_ok(2,3) demo_encoded])

lemma demo_row_key: "is_upload demo_store_key demo_row"
  using encoded_fields(1,2) [OF demo_encoded] by (simp add: is_upload_def)

lemma demo_saved_ok: "upload_store_ok demo_saved"
  using upload_step_ok [OF demo_upload_ok(1), of "(demo_tick 0, SaveUpload demo_session 500)"] demo_upload_ok(2) demo_ok(2)
  by (simp add: demo_saved_def)

section \<open>Properties\<close>

text \<open>The upload table stays well formed: whatever commands the store executes, and
  however its transactions fail, no key has two rows, every row satisfies the constraints of
  the schema and decodes to a valid session, no two uploads in progress share a staging file,
  and neither the global nor any owner's number of rows exceeds its limit.\<close>

lemma upload_table_invariant:
  assumes "upload_store_ok w" "list_all upload_event_ok es"
  shows "uploads_ok (limits (run_steps upload_step w es)) (connection (run_steps upload_step w es))"
  using upload_machine.run_inv [OF assms] by (simp add: upload_store_ok_def)

text \<open>Claim C6.  An upload never moves backwards: after any command every session in the table is
  still there with the same target, staging file and length, a durable offset that is no
  smaller, the same staging inode once there was one, and a state reached by an allowed
  transition, unless it expired with nothing left to clean up, or the command asked to remove
  exactly the session found, at its expiry where the command says so.  Conversely every row
  continues an earlier one or is the session the command saved.\<close>

theorem upload_evolution:
  assumes "upload_store_ok w" "upload_event_ok (t, c)"
    and "w' = upload_step w (t, c)"
  shows "(\<forall>r \<in> set (upload_sessions (connection w)).
            (\<exists>r' \<in> set (upload_sessions (connection w')). row_progress r r') \<or>
            lost_allowed c (last_ms (clock w')) r) \<and>
         (\<forall>r' \<in> set (upload_sessions (connection w')).
            (\<exists>r \<in> set (upload_sessions (connection w)). row_progress r r') \<or> gain_allowed c r')"
  using upload_step_fate [OF assms(1,2)] unfolding assms(3) table_fate_def .

theorem upload_evolution_witness:
  "upload_store_ok demo_saved \<and> upload_sessions (connection demo_saved) = [demo_row] \<and>
   (let c = RemoveUploadIfMatches demo_session; w' = upload_step demo_saved (demo_tick 1, c) in
    upload_sessions (connection w') = [] \<and> lost_allowed c (last_ms (clock w')) demo_row)"
proof -
  let ?c = "RemoveUploadIfMatches demo_session"
  let ?w = "upload_step demo_saved (demo_tick 1, ?c)"
  have e: "upload_sessions (connection ?w) = []"
    using demo_upload_ok(3) demo_row_key demo_row_decodes
    by (simp add: remove_upload_session_if_matches_def transact_def demo_tick_def remove_session_tx_def
        load_upload_session_def select_where_def demo_saved_fields session_eq_def count_where_def delete_where_def)
  with upload_evolution [OF demo_saved_ok, of "demo_tick 1" ?c ?w] demo_ok(2)
  have "lost_allowed ?c (last_ms (clock ?w)) demo_row"
    by (simp add: demo_saved_fields del: lost_allowed.simps upload_step.simps)
  with e demo_saved_ok show ?thesis unfolding Let_def demo_saved_fields by blast
qed

text \<open>A session survives the database: a valid session is encoded to a row that the
  schema accepts and that decodes to the same session.\<close>

lemma upload_row_round_trip:
  assumes "session_typed s" "validate_session s = Inr ()"
  shows "\<exists>row. encode_upload_row s now expires_at = Inr row \<and> upload_check row \<and> decode_upload_row row = Inr s"
  using encode_upload_Inr [OF assms(2)] encoded_row_ok [OF assms] by blast

text \<open>Claim C29.  A save that is answered with success is durable: the session loaded afterwards
  under its key equals the saved one, as the code compares sessions.\<close>

theorem saved_session_readable:
  assumes ok: "upload_store_ok w" and s: "session_typed s"
    and save: "save_upload_session t s ttl w = (w', Inr res)" "res \<notin> {SessionConflict, SessionFull}"
  shows "\<exists>s'. load_upload_session (us_key s) (connection w') = Inr (Some s') \<and> session_eq s' s"
proof -
  have ups: "uploads_ok (limits w) (connection w)" using ok by (simp add: upload_store_ok_def)
  obtain ms where v: "validate_session s = Inr ()" and tm: "timed t w (save_upload_session_tx (limits w) s ms) = (w', Inr res)"
    using save(1) by (auto simp: save_upload_session_def split: sum.splits)
  obtain now db where tx: "save_upload_session_tx (limits w) s ms now (connection w) = Inr (db, res)"
    and db: "connection w' = db"
    by (rule timed_cases [of t w "save_upload_session_tx (limits w) s ms"]) (use tm in auto)
  have ok': "uploads_ok (limits w) db" by (rule save_tx_ok [OF ups s v tx])
  have load: "load_upload_session (us_key s) db = Inr (Some s')"
    if "r \<in> set (upload_sessions db)" "u_key r = pair_of_key (us_key s)" "decode_upload_row r = Inr s'" for r s'
    using the_upload_row [OF ok' that(1)] that(2,3) by (simp add: load_upload_session_def is_upload_key)
  show ?thesis
    using ups tx
  proof (cases rule: save_tx_cases)
    case refused
    with save(2) show ?thesis by simp
  next
    case (inserted row)
    have "row \<in> set (upload_sessions db)" unfolding inserted(3) by simp
    then show ?thesis
      using load [OF _ encoded_key [OF inserted(2)] encoded_row_ok(2) [OF s v inserted(2)]]
      by (auto simp: session_eq_def db)
  next
    case (merged row e)
    obtain r where r: "r \<in> set (upload_sessions (reclaim now (connection w)))" "u_key r = u_key row" "decode_upload_row r = Inr e"
      using merged(3) by blast
    note m = merge_Some [OF merged(4)]
    have "refresh_row row r \<in> set (upload_sessions db)"
      unfolding merged(5) using r(1,2) by (auto simp: set_update_where)
    moreover have "u_key (refresh_row row r) = pair_of_key (us_key s)"
      using r(2) encoded_key [OF merged(2)] by (simp add: refresh_update.pk_frame)
    ultimately show ?thesis
      using load refreshed_row(1) [OF r(3) s v m(2,3) merged(2)] m by (fastforce simp: session_eq_def db)
  qed
qed

theorem saved_session_readable_witness:
  "save_upload_session (demo_tick 0) demo_session 500 demo_worker = (demo_saved, Inr SessionInserted) \<and>
   (\<exists>s'. load_upload_session demo_store_key (connection demo_saved) = Inr (Some s') \<and> session_eq s' demo_session)"
  using saved_session_readable [OF demo_upload_ok(1,2) demo_save] demo_save by (simp add: demo_session_def)

text \<open>On a well-formed table the upload commands fail only for their arguments, which
  leaves the store untouched, or for the clocks or SQLite: no command ever finds a row it
  cannot decode, and no write violates a constraint.\<close>

lemma upload_errors_environmental:
  assumes ok: "upload_store_ok w" and s: "session_typed s"
  shows "(save_upload_session t s ttl w = (w', Inl e) \<longrightarrow>
            environment_error e \<or> w' = w \<and> (validate_session s = Inl e \<or> duration_ms ttl = Inl e)) \<and>
         (reject_upload_session t key target stage ttl w = (w', Inl e) \<longrightarrow>
            environment_error e \<or> w' = w \<and> (validate_stored_path target = Inl e \<or>
              validate_stored_path stage = Inl e \<or> duration_ms ttl = Inl e)) \<and>
         (remove_upload_session_if_matches t s w = (w', Inl e) \<longrightarrow>
            w' = w \<and> (e = SqlFailure \<or> validate_session s = Inl e)) \<and>
         (remove_expired_upload_session_if_matches t x w = (w', Inl e) \<longrightarrow>
            environment_error e \<or> w' = w \<and> validate_session (expired_session x) = Inl e)"
proof -
  have ups: "uploads_ok (limits w) (connection w)" using ok by (simp add: upload_store_ok_def)
  have sv: "environment_error e" if "timed t w (save_upload_session_tx (limits w) s ms) = (w', Inl e)"
    "validate_session s = Inr ()" for ms
    by (rule timed_error [of t w "save_upload_session_tx (limits w) s ms"])
      (use that in simp, rule save_tx_error [OF ups s that(2)])
  have rj: "environment_error e" if "timed t w (reject_upload_session_tx key target stage ms) = (w', Inl e)" for ms
    by (rule timed_error [of t w "reject_upload_session_tx key target stage ms"])
      (use that in simp, rule reject_tx_error [OF ups])
  have rx: "environment_error e" if "timed t w (remove_expired_tx x) = (w', Inl e)"
    by (rule timed_error [of t w "remove_expired_tx x"])
      (use that in simp, use remove_expired_tx_error [OF ups] in blast)
  obtain found where l: "load_upload_session key (connection w) = Inr found"
    using load_upload_ok [OF ups] by blast
  have "save_upload_session t s ttl w = (w', Inl e) \<Longrightarrow>
      environment_error e \<or> w' = w \<and> (validate_session s = Inl e \<or> duration_ms ttl = Inl e)"
    using sv by (auto simp: save_upload_session_def split: sum.splits)
  moreover have "reject_upload_session t key target stage ttl w = (w', Inl e) \<Longrightarrow>
      environment_error e \<or> w' = w \<and> (validate_stored_path target = Inl e \<or>
        validate_stored_path stage = Inl e \<or> duration_ms ttl = Inl e)"
    using rj l by (auto simp: reject_upload_session_def split: sum.splits if_splits option.splits)
  moreover have "remove_upload_session_if_matches t s w = (w', Inl e) \<Longrightarrow>
      w' = w \<and> (e = SqlFailure \<or> validate_session s = Inl e)"
    using remove_tx_error [OF ups, of s]
    by (auto simp: remove_upload_session_if_matches_def transact_def split: sum.splits if_splits)
  moreover have "remove_expired_upload_session_if_matches t x w = (w', Inl e) \<Longrightarrow>
      environment_error e \<or> w' = w \<and> validate_session (expired_session x) = Inl e"
    using rx by (auto simp: remove_expired_upload_session_if_matches_def split: sum.splits)
  ultimately show ?thesis by blast
qed

end
