(* ===== verification/Store_Purge.thy ===== *)
theory Store_Purge
  imports Store_Upload
begin

text \<open>
  \<^verbatim>\<open>src/server/state_store/purge.rs\<close>: the durable jobs that delete what was moved to the trash, and
  the paged list of the paths that uploads and jobs still use.  The lemmas show that a job keeps
  its binding, that its revision is set exactly once, that a claimed job is claimed by nobody
  else, and that the pages of blocking paths enumerate them all.
\<close>

section \<open>Rows and jobs\<close>

definition purge_key_from_database :: "blob \<Rightarrow> blob \<Rightarrow> StoreKey result" where
  "purge_key_from_database ow i =
     (case (try_into_array 32 ow, try_into_array 16 i) of
        (Some ow, Some i) \<Rightarrow> Inr \<lparr> owner = ow, key_id = i \<rparr>
      | _ \<Rightarrow> Inl InvalidPurgeRow)"

definition decode_trash_revision :: "blob option \<Rightarrow> blob option result" where
  "decode_trash_revision revision =
     (case revision of
        None \<Rightarrow> Inr None
      | Some b \<Rightarrow> (case try_into_array 32 b of None \<Rightarrow> Inl InvalidPurgeRow | Some b \<Rightarrow> Inr (Some b)))"

definition decode_purge_row :: "purge_row \<Rightarrow> StoredPurgeJob result" where
  "decode_purge_row r =
     (if p_is_directory r \<notin> {0, 1} then Inl InvalidPurgeRow
      else (case purge_key_from_database (p_owner r) (p_id r) of
        Inl e \<Rightarrow> Inl e
      | Inr key \<Rightarrow>
          (case (try_into_array 8 (p_source_device_be r), try_into_array 8 (p_source_inode_be r)) of
             (Some d, Some i) \<Rightarrow>
               (case decode_trash_revision (p_trash_revision r) of
                  Inl e \<Rightarrow> Inl e
                | Inr revision \<Rightarrow>
                    (case purge_from_database (p_state r) of
                       Inl e \<Rightarrow> Inl e
                     | Inr st \<Rightarrow>
                         (case u32_try_from (p_attempts r) of
                            None \<Rightarrow> Inl InvalidPurgeRow
                          | Some n \<Rightarrow>
                              (case validate_stored_path (p_target_path r) of Inl e \<Rightarrow> Inl e
                               | Inr _ \<Rightarrow> (case validate_stored_path (p_trash_path r) of Inl e \<Rightarrow> Inl e
                               | Inr _ \<Rightarrow>
                                   if path_eq (p_target_path r) (p_trash_path r) then Inl SamePaths
                                   else Inr \<lparr> pj_key = key, pj_target_path = p_target_path r,
                                     trash_path = p_trash_path r,
                                     source_identity = \<lparr> device = u64_from_be_bytes d, inode = u64_from_be_bytes i \<rparr>,
                                     trash_revision = revision, is_directory = p_is_directory r = 1,
                                     pj_state = st, attempts = n \<rparr>)))))
           | _ \<Rightarrow> Inl InvalidPurgeRow)))"

definition is_purge :: "StoreKey \<Rightarrow> purge_row \<Rightarrow> bool" where
  "is_purge key r \<longleftrightarrow> p_owner r = owner key \<and> p_id r = key_id key"

definition load_purge_job :: "StoreKey \<Rightarrow> database \<Rightarrow> StoredPurgeJob option result" where
  "load_purge_job key db =
     (case select_where (is_purge key) (purge_jobs db) of
        None \<Rightarrow> Inr None
      | Some r \<Rightarrow> (case decode_purge_row r of Inl e \<Rightarrow> Inl e | Inr j \<Rightarrow> Inr (Some j)))"

section \<open>Preparing a job\<close>

definition prepared_row :: "StoredPurgeJob \<Rightarrow> i64 \<Rightarrow> purge_row" where
  "prepared_row j now =
     \<lparr> p_owner = owner (pj_key j), p_id = key_id (pj_key j), p_target_path = pj_target_path j,
       p_trash_path = trash_path j, p_source_device_be = u64_to_be_bytes (device (source_identity j)),
       p_source_inode_be = u64_to_be_bytes (inode (source_identity j)), p_trash_revision = None,
       p_is_directory = (if is_directory j then 1 else 0), p_state = PURGE_PREPARED, p_attempts = 0,
       p_next_attempt_at_ms = now, p_created_at_ms = now, p_updated_at_ms = now \<rparr>"

text \<open>The insertion also fails when another job has the trash path, which the schema makes unique.\<close>

definition insert_purge :: "purge_row \<Rightarrow> purge_row list \<Rightarrow> purge_row list result" where
  "insert_purge r rows =
     (if exists_where (\<lambda>r'. p_trash_path r' = p_trash_path r) rows then Inl ConstraintFailure
      else insert_row purge_check p_key r rows)"

definition same_purge_binding :: "StoredPurgeJob \<Rightarrow> StoredPurgeJob \<Rightarrow> bool" where
  "same_purge_binding existing proposed \<longleftrightarrow>
     path_eq (pj_target_path existing) (pj_target_path proposed) \<and>
     path_eq (trash_path existing) (trash_path proposed) \<and>
     source_identity existing = source_identity proposed \<and> is_directory existing = is_directory proposed"

definition prepare_purge_job_tx ::
  "Limits \<Rightarrow> StoredPurgeJob \<Rightarrow> i64 \<Rightarrow> database \<Rightarrow> (database \<times> StorePurgeJob) result"
where
  "prepare_purge_job_tx L proposed now db =
     (case load_purge_job (pj_key proposed) db of
        Inl e \<Rightarrow> Inl e
      | Inr (Some existing) \<Rightarrow>
          Inr (db, if same_purge_binding existing proposed then Existing else JobConflict)
      | Inr None \<Rightarrow>
          if exists_where (\<lambda>r. p_trash_path r = trash_path proposed) (purge_jobs db) then Inr (db, JobConflict)
          else if purge_capacity L \<le> count_where (\<lambda>_. True) (purge_jobs db) \<or>
                  purge_per_owner L \<le> count_where (\<lambda>r. p_owner r = owner (pj_key proposed)) (purge_jobs db)
          then Inr (db, JobFull)
          else (case insert_purge (prepared_row proposed now) (purge_jobs db) of
                  Inl e \<Rightarrow> Inl e
                | Inr rows \<Rightarrow> Inr (db\<lparr> purge_jobs := rows \<rparr>, JobInserted)))"

definition prepare_purge_job ::
  "tick \<Rightarrow> StoredPurgeJob \<Rightarrow> StoreWorker \<Rightarrow> StoreWorker \<times> StorePurgeJob result"
where
  "prepare_purge_job t j w =
     (case validate_new j of
        Inl e \<Rightarrow> (w, Inl e)
      | Inr _ \<Rightarrow> timed t w (prepare_purge_job_tx (limits w) j))"

section \<open>Queries\<close>

definition purge_order :: "purge_row list \<Rightarrow> purge_row list" where
  "purge_order rows = sort_key (\<lambda>r. (p_created_at_ms r, p_owner r, p_id r)) rows"

definition prepared_purge_jobs :: "tick \<Rightarrow> i64 \<Rightarrow> StoreWorker \<Rightarrow> StoreWorker \<times> StoredPurgeJob list result" where
  "prepared_purge_jobs t limit w =
     read_only t w (\<lambda>db. collect_rows decode_purge_row
       (take (nat limit) (purge_order (filter (\<lambda>r. p_state r = PURGE_PREPARED) (purge_jobs db)))))"

definition list_purge_jobs :: "tick \<Rightarrow> i64 \<Rightarrow> StoreWorker \<Rightarrow> StoreWorker \<times> StoredPurgeJob list result" where
  "list_purge_jobs t limit w =
     read_only t w (\<lambda>db. collect_rows decode_purge_row (take (nat limit) (purge_order (purge_jobs db))))"

definition state_path_is_bound :: "tick \<Rightarrow> string \<Rightarrow> StoreWorker \<Rightarrow> StoreWorker \<times> bool result" where
  "state_path_is_bound t path w =
     (case validate_stored_path path of
        Inl e \<Rightarrow> (w, Inl e)
      | Inr _ \<Rightarrow> read_only t w (\<lambda>db. Inr (
          exists_where (\<lambda>r. u_stage_path r = path \<and>
             u_state r \<in> {UPLOAD_RUNNING, UPLOAD_COMMIT_STARTED, UPLOAD_AWAITING_CONFIRMATION})
            (upload_sessions db) \<or>
          exists_where (\<lambda>r. p_trash_path r = path) (purge_jobs db))))"

text \<open>The rows of the common table expression \<^verbatim>\<open>state_paths\<close>.\<close>

record state_path_row =
  s_kind :: i64
  s_owner :: blob
  s_id :: blob
  s_slot :: i64
  s_path :: blob
  s_replace :: i64

definition live_upload :: "upload_row \<Rightarrow> bool" where
  "live_upload r \<longleftrightarrow> u_state r \<in> {UPLOAD_RUNNING, UPLOAD_COMMIT_STARTED, UPLOAD_AWAITING_CONFIRMATION}"

definition state_paths :: "database \<Rightarrow> state_path_row list" where
  "state_paths db =
     map (\<lambda>r. \<lparr> s_kind = 0, s_owner = u_owner r, s_id = u_id r, s_slot = 0, s_path = u_target_path r,
                 s_replace = (if u_state r = UPLOAD_RUNNING then 1 else 0) \<rparr>)
       (filter live_upload (upload_sessions db)) @
     map (\<lambda>r. \<lparr> s_kind = 0, s_owner = u_owner r, s_id = u_id r, s_slot = 1, s_path = u_stage_path r, s_replace = 0 \<rparr>)
       (filter live_upload (upload_sessions db)) @
     map (\<lambda>r. \<lparr> s_kind = 1, s_owner = p_owner r, s_id = p_id r, s_slot = 0, s_path = p_target_path r, s_replace = 0 \<rparr>)
       (filter (\<lambda>r. p_state r = PURGE_PREPARED) (purge_jobs db)) @
     map (\<lambda>r. \<lparr> s_kind = 1, s_owner = p_owner r, s_id = p_id r, s_slot = 1, s_path = p_trash_path r, s_replace = 0 \<rparr>)
       (purge_jobs db)"

definition s_key :: "state_path_row \<Rightarrow> i64 \<times> blob \<times> blob \<times> i64" where
  "s_key r = (s_kind r, s_owner r, s_id r, s_slot r)"

definition cursor_key :: "StatePathCursor \<Rightarrow> i64 \<times> blob \<times> blob \<times> i64" where
  "cursor_key c = (cursor_kind c, cursor_owner c, cursor_id c, cursor_slot c)"

definition decode_state_path_row :: "state_path_row \<Rightarrow> (StatePathCursor \<times> StateBlockingPath) result" where
  "decode_state_path_row r =
     (if s_kind r \<notin> {0, 1} then Inl InvalidPurgeRow
      else if s_slot r \<notin> {0, 1} then Inl InvalidPurgeRow
      else if s_replace r \<notin> {0, 1} then Inl InvalidPurgeRow
      else (case validate_stored_path (s_path r) of
        Inl e \<Rightarrow> Inl e
      | Inr _ \<Rightarrow>
          (case (try_into_array 32 (s_owner r), try_into_array 16 (s_id r)) of
             (Some ow, Some i) \<Rightarrow>
               Inr (\<lparr> cursor_kind = s_kind r, cursor_owner = ow, cursor_id = i, cursor_slot = s_slot r \<rparr>,
                    \<lparr> blocking_path = s_path r, allows_exact_replacement = s_replace r \<noteq> 0 \<rparr>)
           | _ \<Rightarrow> Inl InvalidPurgeRow)))"

definition after_cursor :: "StatePathCursor option \<Rightarrow> state_path_row \<Rightarrow> bool" where
  "after_cursor after r \<longleftrightarrow> (case after of None \<Rightarrow> True | Some c \<Rightarrow> cursor_key c < s_key r)"

definition query_state_blocking_paths :: "StatePathCursor option \<Rightarrow> i64 \<Rightarrow> database \<Rightarrow> StatePathPage result" where
  "query_state_blocking_paths after limit db =
     (case collect_rows decode_state_path_row
             (take (nat limit) (filter (after_cursor after) (sort_key s_key (state_paths db)))) of
        Inl e \<Rightarrow> Inl e
      | Inr decoded \<Rightarrow>
          if limit < 0 then Inl LimitNotPositive
          else Inr \<lparr> paths = map snd decoded,
                     next_cursor = (if length decoded = nat limit \<and> decoded \<noteq> [] then Some (fst (last decoded)) else None) \<rparr>)"

definition state_blocking_paths ::
  "tick \<Rightarrow> StatePathCursor option \<Rightarrow> usize \<Rightarrow> StoreWorker \<Rightarrow> StoreWorker \<times> StatePathPage result"
where
  "state_blocking_paths t after limit w =
     (case query_limit limit of
        Inl e \<Rightarrow> (w, Inl e)
      | Inr n \<Rightarrow> read_only t w (query_state_blocking_paths after n))"

section \<open>Moving a job on\<close>

definition set_ready :: "blob \<Rightarrow> i64 \<Rightarrow> purge_row \<Rightarrow> purge_row" where
  "set_ready revision now r =
     r\<lparr> p_state := PURGE_READY, p_trash_revision := Some revision, p_next_attempt_at_ms := now, p_updated_at_ms := now \<rparr>"

definition mark_ready_tx :: "StoreKey \<Rightarrow> blob \<Rightarrow> i64 \<Rightarrow> database \<Rightarrow> (database \<times> bool) result" where
  "mark_ready_tx key revision now db =
     (case update_rows purge_check (\<lambda>r. is_purge key r \<and> p_state r = PURGE_PREPARED) (set_ready revision now)
             (purge_jobs db) of
        Inl e \<Rightarrow> Inl e
      | Inr (rows, changed) \<Rightarrow> Inr (db\<lparr> purge_jobs := rows \<rparr>, changed = 1))"

definition mark_purge_job_ready :: "tick \<Rightarrow> StoreKey \<Rightarrow> blob \<Rightarrow> StoreWorker \<Rightarrow> StoreWorker \<times> bool result" where
  "mark_purge_job_ready t key revision w =
     (case timed t w (mark_ready_tx key revision) of
        (w', Inl e) \<Rightarrow> (w', Inl e)
      | (w', Inr changed) \<Rightarrow>
          if changed then (w', Inr True)
          else if \<not> read_ok t then (w', Inl SqlFailure)
          else (w', case load_purge_job key (connection w') of
                      Inl e \<Rightarrow> Inl e
                    | Inr None \<Rightarrow> Inr False
                    | Inr (Some j) \<Rightarrow> Inr (pj_state j \<noteq> Prepared \<and> trash_revision j = Some revision)))"

definition claim_order :: "purge_row \<Rightarrow> i64 \<times> i64 \<times> blob \<times> blob" where
  "claim_order r = (p_next_attempt_at_ms r, p_created_at_ms r, p_owner r, p_id r)"

definition due :: "i64 \<Rightarrow> purge_row \<Rightarrow> bool" where
  "due now r \<longleftrightarrow> p_state r = PURGE_READY \<and> p_next_attempt_at_ms r \<le> now"

definition set_claimed :: "i64 \<Rightarrow> purge_row \<Rightarrow> purge_row" where
  "set_claimed now r = r\<lparr> p_state := PURGE_CLAIMED, p_updated_at_ms := now \<rparr>"

definition claim_due_tx :: "i64 \<Rightarrow> database \<Rightarrow> (database \<times> StoredPurgeJob option) result" where
  "claim_due_tx now db =
     (case sort_key claim_order (filter (due now) (purge_jobs db)) of
        [] \<Rightarrow> Inr (db, None)
      | r # _ \<Rightarrow>
          (case purge_key_from_database (p_owner r) (p_id r) of
             Inl e \<Rightarrow> Inl e
           | Inr key \<Rightarrow>
               (case update_rows purge_check (\<lambda>r. is_purge key r \<and> p_state r = PURGE_READY) (set_claimed now)
                       (purge_jobs db) of
                  Inl e \<Rightarrow> Inl e
                | Inr (rows, changed) \<Rightarrow>
                    if changed \<noteq> 1 then Inl InvalidPurgeRow
                    else (case load_purge_job key (db\<lparr> purge_jobs := rows \<rparr>) of
                            Inl e \<Rightarrow> Inl e
                          | Inr None \<Rightarrow> Inl InvalidPurgeRow
                          | Inr (Some j) \<Rightarrow> Inr (db\<lparr> purge_jobs := rows \<rparr>, Some j)))))"

definition claim_due_purge_job :: "tick \<Rightarrow> StoreWorker \<Rightarrow> StoreWorker \<times> StoredPurgeJob option result" where
  "claim_due_purge_job t w = timed t w claim_due_tx"

definition set_retry :: "i64 \<Rightarrow> i64 \<Rightarrow> purge_row \<Rightarrow> purge_row" where
  "set_retry next_attempt now r =
     r\<lparr> p_state := PURGE_READY, p_attempts := min (p_attempts r + 1) 4294967295,
        p_next_attempt_at_ms := next_attempt, p_updated_at_ms := now \<rparr>"

definition retry_tx :: "StoreKey \<Rightarrow> i64 \<Rightarrow> i64 \<Rightarrow> database \<Rightarrow> (database \<times> bool) result" where
  "retry_tx key delay now db =
     (case expiration_time now delay of
        Inl e \<Rightarrow> Inl e
      | Inr next_attempt \<Rightarrow>
          (case update_rows purge_check (\<lambda>r. is_purge key r \<and> p_state r = PURGE_CLAIMED)
                  (set_retry next_attempt now) (purge_jobs db) of
             Inl e \<Rightarrow> Inl e
           | Inr (rows, changed) \<Rightarrow> Inr (db\<lparr> purge_jobs := rows \<rparr>, changed = 1)))"

definition retry_purge_job :: "tick \<Rightarrow> StoreKey \<Rightarrow> nat \<Rightarrow> StoreWorker \<Rightarrow> StoreWorker \<times> bool result" where
  "retry_purge_job t key delay w =
     (case duration_ms delay of
        Inl e \<Rightarrow> (w, Inl e)
      | Inr ms \<Rightarrow> timed t w (retry_tx key ms))"

definition delete_purge :: "(purge_row \<Rightarrow> bool) \<Rightarrow> database \<Rightarrow> (database \<times> bool) result" where
  "delete_purge P db =
     Inr (db\<lparr> purge_jobs := delete_where P (purge_jobs db) \<rparr>, count_where P (purge_jobs db) = 1)"

definition complete_purge_job :: "tick \<Rightarrow> StoreKey \<Rightarrow> StoreWorker \<Rightarrow> StoreWorker \<times> bool result" where
  "complete_purge_job t key w =
     transact t w (delete_purge (\<lambda>r. is_purge key r \<and> p_state r = PURGE_CLAIMED))"

definition remove_purge_job :: "tick \<Rightarrow> StoreKey \<Rightarrow> StoreWorker \<Rightarrow> StoreWorker \<times> bool result" where
  "remove_purge_job t key w = transact t w (delete_purge (is_purge key))"

section \<open>The table invariant\<close>

text \<open>A job has the revision of its trash entry exactly when it has left the prepared state.\<close>

definition purge_row_ok :: "purge_row \<Rightarrow> bool" where
  "purge_row_ok r \<longleftrightarrow>
     purge_check r \<and> (\<exists>j. decode_purge_row r = Inr j) \<and>
     (p_state r = PURGE_PREPARED \<longleftrightarrow> p_trash_revision r = None)"

definition purges_ok :: "Limits \<Rightarrow> database \<Rightarrow> bool" where
  "purges_ok L db \<longleftrightarrow>
     keys_distinct p_key (purge_jobs db) \<and> keys_distinct p_trash_path (purge_jobs db) \<and>
     list_all purge_row_ok (purge_jobs db) \<and>
     count_where (\<lambda>_. True) (purge_jobs db) \<le> purge_capacity L \<and>
     (\<forall>ow. count_where (\<lambda>r. p_owner r = ow) (purge_jobs db) \<le> purge_per_owner L)"

interpretation ready_update: row_update p_key "set_ready revision now" for revision now
  by unfold_locales (simp add: p_key_def set_ready_def)

interpretation claimed_update: row_update p_key "set_claimed now" for now
  by unfold_locales (simp add: p_key_def set_claimed_def)

interpretation retry_update: row_update p_key "set_retry next_attempt now" for next_attempt now
  by unfold_locales (simp add: p_key_def set_retry_def)

lemma is_purge_key: "is_purge key r \<longleftrightarrow> p_key r = pair_of_key key"
  by (auto simp: is_purge_def p_key_def pair_of_key_def)

lemma is_purge_fun: "is_purge key = (\<lambda>r. p_key r = pair_of_key key)"
  by (simp add: fun_eq_iff is_purge_key)

lemma purges_ok_delete:
  "purges_ok L db \<Longrightarrow> purges_ok L (db\<lparr>purge_jobs := delete_where P (purge_jobs db)\<rparr>)"
  unfolding purges_ok_def
  by (auto simp: list_all_iff intro: order_trans [OF count_delete_where_le])

lemma purges_ok_update:
  assumes ok: "purges_ok L db" and f: "row_update p_key f" and trash: "row_update p_trash_path f"
    and rows: "\<And>r. r \<in> set (purge_jobs db) \<Longrightarrow> P r \<Longrightarrow> purge_row_ok (f r)"
  shows "purges_ok L (db\<lparr>purge_jobs := update_where P f (purge_jobs db)\<rparr>)"
proof -
  let ?rows = "purge_jobs db"
  have ow: "p_owner (f r) = p_owner r" for r
    using row_update.pk_frame [OF f, of r] by (simp add: p_key_def)
  have "list_all purge_row_ok (update_where P f ?rows)"
    unfolding list_all_iff
  proof
    fix x assume "x \<in> set (update_where P f ?rows)"
    then obtain r where r: "r \<in> set ?rows" "x = (if P r then f r else r)" by (auto simp: set_update_where)
    have "purge_row_ok r" using ok r(1) unfolding purges_ok_def list_all_iff by blast
    then show "purge_row_ok x" unfolding r(2) using rows [OF r(1)] by (cases "P r") simp_all
  qed
  moreover have "count_where (\<lambda>_. True) (update_where P f ?rows) = count_where (\<lambda>_. True) ?rows"
    by (rule count_update_where) simp
  moreover have "count_where (\<lambda>r. p_owner r = b) (update_where P f ?rows) = count_where (\<lambda>r. p_owner r = b) ?rows" for b
    by (rule count_update_where) (simp add: ow)
  ultimately show ?thesis
    using ok row_update.distinct_update [OF f] row_update.distinct_update [OF trash] unfolding purges_ok_def by simp
qed

lemma trash_frames:
  "row_update p_trash_path (set_ready revision now)" "row_update p_trash_path (set_claimed now)"
  "row_update p_trash_path (set_retry next_attempt now)"
  by (unfold_locales; simp add: set_ready_def set_claimed_def set_retry_def)+

lemma purge_row: "\<lbrakk> purges_ok L db; r \<in> set (purge_jobs db) \<rbrakk> \<Longrightarrow> purge_row_ok r"
  by (simp add: purges_ok_def list_all_iff)

lemma the_same_purge:
  "\<lbrakk> purges_ok L db; r \<in> set (purge_jobs db); r' \<in> set (purge_jobs db); is_purge key r; is_purge key r' \<rbrakk> \<Longrightarrow> r = r'"
  unfolding purges_ok_def is_purge_key by (rule keys_distinct_eqD [of p_key]) simp_all

section \<open>Decoding a job\<close>

definition job_of :: "purge_row \<Rightarrow> StoredPurgeState \<Rightarrow> StoredPurgeJob" where
  "job_of r st =
     \<lparr> pj_key = \<lparr> owner = p_owner r, key_id = p_id r \<rparr>, pj_target_path = p_target_path r, trash_path = p_trash_path r,
       source_identity = \<lparr> device = u64_from_be_bytes (p_source_device_be r), inode = u64_from_be_bytes (p_source_inode_be r) \<rparr>,
       trash_revision = p_trash_revision r, is_directory = p_is_directory r = 1, pj_state = st,
       attempts = nat (p_attempts r) \<rparr>"

lemma decode_trash_revision_Inr:
  "decode_trash_revision x = Inr y \<longleftrightarrow> y = x \<and> null_or_length 32 x"
  by (auto simp: decode_trash_revision_def null_or_length_def try_into_array_def split: option.splits)

lemma decode_purge_Inr:
  "decode_purge_row r = Inr j \<longleftrightarrow>
     p_is_directory r \<in> {0, 1} \<and> length (p_owner r) = 32 \<and> length (p_id r) = 16 \<and>
     length (p_source_device_be r) = 8 \<and> length (p_source_inode_be r) = 8 \<and>
     null_or_length 32 (p_trash_revision r) \<and> 0 \<le> p_attempts r \<and> p_attempts r \<le> int u32_max \<and>
     validate_stored_path (p_target_path r) = Inr () \<and> validate_stored_path (p_trash_path r) = Inr () \<and>
     \<not> path_eq (p_target_path r) (p_trash_path r) \<and>
     (\<exists>st. p_state r = purge_code st \<and> j = job_of r st)"
proof -
  have key: "purge_key_from_database (p_owner r) (p_id r) =
      (if length (p_owner r) = 32 \<and> length (p_id r) = 16 then Inr \<lparr> owner = p_owner r, key_id = p_id r \<rparr>
       else Inl InvalidPurgeRow)"
    by (simp add: purge_key_from_database_def try_into_array_def)
  have rv: "decode_trash_revision (p_trash_revision r) =
      (if null_or_length 32 (p_trash_revision r) then Inr (p_trash_revision r) else Inl InvalidPurgeRow)"
    by (auto simp: decode_trash_revision_def null_or_length_def try_into_array_def split: option.splits)
  show ?thesis
  proof (cases "\<exists>st. p_state r = purge_code st")
    case True
    then obtain st where st: "p_state r = purge_code st" by blast
    then show ?thesis
      unfolding decode_purge_row_def key rv
      by (auto simp: job_of_def try_into_array_def u32_try_from_def split: sum.splits)
  next
    case False
    then have "\<exists>e. purge_from_database (p_state r) = Inl e"
      by (cases "purge_from_database (p_state r)") (auto simp: purge_from_database_Inr)
    with False show ?thesis unfolding decode_purge_row_def key rv
      by (auto split: sum.splits option.splits if_splits)
  qed
qed

lemma decoded_job: "\<lbrakk> decode_purge_row r = Inr j; p_state r = purge_code st \<rbrakk> \<Longrightarrow> j = job_of r st"
  by (auto simp: decode_purge_Inr)

section \<open>How a job moves on\<close>

definition job_progress :: "StoredPurgeJob \<Rightarrow> StoredPurgeJob \<Rightarrow> bool" where
  "job_progress j j' \<longleftrightarrow>
     pj_key j' = pj_key j \<and> pj_target_path j' = pj_target_path j \<and> trash_path j' = trash_path j \<and>
     source_identity j' = source_identity j \<and> is_directory j' = is_directory j \<and>
     attempts j \<le> attempts j' \<and> (trash_revision j \<noteq> None \<longrightarrow> trash_revision j' = trash_revision j) \<and>
     (j' = j \<or> (pj_state j, pj_state j') \<in> {(Prepared, Ready), (Ready, Claimed), (Claimed, Ready)})"

definition purge_progress :: "purge_row \<Rightarrow> purge_row \<Rightarrow> bool" where
  "purge_progress r r' \<longleftrightarrow>
     (\<exists>j j'. decode_purge_row r = Inr j \<and> decode_purge_row r' = Inr j' \<and> job_progress j j')"

lemma purge_progress_refl: "purge_row_ok r \<Longrightarrow> purge_progress r r"
  by (auto simp: purge_progress_def purge_row_ok_def job_progress_def)

lemma ready_row:
  assumes "purge_row_ok r" "p_state r = PURGE_PREPARED" "length revision = 32"
  shows "purge_row_ok (set_ready revision now r)" "purge_progress r (set_ready revision now r)"
proof -
  obtain j where j: "decode_purge_row r = Inr j" using assms(1) by (auto simp: purge_row_ok_def)
  have st: "j = job_of r Prepared" by (rule decoded_job [OF j]) (simp add: assms(2))
  have j': "decode_purge_row (set_ready revision now r) = Inr (job_of (set_ready revision now r) Ready)"
    using j assms(3) by (simp add: decode_purge_Inr set_ready_def null_or_length_def) (auto intro: exI [of _ Ready])
  show "purge_row_ok (set_ready revision now r)"
    using assms(1,3) j' by (simp add: purge_row_ok_def purge_check_def set_ready_def null_or_length_def)
  show "purge_progress r (set_ready revision now r)"
    using j j' st assms(1,2)
    by (simp add: purge_progress_def job_progress_def purge_row_ok_def) (simp add: job_of_def set_ready_def)
qed

lemma claimed_row:
  assumes "purge_row_ok r" "p_state r = PURGE_READY"
  shows "purge_row_ok (set_claimed now r)" "purge_progress r (set_claimed now r)"
    "decode_purge_row (set_claimed now r) = Inr (job_of r Claimed)"
proof -
  obtain j where j: "decode_purge_row r = Inr j" using assms(1) by (auto simp: purge_row_ok_def)
  have st: "j = job_of r Ready" by (rule decoded_job [OF j]) (simp add: assms(2))
  show j': "decode_purge_row (set_claimed now r) = Inr (job_of r Claimed)"
    using j by (simp add: decode_purge_Inr set_claimed_def) (auto simp: job_of_def intro: exI [of _ Claimed])
  show "purge_row_ok (set_claimed now r)"
    using assms j' by (simp add: purge_row_ok_def purge_check_def set_claimed_def)
  show "purge_progress r (set_claimed now r)"
    using j j' st by (simp add: purge_progress_def job_progress_def) (simp add: job_of_def)
qed

lemma retry_row:
  assumes "purge_row_ok r" "p_state r = PURGE_CLAIMED"
  shows "purge_row_ok (set_retry next_attempt now r)" "purge_progress r (set_retry next_attempt now r)"
proof -
  obtain j where j: "decode_purge_row r = Inr j" using assms(1) by (auto simp: purge_row_ok_def)
  have st: "j = job_of r Claimed" by (rule decoded_job [OF j]) (simp add: assms(2))
  have n: "0 \<le> p_attempts r" "p_attempts r \<le> 4294967295" using assms(1) by (simp_all add: purge_row_ok_def purge_check_def)
  have j': "decode_purge_row (set_retry next_attempt now r) = Inr (job_of (set_retry next_attempt now r) Ready)"
    using j n by (simp add: decode_purge_Inr set_retry_def u32_max_def) (auto intro: exI [of _ Ready])
  show "purge_row_ok (set_retry next_attempt now r)"
    using assms j' n by (simp add: purge_row_ok_def purge_check_def set_retry_def)
  have "nat (p_attempts r) \<le> nat (min (p_attempts r + 1) 4294967295)" using n by simp
  then show "purge_progress r (set_retry next_attempt now r)"
    using j j' st by (simp add: purge_progress_def job_progress_def) (simp add: job_of_def set_retry_def)
qed

definition job_typed :: "StoredPurgeJob \<Rightarrow> bool" where
  "job_typed j \<longleftrightarrow>
     key_ok (pj_key j) \<and> device (source_identity j) \<le> u64_max \<and> inode (source_identity j) \<le> u64_max"

lemma prepared_row_ok:
  assumes "job_typed j" "validate_new j = Inr ()"
  shows "purge_row_ok (prepared_row j now)" "decode_purge_row (prepared_row j now) = Inr j"
proof -
  note v = assms(2) [unfolded validate_new_ok]
  have "\<not> path_eq (pj_target_path j) (trash_path j)" using v by blast
  then have ne: "pj_target_path j \<noteq> trash_path j" by auto
  show d: "decode_purge_row (prepared_row j now) = Inr j"
    unfolding decode_purge_Inr using assms(1) v
    by (cases "pj_key j"; cases "source_identity j"; cases j)
      (auto simp: prepared_row_def job_typed_def key_ok_def null_or_length_def job_of_def intro: exI [of _ Prepared])
  show "purge_row_ok (prepared_row j now)"
    using assms(1) v ne d
    by (simp add: purge_row_ok_def purge_check_def prepared_row_def job_typed_def key_ok_def null_or_length_def
        validate_stored_path_ok Suc_le_eq)
qed

lemma load_purge_ok:
  assumes "purges_ok L db"
  shows "\<exists>found. load_purge_job key db = Inr found \<and>
    (case found of
       None \<Rightarrow> \<forall>r \<in> set (purge_jobs db). \<not> is_purge key r
     | Some j \<Rightarrow> \<exists>r \<in> set (purge_jobs db). is_purge key r \<and> decode_purge_row r = Inr j)"
proof (cases "select_where (is_purge key) (purge_jobs db)")
  case None
  then have "load_purge_job key db = Inr None"
    unfolding load_purge_job_def by (simp del: select_where_None)
  with None show ?thesis by auto
next
  case (Some r)
  then have r: "r \<in> set (purge_jobs db)" "is_purge key r" using select_where_Some by fastforce+
  then obtain j where "decode_purge_row r = Inr j"
    using purge_row [OF assms] by (auto simp: purge_row_ok_def)
  with Some r show ?thesis by (auto simp: load_purge_job_def)
qed

lemma load_purge_row:
  assumes "purges_ok L db" "r \<in> set (purge_jobs db)" "is_purge key r" "decode_purge_row r = Inr j"
  shows "load_purge_job key db = Inr (Some j)"
proof -
  have "select_where (is_purge key) (purge_jobs db) = Some r"
    using select_where_key [of p_key "purge_jobs db" r] assms(1-3)
    by (simp add: purges_ok_def is_purge_fun)
  with assms(4) show ?thesis by (simp add: load_purge_job_def)
qed

lemma prepare_tx_cases:
  assumes ok: "purges_ok L db" and tx: "prepare_purge_job_tx L j now db = Inr (db', res)"
  obtains (same) "db' = db"
  | (inserted) "res = JobInserted"
      "db' = db\<lparr>purge_jobs := purge_jobs db @ [prepared_row j now]\<rparr>"
      "p_key (prepared_row j now) \<notin> p_key ` set (purge_jobs db)"
      "trash_path j \<notin> p_trash_path ` set (purge_jobs db)"
      "count_where (\<lambda>_. True) (purge_jobs db) < purge_capacity L"
      "count_where (\<lambda>r. p_owner r = owner (pj_key j)) (purge_jobs db) < purge_per_owner L"
proof -
  obtain found where l: "load_purge_job (pj_key j) db = Inr found" using load_purge_ok [OF ok] by blast
  show thesis
  proof (cases found)
    case None
    show thesis
    proof (cases "exists_where (\<lambda>r. p_trash_path r = trash_path j) (purge_jobs db) \<or>
        purge_capacity L \<le> count_where (\<lambda>_. True) (purge_jobs db) \<or>
        purge_per_owner L \<le> count_where (\<lambda>r. p_owner r = owner (pj_key j)) (purge_jobs db)")
      case True
      with tx l None have "db' = db" by (auto simp: prepare_purge_job_tx_def split: if_splits)
      then show thesis by (rule same)
    next
      case False
      with tx l None have "insert_purge (prepared_row j now) (purge_jobs db) = Inr (purge_jobs db')"
        "res = JobInserted" "db' = db\<lparr>purge_jobs := purge_jobs db'\<rparr>"
        by (auto simp: prepare_purge_job_tx_def split: if_splits sum.splits)
      with False show thesis
        by (intro inserted) (auto simp: insert_purge_def insert_row_Inr exists_where_def list_ex_iff split: if_splits)
    qed
  next
    case (Some x)
    with tx l same show thesis by (simp add: prepare_purge_job_tx_def)
  qed
qed

lemma due_head:
  assumes "sort_key claim_order (filter (due now) rows) = r # rest"
  shows "r \<in> set rows" "due now r" "\<forall>r' \<in> set rows. due now r' \<longrightarrow> claim_order r \<le> claim_order r'"
proof -
  have set: "set (r # rest) = {r \<in> set rows. due now r}" using assms by (metis set_filter set_sort)
  then show "r \<in> set rows" "due now r" by auto
  have "sorted (map claim_order (r # rest))" using assms by (metis sorted_sort_key)
  then have "\<forall>r' \<in> set (r # rest). claim_order r \<le> claim_order r'" by simp
  with set show "\<forall>r' \<in> set rows. due now r' \<longrightarrow> claim_order r \<le> claim_order r'" by blast
qed

lemma claim_tx_total:
  assumes ok: "purges_ok L db"
  shows "(\<forall>r \<in> set (purge_jobs db). \<not> due now r) \<and> claim_due_tx now db = Inr (db, None) \<or>
    (\<exists>r \<in> set (purge_jobs db). due now r \<and>
       (\<forall>r' \<in> set (purge_jobs db). due now r' \<longrightarrow> claim_order r \<le> claim_order r') \<and>
       claim_due_tx now db = Inr (db\<lparr>purge_jobs := update_where (\<lambda>r'. p_key r' = p_key r) (set_claimed now) (purge_jobs db)\<rparr>,
         Some (job_of r Claimed)))"
proof (cases "sort_key claim_order (filter (due now) (purge_jobs db))")
  case Nil
  then have "filter (due now) (purge_jobs db) = []" by (metis list.set(1) set_empty set_sort)
  with Nil show ?thesis by (auto simp: claim_due_tx_def filter_empty_conv)
next
  case (Cons r rest)
  note h = due_head [OF Cons]
  have rok: "purge_row_ok r" using purge_row [OF ok h(1)] .
  have st: "p_state r = PURGE_READY" using h(2) by (simp add: due_def)
  let ?key = "\<lparr> owner = p_owner r, key_id = p_id r \<rparr>"
  let ?db = "db\<lparr>purge_jobs := update_where (\<lambda>r'. p_key r' = p_key r) (set_claimed now) (purge_jobs db)\<rparr>"
  have k: "purge_key_from_database (p_owner r) (p_id r) = Inr ?key"
    using rok by (simp add: purge_key_from_database_def try_into_array_def purge_row_ok_def purge_check_def)
  have kr: "p_key r = pair_of_key ?key" by (simp add: p_key_def pair_of_key_def)
  have only: "r' = r" if "r' \<in> set (purge_jobs db)" "p_key r' = p_key r" for r'
    using the_same_purge [OF ok that(1) h(1), of ?key] that(2) kr by (simp add: is_purge_key)
  have P: "is_purge ?key r' \<and> p_state r' = PURGE_READY \<longleftrightarrow> p_key r' = p_key r" if "r' \<in> set (purge_jobs db)" for r'
    using only [OF that] st kr by (auto simp: is_purge_key)
  have upd: "update_where (\<lambda>r. is_purge ?key r \<and> p_state r = PURGE_READY) (set_claimed now) (purge_jobs db) =
      update_where (\<lambda>r'. p_key r' = p_key r) (set_claimed now) (purge_jobs db)"
    unfolding update_where_def using P by simp
  have "count_where (\<lambda>r'. p_key r' = pair_of_key ?key \<and> p_state r' = PURGE_READY) (purge_jobs db) \<le> 1"
    by (rule count_where_key_le1) (use ok in \<open>simp add: purges_ok_def\<close>)
  moreover have "count_where (\<lambda>r'. p_key r' = pair_of_key ?key \<and> p_state r' = PURGE_READY) (purge_jobs db) \<noteq> 0"
    unfolding count_where_0 using h(1) st kr by blast
  ultimately have cnt: "count_where (\<lambda>r. is_purge ?key r \<and> p_state r = PURGE_READY) (purge_jobs db) = 1"
    using count_where_nonneg [of "\<lambda>r'. p_key r' = pair_of_key ?key \<and> p_state r' = PURGE_READY" "purge_jobs db"]
    unfolding is_purge_key by linarith
  have chk: "list_all (\<lambda>r'. is_purge ?key r' \<and> p_state r' = PURGE_READY \<longrightarrow> purge_check (set_claimed now r')) (purge_jobs db)"
    unfolding list_all_iff using P only claimed_row(1) [OF rok st] by (auto simp: purge_row_ok_def)
  have okd: "purges_ok L ?db"
    by (rule purges_ok_update [OF ok claimed_update.row_update_axioms trash_frames(2)])
      (use only claimed_row(1) [OF rok st] in auto)
  have "load_purge_job ?key ?db = Inr (Some (job_of r Claimed))"
  proof (rule load_purge_row [OF okd])
    show "set_claimed now r \<in> set (purge_jobs ?db)" using h(1) by (auto simp: set_update_where)
    show "is_purge ?key (set_claimed now r)" by (simp add: is_purge_def set_claimed_def)
  qed (rule claimed_row(3) [OF rok st])
  with k upd cnt chk Cons have "claim_due_tx now db = Inr (?db, Some (job_of r Claimed))"
    by (simp add: claim_due_tx_def update_rows_def)
  with h show ?thesis by blast
qed

section \<open>The purge commands as a machine\<close>

datatype purge_command =
    PreparePurge StoredPurgeJob
  | MarkPurgeReady StoreKey blob
  | ClaimDuePurge
  | RetryPurge StoreKey nat
  | CompletePurge StoreKey
  | RemovePurge StoreKey

fun purge_step :: "StoreWorker \<Rightarrow> tick \<times> purge_command \<Rightarrow> StoreWorker" where
  "purge_step w (t, PreparePurge j) = fst (prepare_purge_job t j w)"
| "purge_step w (t, MarkPurgeReady key revision) = fst (mark_purge_job_ready t key revision w)"
| "purge_step w (t, ClaimDuePurge) = fst (claim_due_purge_job t w)"
| "purge_step w (t, RetryPurge key delay) = fst (retry_purge_job t key delay w)"
| "purge_step w (t, CompletePurge key) = fst (complete_purge_job t key w)"
| "purge_step w (t, RemovePurge key) = fst (remove_purge_job t key w)"

fun purge_event_ok :: "tick \<times> purge_command \<Rightarrow> bool" where
  "purge_event_ok (t, PreparePurge j) \<longleftrightarrow> tick_ok t \<and> job_typed j"
| "purge_event_ok (t, MarkPurgeReady _ revision) \<longleftrightarrow> tick_ok t \<and> length revision = 32"
| "purge_event_ok (t, _) \<longleftrightarrow> tick_ok t"

definition purge_store_ok :: "StoreWorker \<Rightarrow> bool" where
  "purge_store_ok w \<longleftrightarrow> clock_ok (clock w) \<and> purges_ok (limits w) (connection w)"

text \<open>Which rows a command may drop and add.\<close>

fun purge_lost :: "purge_command \<Rightarrow> purge_row \<Rightarrow> bool" where
  "purge_lost (CompletePurge key) r \<longleftrightarrow> is_purge key r \<and> p_state r = PURGE_CLAIMED"
| "purge_lost (RemovePurge key) r \<longleftrightarrow> is_purge key r"
| "purge_lost _ r \<longleftrightarrow> False"

fun purge_gain :: "purge_command \<Rightarrow> purge_row \<Rightarrow> bool" where
  "purge_gain (PreparePurge j) r \<longleftrightarrow> decode_purge_row r = Inr j"
| "purge_gain _ r \<longleftrightarrow> False"

abbreviation purge_fate :: "purge_command \<Rightarrow> purge_row list \<Rightarrow> purge_row list \<Rightarrow> bool" where
  "purge_fate c \<equiv> table_fate purge_progress (purge_lost c) (purge_gain c)"

text \<open>The invariant and the fate of the rows go together through every transaction.\<close>

definition good_purge_step :: "Limits \<Rightarrow> purge_command \<Rightarrow> database \<Rightarrow> database \<Rightarrow> bool" where
  "good_purge_step L c db db' \<longleftrightarrow> purges_ok L db' \<and> purge_fate c (purge_jobs db) (purge_jobs db')"

lemma purge_ok_progress: "\<lbrakk> purges_ok L db; r \<in> set (purge_jobs db) \<rbrakk> \<Longrightarrow> purge_progress r r"
  by (rule purge_progress_refl) (rule purge_row)

lemma good_same: "purges_ok L db \<Longrightarrow> good_purge_step L c db db"
  unfolding good_purge_step_def by (intro conjI table_fate_same) (simp_all add: purge_ok_progress)

lemma good_update:
  assumes ok: "purges_ok L db" and f: "row_update p_key f" "row_update p_trash_path f"
    and rows: "\<And>r. r \<in> set (purge_jobs db) \<Longrightarrow> P r \<Longrightarrow> purge_row_ok (f r) \<and> purge_progress r (f r)"
  shows "good_purge_step L c db (db\<lparr>purge_jobs := update_where P f (purge_jobs db)\<rparr>)"
proof -
  have "purges_ok L (db\<lparr>purge_jobs := update_where P f (purge_jobs db)\<rparr>)"
    by (rule purges_ok_update [OF ok f]) (use rows in blast)
  moreover have "purge_fate c (purge_jobs db) (update_where P f (purge_jobs db))"
    by (rule table_fate_update) (use purge_ok_progress [OF ok] rows in blast)+
  ultimately show ?thesis by (simp add: good_purge_step_def)
qed

lemma good_delete:
  assumes ok: "purges_ok L db" and lost: "\<And>r. P r \<Longrightarrow> purge_lost c r"
  shows "good_purge_step L c db (db\<lparr>purge_jobs := delete_where P (purge_jobs db)\<rparr>)"
proof -
  have "purge_fate c (purge_jobs db) (delete_where P (purge_jobs db))"
    by (rule table_fate_delete) (use purge_ok_progress [OF ok] lost in blast)+
  with purges_ok_delete [OF ok] show ?thesis by (simp add: good_purge_step_def)
qed

lemma prepare_tx_good:
  assumes ok: "purges_ok L db" and j: "job_typed j" "validate_new j = Inr ()"
    and tx: "prepare_purge_job_tx L j now db = Inr (db', res)"
  shows "good_purge_step L (PreparePurge j) db db'"
  using ok tx
proof (cases rule: prepare_tx_cases)
  case same
  with good_same [OF ok] show ?thesis by simp
next
  case inserted
  let ?row = "prepared_row j now"
  note r = prepared_row_ok [OF j, of now]
  have trash: "p_trash_path ?row = trash_path j" and ow: "p_owner ?row = owner (pj_key j)"
    by (simp_all add: prepared_row_def)
  have "count_where (\<lambda>r. p_owner r = b) (purge_jobs db @ [?row]) \<le> purge_per_owner L" for b
    using ok inserted(6) by (cases "b = owner (pj_key j)") (simp_all add: purges_ok_def ow)
  moreover have "keys_distinct p_trash_path (purge_jobs db @ [?row])"
    using ok inserted(4) unfolding purges_ok_def keys_distinct_append trash by simp
  moreover have "keys_distinct p_key (purge_jobs db @ [?row])"
    using ok inserted(3) unfolding purges_ok_def keys_distinct_append by simp
  ultimately have "purges_ok L db'"
    unfolding inserted(2) using ok inserted(5) r(1) by (simp add: purges_ok_def)
  moreover have "purge_fate (PreparePurge j) (purge_jobs db) (purge_jobs db')"
    unfolding inserted(2) using table_fate_insert [where prog = purge_progress, of "purge_jobs db"] r(2)
      purge_ok_progress [OF ok] by simp
  ultimately show ?thesis by (simp add: good_purge_step_def)
qed

lemma mark_ready_tx_good:
  assumes ok: "purges_ok L db" and rv: "length revision = 32"
    and tx: "mark_ready_tx key revision now db = Inr (db', res)"
  shows "good_purge_step L c db db'"
proof -
  have "db' = db\<lparr>purge_jobs := update_where (\<lambda>r. is_purge key r \<and> p_state r = PURGE_PREPARED)
      (set_ready revision now) (purge_jobs db)\<rparr>"
    using tx by (auto simp: mark_ready_tx_def update_rows_def split: if_splits)
  moreover have "good_purge_step L c db (db\<lparr>purge_jobs := update_where (\<lambda>r. is_purge key r \<and> p_state r = PURGE_PREPARED)
      (set_ready revision now) (purge_jobs db)\<rparr>)"
    by (rule good_update [OF ok ready_update.row_update_axioms trash_frames(1)])
      (use ready_row [OF purge_row [OF ok] _ rv] in blast)
  ultimately show ?thesis by simp
qed

lemma retry_tx_good:
  assumes ok: "purges_ok L db" and tx: "retry_tx key delay now db = Inr (db', res)"
  shows "good_purge_step L c db db'"
proof -
  obtain x where x: "db' = db\<lparr>purge_jobs := update_where (\<lambda>r. is_purge key r \<and> p_state r = PURGE_CLAIMED)
      (set_retry x now) (purge_jobs db)\<rparr>"
    using tx by (auto simp: retry_tx_def update_rows_def split: if_splits sum.splits)
  have "good_purge_step L c db (db\<lparr>purge_jobs := update_where (\<lambda>r. is_purge key r \<and> p_state r = PURGE_CLAIMED)
      (set_retry x now) (purge_jobs db)\<rparr>)"
    by (rule good_update [OF ok retry_update.row_update_axioms trash_frames(3)])
      (use retry_row [OF purge_row [OF ok]] in blast)
  with x show ?thesis by simp
qed

lemma claim_tx_good:
  assumes ok: "purges_ok L db" and tx: "claim_due_tx now db = Inr (db', res)"
  shows "good_purge_step L c db db'"
  using claim_tx_total [OF ok, of now]
proof (elim disjE conjE bexE)
  assume "claim_due_tx now db = Inr (db, None)"
  with tx good_same [OF ok] show ?thesis by simp
next
  fix r
  assume r: "r \<in> set (purge_jobs db)" "due now r"
    and e: "claim_due_tx now db = Inr (db\<lparr>purge_jobs := update_where (\<lambda>r'. p_key r' = p_key r) (set_claimed now) (purge_jobs db)\<rparr>,
         Some (job_of r Claimed))"
  have st: "p_state r = PURGE_READY" using r(2) by (simp add: due_def)
  have only: "r' = r" if "r' \<in> set (purge_jobs db)" "p_key r' = p_key r" for r'
    using ok keys_distinct_eqD [of p_key "purge_jobs db" r' r] that r(1) by (simp add: purges_ok_def)
  have "good_purge_step L c db (db\<lparr>purge_jobs := update_where (\<lambda>r'. p_key r' = p_key r) (set_claimed now) (purge_jobs db)\<rparr>)"
    by (rule good_update [OF ok claimed_update.row_update_axioms trash_frames(2)])
      (use only claimed_row(1,2) [OF purge_row [OF ok r(1)] st] in blast)
  with tx e show ?thesis by simp
qed

lemma mark_ready_fst:
  "fst (mark_purge_job_ready t key revision w) = fst (timed t w (mark_ready_tx key revision))"
  by (simp add: mark_purge_job_ready_def split: prod.splits sum.splits)

lemma purge_step_frame:
  "limits (purge_step w e) = limits w" "deferred_abandons (purge_step w e) = deferred_abandons w"
  by (cases e; cases "snd e"; simp add: prepare_purge_job_def mark_ready_fst claim_due_purge_job_def
      retry_purge_job_def complete_purge_job_def remove_purge_job_def transact_def split: sum.splits)+

lemmas timed_good = timed_keeps [where P = "good_purge_step L c db" for L c db]

lemma purge_step_good:
  assumes ok: "purge_store_ok w" and e: "purge_event_ok (t, c)"
  shows "good_purge_step (limits w) c (connection w) (connection (purge_step w (t, c)))"
proof -
  have pj: "purges_ok (limits w) (connection w)" using ok by (simp add: purge_store_ok_def)
  note same = good_same [OF pj]
  show ?thesis
  proof (cases c)
    case (PreparePurge j)
    then have j: "job_typed j" using e by simp
    have "good_purge_step (limits w) (PreparePurge j) (connection w)
        (connection (fst (timed t w (prepare_purge_job_tx (limits w) j))))" if "validate_new j = Inr ()"
      by (rule timed_good [OF same]) (rule prepare_tx_good [OF pj j that])
    with same show ?thesis by (simp add: PreparePurge prepare_purge_job_def split: sum.splits)
  next
    case (MarkPurgeReady key revision)
    then have rv: "length revision = 32" using e by simp
    show ?thesis unfolding MarkPurgeReady purge_step.simps mark_ready_fst
      by (rule timed_good [OF same]) (rule mark_ready_tx_good [OF pj rv])
  next
    case ClaimDuePurge
    show ?thesis unfolding ClaimDuePurge purge_step.simps claim_due_purge_job_def
      by (rule timed_good [OF same]) (rule claim_tx_good [OF pj])
  next
    case (RetryPurge key delay)
    have "good_purge_step (limits w) (RetryPurge key delay) (connection w) (connection (fst (timed t w (retry_tx key ms))))" for ms
      by (rule timed_good [OF same]) (rule retry_tx_good [OF pj])
    with same show ?thesis by (simp add: RetryPurge retry_purge_job_def split: sum.splits)
  next
    case (CompletePurge key)
    have "good_purge_step (limits w) (CompletePurge key) (connection w)
        ((connection w)\<lparr>purge_jobs := delete_where (\<lambda>r. is_purge key r \<and> p_state r = PURGE_CLAIMED) (purge_jobs (connection w))\<rparr>)"
      by (rule good_delete [OF pj]) simp
    with same show ?thesis by (simp add: CompletePurge complete_purge_job_def transact_def delete_purge_def)
  next
    case (RemovePurge key)
    have "good_purge_step (limits w) (RemovePurge key) (connection w)
        ((connection w)\<lparr>purge_jobs := delete_where (is_purge key) (purge_jobs (connection w))\<rparr>)"
      by (rule good_delete [OF pj]) simp
    with same show ?thesis by (simp add: RemovePurge remove_purge_job_def transact_def delete_purge_def)
  qed
qed

lemma purge_step_ok:
  assumes ok: "purge_store_ok w" and e: "purge_event_ok e"
  shows "purge_store_ok (purge_step w e)"
proof -
  obtain t c where tc: "e = (t, c)" by fastforce
  have wall: "wall_ok (wall t)" using e by (cases c) (auto simp: tc tick_ok_def)
  have cl: "clock_ok (clock w)" using ok by (simp add: purge_store_ok_def)
  have "clock_ok (clock (purge_step w e))"
    using cl
    by (cases c) (simp_all add: tc timed_clock_ok [OF cl wall] prepare_purge_job_def mark_ready_fst claim_due_purge_job_def
      retry_purge_job_def complete_purge_job_def remove_purge_job_def transact_def delete_purge_def split: sum.splits)
  with purge_step_good [of w t c] ok e show ?thesis
    by (simp add: tc purge_store_ok_def good_purge_step_def purge_step_frame)
qed

interpretation purge_machine: invariant_machine purge_step purge_event_ok purge_store_ok
  by unfold_locales (rule purge_step_ok)

section \<open>Claimed jobs\<close>

fun settles :: "StoreKey \<Rightarrow> purge_command \<Rightarrow> bool" where
  "settles key (RetryPurge k _) \<longleftrightarrow> k = key"
| "settles key (CompletePurge k) \<longleftrightarrow> k = key"
| "settles key (RemovePurge k) \<longleftrightarrow> k = key"
| "settles key _ \<longleftrightarrow> False"

lemma key_of_purge: "is_purge k r \<Longrightarrow> is_purge k' r \<Longrightarrow> k = k'"
  by (simp add: is_purge_def)

lemmas timed_keeps_purge = timed_keeps [where P = "\<lambda>db. r \<in> set (purge_jobs db)" for r]

lemma purge_tx_keeps_claimed:
  assumes r: "r \<in> set (purge_jobs db)" "is_purge key r" "p_state r = PURGE_CLAIMED"
  shows "purges_ok L db \<Longrightarrow> prepare_purge_job_tx L j now db = Inr (db', a) \<Longrightarrow> r \<in> set (purge_jobs db')"
    "mark_ready_tx k revision now db = Inr (db', b) \<Longrightarrow> r \<in> set (purge_jobs db')"
    "purges_ok L db \<Longrightarrow> claim_due_tx now db = Inr (db', c) \<Longrightarrow> r \<in> set (purge_jobs db')"
    "retry_tx k delay now db = Inr (db', d) \<Longrightarrow> k \<noteq> key \<Longrightarrow> r \<in> set (purge_jobs db')"
proof -
  show "r \<in> set (purge_jobs db')" if "purges_ok L db" "prepare_purge_job_tx L j now db = Inr (db', a)"
    using that by (cases rule: prepare_tx_cases) (use r(1) in auto)
  show "r \<in> set (purge_jobs db')" if "mark_ready_tx k revision now db = Inr (db', b)"
  proof -
    have "purge_jobs db' = update_where (\<lambda>r. is_purge k r \<and> p_state r = PURGE_PREPARED) (set_ready revision now) (purge_jobs db)"
      using that by (auto simp: mark_ready_tx_def update_rows_def split: if_splits)
    then show ?thesis using update_keeps [OF r(1)] r(3) by simp
  qed
  show "r \<in> set (purge_jobs db')" if tx: "retry_tx k delay now db = Inr (db', d)" and ne: "k \<noteq> key"
  proof -
    obtain x where "purge_jobs db' = update_where (\<lambda>r. is_purge k r \<and> p_state r = PURGE_CLAIMED) (set_retry x now) (purge_jobs db)"
      using tx by (auto simp: retry_tx_def update_rows_def split: if_splits sum.splits)
    moreover have "\<not> is_purge k r" using key_of_purge [OF r(2)] ne by blast
    ultimately show ?thesis using update_keeps [OF r(1)] by simp
  qed
  assume ok: "purges_ok L db" and c: "claim_due_tx now db = Inr (db', c)"
  from claim_tx_total [OF ok, of now] show "r \<in> set (purge_jobs db')"
  proof (elim disjE conjE bexE)
    fix x assume x: "x \<in> set (purge_jobs db)" "due now x"
      and e: "claim_due_tx now db = Inr (db\<lparr>purge_jobs := update_where (\<lambda>r'. p_key r' = p_key x) (set_claimed now) (purge_jobs db)\<rparr>,
         Some (job_of x Claimed))"
    have "r \<noteq> x" using r(3) x(2) by (auto simp: due_def)
    then have "p_key r \<noteq> p_key x"
      using ok keys_distinct_eqD [of p_key "purge_jobs db" r x] r(1) x(1) unfolding purges_ok_def by blast
    then have "r \<in> set (update_where (\<lambda>r'. p_key r' = p_key x) (set_claimed now) (purge_jobs db))"
      by (rule update_keeps [OF r(1)])
    with c e show ?thesis by auto
  qed (use c r(1) in simp)
qed

lemma purge_step_keeps_claimed:
  assumes ok: "purge_store_ok w" and r: "r \<in> set (purge_jobs (connection w))" "is_purge key r" "p_state r = PURGE_CLAIMED"
    and e: "\<not> settles key c"
  shows "r \<in> set (purge_jobs (connection (purge_step w (t, c))))"
proof -
  have pj: "purges_ok (limits w) (connection w)" using ok by (simp add: purge_store_ok_def)
  note k = purge_tx_keeps_claimed [OF r]
  show ?thesis
  proof (cases c)
    case (PreparePurge j)
    have "r \<in> set (purge_jobs (connection (fst (timed t w (prepare_purge_job_tx (limits w) j)))))"
      by (rule timed_keeps_purge [OF r(1)]) (rule k(1) [OF pj])
    with r(1) show ?thesis by (simp add: PreparePurge prepare_purge_job_def split: sum.splits)
  next
    case (MarkPurgeReady k' revision)
    show ?thesis unfolding MarkPurgeReady purge_step.simps mark_ready_fst
      by (rule timed_keeps_purge [OF r(1)]) (rule k(2))
  next
    case ClaimDuePurge
    show ?thesis unfolding ClaimDuePurge purge_step.simps claim_due_purge_job_def
      by (rule timed_keeps_purge [OF r(1)]) (rule k(3) [OF pj])
  next
    case (RetryPurge k' delay)
    then have ne: "k' \<noteq> key" using e by simp
    have "r \<in> set (purge_jobs (connection (fst (timed t w (retry_tx k' ms)))))" for ms
      by (rule timed_keeps_purge [OF r(1)]) (rule k(4) [OF _ ne])
    with r(1) show ?thesis by (simp add: RetryPurge retry_purge_job_def split: sum.splits)
  next
    case (CompletePurge k')
    with e r key_of_purge [OF r(2), of k'] show ?thesis
      by (auto simp: complete_purge_job_def transact_def delete_purge_def)
  next
    case (RemovePurge k')
    with e r key_of_purge [OF r(2), of k'] show ?thesis
      by (auto simp: remove_purge_job_def transact_def delete_purge_def)
  qed
qed

lemma purge_run_keeps_claimed:
  assumes "purge_store_ok w" "list_all purge_event_ok es"
    "r \<in> set (purge_jobs (connection w))" "is_purge key r" "p_state r = PURGE_CLAIMED"
    "list_all (\<lambda>e. \<not> settles key (snd e)) es"
  shows "r \<in> set (purge_jobs (connection (run_steps purge_step w es)))"
  using assms
proof (induction es arbitrary: w)
  case (Cons e es)
  have "r \<in> set (purge_jobs (connection (purge_step w (fst e, snd e))))"
    by (rule purge_step_keeps_claimed) (use Cons.prems in auto)
  with Cons purge_step_ok [of w e] show ?case by simp
qed simp

lemma claim_result:
  assumes ok: "purge_store_ok w" and c: "claim_due_purge_job t w = (w', Inr (Some j))"
  obtains now r where "observe (wall t) (monotonic t) (clock w) = (clock w', Inr now)"
    "r \<in> set (purge_jobs (connection w))" "due now r"
    "\<forall>r' \<in> set (purge_jobs (connection w)). due now r' \<longrightarrow> claim_order r \<le> claim_order r'"
    "j = job_of r Claimed" "set_claimed now r \<in> set (purge_jobs (connection w'))"
proof -
  have pj: "purges_ok (limits w) (connection w)" using ok by (simp add: purge_store_ok_def)
  have tm: "timed t w claim_due_tx = (w', Inr (Some j))" using c by (simp add: claim_due_purge_job_def)
  show thesis
  proof (rule timed_cases [of t w claim_due_tx])
    fix now db a assume d: "observe (wall t) (monotonic t) (clock w) = (clock (fst (timed t w claim_due_tx)), Inr now)"
      "claim_due_tx now (connection w) = Inr (db, a)" "snd (timed t w claim_due_tx) = Inr a"
      "connection (fst (timed t w claim_due_tx)) = db"
    then have a: "a = Some j" and db: "connection w' = db" using tm by simp_all
    from claim_tx_total [OF pj, of now] d(2) a obtain r where
      "r \<in> set (purge_jobs (connection w))" "due now r"
      "\<forall>r' \<in> set (purge_jobs (connection w)). due now r' \<longrightarrow> claim_order r \<le> claim_order r'"
      "db = (connection w)\<lparr>purge_jobs := update_where (\<lambda>r'. p_key r' = p_key r) (set_claimed now) (purge_jobs (connection w))\<rparr>"
      "j = job_of r Claimed" by auto
    moreover from this have "set_claimed now r \<in> set (purge_jobs db)" by (auto simp: set_update_where)
    ultimately show thesis using that d(1) db tm by auto
  qed (use tm in auto)
qed

section \<open>Errors\<close>

lemma insert_purge_total:
  assumes "purge_check r" "p_key r \<notin> p_key ` set rows" "p_trash_path r \<notin> p_trash_path ` set rows"
  shows "insert_purge r rows = Inr (rows @ [r])"
  using assms by (auto simp: insert_purge_def insert_row_Inr exists_where_def list_ex_iff image_iff)

lemma prepare_tx_error:
  assumes ok: "purges_ok L db" and j: "job_typed j" "validate_new j = Inr ()"
  shows "\<exists>r. prepare_purge_job_tx L j now db = Inr r"
proof -
  obtain found where l: "load_purge_job (pj_key j) db = Inr found" and
    f: "case found of None \<Rightarrow> \<forall>r \<in> set (purge_jobs db). \<not> is_purge (pj_key j) r
        | Some x \<Rightarrow> \<exists>r \<in> set (purge_jobs db). is_purge (pj_key j) r \<and> decode_purge_row r = Inr x"
    using load_purge_ok [OF ok] by blast
  show ?thesis
  proof (cases found)
    case None
    have "insert_purge (prepared_row j now) (purge_jobs db) = Inr (purge_jobs db @ [prepared_row j now])"
      if "\<not> exists_where (\<lambda>r. p_trash_path r = trash_path j) (purge_jobs db)"
    proof (rule insert_purge_total)
      show "purge_check (prepared_row j now)" using prepared_row_ok(1) [OF j] by (simp add: purge_row_ok_def)
      show "p_key (prepared_row j now) \<notin> p_key ` set (purge_jobs db)"
        using f None by (auto simp: is_purge_def p_key_def prepared_row_def)
      show "p_trash_path (prepared_row j now) \<notin> p_trash_path ` set (purge_jobs db)"
        using that by (auto simp: exists_where_def list_ex_iff prepared_row_def)
    qed
    with l None show ?thesis by (auto simp: prepare_purge_job_tx_def)
  qed (use l in \<open>simp add: prepare_purge_job_tx_def\<close>)
qed

lemma mark_ready_tx_error:
  assumes ok: "purges_ok L db" and rv: "length revision = 32"
  shows "\<exists>r. mark_ready_tx key revision now db = Inr r"
  using ready_row(1) [OF purge_row [OF ok] _ rv]
  by (auto simp: mark_ready_tx_def update_rows_def list_all_iff purge_row_ok_def)

lemma retry_tx_error:
  assumes ok: "purges_ok L db" and e: "retry_tx key delay now db = Inl e"
  shows "environment_error e"
  using e retry_row(1) [OF purge_row [OF ok]] expiration_error
  by (auto simp: retry_tx_def update_rows_def list_all_iff purge_row_ok_def split: sum.splits if_splits)

section \<open>The pages of blocking paths\<close>

definition state_paths_ok :: "database \<Rightarrow> bool" where
  "state_paths_ok db \<longleftrightarrow>
     keys_distinct u_key (upload_sessions db) \<and> list_all upload_row_ok (upload_sessions db) \<and>
     keys_distinct p_key (purge_jobs db) \<and> list_all purge_row_ok (purge_jobs db)"

lemma state_paths_okI: "\<lbrakk> uploads_ok L db; purges_ok L db \<rbrakk> \<Longrightarrow> state_paths_ok db"
  by (simp add: state_paths_ok_def uploads_ok_def purges_ok_def)

lemma upload_part_distinct:
  "keys_distinct u_key rows \<Longrightarrow> distinct (map (\<lambda>r. (a, u_owner r, u_id r, b)) (filter P rows))"
  by (induction rows) (auto simp: keys_distinct_def u_key_def image_iff)

lemma purge_part_distinct:
  "keys_distinct p_key rows \<Longrightarrow> distinct (map (\<lambda>r. (a, p_owner r, p_id r, b)) (filter P rows))"
  by (induction rows) (auto simp: keys_distinct_def p_key_def image_iff)

lemma state_keys_distinct:
  assumes "state_paths_ok db"
  shows "distinct (map s_key (state_paths db))"
proof -
  let ?U = "\<lambda>b. map (\<lambda>r. (0 :: i64, u_owner r, u_id r, b :: i64)) (filter live_upload (upload_sessions db))"
  let ?P = "map (\<lambda>r. (1 :: i64, p_owner r, p_id r, 0 :: i64)) (filter (\<lambda>r. p_state r = PURGE_PREPARED) (purge_jobs db))"
  let ?T = "map (\<lambda>r. (1 :: i64, p_owner r, p_id r, 1 :: i64)) (filter (\<lambda>_. True) (purge_jobs db))"
  have "map s_key (state_paths db) = ?U 0 @ ?U 1 @ ?P @ ?T"
    by (simp add: state_paths_def s_key_def comp_def)
  moreover have "distinct (?U 0)" "distinct (?U 1)" "distinct ?P" "distinct ?T"
    using assms upload_part_distinct purge_part_distinct by (auto simp only: state_paths_ok_def)
  moreover have "set (?U 0) \<inter> set (?U 1 @ ?P @ ?T) = {}" "set (?U 1) \<inter> set (?P @ ?T) = {}" "set ?P \<inter> set ?T = {}"
    by auto
  ultimately show ?thesis by (simp only: distinct_append)
qed

lemma state_path_decodes:
  assumes "state_paths_ok db" "r \<in> set (state_paths db)"
  shows "decode_state_path_row r =
    Inr (\<lparr> cursor_kind = s_kind r, cursor_owner = s_owner r, cursor_id = s_id r, cursor_slot = s_slot r \<rparr>,
         \<lparr> blocking_path = s_path r, allows_exact_replacement = s_replace r \<noteq> 0 \<rparr>)"
proof -
  have u: "validate_stored_path (u_target_path x) = Inr () \<and> validate_stored_path (u_stage_path x) = Inr () \<and>
      length (u_owner x) = 32 \<and> length (u_id x) = 16" if x: "x \<in> set (upload_sessions db)" for x
  proof -
    obtain s where "decode_upload_row x = Inr s" "upload_check x"
      using assms(1) x by (auto simp: state_paths_ok_def list_all_iff upload_row_ok_def)
    then show ?thesis using decode_upload_Inr(3,4,8) [of x s]
      by (simp add: validate_session_ok upload_check_def)
  qed
  have p: "validate_stored_path (p_target_path x) = Inr () \<and> validate_stored_path (p_trash_path x) = Inr () \<and>
      length (p_owner x) = 32 \<and> length (p_id x) = 16" if "x \<in> set (purge_jobs db)" for x
    using assms(1) that by (auto simp: state_paths_ok_def list_all_iff purge_row_ok_def decode_purge_Inr)
  have "validate_stored_path (s_path r) = Inr () \<and> length (s_owner r) = 32 \<and> length (s_id r) = 16 \<and>
      s_kind r \<in> {0, 1} \<and> s_slot r \<in> {0, 1} \<and> s_replace r \<in> {0, 1}"
    using assms(2) u p by (auto simp: state_paths_def)
  then show ?thesis by (auto simp: decode_state_path_row_def try_into_array_def)
qed

definition state_page :: "database \<Rightarrow> (i64 \<times> blob \<times> blob \<times> i64) option \<Rightarrow> nat \<Rightarrow> state_path_row list" where
  "state_page db after n =
     take n (filter (\<lambda>r. case after of None \<Rightarrow> True | Some k \<Rightarrow> k < s_key r) (sort_key s_key (state_paths db)))"

interpretation state_path_pages:
  keyset_pages s_key state_page "\<lambda>db. sort_key s_key (state_paths db)" state_paths_ok
proof
  fix db n k assume ok: "state_paths_ok db"
  have "sorted (map s_key (sort_key s_key (state_paths db)))" by simp
  moreover have "distinct (map s_key (sort_key s_key (state_paths db)))"
    using state_keys_distinct [OF ok] by (simp add: distinct_map)
  ultimately show "sorted_wrt (<) (map s_key (sort_key s_key (state_paths db)))"
    by (simp add: strict_sorted_iff)
  show "state_page db None n = take n (sort_key s_key (state_paths db))"
    "state_page db (Some k) n = take n (filter (\<lambda>r. k < s_key r) (sort_key s_key (state_paths db)))"
    by (simp_all add: state_page_def)
qed

definition blocking_of :: "state_path_row \<Rightarrow> StateBlockingPath" where
  "blocking_of r = \<lparr> blocking_path = s_path r, allows_exact_replacement = s_replace r \<noteq> 0 \<rparr>"

definition cursor_of :: "state_path_row \<Rightarrow> StatePathCursor" where
  "cursor_of r = \<lparr> cursor_kind = s_kind r, cursor_owner = s_owner r, cursor_id = s_id r, cursor_slot = s_slot r \<rparr>"

lemma cursor_key_of [simp]: "cursor_key (cursor_of r) = s_key r"
  by (simp add: cursor_key_def cursor_of_def s_key_def)

text \<open>A page lists the next rows after the cursor and points behind its last one when it is full.\<close>

lemma query_page:
  assumes "state_paths_ok db" "0 < limit"
  shows "query_state_blocking_paths after (int limit) db =
    Inr (let rows = state_page db (map_option cursor_key after) limit in
         \<lparr> paths = map blocking_of rows,
           next_cursor = (if length rows = limit \<and> rows \<noteq> [] then Some (cursor_of (last rows)) else None) \<rparr>)"
proof -
  have f: "after_cursor after = (\<lambda>r. case map_option cursor_key after of None \<Rightarrow> True | Some k \<Rightarrow> k < s_key r)"
    by (cases after) (simp_all add: fun_eq_iff after_cursor_def)
  let ?rows = "state_page db (map_option cursor_key after) limit"
  have sub: "set ?rows \<subseteq> set (state_paths db)" by (auto simp: state_page_def dest: in_set_takeD)
  have d: "decode_state_path_row r = Inr (cursor_of r, blocking_of r)" if "r \<in> set ?rows" for r
    using state_path_decodes [OF assms(1)] that sub by (auto simp: cursor_of_def blocking_of_def)
  have "collect_rows decode_state_path_row ?rows = Inr (map (\<lambda>r. projr (decode_state_path_row r)) ?rows)"
    by (rule collect_rows_total) (use d in blast)
  also have "map (\<lambda>r. projr (decode_state_path_row r)) ?rows = map (\<lambda>r. (cursor_of r, blocking_of r)) ?rows"
    by (rule map_cong) (use d in simp_all)
  finally have "collect_rows decode_state_path_row ?rows = Inr (map (\<lambda>r. (cursor_of r, blocking_of r)) ?rows)" .
  moreover have "take (nat (int limit)) (filter (after_cursor after) (sort_key s_key (state_paths db))) = ?rows"
    unfolding state_page_def f by simp
  ultimately show ?thesis
    unfolding query_state_blocking_paths_def by (simp add: Let_def comp_def last_map)
qed

section \<open>A concrete job\<close>

definition demo_job :: StoredPurgeJob where
  "demo_job =
     \<lparr> pj_key = demo_store_key, pj_target_path = ''a'', trash_path = ''b'',
       source_identity = \<lparr> device = 1, inode = 2 \<rparr>, trash_revision = None, is_directory = False,
       pj_state = Prepared, attempts = 0 \<rparr>"

definition demo_ready_row :: purge_row where
  "demo_ready_row = set_ready demo_fp 10 (prepared_row demo_job 10)"

definition demo_purge_worker :: StoreWorker where
  "demo_purge_worker =
     demo_worker\<lparr>connection := \<lparr> operations = [], upload_sessions = [], purge_jobs = [demo_ready_row] \<rparr>\<rparr>"

lemma demo_job_ok: "job_typed demo_job" "validate_new demo_job = Inr ()"
  using demo_ok(3) by (simp_all add: demo_job_def job_typed_def u64_max_def validate_new_ok validate_stored_path_ok demo_paths)

lemma demo_ready_ok: "purge_row_ok demo_ready_row" "p_state demo_ready_row = PURGE_READY"
  "is_purge demo_store_key demo_ready_row" "p_next_attempt_at_ms demo_ready_row = 10"
proof -
  show "purge_row_ok demo_ready_row"
    unfolding demo_ready_row_def
    by (rule ready_row(1) [OF prepared_row_ok(1) [OF demo_job_ok]]) (simp_all add: prepared_row_def demo_ok(4))
qed (simp_all add: demo_ready_row_def set_ready_def prepared_row_def is_purge_def demo_job_def)

lemma demo_purge_ok: "purge_store_ok demo_purge_worker"
  using demo_ok(1) demo_ready_ok(1)
  by (simp add: demo_purge_worker_def purge_store_ok_def purges_ok_def operation_store_ok_def keys_distinct_def
      count_where_def) (simp add: demo_worker_def demo_limits_def)

lemma demo_now:
  "observe (wall (demo_tick 0)) (monotonic (demo_tick 0)) (clock demo_worker) = (clock demo_worker, Inr 10)"
  by (simp add: demo_worker_def demo_tick_def new_clock_def observe_def as_millis_def
      i64_try_from_def i64_max_def checked_add_i64_def in_i64_def i64_min_def Let_def)

lemma demo_due: "due 10 demo_ready_row"
  using demo_ready_ok by (simp add: due_def)

lemma demo_claim_due:
  assumes ok: "purge_store_ok w" and c: "clock w = clock demo_worker" and r: "demo_ready_row \<in> set (purge_jobs (connection w))"
  shows "\<exists>w' j. claim_due_purge_job (demo_tick 0) w = (w', Inr (Some j))"
proof -
  have "purges_ok (limits w) (connection w)" using ok by (simp add: purge_store_ok_def)
  from claim_tx_total [OF this, of 10] r demo_due
  obtain db j where "claim_due_tx 10 (connection w) = Inr (db, Some j)" by blast
  then show ?thesis
    using demo_now c by (simp add: claim_due_purge_job_def timed_def now_ms_def transact_def demo_tick_def)
qed

definition demo_other_row :: purge_row where
  "demo_other_row = demo_ready_row\<lparr>p_id := replicate 16 CHR ''j'', p_trash_path := ''c'', p_next_attempt_at_ms := 9\<rparr>"

definition demo_two_jobs :: StoreWorker where
  "demo_two_jobs = demo_worker\<lparr>connection := \<lparr> operations = [], upload_sessions = [], purge_jobs = [demo_ready_row, demo_other_row] \<rparr>\<rparr>"

lemma demo_other_ok:
  "purge_row_ok demo_other_row" "p_key demo_other_row \<noteq> p_key demo_ready_row"
  "p_trash_path demo_other_row \<noteq> p_trash_path demo_ready_row" "due 10 demo_other_row"
proof -
  have p: "p_target_path demo_ready_row = ''a''" "p_trash_path demo_ready_row = ''b''"
    by (simp_all add: demo_ready_row_def set_ready_def prepared_row_def demo_job_def)
  have "\<not> path_eq ''a'' ''c''" by code_simp
  with demo_ready_ok(1) p show "purge_row_ok demo_other_row"
    by (auto simp: purge_row_ok_def demo_other_row_def decode_purge_Inr purge_check_def validate_stored_path_ok)
  show "p_key demo_other_row \<noteq> p_key demo_ready_row" "p_trash_path demo_other_row \<noteq> p_trash_path demo_ready_row"
    by (simp_all add: demo_other_row_def p demo_ready_row_def set_ready_def prepared_row_def p_key_def demo_job_def
        demo_store_key_def numeral_eq_Suc)
  show "due 10 demo_other_row" using demo_due by (simp add: demo_other_row_def due_def)
qed

lemma demo_two_ok: "purge_store_ok demo_two_jobs"
  using demo_ok(1) demo_ready_ok(1) demo_other_ok
  by (simp add: demo_two_jobs_def purge_store_ok_def purges_ok_def operation_store_ok_def keys_distinct_def
      count_where_def) (simp add: demo_worker_def demo_limits_def)

lemma demo_two_claims:
  "\<exists>w1 j. claim_due_purge_job (demo_tick 0) demo_two_jobs = (w1, Inr (Some j)) \<and>
     demo_ready_row \<in> set (purge_jobs (connection w1)) \<and> clock w1 = clock demo_worker"
proof -
  have "purges_ok (limits demo_two_jobs) (connection demo_two_jobs)" using demo_two_ok by (simp add: purge_store_ok_def)
  note tot = claim_tx_total [OF this, of 10]
  have nle: "\<not> claim_order demo_ready_row \<le> claim_order demo_other_row"
    using demo_ready_ok(4) by (simp add: claim_order_def demo_other_row_def)
  from tot demo_other_ok(4) nle
  have "claim_due_tx 10 (connection demo_two_jobs) = Inr ((connection demo_two_jobs)\<lparr>purge_jobs :=
      update_where (\<lambda>r'. p_key r' = p_key demo_other_row) (set_claimed 10) [demo_ready_row, demo_other_row]\<rparr>,
      Some (job_of demo_other_row Claimed))"
    by (auto simp: demo_two_jobs_def)
  then show ?thesis
    using demo_now demo_other_ok(2)
    by (auto simp: claim_due_purge_job_def timed_def now_ms_def transact_def demo_tick_def demo_two_jobs_def update_where_def)
qed

section \<open>Properties\<close>

text \<open>The purge table stays well formed: whatever commands the store executes, no key
  and no trash path occurs twice, every row satisfies the constraints of the schema and decodes
  to a job, a job carries the revision of its trash entry exactly when it has left the prepared
  state, and the limits hold.\<close>

lemma purge_table_invariant:
  assumes "purge_store_ok w" "list_all purge_event_ok es"
  shows "purges_ok (limits (run_steps purge_step w es)) (connection (run_steps purge_step w es))"
  using purge_machine.run_inv [OF assms] by (simp add: purge_store_ok_def)

text \<open>Claim C30.  A job keeps what it was prepared with: after any command every job in the table is
  still there with the same paths, inode and kind, no fewer attempts, the same trash revision
  once it had one, and a state that is the old one or the next of prepared, ready, claimed and
  back to ready; it is dropped only by completing it while it is claimed or by removing it, and
  a row that is new is the prepared job.\<close>

theorem purge_evolution:
  assumes "purge_store_ok w" "purge_event_ok (t, c)" "w' = purge_step w (t, c)"
  shows "(\<forall>r \<in> set (purge_jobs (connection w)).
            (\<exists>r' \<in> set (purge_jobs (connection w')). purge_progress r r') \<or> purge_lost c r) \<and>
         (\<forall>r' \<in> set (purge_jobs (connection w')).
            (\<exists>r \<in> set (purge_jobs (connection w)). purge_progress r r') \<or> purge_gain c r')"
  using purge_step_good [OF assms(1,2)] unfolding assms(3) good_purge_step_def table_fate_def by blast

theorem purge_evolution_witness:
  "purge_store_ok demo_purge_worker \<and> demo_ready_row \<in> set (purge_jobs (connection demo_purge_worker)) \<and>
   (let w' = purge_step demo_purge_worker (demo_tick 0, CompletePurge demo_store_key)
    in \<exists>r' \<in> set (purge_jobs (connection w')). purge_progress demo_ready_row r')"
proof -
  have r: "demo_ready_row \<in> set (purge_jobs (connection demo_purge_worker))" by (simp add: demo_purge_worker_def)
  have "\<not> purge_lost (CompletePurge demo_store_key) demo_ready_row" using demo_ready_ok(2) by simp
  moreover have "purge_event_ok (demo_tick 0, CompletePurge demo_store_key)" using demo_ok(2) by simp
  note purge_evolution [OF demo_purge_ok this refl]
  ultimately have "\<exists>r' \<in> set (purge_jobs (connection (purge_step demo_purge_worker (demo_tick 0, CompletePurge demo_store_key)))).
      purge_progress demo_ready_row r'"
    using r by blast
  with r demo_purge_ok show ?thesis by (simp only: Let_def)
qed

text \<open>Claim C7.  A job is worked on by one claimant: after a claim handed out a job, and as long as
  nobody retries, completes or removes it, no further claim hands out the same job, whatever
  else the store does in between.\<close>

theorem purge_claim_exclusive:
  assumes ok: "purge_store_ok w" "tick_ok t"
    and first: "claim_due_purge_job t w = (w1, Inr (Some j))"
    and es: "list_all purge_event_ok es" "list_all (\<lambda>e. \<not> settles (pj_key j) (snd e)) es"
    and again: "claim_due_purge_job t' (run_steps purge_step w1 es) = (w2, Inr (Some j'))"
  shows "pj_key j' \<noteq> pj_key j"
proof -
  obtain now r where r: "j = job_of r Claimed" "set_claimed now r \<in> set (purge_jobs (connection w1))"
    using first by (rule claim_result [OF ok(1)])
  have ok1: "purge_store_ok w1"
    using purge_step_ok [OF ok(1), of "(t, ClaimDuePurge)"] first ok(2) by simp
  let ?w = "run_steps purge_step w1 es" and ?r = "set_claimed now r"
  have k: "is_purge (pj_key j) ?r" by (simp add: r(1) job_of_def is_purge_def set_claimed_def)
  have st: "p_state ?r = PURGE_CLAIMED" by (simp add: set_claimed_def)
  have keep: "?r \<in> set (purge_jobs (connection ?w))"
    by (rule purge_run_keeps_claimed [OF ok1 es(1) r(2) k st es(2)])
  have okw: "purge_store_ok ?w" by (rule purge_machine.run_inv [OF ok1 es(1)])
  obtain now' r' where r': "r' \<in> set (purge_jobs (connection ?w))" "due now' r'" "j' = job_of r' Claimed"
    using again by (rule claim_result [OF okw])
  have k': "is_purge (pj_key j') r'" by (simp add: r'(3) job_of_def is_purge_def)
  show ?thesis
  proof
    assume "pj_key j' = pj_key j"
    with k' have "is_purge (pj_key j) r'" by simp
    with the_same_purge [of "limits ?w" "connection ?w" r' ?r] okw r'(1) keep k have "r' = ?r"
      by (simp add: purge_store_ok_def)
    with r'(2) st show False by (simp add: due_def)
  qed
qed

theorem purge_claim_exclusive_witness:
  "\<exists>w1 j w2 j'. claim_due_purge_job (demo_tick 0) demo_two_jobs = (w1, Inr (Some j)) \<and>
     claim_due_purge_job (demo_tick 0) w1 = (w2, Inr (Some j')) \<and> pj_key j' \<noteq> pj_key j"
proof -
  obtain w1 j where 1: "claim_due_purge_job (demo_tick 0) demo_two_jobs = (w1, Inr (Some j))"
    "demo_ready_row \<in> set (purge_jobs (connection w1))" "clock w1 = clock demo_worker"
    using demo_two_claims by blast
  have ok: "purge_store_ok w1"
    using purge_step_ok [OF demo_two_ok, of "(demo_tick 0, ClaimDuePurge)"] 1(1) demo_ok(2) by simp
  obtain w2 j' where 2: "claim_due_purge_job (demo_tick 0) w1 = (w2, Inr (Some j'))"
    using demo_claim_due [OF ok 1(3,2)] by blast
  have "pj_key j' \<noteq> pj_key j"
    using purge_claim_exclusive [OF demo_two_ok _ 1(1), of "[]"] 2 demo_ok(2) by simp
  with 1(1) 2 show ?thesis by blast
qed

text \<open>Claim C31.  A claim takes the job that is due first: on a well-formed table, when the clock and SQLite work, the claim
  always answers; it answers no job exactly when none is due, and otherwise the ready job with
  the least next attempt, oldest first among equals, which it alone moves to the claimed state.\<close>

theorem claim_earliest_due:
  assumes ok: "purge_store_ok w" and now: "observe (wall t) (monotonic t) (clock w) = (c, Inr now)" and sql: "sql_ok t"
  shows "\<exists>w' res. claim_due_purge_job t w = (w', Inr res) \<and>
    (case res of
       None \<Rightarrow> (\<forall>r \<in> set (purge_jobs (connection w)). \<not> due now r) \<and> connection w' = connection w
     | Some j \<Rightarrow> \<exists>r \<in> set (purge_jobs (connection w)).
         due now r \<and> (\<forall>r' \<in> set (purge_jobs (connection w)). due now r' \<longrightarrow> claim_order r \<le> claim_order r') \<and>
         j = job_of r Claimed \<and>
         connection w' = (connection w)\<lparr>purge_jobs :=
           update_where (\<lambda>r'. p_key r' = p_key r) (set_claimed now) (purge_jobs (connection w))\<rparr>)"
proof -
  have "purges_ok (limits w) (connection w)" using ok by (simp add: purge_store_ok_def)
  note tot = claim_tx_total [OF this, of now]
  obtain db res where tx: "claim_due_tx now (connection w) = Inr (db, res)" using tot by blast
  then have "claim_due_purge_job t w = (w\<lparr>clock := c, connection := db\<rparr>, Inr res)"
    using now sql by (simp add: claim_due_purge_job_def timed_def now_ms_def transact_def)
  then show ?thesis using tot tx by fastforce
qed

theorem claim_earliest_due_witness:
  "sql_ok (demo_tick 0) \<and> purge_store_ok demo_purge_worker \<and>
   (\<exists>w'. claim_due_purge_job (demo_tick 0) demo_purge_worker = (w', Inr (Some (job_of demo_ready_row Claimed))))"
proof -
  have sql: "sql_ok (demo_tick 0)" by (simp add: demo_tick_def)
  have now: "observe (wall (demo_tick 0)) (monotonic (demo_tick 0)) (clock demo_purge_worker) = (clock demo_worker, Inr 10)"
    using demo_now by (simp add: demo_purge_worker_def)
  have rows: "purge_jobs (connection demo_purge_worker) = [demo_ready_row]" by (simp add: demo_purge_worker_def)
  from claim_earliest_due [OF demo_purge_ok now sql] demo_due
  have "\<exists>w'. claim_due_purge_job (demo_tick 0) demo_purge_worker = (w', Inr (Some (job_of demo_ready_row Claimed)))"
    unfolding rows by (auto split: option.splits)
  with sql demo_purge_ok show ?thesis by blast
qed

text \<open>On a well-formed table the purge commands fail only for their arguments, without
  effect, or for the clocks or SQLite.\<close>

lemma purge_errors_environmental:
  assumes ok: "purge_store_ok w" and j: "job_typed j" and rv: "length revision = 32"
  shows "(prepare_purge_job t j w = (w', Inl e) \<longrightarrow> environment_error e \<or> w' = w \<and> validate_new j = Inl e) \<and>
         (mark_purge_job_ready t key revision w = (w', Inl e) \<longrightarrow> environment_error e) \<and>
         (claim_due_purge_job t w = (w', Inl e) \<longrightarrow> environment_error e) \<and>
         (retry_purge_job t key delay w = (w', Inl e) \<longrightarrow> environment_error e \<or> w' = w \<and> duration_ms delay = Inl e) \<and>
         (complete_purge_job t key w = (w', Inl e) \<longrightarrow> e = SqlFailure \<and> w' = w) \<and>
         (remove_purge_job t key w = (w', Inl e) \<longrightarrow> e = SqlFailure \<and> w' = w)"
proof -
  have pj: "purges_ok (limits w) (connection w)" using ok by (simp add: purge_store_ok_def)
  have pr: "environment_error e" if "timed t w (prepare_purge_job_tx (limits w) j) = (w', Inl e)" "validate_new j = Inr ()"
    by (rule timed_error [of t w "prepare_purge_job_tx (limits w) j"])
      (use that in simp, metis prepare_tx_error [OF pj j that(2)] Inr_not_Inl)
  have cl: "environment_error e" if "timed t w claim_due_tx = (w', Inl e)"
    by (rule timed_error [of t w claim_due_tx]) (use that in simp, metis claim_tx_total [OF pj] Inr_not_Inl)
  have rt: "environment_error e" if "timed t w (retry_tx key ms) = (w', Inl e)" for ms
    by (rule timed_error [of t w "retry_tx key ms"]) (use that in simp, rule retry_tx_error [OF pj])
  have mk: "environment_error e" if m: "mark_purge_job_ready t key revision w = (w', Inl e)"
  proof (cases "snd (timed t w (mark_ready_tx key revision))")
    case (Inl x)
    have "environment_error x"
      by (rule timed_error [OF Inl]) (metis mark_ready_tx_error [OF pj rv] Inr_not_Inl)
    with Inl m show ?thesis by (auto simp: mark_purge_job_ready_def split: prod.splits sum.splits)
  next
    case (Inr changed)
    have "good_purge_step (limits w) c (connection w) (connection (fst (timed t w (mark_ready_tx key revision))))" for c
      by (rule timed_good [OF good_same [OF pj]]) (rule mark_ready_tx_good [OF pj rv])
    then obtain found where "load_purge_job key (connection (fst (timed t w (mark_ready_tx key revision)))) = Inr found"
      using load_purge_ok unfolding good_purge_step_def by blast
    with Inr m show ?thesis
      by (auto simp: mark_purge_job_ready_def split: prod.splits if_splits sum.splits option.splits)
  qed
  show ?thesis
  proof (intro conjI impI)
    assume "prepare_purge_job t j w = (w', Inl e)"
    with pr show "environment_error e \<or> w' = w \<and> validate_new j = Inl e"
      by (auto simp: prepare_purge_job_def split: sum.splits)
  next
    assume "retry_purge_job t key delay w = (w', Inl e)"
    with rt show "environment_error e \<or> w' = w \<and> duration_ms delay = Inl e"
      by (auto simp: retry_purge_job_def split: sum.splits)
  qed (use mk cl in \<open>auto simp: claim_due_purge_job_def complete_purge_job_def remove_purge_job_def transact_def
      delete_purge_def split: if_splits\<close>)
qed

end
