(* ===== verification/Rooted_Paths.thy ===== *)
theory Rooted_Paths
  imports Path_Coordinator
begin

text \<open>
  The part of \<^verbatim>\<open>src/server/rooted_fs.rs\<close> that relates request paths, stored paths and semantic keys:
  paths relative to the served root, the encoding of stored paths, and the resolution of a path to
  the key the coordinator compares.  The system calls are a parameter, \<^verbatim>\<open>kernel\<close>; what resolution
  relies on is stated as hypotheses about a directory tree.
\<close>

section \<open>Paths below the root\<close>

datatype io_error =
    NotFound | NotADirectory | PermissionDenied | InvalidInput | InvalidData | TimedOut | OtherIo

type_synonym 'a io = "io_error + 'a"

text \<open>
  \<^verbatim>\<open>Path::strip_prefix\<close>: the rest of the path behind the components of the prefix.  Separators and
  \<^verbatim>\<open>.\<close> segments at its ends are dropped, those inside stay.
\<close>

definition blank_segment :: "string \<Rightarrow> bool" where
  "blank_segment s \<longleftrightarrow> s = [] \<or> s = ''.''"

fun skip_segments :: "nat \<Rightarrow> string list \<Rightarrow> string list" where
  "skip_segments n [] = []"
| "skip_segments n (s # ss) =
     (if blank_segment s then skip_segments n ss
      else case n of 0 \<Rightarrow> s # ss | Suc m \<Rightarrow> skip_segments m ss)"

definition trim_segments :: "string list \<Rightarrow> string list" where
  "trim_segments ss = rev (dropWhile blank_segment (rev ss))"

definition path_strip_prefix :: "string \<Rightarrow> string \<Rightarrow> string option" where
  "path_strip_prefix p base =
     (if path_starts_with p base
      then Some (case components base of
             [] \<Rightarrow> p
           | c # cs \<Rightarrow>
               let skipped = (if c \<in> {RootDir, CurDir} then length cs else Suc (length cs));
                   body = (if c \<in> {RootDir, CurDir} then tl (split_on CHR ''/'' p) else split_on CHR ''/'' p)
               in join ''/'' (trim_segments (skip_segments skipped body)))
      else None)"

definition is_normal :: "component \<Rightarrow> bool" where
  "is_normal c \<longleftrightarrow> (case c of Normal _ \<Rightarrow> True | _ \<Rightarrow> False)"

definition relative_path :: "string \<Rightarrow> string \<Rightarrow> string io" where
  "relative_path root path =
     (case path_strip_prefix path root of
        None \<Rightarrow> Inl PermissionDenied
      | Some relative \<Rightarrow>
          if relative = [] \<or> list_ex (\<lambda>c. \<not> is_normal c) (components relative) then Inl InvalidInput
          else Inr relative)"

definition relative_path_or_dot :: "string \<Rightarrow> string \<Rightarrow> string io" where
  "relative_path_or_dot root path =
     (case path_strip_prefix path root of
        None \<Rightarrow> Inl PermissionDenied
      | Some relative \<Rightarrow>
          if relative = [] then Inr ''.''
          else if list_ex (\<lambda>c. \<not> is_normal c) (components relative) then Inl InvalidInput
          else Inr relative)"

definition state_relative_path :: "string \<Rightarrow> string \<Rightarrow> string io" where
  "state_relative_path root path = relative_path root path"

definition decode_relative_path :: "string \<Rightarrow> string \<Rightarrow> string io" where
  "decode_relative_path root encoded =
     (if encoded = [] \<or> CHR 0x00 \<in> set encoded then Inl InvalidData
      else if list_ex (\<lambda>c. \<not> is_normal c) (components encoded) then Inl InvalidData
      else Inr (path_push root encoded))"

definition resolve_state_path :: "string \<Rightarrow> string \<Rightarrow> string io" where
  "resolve_state_path root relative = decode_relative_path root relative"

section \<open>Resolution\<close>

text \<open>The system calls of resolution, with their answers at one moment.\<close>

record ('fd, 'id) kernel =
  open_directory_from_root :: "string \<Rightarrow> 'fd io"
  dup_root :: "'fd io"
  dup_fd :: "'fd \<Rightarrow> 'fd io"
  fstat_identity :: "'fd \<Rightarrow> 'id io"
  open_parent :: "'fd \<Rightarrow> 'fd io"
  stat_is_directory :: "'fd \<Rightarrow> string \<Rightarrow> bool io"
  open_child_directory :: "'fd \<Rightarrow> string \<Rightarrow> 'fd io"

definition path_from_components :: "string list \<Rightarrow> string" where
  "path_from_components cs = foldl path_push [] cs"

definition unresolved_path_error :: "io_error \<Rightarrow> bool" where
  "unresolved_path_error e \<longleftrightarrow> e \<in> {NotFound, NotADirectory, PermissionDenied}"

text \<open>The binary search between the longest prefix known to open and the shortest known not to.\<close>

function search_prefix ::
  "('fd, 'id) kernel \<Rightarrow> string list \<Rightarrow> nat \<Rightarrow> nat \<Rightarrow> 'fd \<Rightarrow> ('fd \<times> nat) io"
where
  "search_prefix K cs resolved_len unresolved_len fd =
     (if resolved_len + 1 < unresolved_len
      then
        let candidate_len = resolved_len + (unresolved_len - resolved_len) div 2 in
        (case open_directory_from_root K (path_from_components (take candidate_len cs)) of
           Inr directory \<Rightarrow> search_prefix K cs candidate_len unresolved_len directory
         | Inl e \<Rightarrow>
             if unresolved_path_error e then search_prefix K cs resolved_len candidate_len fd
             else Inl e)
      else Inr (fd, resolved_len))"
  by pat_completeness auto
termination
  by (relation "measure (\<lambda>(K, cs, a, b, fd). b - a)") auto

declare search_prefix.simps [simp del]

definition resolve_deepest_parent_prefix ::
  "('fd, 'id) kernel \<Rightarrow> string list \<Rightarrow> ('fd \<times> nat) io"
where
  "resolve_deepest_parent_prefix K cs =
     (if cs = [] then (case dup_root K of Inl e \<Rightarrow> Inl e | Inr fd \<Rightarrow> Inr (fd, 0))
      else (case open_directory_from_root K (path_from_components cs) of
              Inr directory \<Rightarrow> Inr (directory, length cs)
            | Inl e \<Rightarrow>
                if \<not> unresolved_path_error e then Inl e
                else (case dup_root K of
                        Inl e \<Rightarrow> Inl e
                      | Inr root \<Rightarrow> search_prefix K cs 0 (length cs) root)))"

definition MAX_DIRECTORY_ANCESTORS :: nat where "MAX_DIRECTORY_ANCESTORS = 4096"

text \<open>The climb towards the root; \<^verbatim>\<open>reversed\<close> holds the directories met so far, the last one first.\<close>

fun climb_ancestry :: "nat \<Rightarrow> ('fd, 'id) kernel \<Rightarrow> 'id \<Rightarrow> 'fd \<Rightarrow> 'id list \<Rightarrow> 'id list io" where
  "climb_ancestry 0 K root_id current collected = Inl InvalidData"
| "climb_ancestry (Suc n) K root_id current collected =
     (case fstat_identity K current of
        Inl e \<Rightarrow> Inl e
      | Inr identity \<Rightarrow>
          if identity = root_id then Inr (identity # collected)
          else (case open_parent K current of
                  Inl e \<Rightarrow> Inl e
                | Inr parent \<Rightarrow>
                    (case fstat_identity K parent of
                       Inl e \<Rightarrow> Inl e
                     | Inr parent_identity \<Rightarrow>
                         if parent_identity = identity then Inl PermissionDenied
                         else climb_ancestry n K root_id parent (identity # collected))))"

definition directory_ancestry_from_root :: "('fd, 'id) kernel \<Rightarrow> 'id \<Rightarrow> 'fd \<Rightarrow> 'id list io" where
  "directory_ancestry_from_root K root_id directory =
     (case dup_fd K directory of
        Inl e \<Rightarrow> Inl e
      | Inr current \<Rightarrow> climb_ancestry MAX_DIRECTORY_ANCESTORS K root_id current [])"

fun normal_names :: "component list \<Rightarrow> string list io" where
  "normal_names [] = Inr []"
| "normal_names (Normal s # cs) = (case normal_names cs of Inl e \<Rightarrow> Inl e | Inr ss \<Rightarrow> Inr (s # ss))"
| "normal_names (_ # cs) = Inl InvalidInput"

definition find_target_directory :: "('fd, 'id) kernel \<Rightarrow> 'fd \<Rightarrow> string \<Rightarrow> 'id option io" where
  "find_target_directory K parent final_name =
     (case stat_is_directory K parent final_name of
        Inr True \<Rightarrow>
          (case open_child_directory K parent final_name of
             Inl e \<Rightarrow> Inl e
           | Inr directory \<Rightarrow>
               (case fstat_identity K directory of Inl e \<Rightarrow> Inl e | Inr i \<Rightarrow> Inr (Some i)))
      | Inr False \<Rightarrow> Inr None
      | Inl e \<Rightarrow> if e = NotFound then Inr None else Inl e)"

definition resolved_path_key_blocking ::
  "('fd, 'id) kernel \<Rightarrow> string \<Rightarrow> 'id \<Rightarrow> string \<Rightarrow> 'id ResolvedPathKey io"
where
  "resolved_path_key_blocking K root root_id path =
     (case relative_path root path of
        Inl e \<Rightarrow> Inl e
      | Inr relative \<Rightarrow>
          (case normal_names (components relative) of
             Inl e \<Rightarrow> Inl e
           | Inr names \<Rightarrow>
               if names = [] then Inl OtherIo
               else
                 let parents = butlast names in
                 (case resolve_deepest_parent_prefix K parents of
                    Inl e \<Rightarrow> Inl e
                  | Inr (parent, resolved_components) \<Rightarrow>
                      (case directory_ancestry_from_root K root_id parent of
                         Inl e \<Rightarrow> Inl e
                       | Inr ancestors \<Rightarrow>
                           (case (if resolved_components = length parents
                                  then find_target_directory K parent (last names) else Inr None) of
                              Inl e \<Rightarrow> Inl e
                            | Inr target \<Rightarrow>
                                Inr \<lparr> resolved_parent = last ancestors,
                                      unresolved_tail = drop resolved_components names,
                                      ancestor_directories = ancestors,
                                      target_directory = target \<rparr>)))))"

section \<open>Stripping and attaching the root\<close>

lemma segment_components_skip:
  "segment_components (skip_segments n ss) = drop n (segment_components ss)"
  by (induction n ss rule: skip_segments.induct) (auto simp: blank_segment_def split: nat.splits)

lemma segment_components_blank: "segment_components ss = [] \<longleftrightarrow> list_all blank_segment ss"
  by (induction ss) (auto simp: blank_segment_def)

lemma segment_components_trim: "segment_components (trim_segments ss) = segment_components ss"
proof -
  have "ss = rev (dropWhile blank_segment (rev ss)) @ rev (takeWhile blank_segment (rev ss))"
    by (metis rev_append rev_rev_ident takeWhile_dropWhile_id)
  moreover have "list_all blank_segment (rev (takeWhile blank_segment (rev ss)))"
    by (auto simp: list_all_iff dest: set_takeWhileD)
  ultimately show ?thesis
    by (metis append_Nil2 segment_components_append segment_components_blank trim_segments_def)
qed

lemma skip_segments_hd: "skip_segments n ss = s # rest \<Longrightarrow> \<not> blank_segment s"
  by (induction n ss rule: skip_segments.induct) (auto split: nat.splits if_splits)

lemma skip_segments_set: "set (skip_segments n ss) \<subseteq> set ss"
  by (induction n ss rule: skip_segments.induct) (auto split: nat.splits)

lemma trim_segments_set: "set (trim_segments ss) \<subseteq> set ss"
  by (auto simp: trim_segments_def dest: set_dropWhileD)

lemma trim_segments_hd:
  assumes "trim_segments ss = s # rest"
  shows "\<exists>rest'. ss = s # rest'"
proof -
  have "ss = trim_segments ss @ rev (takeWhile blank_segment (rev ss))"
    unfolding trim_segments_def by (metis rev_append rev_rev_ident takeWhile_dropWhile_id)
  then have "ss = s # (rest @ rev (takeWhile blank_segment (rev ss)))" using assms by simp
  then show ?thesis ..
qed

lemma components_join:
  assumes "\<forall>s \<in> set ss. CHR ''/'' \<notin> set s" "\<And>s rest. ss = s # rest \<Longrightarrow> \<not> blank_segment s"
  shows "components (join ''/'' ss) = segment_components ss"
proof (cases ss)
  case Nil
  then show ?thesis by (simp add: components_def is_absolute_def)
next
  case (Cons s rest)
  have s: "s \<noteq> []" "s \<noteq> ''.''" using assms(2) [OF Cons] by (auto simp: blank_segment_def)
  have sp: "split_on CHR ''/'' (join ''/'' ss) = ss"
    by (rule split_on_join) (use assms(1) Cons in auto)
  moreover have "\<not> is_absolute (join ''/'' ss)"
    using s(1) assms(1) by (cases s) (auto simp: Cons join_concat is_absolute_def)
  ultimately show ?thesis using s by (simp add: components_def Cons)
qed

lemma split_segments: "s \<in> set (split_on c p) \<Longrightarrow> c \<notin> set s"
  by (rule split_on_parts_no_sep)

lemma absolute_components:
  assumes "is_absolute p"
  shows "components p = RootDir # segment_components (tl (split_on CHR ''/'' p))"
proof -
  obtain r where p: "p = CHR ''/'' # r" using assms by (cases p) (auto simp: is_absolute_def)
  have "split_on CHR ''/'' p = [] # split_on CHR ''/'' r" by (simp add: p)
  with assms show ?thesis by (simp add: components_def)
qed

lemma absolute_iff_root: "is_absolute p \<longleftrightarrow> (\<exists>cs. components p = RootDir # cs)"
proof
  show "is_absolute p \<Longrightarrow> \<exists>cs. components p = RootDir # cs" by (simp add: absolute_components)
  have "segment_components ss \<noteq> RootDir # cs" for ss cs by (induction ss) auto
  then show "\<exists>cs. components p = RootDir # cs \<Longrightarrow> is_absolute p"
    by (auto simp: components_def Let_def split: if_splits)
qed

lemma strip_components:
  assumes "path_strip_prefix p root = Some r" "is_absolute root"
  shows "components p = components root @ components r" "is_absolute p" "\<not> is_absolute r"
proof -
  have pre: "prefix (components root) (components p)"
    using assms(1) by (auto simp: path_strip_prefix_def path_starts_with_def split: if_splits)
  obtain cs where cs: "components root = RootDir # cs" using assms(2) by (auto simp: absolute_iff_root)
  show abs: "is_absolute p" using pre cs by (auto simp: absolute_iff_root prefix_def)
  let ?ss = "trim_segments (skip_segments (length cs) (tl (split_on CHR ''/'' p)))"
  have r: "r = join ''/'' ?ss" using assms(1) cs by (auto simp: path_strip_prefix_def split: if_splits)
  have "set ?ss \<subseteq> set (split_on CHR ''/'' p)"
    using trim_segments_set skip_segments_set by (meson list.set_sel(2) split_on_nonempty subset_iff)
  then have nosep: "\<forall>s \<in> set ?ss. CHR ''/'' \<notin> set s" using split_segments by blast
  have comp: "components r = segment_components ?ss"
    unfolding r by (rule components_join [OF nosep]) (metis skip_segments_hd trim_segments_hd)
  also have "\<dots> = drop (length cs) (segment_components (tl (split_on CHR ''/'' p)))"
    by (simp add: segment_components_trim segment_components_skip)
  also have "\<dots> = drop (length (components root)) (components p)"
    by (simp add: absolute_components [OF abs] cs)
  finally show "components p = components root @ components r"
    using pre by (auto simp: prefix_def)
  show "\<not> is_absolute r"
  proof
    assume "is_absolute r"
    then obtain cs' where "components r = RootDir # cs'" by (auto simp: absolute_iff_root)
    moreover have "segment_components ss \<noteq> RootDir # cs'" for ss by (induction ss) auto
    ultimately show False using comp by metis
  qed
qed

text \<open>Attaching a relative path of plain components.\<close>

lemma relative_components:
  assumes "list_all is_normal (components e)" "e \<noteq> []"
  shows "\<not> is_absolute e" "components e = segment_components (split_on CHR ''/'' e)"
proof -
  show a: "\<not> is_absolute e" using assms by (auto simp: absolute_iff_root is_normal_def)
  have "hd (split_on CHR ''/'' e) \<noteq> ''.''"
    using assms(1) a by (auto simp: components_def Let_def is_normal_def split: if_splits)
  with a show "components e = segment_components (split_on CHR ''/'' e)" by (simp add: components_def)
qed

lemma components_attach:
  assumes "is_absolute root" "list_all is_normal (components e)" "e \<noteq> []"
  shows "components (path_push root e) = components root @ components e"
proof -
  note r = relative_components [OF assms(2,3)]
  have ne: "root \<noteq> []" using assms(1) by (auto simp: is_absolute_def)
  have abs: "is_absolute (root @ x)" for x using assms(1) ne by (simp add: is_absolute_append)
  show ?thesis
  proof (cases "last root = CHR ''/''")
    case True
    then obtain b where b: "root = b @ ''/''" using ne by (metis append_butlast_last_id)
    have "split_on CHR ''/'' (root @ e) = split_on CHR ''/'' b @ split_on CHR ''/'' e"
      unfolding b using split_on_append [of "CHR ''/''" b e] by simp
    moreover have "split_on CHR ''/'' root = split_on CHR ''/'' b @ [[]]"
      unfolding b by (rule split_on_snoc_sep)
    ultimately show ?thesis
      using True ne r abs [of e] assms(1)
      by (simp add: path_push_def components_def Let_def segment_components_append)
  next
    case False
    have "split_on CHR ''/'' (root @ ''/'' @ e) = split_on CHR ''/'' root @ split_on CHR ''/'' e"
      using split_on_append [of "CHR ''/''" root e] by simp
    then show ?thesis
      using False ne r abs [of "''/'' @ e"] assms(1)
      by (simp add: path_push_def components_def Let_def segment_components_append)
  qed
qed

lemma relative_path_Inr:
  assumes "relative_path root p = Inr r" "is_absolute root"
  shows "r \<noteq> []" "list_all is_normal (components r)" "components p = components root @ components r"
  using assms strip_components(1) [of p root r]
  by (auto simp: relative_path_def list_ex_iff list_all_iff split: option.splits if_splits)

lemma strip_attached:
  assumes "is_absolute root" "list_all is_normal (components e)" "e \<noteq> []"
  shows "\<exists>r. relative_path root (path_push root e) = Inr r \<and> components r = components e"
proof -
  have c: "components (path_push root e) = components root @ components e" by (rule components_attach [OF assms])
  then have "path_starts_with (path_push root e) root" by (simp add: path_starts_with_def)
  then obtain r where r: "path_strip_prefix (path_push root e) root = Some r"
    by (simp add: path_strip_prefix_def)
  have eq: "components r = components e" using strip_components(1) [OF r assms(1)] c by simp
  have "components e \<noteq> []"
  proof
    assume "components e = []"
    then have sc: "segment_components (split_on CHR ''/'' e) = []"
      using relative_components(2) [OF assms(2,3)] by simp
    have a: "\<not> is_absolute e" by (rule relative_components(1) [OF assms(2,3)])
    have blank: "list_all blank_segment (split_on CHR ''/'' e)"
      using sc by (simp add: segment_components_blank)
    have "hd (split_on CHR ''/'' e) = [] \<or> hd (split_on CHR ''/'' e) = ''.''"
      using blank by (cases "split_on CHR ''/'' e") (auto simp: blank_segment_def)
    then show False
      using a assms(2,3) \<open>components e = []\<close>
      by (cases e) (auto simp: components_def Let_def is_absolute_def split: if_splits list.splits)
  qed
  then have "r \<noteq> []" using eq by (auto simp: components_def is_absolute_def)
  with r eq assms(2) show ?thesis
    by (auto simp: relative_path_def list_ex_iff list_all_iff split: option.splits)
qed

section \<open>The deepest prefix\<close>

text \<open>A prefix of the parent components opens; the empty prefix is the root itself.\<close>

definition prefix_opens :: "('fd, 'id) kernel \<Rightarrow> string list \<Rightarrow> nat \<Rightarrow> 'fd \<Rightarrow> bool" where
  "prefix_opens K cs n fd \<longleftrightarrow>
     (if n = 0 then dup_root K = Inr fd
      else open_directory_from_root K (path_from_components (take n cs)) = Inr fd)"

definition prefix_missing :: "('fd, 'id) kernel \<Rightarrow> string list \<Rightarrow> nat \<Rightarrow> bool" where
  "prefix_missing K cs n \<longleftrightarrow>
     (case open_directory_from_root K (path_from_components (take n cs)) of
        Inl e \<Rightarrow> unresolved_path_error e | Inr _ \<Rightarrow> False)"

lemma search_prefix_boundary:
  assumes "search_prefix K cs a b fd = Inr (fd', n)" "prefix_opens K cs a fd" "prefix_missing K cs b" "a < b"
  shows "prefix_opens K cs n fd' \<and> prefix_missing K cs (Suc n) \<and> a \<le> n \<and> n < b"
  using assms
proof (induction K cs a b fd rule: search_prefix.induct)
  case (1 K cs a b fd)
  show ?case
  proof (cases "a + 1 < b")
    case True
    let ?m = "a + (b - a) div 2"
    have m: "a < ?m" "?m < b" "0 < ?m" using True by auto
    note step = "1.prems"(1) [unfolded search_prefix.simps [of K cs a b fd] Let_def]
    show ?thesis
    proof (cases "open_directory_from_root K (path_from_components (take ?m cs))")
      case (Inl e)
      with step True have e: "unresolved_path_error e" "search_prefix K cs a ?m fd = Inr (fd', n)"
        by (auto split: if_splits)
      have "prefix_missing K cs ?m" using Inl e(1) by (simp add: prefix_missing_def)
      from "1.IH"(1) [OF True refl Inl e(1) e(2) "1.prems"(2) this m(1)] m(2) show ?thesis by simp
    next
      case (Inr d)
      with step True have e: "search_prefix K cs ?m b d = Inr (fd', n)" by simp
      have "prefix_opens K cs ?m d" using Inr m(3) by (auto simp: prefix_opens_def)
      from "1.IH"(2) [OF True refl Inr e this "1.prems"(3) m(2)] m(1) show ?thesis by simp
    qed
  next
    case False
    with "1.prems"(4) have b: "b = Suc a" by simp
    with "1.prems" show ?thesis by (simp add: search_prefix.simps [of K cs a "Suc a" fd])
  qed
qed

lemma deepest_prefix_boundary:
  assumes "resolve_deepest_parent_prefix K cs = Inr (fd, n)"
  shows "n \<le> length cs \<and> prefix_opens K cs n fd \<and> (n < length cs \<longrightarrow> prefix_missing K cs (Suc n))"
proof (cases "cs = []")
  case True
  with assms show ?thesis by (auto simp: resolve_deepest_parent_prefix_def prefix_opens_def split: sum.splits)
next
  case False
  show ?thesis
  proof (cases "open_directory_from_root K (path_from_components cs)")
    case (Inr d)
    with assms False show ?thesis by (auto simp: resolve_deepest_parent_prefix_def prefix_opens_def)
  next
    case (Inl e)
    with assms False obtain r where r: "dup_root K = Inr r" "unresolved_path_error e"
      "search_prefix K cs 0 (length cs) r = Inr (fd, n)"
      by (auto simp: resolve_deepest_parent_prefix_def split: if_splits sum.splits)
    have "prefix_opens K cs n fd \<and> prefix_missing K cs (Suc n) \<and> 0 \<le> n \<and> n < length cs"
      by (rule search_prefix_boundary [OF r(3)])
        (use r Inl False in \<open>simp_all add: prefix_opens_def prefix_missing_def\<close>)
    then show ?thesis by simp
  qed
qed

section \<open>What a key denotes\<close>

text \<open>
  The file system at rest, as the manual pages describe the calls.  A descriptor is a directory at
  one place of the tree below the root, or lies outside of it; opening from the root stays below it
  (\<^verbatim>\<open>RESOLVE_BENEATH\<close>); \<^verbatim>\<open>..\<close> leads one level up; and when a component below an open prefix is reported
  as missing or as no directory, there is no directory of that name.  A refused permission says
  nothing about what is there.
\<close>

definition kernel_reflects ::
  "('fd, 'id) kernel \<Rightarrow> 'id \<Rightarrow> ('fd \<Rightarrow> string list option) \<Rightarrow> ('id \<Rightarrow> string list option) \<Rightarrow> bool"
where
  "kernel_reflects K root_id loc dp \<longleftrightarrow>
     dp root_id = Some [] \<and>
     (\<forall>fd. dup_root K = Inr fd \<longrightarrow> loc fd = Some []) \<and>
     (\<forall>p fd. open_directory_from_root K p = Inr fd \<longrightarrow> loc fd \<noteq> None) \<and>
     (\<forall>fd fd'. dup_fd K fd = Inr fd' \<longrightarrow> loc fd' = loc fd) \<and>
     (\<forall>fd i. fstat_identity K fd = Inr i \<longrightarrow> dp i = loc fd) \<and>
     (\<forall>fd fd' q c. open_parent K fd = Inr fd' \<longrightarrow> loc fd = Some (q @ [c]) \<longrightarrow> loc fd' = Some q) \<and>
     (\<forall>fd q c b. loc fd = Some q \<longrightarrow> plain_segment c \<longrightarrow> stat_is_directory K fd c = Inr b \<longrightarrow>
        (b \<longleftrightarrow> (\<exists>d. dp d = Some (q @ [c])))) \<and>
     (\<forall>fd q c. loc fd = Some q \<longrightarrow> plain_segment c \<longrightarrow> stat_is_directory K fd c = Inl NotFound \<longrightarrow>
        (\<forall>d. dp d \<noteq> Some (q @ [c]))) \<and>
     (\<forall>fd fd' q c. loc fd = Some q \<longrightarrow> plain_segment c \<longrightarrow> open_child_directory K fd c = Inr fd' \<longrightarrow> loc fd' = Some (q @ [c])) \<and>
     (\<forall>cs n fd q e. list_all plain_segment cs \<longrightarrow> n < length cs \<longrightarrow> prefix_opens K cs n fd \<longrightarrow> loc fd = Some q \<longrightarrow>
        open_directory_from_root K (path_from_components (take (Suc n) cs)) = Inl e \<longrightarrow> e \<in> {NotFound, NotADirectory} \<longrightarrow>
        (\<forall>d. dp d \<noteq> Some (q @ [cs ! n])))"

lemma kernel_reflectsD:
  assumes "kernel_reflects K root_id loc dp"
  shows "dp root_id = Some []" "prefix_opens K cs n fd \<Longrightarrow> \<exists>q. loc fd = Some q" "dup_fd K fd = Inr fd' \<Longrightarrow> loc fd' = loc fd"
    "fstat_identity K fd = Inr i \<Longrightarrow> dp i = loc fd"
    "open_parent K fd = Inr fd' \<Longrightarrow> loc fd = Some (q @ [c]) \<Longrightarrow> loc fd' = Some q"
    "loc fd = Some q \<Longrightarrow> plain_segment c \<Longrightarrow> stat_is_directory K fd c = Inr b \<Longrightarrow> b \<longleftrightarrow> (\<exists>d. dp d = Some (q @ [c]))"
    "loc fd = Some q \<Longrightarrow> plain_segment c \<Longrightarrow> stat_is_directory K fd c = Inl NotFound \<Longrightarrow> dp d \<noteq> Some (q @ [c])"
    "loc fd = Some q \<Longrightarrow> plain_segment c \<Longrightarrow> open_child_directory K fd c = Inr fd' \<Longrightarrow> loc fd' = Some (q @ [c])"
    "list_all plain_segment cs \<Longrightarrow> n < length cs \<Longrightarrow> prefix_opens K cs n fd \<Longrightarrow> loc fd = Some q \<Longrightarrow>
       open_directory_from_root K (path_from_components (take (Suc n) cs)) = Inl e \<Longrightarrow> e \<in> {NotFound, NotADirectory} \<Longrightarrow>
       dp d \<noteq> Some (q @ [cs ! n])"
proof -
  show "\<exists>q. loc fd = Some q" if "prefix_opens K cs n fd"
    using assms that unfolding kernel_reflects_def prefix_opens_def by (cases "n = 0") simp_all
qed (use assms in \<open>unfold kernel_reflects_def, (elim conjE, metis)+\<close>)

text \<open>
  What resolution finds for a path: its names, the number of them that were opened, and the place
  of the directory they lead to, possibly through links.
\<close>

definition resolves ::
  "('fd, 'id) kernel \<Rightarrow> ('fd \<Rightarrow> string list option) \<Rightarrow> string \<Rightarrow> string \<Rightarrow> string list \<Rightarrow> nat \<Rightarrow> string list \<Rightarrow> bool"
where
  "resolves K loc root path names n q \<longleftrightarrow>
     (\<exists>relative fd. relative_path root path = Inr relative \<and> components relative = map Normal names \<and> n < length names \<and>
        prefix_opens K (butlast names) n fd \<and> loc fd = Some q \<and>
        (Suc n < length names \<longrightarrow> prefix_missing K (butlast names) (Suc n)))"

text \<open>Resolution stopped at a directory that exists but may not be read.\<close>

definition closed_directory ::
  "('fd, 'id) kernel \<Rightarrow> ('id \<Rightarrow> string list option) \<Rightarrow> string list \<Rightarrow> nat \<Rightarrow> string list \<Rightarrow> bool"
where
  "closed_directory K dp names n q \<longleftrightarrow>
     Suc n < length names \<and>
     open_directory_from_root K (path_from_components (take (Suc n) names)) = Inl PermissionDenied \<and>
     (\<exists>d. dp d = Some (q @ [names ! n]))"

text \<open>
  A key denotes a place when its directories are right; unlike \<^term>\<open>key_at\<close> it may leave out that the
  place itself, or one on the way, is a directory.
\<close>

definition key_denotes :: "('id \<Rightarrow> string list option) \<Rightarrow> 'id ResolvedPathKey \<Rightarrow> string list \<Rightarrow> bool" where
  "key_denotes dp k p \<longleftrightarrow>
     (\<exists>q. dp (resolved_parent k) = Some q \<and> p = q @ unresolved_tail k \<and>
        (\<forall>d. d \<in> set (ancestor_directories k) \<longleftrightarrow> (\<exists>r. dp d = Some r \<and> prefix r q)) \<and>
        (\<forall>d. target_directory k = Some d \<longrightarrow> dp d = Some p))"

lemma key_at_denotes: "key_at dp k p \<Longrightarrow> key_denotes dp k p"
  unfolding key_at_def key_denotes_def by blast

lemma denotes_conflict_nested:
  assumes "key_denotes dp k p" "key_denotes dp k' p'" "resolved_paths_conflict k k'"
  shows "prefix p p' \<or> prefix p' p"
  using assms
  by (auto simp: resolved_paths_conflict_def key_denotes_def anchored_tail_prefix targets_ancestor_def split: option.splits)

lemma nested_same_parent:
  assumes "key_denotes dp k p" "key_denotes dp k' p'" "resolved_parent k = resolved_parent k'" "prefix p p' \<or> prefix p' p"
  shows "resolved_paths_conflict k k'"
  using assms by (auto simp: resolved_paths_conflict_def key_denotes_def anchored_tail_prefix)

lemma tree_unique: "\<lbrakk> directory_tree dp; dp d = Some p; dp d' = Some p \<rbrakk> \<Longrightarrow> d = d'"
  unfolding directory_tree_def by blast

lemma tree_closed: "\<lbrakk> directory_tree dp; dp d = Some q; prefix p q \<rbrakk> \<Longrightarrow> \<exists>d'. dp d' = Some p"
  unfolding directory_tree_def by blast

lemma climb_places:
  assumes k: "kernel_reflects K root_id loc dp" "directory_tree dp"
    and c: "climb_ancestry n K root_id fd collected = Inr xs" "loc fd = Some q"
  shows "\<exists>ys. xs = ys @ collected \<and> ys \<noteq> [] \<and> dp (last ys) = Some q \<and>
    (\<forall>d. d \<in> set ys \<longleftrightarrow> (\<exists>r. dp d = Some r \<and> prefix r q))"
  using c
proof (induction n arbitrary: fd q collected)
  case (Suc n)
  obtain i where i: "fstat_identity K fd = Inr i" using Suc.prems(1) by (auto split: sum.splits)
  have at: "dp i = Some q" using kernel_reflectsD(4) [OF k(1) i] Suc.prems(2) by simp
  have root: "dp root_id = Some []" by (rule kernel_reflectsD(1) [OF k(1)])
  show ?case
  proof (cases "i = root_id")
    case True
    then have q: "q = []" using at root by simp
    have "xs = [root_id] @ collected" using Suc.prems(1) i True by simp
    moreover have "\<forall>d. d \<in> set [root_id] \<longleftrightarrow> (\<exists>r. dp d = Some r \<and> prefix r q)"
    proof
      fix d
      have "dp d = Some [] \<longleftrightarrow> d = root_id" using tree_unique [OF k(2) _ root] root by blast
      then show "d \<in> set [root_id] \<longleftrightarrow> (\<exists>r. dp d = Some r \<and> prefix r q)" by (simp add: q)
    qed
    moreover have "dp (last [root_id]) = Some q" using root q by simp
    ultimately show ?thesis by blast
  next
    case False
    then have "q \<noteq> []" using tree_unique [OF k(2) _ root, of i] at by auto
    then obtain up c where q: "q = up @ [c]" by (cases q rule: rev_cases) auto
    obtain parent where p: "open_parent K fd = Inr parent" "climb_ancestry n K root_id parent (i # collected) = Inr xs"
      using Suc.prems(1) i False by (auto split: sum.splits if_splits)
    have pl: "loc parent = Some up" by (rule kernel_reflectsD(5) [OF k(1) p(1)]) (simp add: Suc.prems(2) q)
    from Suc.IH [OF p(2) pl] obtain ys where ys: "xs = ys @ i # collected"
      "\<forall>d. d \<in> set ys \<longleftrightarrow> (\<exists>r. dp d = Some r \<and> prefix r up)" by blast
    have "\<forall>d. d \<in> set (ys @ [i]) \<longleftrightarrow> (\<exists>r. dp d = Some r \<and> prefix r q)"
    proof
      fix d
      have "dp d = Some q \<longleftrightarrow> d = i" using tree_unique [OF k(2) _ at] at by blast
      moreover have "d \<in> set ys \<longleftrightarrow> (\<exists>r. dp d = Some r \<and> prefix r up)" using ys(2) by simp
      ultimately show "d \<in> set (ys @ [i]) \<longleftrightarrow> (\<exists>r. dp d = Some r \<and> prefix r q)"
        unfolding q prefix_snoc by (simp, blast)
    qed
    moreover have "xs = (ys @ [i]) @ collected" "dp (last (ys @ [i])) = Some q" using ys(1) at by simp_all
    ultimately show ?thesis by blast
  qed
qed simp

lemma ancestry_places:
  assumes "kernel_reflects K root_id loc dp" "directory_tree dp"
    "directory_ancestry_from_root K root_id fd = Inr xs" "loc fd = Some q"
  shows "dp (last xs) = Some q" "d \<in> set xs \<longleftrightarrow> (\<exists>r. dp d = Some r \<and> prefix r q)"
proof -
  obtain cur where cur: "dup_fd K fd = Inr cur" "climb_ancestry MAX_DIRECTORY_ANCESTORS K root_id cur [] = Inr xs"
    using assms(3) by (auto simp: directory_ancestry_from_root_def split: sum.splits)
  have l: "loc cur = Some q" using kernel_reflectsD(3) [OF assms(1) cur(1)] assms(4) by simp
  obtain ys where ys: "xs = ys @ []" "dp (last ys) = Some q"
    "\<forall>d. d \<in> set ys \<longleftrightarrow> (\<exists>r. dp d = Some r \<and> prefix r q)"
    using climb_places [OF assms(1,2) cur(2) l] by (elim exE conjE)
  show "dp (last xs) = Some q" "d \<in> set xs \<longleftrightarrow> (\<exists>r. dp d = Some r \<and> prefix r q)"
    using ys(2,3) by (simp_all add: ys(1))
qed

lemma target_places:
  assumes k: "kernel_reflects K root_id loc dp" "directory_tree dp"
    and at: "loc fd = Some q" "plain_segment c"
    and t: "find_target_directory K fd c = Inr target"
  shows "target = Some d \<longleftrightarrow> dp d = Some (q @ [c])"
proof (cases "stat_is_directory K fd c")
  case (Inl e)
  then have "target = None" "e = NotFound" using t by (auto simp: find_target_directory_def split: if_splits)
  with kernel_reflectsD(7) [OF k(1) at] Inl show ?thesis by simp
next
  case (Inr b)
  have b: "b \<longleftrightarrow> (\<exists>d. dp d = Some (q @ [c]))" by (rule kernel_reflectsD(6) [OF k(1) at Inr])
  show ?thesis
  proof (cases b)
    case True
    with Inr t obtain child i where c: "open_child_directory K fd c = Inr child" "fstat_identity K child = Inr i" "target = Some i"
      by (auto simp: find_target_directory_def split: sum.splits)
    have i: "dp i = Some (q @ [c])"
      using kernel_reflectsD(4) [OF k(1) c(2)] kernel_reflectsD(8) [OF k(1) at c(1)] by simp
    have "dp d = Some (q @ [c]) \<longleftrightarrow> d = i" using i tree_unique [OF k(2) i] by blast
    with c(3) show ?thesis by auto
  next
    case False
    with Inr t have "target = None" by (simp add: find_target_directory_def)
    with b False show ?thesis by simp
  qed
qed

lemma normal_names_Inr: "normal_names cs = Inr ns \<Longrightarrow> cs = map Normal ns"
  by (induction cs arbitrary: ns rule: normal_names.induct) (auto split: sum.splits)

text \<open>Below a prefix at which the search stopped there is no directory, unless it is a closed one.\<close>

lemma stop_is_end:
  assumes k: "kernel_reflects K root_id loc dp" "directory_tree dp"
    and names: "list_all plain_segment names" "Suc n < length names"
    and stop: "prefix_opens K (butlast names) n fd" "loc fd = Some q" "prefix_missing K (butlast names) (Suc n)"
    and open': "\<not> closed_directory K dp names n q" and at: "dp d = Some r"
  shows "\<not> prefix (q @ [hd (drop n names)]) r"
proof
  have tk: "take (Suc n) (butlast names) = take (Suc n) names" and nth: "butlast names ! n = names ! n"
    using names(2) by (simp_all add: take_butlast nth_butlast)
  have hd: "hd (drop n names) = names ! n" using names(2) by (simp add: hd_drop_conv_nth)
  assume "prefix (q @ [hd (drop n names)]) r"
  then obtain d' where d': "dp d' = Some (q @ [names ! n])" using tree_closed [OF k(2) at] hd by metis
  obtain e where e: "open_directory_from_root K (path_from_components (take (Suc n) names)) = Inl e" "unresolved_path_error e"
    using stop(3) by (auto simp: prefix_missing_def tk split: sum.splits)
  have "e \<noteq> PermissionDenied" using open' d' e(1) names(2) by (auto simp: closed_directory_def)
  then have miss: "e \<in> {NotFound, NotADirectory}" using e(2) by (auto simp: unresolved_path_error_def)
  have "list_all plain_segment (butlast names)" using names(1) by (auto simp: list_all_iff dest: in_set_butlastD)
  from kernel_reflectsD(9) [OF k(1) this _ stop(1,2) _ miss] e(1) names(2) d' show False by (simp add: tk nth)
qed

lemma resolved_key_places:
  assumes k: "kernel_reflects K root_id loc dp" "directory_tree dp"
    and r: "resolved_path_key_blocking K root root_id path = Inr key"
  shows "\<exists>names n q. resolves K loc root path names n q \<and> key_denotes dp key (q @ drop n names) \<and>
    (\<not> closed_directory K dp names n q \<longrightarrow> key_at dp key (q @ drop n names))"
proof -
  obtain relative where rel: "relative_path root path = Inr relative"
    using r by (auto simp: resolved_path_key_blocking_def split: sum.splits)
  obtain names where names: "normal_names (components relative) = Inr names"
    using r rel by (auto simp: resolved_path_key_blocking_def split: sum.splits)
  have ne: "names \<noteq> []" using r rel names by (auto simp: resolved_path_key_blocking_def)
  let ?ps = "butlast names"
  obtain fd n where dp: "resolve_deepest_parent_prefix K ?ps = Inr (fd, n)"
    using r rel names ne by (auto simp: resolved_path_key_blocking_def Let_def split: sum.splits)
  obtain xs where xs: "directory_ancestry_from_root K root_id fd = Inr xs"
    using r rel names ne dp by (auto simp: resolved_path_key_blocking_def Let_def split: sum.splits)
  obtain target where t: "(if n = length ?ps then find_target_directory K fd (last names) else Inr None) = Inr target"
    and key: "key = \<lparr> resolved_parent = last xs, unresolved_tail = drop n names, ancestor_directories = xs, target_directory = target \<rparr>"
    using r rel names ne dp xs by (auto simp: resolved_path_key_blocking_def Let_def split: sum.splits)
  have b: "prefix_opens K ?ps n fd" "n < length names" "Suc n < length names \<Longrightarrow> prefix_missing K ?ps (Suc n)"
    using deepest_prefix_boundary [OF dp] ne by (auto simp: le_eq_less_or_eq)
  obtain q where q: "loc fd = Some q" using kernel_reflectsD(2) [OF k(1) b(1)] by blast
  note comps = normal_names_Inr [OF names] and a = ancestry_places [OF k xs q]
  have plain: "list_all plain_segment names" by (rule normal_components_plain [OF comps])
  have tgt: "target = Some d \<longleftrightarrow> dp d = Some (q @ drop n names)" if "n = length ?ps" for d
  proof -
    have "drop n names = [last names]" using that ne by (metis append_butlast_last_id append_eq_conv_conj)
    moreover have "plain_segment (last names)" using plain ne by (simp add: list_all_iff)
    ultimately show ?thesis using target_places [OF k q, of "last names" target d] t that by simp
  qed
  have none: "target = None" if "n \<noteq> length ?ps" using t that by simp
  have "key_denotes dp key (q @ drop n names)"
    unfolding key_denotes_def key using a tgt none by (intro exI [of _ q]) auto
  moreover have "key_at dp key (q @ drop n names)" if open': "\<not> closed_directory K dp names n q"
  proof -
    have gone: "\<not> prefix (q @ [hd (drop n names)]) r" if "Suc n < length names" "dp d = Some r" for d r
      by (rule stop_is_end [OF k plain that(1) b(1) q b(3) open' that(2)]) (rule that(1))
    have "target = Some d \<longleftrightarrow> dp d = Some (q @ drop n names)" for d
    proof (cases "n = length ?ps")
      case False
      then have lt: "Suc n < length names" using b(2) by simp
      then have "prefix (q @ [hd (drop n names)]) (q @ drop n names)" by (cases "drop n names") simp_all
      then have "dp d \<noteq> Some (q @ drop n names)" using gone [OF lt] by blast
      with none [OF False] show ?thesis by simp
    qed (rule tgt)
    with a gone show ?thesis unfolding key_at_def key by (intro exI [of _ q]) auto
  qed
  moreover have "resolves K loc root path names n q"
    unfolding resolves_def using rel comps b q by blast
  ultimately show ?thesis by blast
qed

text \<open>A root that contains one directory \<^verbatim>\<open>d\<close>.\<close>

definition demo_kernel :: "(string list, nat) kernel" where
  "demo_kernel =
     \<lparr> open_directory_from_root = (\<lambda>p. if p = ''d'' then Inr [''d''] else Inl NotFound),
       dup_root = Inr [], dup_fd = Inr,
       fstat_identity = (\<lambda>fd. if fd = [] then Inr 0 else if fd = [''d''] then Inr 1 else Inl OtherIo),
       open_parent = (\<lambda>fd. Inr (butlast fd)),
       stat_is_directory = (\<lambda>fd c. if fd = [] \<and> c = ''d'' then Inr True else Inl NotFound),
       open_child_directory = (\<lambda>fd c. if fd = [] \<and> c = ''d'' then Inr [''d''] else Inl NotFound) \<rparr>"

lemma demo_tree_ok: "directory_tree demo_tree"
  unfolding directory_tree_def demo_tree_def by (auto simp: prefix_Cons split: if_splits)

lemma demo_kernel_reflects: "kernel_reflects demo_kernel 0 Some demo_tree"
proof -
  have miss: "demo_tree d \<noteq> Some (q @ [cs ! n])"
    if o: "prefix_opens demo_kernel cs n q" and n: "n < length cs"
      and m: "open_directory_from_root demo_kernel (path_from_components (take (Suc n) cs)) = Inl e" for cs n q d e
  proof
    assume "demo_tree d = Some (q @ [cs ! n])"
    then have "q @ [cs ! n] = [''d'']" by (auto simp: demo_tree_def split: if_splits)
    then have q: "q = []" "cs ! n = ''d''" by (cases q; simp)+
    have "n = 0" using o by (auto simp: q prefix_opens_def demo_kernel_def split: if_splits)
    with n q(2) have "take (Suc n) cs = [''d'']" by (cases cs) simp_all
    with m show False
      by (simp add: path_from_components_def path_push_def is_absolute_def demo_kernel_def)
  qed
  show ?thesis
    unfolding kernel_reflects_def
  proof (intro conjI)
    show "\<forall>cs n fd q e. list_all plain_segment cs \<longrightarrow> n < length cs \<longrightarrow> prefix_opens demo_kernel cs n fd \<longrightarrow> Some fd = Some q \<longrightarrow>
        open_directory_from_root demo_kernel (path_from_components (take (Suc n) cs)) = Inl e \<longrightarrow> e \<in> {NotFound, NotADirectory} \<longrightarrow>
        (\<forall>d. demo_tree d \<noteq> Some (q @ [cs ! n]))"
      using miss by blast
  qed (auto simp: demo_kernel_def demo_tree_def split: if_splits)
qed

text \<open>
  The exception the keys have: in a root with a directory \<^verbatim>\<open>a\<close> that may be searched but not read, a
  directory \<^verbatim>\<open>b\<close> in it and a link \<^verbatim>\<open>l\<close> to \<^verbatim>\<open>a/b\<close>, the keys of \<^verbatim>\<open>a/b\<close> and \<^verbatim>\<open>l/x\<close> do not conflict although the
  second lies below the first.  The request for \<^verbatim>\<open>a/b\<close> fails all the same, as every change opens each
  directory on its way for reading (\<^verbatim>\<open>open_parent_blocking\<close>).
\<close>

definition closed_tree :: "nat \<Rightarrow> string list option" where
  "closed_tree d = (if d = 0 then Some [] else if d = 1 then Some [''a''] else if d = 2 then Some [''a'', ''b''] else None)"

definition closed_kernel :: "(string list, nat) kernel" where
  "closed_kernel =
     \<lparr> open_directory_from_root = (\<lambda>p. if p = ''a'' then Inl PermissionDenied
         else if p = ''a/b'' \<or> p = ''l'' then Inr [''a'', ''b''] else Inl NotFound),
       dup_root = Inr [], dup_fd = Inr,
       fstat_identity = (\<lambda>fd. if fd = [] then Inr 0 else if fd = [''a''] then Inr 1 else if fd = [''a'', ''b''] then Inr 2 else Inl OtherIo),
       open_parent = (\<lambda>fd. Inr (butlast fd)),
       stat_is_directory = (\<lambda>fd c. if fd = [] \<and> c = ''a'' \<or> fd = [''a''] \<and> c = ''b'' then Inr True else Inl NotFound),
       open_child_directory = (\<lambda>fd c. if fd = [] \<and> c = ''a'' \<or> fd = [''a''] \<and> c = ''b'' then Inr (fd @ [c]) else Inl NotFound) \<rparr>"

lemma closed_tree_ok: "directory_tree closed_tree"
  unfolding directory_tree_def
proof (intro conjI allI impI)
  have places: "closed_tree 0 = Some []" "closed_tree 1 = Some [''a'']" "closed_tree 2 = Some [''a'', ''b'']"
    by (simp_all add: closed_tree_def)
  fix d p q assume "closed_tree d = Some q" "prefix p q"
  then have "p \<in> {[], [''a''], [''a'', ''b'']}" by (auto simp: closed_tree_def prefix_Cons split: if_splits)
  then show "\<exists>d'. closed_tree d' = Some p" using places by blast
qed (auto simp: closed_tree_def split: if_splits)

lemma closed_kernel_miss:
  assumes o: "prefix_opens closed_kernel cs n q" and n: "n < length cs"
    and m: "open_directory_from_root closed_kernel (path_from_components (take (Suc n) cs)) = Inl e" "e \<in> {NotFound, NotADirectory}"
  shows "closed_tree d \<noteq> Some (q @ [cs ! n])"
proof
  assume "closed_tree d = Some (q @ [cs ! n])"
  then have "q @ [cs ! n] = [] @ [''a''] \<or> q @ [cs ! n] = [''a''] @ [''b'']"
    by (simp add: closed_tree_def split: if_splits)
  then have "q = [] \<and> cs ! n = ''a'' \<or> q = [''a'']" unfolding append1_eq_conv by blast
  moreover have "q = [] \<and> n = 0 \<or> q = [''a'', ''b'']"
    using o by (simp add: prefix_opens_def closed_kernel_def split: if_splits)
  ultimately have "n = 0" "cs ! n = ''a''" by auto
  with n have "take (Suc n) cs = [''a'']" by (cases cs) simp_all
  with m show False
    by (simp add: path_from_components_def path_push_def is_absolute_def closed_kernel_def)
qed

lemma closed_kernel_stat:
  assumes "stat_is_directory closed_kernel q c = Inr b"
  shows "b \<longleftrightarrow> (\<exists>d. closed_tree d = Some (q @ [c]))"
proof -
  have dirs: "closed_tree 1 = Some [''a'']" "closed_tree 2 = Some [''a'', ''b'']" by (simp_all add: closed_tree_def)
  have "b = True" "q = [] \<and> c = ''a'' \<or> q = [''a''] \<and> c = ''b''"
    using assms by (simp_all add: closed_kernel_def split: if_splits)
  then show ?thesis using dirs by auto
qed

lemma closed_kernel_reflects: "kernel_reflects closed_kernel 0 Some closed_tree"
  unfolding kernel_reflects_def
proof (intro conjI)
  show "\<forall>cs n fd q e. list_all plain_segment cs \<longrightarrow> n < length cs \<longrightarrow> prefix_opens closed_kernel cs n fd \<longrightarrow> Some fd = Some q \<longrightarrow>
      open_directory_from_root closed_kernel (path_from_components (take (Suc n) cs)) = Inl e \<longrightarrow> e \<in> {NotFound, NotADirectory} \<longrightarrow>
      (\<forall>d. closed_tree d \<noteq> Some (q @ [cs ! n]))"
    using closed_kernel_miss by blast
  show "\<forall>fd q c b. Some fd = Some q \<longrightarrow> plain_segment c \<longrightarrow> stat_is_directory closed_kernel fd c = Inr b \<longrightarrow>
      (b \<longleftrightarrow> (\<exists>d. closed_tree d = Some (q @ [c])))"
    using closed_kernel_stat by blast
qed (auto simp: closed_kernel_def closed_tree_def split: if_splits)

lemma closed_directory_exception:
  "\<exists>key key'. resolved_path_key_blocking closed_kernel ''/r'' 0 ''/r/a/b'' = Inr key \<and>
     resolved_path_key_blocking closed_kernel ''/r'' 0 ''/r/l/x'' = Inr key' \<and>
     key_denotes closed_tree key [''a'', ''b''] \<and> key_denotes closed_tree key' [''a'', ''b'', ''x''] \<and>
     \<not> resolved_paths_conflict key key'"
proof -
  let ?k = "\<lparr>resolved_parent = 0, unresolved_tail = [''a'', ''b''], ancestor_directories = [0], target_directory = None\<rparr> :: nat ResolvedPathKey"
  let ?k' = "\<lparr>resolved_parent = 2, unresolved_tail = [''x''], ancestor_directories = [0, 1, 2], target_directory = None\<rparr> :: nat ResolvedPathKey"
  have anc: "directory_ancestry_from_root closed_kernel 0 [] = Inr [0]"
    "directory_ancestry_from_root closed_kernel 0 [''a'', ''b''] = Inr [0, 1, 2]"
    by (simp_all add: directory_ancestry_from_root_def closed_kernel_def MAX_DIRECTORY_ANCESTORS_def numeral_eq_Suc)
  have rel: "relative_path ''/r'' ''/r/a/b'' = Inr ''a/b''" "relative_path ''/r'' ''/r/l/x'' = Inr ''l/x''" by code_simp+
  have comps: "components ''a/b'' = [Normal ''a'', Normal ''b'']" "components ''l/x'' = [Normal ''l'', Normal ''x'']" by code_simp+
  have deep: "resolve_deepest_parent_prefix closed_kernel [''a''] = Inr ([], 0)"
    "resolve_deepest_parent_prefix closed_kernel [''l''] = Inr ([''a'', ''b''], 1)" by code_simp+
  have tgt: "find_target_directory closed_kernel [''a'', ''b''] ''x'' = Inr None" by code_simp
  have "resolved_path_key_blocking closed_kernel ''/r'' 0 ''/r/a/b'' = Inr ?k"
    "resolved_path_key_blocking closed_kernel ''/r'' 0 ''/r/l/x'' = Inr ?k'"
    by (simp_all add: resolved_path_key_blocking_def rel comps deep anc tgt)
  moreover have "key_denotes closed_tree ?k [''a'', ''b'']" "key_denotes closed_tree ?k' [''a'', ''b'', ''x'']"
    by (auto simp: key_denotes_def closed_tree_def prefix_Cons split: if_splits)
  moreover have "\<not> resolved_paths_conflict ?k ?k'"
    by (simp add: resolved_paths_conflict_def anchored_tail_is_prefix_def targets_ancestor_def)
  ultimately show ?thesis by blast
qed

section \<open>Properties\<close>

text \<open>Claim C36.  A stored path means the same place after a restart: the path relative to the root
  that is written to the state database is accepted when it is read back and names the same
  entry, and every stored path that is accepted names an entry below the root whose relative
  path is the stored one.\<close>

theorem stored_path_round_trip:
  assumes "is_absolute root"
  shows "(\<forall>p r. state_relative_path root p = Inr r \<longrightarrow> CHR 0x00 \<notin> set r \<longrightarrow>
            (\<exists>p'. resolve_state_path root r = Inr p' \<and> path_eq p' p)) \<and>
         (\<forall>e p. resolve_state_path root e = Inr p \<longrightarrow>
            path_starts_with p root \<and> (\<exists>r. state_relative_path root p = Inr r \<and> path_eq r e))"
proof (intro conjI allI impI)
  fix p r assume r: "state_relative_path root p = Inr r" "CHR 0x00 \<notin> set r"
  note f = relative_path_Inr [OF r(1) [unfolded state_relative_path_def] assms]
  have "resolve_state_path root r = Inr (path_push root r)"
    using f(1,2) r(2) by (auto simp: resolve_state_path_def decode_relative_path_def list_ex_iff list_all_iff)
  moreover have "path_eq (path_push root r) p"
    using components_attach [OF assms f(2,1)] f(3) by (simp add: path_eq_def)
  ultimately show "\<exists>p'. resolve_state_path root r = Inr p' \<and> path_eq p' p" by blast
next
  fix e p assume "resolve_state_path root e = Inr p"
  then have e: "e \<noteq> []" "list_all is_normal (components e)" "p = path_push root e"
    by (auto simp: resolve_state_path_def decode_relative_path_def list_ex_iff list_all_iff split: if_splits)
  show "path_starts_with p root"
    using components_attach [OF assms e(2,1)] by (simp add: e(3) path_starts_with_def)
  show "\<exists>r. state_relative_path root p = Inr r \<and> path_eq r e"
    using strip_attached [OF assms e(2,1)] by (simp add: e(3) state_relative_path_def path_eq_def)
qed

theorem stored_path_round_trip_witness:
  "is_absolute ''/srv'' \<and> resolve_state_path ''/srv'' ''a//b'' = Inr ''/srv/a//b'' \<and>
   (\<exists>r. state_relative_path ''/srv'' ''/srv/a//b'' = Inr r \<and> path_eq r ''a//b'')"
proof -
  have a: "is_absolute ''/srv''" by (simp add: is_absolute_def)
  have r: "resolve_state_path ''/srv'' ''a//b'' = Inr ''/srv/a//b''" by code_simp
  with stored_path_round_trip [OF a] a show ?thesis by blast
qed

text \<open>The search for the deepest existing parent always ends and stops at the boundary:
  the prefix it returns opens, with the descriptor it returns, and the next longer prefix does
  not; when opening behaves like a directory walk, so that a prefix opens only if all shorter
  ones do, no longer prefix opens at all.\<close>

lemma deepest_prefix_exact:
  assumes "resolve_deepest_parent_prefix K cs = Inr (fd, n)"
  shows "n \<le> length cs \<and> prefix_opens K cs n fd \<and>
    (n < length cs \<longrightarrow> prefix_missing K cs (Suc n)) \<and>
    ((\<forall>a b f. a \<le> b \<longrightarrow> prefix_opens K cs b f \<longrightarrow> (\<exists>g. prefix_opens K cs a g)) \<longrightarrow>
     (\<forall>m f. n < m \<longrightarrow> m \<le> length cs \<longrightarrow> \<not> prefix_opens K cs m f))"
proof -
  note b = deepest_prefix_boundary [OF assms]
  have "\<not> prefix_opens K cs m f"
    if walk: "\<forall>a b f. a \<le> b \<longrightarrow> prefix_opens K cs b f \<longrightarrow> (\<exists>g. prefix_opens K cs a g)" and m: "n < m" "m \<le> length cs" for m f
  proof
    assume "prefix_opens K cs m f"
    then obtain g where "prefix_opens K cs (Suc n) g" using walk m(1) by (metis Suc_leI)
    moreover have "prefix_missing K cs (Suc n)" using b m by simp
    ultimately show False by (simp add: prefix_opens_def prefix_missing_def)
  qed
  with b show ?thesis by blast
qed

text \<open>Claim C34.  Resolution refines the directory tree: on a file system at rest, the key that the
  server computes for a path denotes the place the kernel leads to, through whatever links.  Two
  computed keys that conflict denote places of which one lies on the way to the other; and of two
  such places the keys conflict, unless they hang below different directories and resolution of one
  of them was cut short by an existing directory that may not be read.\<close>

theorem resolved_keys_refine_tree:
  assumes k: "kernel_reflects K root_id loc dp" "directory_tree dp"
    and r: "resolved_path_key_blocking K root root_id p = Inr key"
    and r': "resolved_path_key_blocking K root root_id p' = Inr key'"
  shows "\<exists>names n q names' n' q'.
    resolves K loc root p names n q \<and> key_denotes dp key (q @ drop n names) \<and>
    resolves K loc root p' names' n' q' \<and> key_denotes dp key' (q' @ drop n' names') \<and>
    (let nested = prefix (q @ drop n names) (q' @ drop n' names') \<or> prefix (q' @ drop n' names') (q @ drop n names) in
       (resolved_paths_conflict key key' \<longrightarrow> nested) \<and>
       (nested \<longrightarrow> resolved_paths_conflict key key' \<or>
          resolved_parent key \<noteq> resolved_parent key' \<and> (closed_directory K dp names n q \<or> closed_directory K dp names' n' q')))"
proof -
  obtain names n q where a: "resolves K loc root p names n q" "key_denotes dp key (q @ drop n names)"
    "\<not> closed_directory K dp names n q \<Longrightarrow> key_at dp key (q @ drop n names)"
    using resolved_key_places [OF k r] by blast
  obtain names' n' q' where b: "resolves K loc root p' names' n' q'" "key_denotes dp key' (q' @ drop n' names')"
    "\<not> closed_directory K dp names' n' q' \<Longrightarrow> key_at dp key' (q' @ drop n' names')"
    using resolved_key_places [OF k r'] by blast
  let ?p = "q @ drop n names" and ?p' = "q' @ drop n' names'"
  have "resolved_paths_conflict key key'"
    if "prefix ?p ?p' \<or> prefix ?p' ?p" "\<not> closed_directory K dp names n q" "\<not> closed_directory K dp names' n' q'"
    using that nested_key_conflict [OF k(2)] a(3) b(3) resolved_paths_conflict_sym by blast
  with nested_same_parent [OF a(2) b(2)] denotes_conflict_nested [OF a(2) b(2)]
  have "let nested = prefix ?p ?p' \<or> prefix ?p' ?p in (resolved_paths_conflict key key' \<longrightarrow> nested) \<and>
      (nested \<longrightarrow> resolved_paths_conflict key key' \<or>
         resolved_parent key \<noteq> resolved_parent key' \<and> (closed_directory K dp names n q \<or> closed_directory K dp names' n' q'))"
    unfolding Let_def by blast
  with a(1,2) b(1,2) show ?thesis by blast
qed

theorem resolved_keys_refine_tree_witness:
  "\<exists>key key' place place'. resolved_path_key_blocking demo_kernel ''/r'' 0 ''/r/d'' = Inr key \<and>
     resolved_path_key_blocking demo_kernel ''/r'' 0 ''/r/d/x'' = Inr key' \<and>
     key_denotes demo_tree key place \<and> key_denotes demo_tree key' place' \<and>
     resolved_paths_conflict key key' \<and> (prefix place place' \<or> prefix place' place)"
proof -
  let ?k = "\<lparr>resolved_parent = 0, unresolved_tail = [''d''], ancestor_directories = [0], target_directory = Some 1\<rparr> :: nat ResolvedPathKey"
  let ?k' = "\<lparr>resolved_parent = 1, unresolved_tail = [''x''], ancestor_directories = [0, 1], target_directory = None\<rparr> :: nat ResolvedPathKey"
  have anc: "directory_ancestry_from_root demo_kernel 0 [] = Inr [0]"
    "directory_ancestry_from_root demo_kernel 0 [''d''] = Inr [0, 1]"
    by (simp_all add: directory_ancestry_from_root_def demo_kernel_def MAX_DIRECTORY_ANCESTORS_def numeral_eq_Suc)
  have rel: "relative_path ''/r'' ''/r/d'' = Inr ''d''" "relative_path ''/r'' ''/r/d/x'' = Inr ''d/x''" by code_simp+
  have comps: "components ''d'' = [Normal ''d'']" "components ''d/x'' = [Normal ''d'', Normal ''x'']" by code_simp+
  have deep: "resolve_deepest_parent_prefix demo_kernel [] = Inr ([], 0)"
    "resolve_deepest_parent_prefix demo_kernel [''d''] = Inr ([''d''], 1)" by code_simp+
  have tgt: "find_target_directory demo_kernel [] ''d'' = Inr (Some 1)"
    "find_target_directory demo_kernel [''d''] ''x'' = Inr None" by code_simp+
  have 1: "resolved_path_key_blocking demo_kernel ''/r'' 0 ''/r/d'' = Inr ?k"
    by (simp add: resolved_path_key_blocking_def rel comps deep anc tgt)
  have 2: "resolved_path_key_blocking demo_kernel ''/r'' 0 ''/r/d/x'' = Inr ?k'"
    by (simp add: resolved_path_key_blocking_def rel comps deep anc tgt)
  have "resolved_paths_conflict ?k ?k'" by (simp add: resolved_paths_conflict_def targets_ancestor_def)
  with resolved_keys_refine_tree [OF demo_kernel_reflects demo_tree_ok 1 2] 1 2 show ?thesis unfolding Let_def by blast
qed

end
