(* ===== verification/State_Path_Scan.thy ===== *)
theory State_Path_Scan
  imports Store_Purge Rooted_Paths
begin

text \<open>
  The check that a namespace mutation makes before it touches the file system: the scanner of
  \<^verbatim>\<open>src/server/path_coordinator.rs\<close> compares the paths of the request with every path that a
  persisted upload or purge job still uses, reading these in pages from the state store as
  \<^verbatim>\<open>has_persisted_path_conflict\<close> and \<^verbatim>\<open>has_persisted_path_descendant\<close> of \<^verbatim>\<open>src/server.rs\<close> do.  Between
  two pages the store and the file system may change, so every page has its own environment.
\<close>

section \<open>The scanner\<close>

datatype StatePathScanRelation = SymmetricConflict | StrictDescendant

record 'id StatePathScanner =
  sources :: "string list"
  resolved_sources :: "'id LeaseKey list option"
  relation :: StatePathScanRelation

definition state_path_conflict_scanner :: "string list \<Rightarrow> 'id StatePathScanner" where
  "state_path_conflict_scanner requested =
     \<lparr> sources = map normalize_key requested, resolved_sources = None, relation = SymmetricConflict \<rparr>"

definition state_path_descendant_scanner :: "string \<Rightarrow> 'id StatePathScanner" where
  "state_path_descendant_scanner ancestor =
     \<lparr> sources = [normalize_key ancestor], resolved_sources = None, relation = StrictDescendant \<rparr>"

text \<open>The stored paths of a page, attached to the root; the first that is refused stops the scan.\<close>

fun scan_candidates :: "string \<Rightarrow> StateBlockingPath list \<Rightarrow> (string \<times> bool) list option" where
  "scan_candidates root [] = Some []"
| "scan_candidates root (b # bs) =
     (case resolve_state_path root (blocking_path b) of
        Inl _ \<Rightarrow> None
      | Inr path \<Rightarrow>
          map_option ((#) (normalize_key path, allows_exact_replacement b)) (scan_candidates root bs))"

fun resolved_path_keys_for_state_scan ::
  "('fd, 'id) kernel \<Rightarrow> string \<Rightarrow> 'id \<Rightarrow> string list \<Rightarrow> 'id ResolvedPathKey list io"
where
  "resolved_path_keys_for_state_scan K root root_id [] = Inr []"
| "resolved_path_keys_for_state_scan K root root_id (p # ps) =
     (case resolved_path_key_blocking K root root_id p of
        Inl e \<Rightarrow> Inl e
      | Inr key \<Rightarrow>
          (case resolved_path_keys_for_state_scan K root root_id ps of
             Inl e \<Rightarrow> Inl e | Inr keys \<Rightarrow> Inr (key # keys)))"

definition attach_keys :: "string list \<Rightarrow> 'id ResolvedPathKey list \<Rightarrow> 'id LeaseKey list" where
  "attach_keys ps keys = map (\<lambda>(p, k). \<lparr> lexical = p, resolved = k \<rparr>) (zip ps keys)"

definition relation_holds ::
  "StatePathScanRelation \<Rightarrow> 'id LeaseKey list \<Rightarrow> ('id LeaseKey \<times> bool) list \<Rightarrow> bool"
where
  "relation_holds rel srcs candidates =
     (case rel of
        SymmetricConflict \<Rightarrow> list_ex (\<lambda>s. list_ex (\<lambda>(c, _). path_keys_conflict s c) candidates) srcs
      | StrictDescendant \<Rightarrow>
          list_ex (\<lambda>(c, replaceable).
            if paths_identify_same_entry (hd srcs) c then \<not> replaceable
            else path_strictly_contains (hd srcs) c) candidates)"

definition page_conflicts ::
  "('fd, 'id) kernel \<Rightarrow> string \<Rightarrow> 'id \<Rightarrow> StateBlockingPath list \<Rightarrow> 'id StatePathScanner \<Rightarrow> 'id StatePathScanner \<times> bool"
where
  "page_conflicts K root root_id page sc =
     (if page = [] then (sc, False)
      else (case scan_candidates root page of
        None \<Rightarrow> (sc, True)
      | Some candidates \<Rightarrow>
          let pending = (if resolved_sources sc = None then sources sc else []) in
          (case resolved_path_keys_for_state_scan K root root_id (pending @ map fst candidates) of
             Inl _ \<Rightarrow> (sc, True)
           | Inr keys \<Rightarrow>
               let sc = (if resolved_sources sc = None
                         then sc\<lparr> resolved_sources := Some (attach_keys (sources sc) (take (length pending) keys)) \<rparr>
                         else sc);
                   candidate_keys = zip (attach_keys (map fst candidates) (drop (length pending) keys)) (map snd candidates)
               in (sc, relation_holds (relation sc) (the (resolved_sources sc)) candidate_keys))))"

section \<open>The scan\<close>

definition STATE_PATH_ADMISSION_PAGE_SIZE :: usize where "STATE_PATH_ADMISSION_PAGE_SIZE = 256"

datatype scan_error = ScanAdmission | ScanStore store_error

text \<open>What a page is read and resolved against.\<close>

record ('fd, 'id) scan_env =
  scan_tick :: tick
  scan_store :: StoreWorker
  scan_kernel :: "('fd, 'id) kernel"

fun scan_pages ::
  "nat \<Rightarrow> (nat \<Rightarrow> ('fd, 'id) scan_env) \<Rightarrow> string \<Rightarrow> 'id \<Rightarrow> nat \<Rightarrow> StatePathCursor option \<Rightarrow>
   'id StatePathScanner \<Rightarrow> (scan_error + bool) option"
where
  "scan_pages 0 env root root_id n after sc = None"
| "scan_pages (Suc fuel) env root root_id n after sc =
     (case snd (state_blocking_paths (scan_tick (env n)) after STATE_PATH_ADMISSION_PAGE_SIZE (scan_store (env n))) of
        Inl e \<Rightarrow> Some (Inl (ScanStore e))
      | Inr page \<Rightarrow>
          (case page_conflicts (scan_kernel (env n)) root root_id (paths page) sc of
             (sc, True) \<Rightarrow> Some (Inr True)
           | (sc, False) \<Rightarrow>
               (case next_cursor page of
                  None \<Rightarrow> Some (Inr False)
                | Some next \<Rightarrow> scan_pages fuel env root root_id (Suc n) (Some next) sc)))"

definition has_persisted_path_conflict ::
  "nat \<Rightarrow> bool \<Rightarrow> (nat \<Rightarrow> ('fd, 'id) scan_env) \<Rightarrow> string \<Rightarrow> 'id \<Rightarrow> string list \<Rightarrow> (scan_error + bool) option"
where
  "has_persisted_path_conflict fuel slot env root root_id requested =
     (if \<not> slot then Some (Inl ScanAdmission)
      else scan_pages fuel env root root_id 0 None (state_path_conflict_scanner requested))"

definition has_persisted_path_descendant ::
  "nat \<Rightarrow> bool \<Rightarrow> (nat \<Rightarrow> ('fd, 'id) scan_env) \<Rightarrow> string \<Rightarrow> 'id \<Rightarrow> string \<Rightarrow> (scan_error + bool) option"
where
  "has_persisted_path_descendant fuel slot env root root_id path =
     (if \<not> slot then Some (Inl ScanAdmission)
      else scan_pages fuel env root root_id 0 None (state_path_descendant_scanner path))"

section \<open>One page\<close>

text \<open>A persisted path is clear of the request when it resolves and its key does not stand in the
  scanned relation to the keys of the request.\<close>

definition sources_resolved ::
  "('fd, 'id) kernel \<Rightarrow> string \<Rightarrow> 'id \<Rightarrow> string list \<Rightarrow> 'id LeaseKey list \<Rightarrow> bool"
where
  "sources_resolved K root root_id =
     list_all2 (\<lambda>s k. lexical k = s \<and> resolved_path_key_blocking K root root_id s = Inr (resolved k))"

definition path_clear ::
  "('fd, 'id) kernel \<Rightarrow> string \<Rightarrow> 'id \<Rightarrow> StatePathScanRelation \<Rightarrow> 'id LeaseKey list \<Rightarrow> StateBlockingPath \<Rightarrow> bool"
where
  "path_clear K root root_id rel srcs b \<longleftrightarrow>
     (case resolve_state_path root (blocking_path b) of
        Inl _ \<Rightarrow> False
      | Inr path \<Rightarrow>
          (case resolved_path_key_blocking K root root_id (normalize_key path) of
             Inl _ \<Rightarrow> False
           | Inr key \<Rightarrow>
               \<not> relation_holds rel srcs
                  [(\<lparr> lexical = normalize_key path, resolved = key \<rparr>, allows_exact_replacement b)]))"

lemma relation_holds_each:
  "relation_holds rel srcs cs \<longleftrightarrow> (\<exists>c \<in> set cs. relation_holds rel srcs [c])"
  by (cases rel) (auto simp: relation_holds_def list_ex_iff)

lemma resolve_batch:
  "resolved_path_keys_for_state_scan K root root_id ps = Inr keys \<longleftrightarrow>
     list_all2 (\<lambda>p k. resolved_path_key_blocking K root root_id p = Inr k) ps keys"
proof (induction ps arbitrary: keys)
  case (Cons p ps)
  show ?case
  proof (cases "resolved_path_keys_for_state_scan K root root_id ps")
    case (Inl e)
    then have "\<not> list_all2 (\<lambda>p k. resolved_path_key_blocking K root root_id p = Inr k) ps ks" for ks
      using Cons.IH [of ks] by simp
    with Inl show ?thesis by (auto simp: list_all2_Cons1 split: sum.splits)
  next
    case (Inr ks)
    then have "list_all2 (\<lambda>p k. resolved_path_key_blocking K root root_id p = Inr k) ps zs \<longleftrightarrow> zs = ks" for zs
      using Cons.IH [of zs] by auto
    with Inr show ?thesis by (auto simp: list_all2_Cons1 split: sum.splits)
  qed
qed auto

lemma attach_resolved:
  "list_all2 (\<lambda>p k. resolved_path_key_blocking K root root_id p = Inr k) ps keys \<Longrightarrow>
   sources_resolved K root root_id ps (attach_keys ps keys)"
  unfolding sources_resolved_def attach_keys_def by (induction rule: list_all2_induct) auto

lemma sources_resolved_unique:
  "\<lbrakk> sources_resolved K root root_id ps xs; sources_resolved K root root_id ps ys \<rbrakk> \<Longrightarrow> xs = ys"
  unfolding sources_resolved_def
proof (induction xs arbitrary: ps ys)
  case (Cons x xs)
  then obtain p ps' where ps: "ps = p # ps'" by (cases ps) auto
  with Cons.prems obtain y ys' where ys: "ys = y # ys'" by (cases ys) auto
  have "x = y" using Cons.prems by (cases x; cases y) (auto simp: ps ys)
  with Cons show ?case by (auto simp: ps ys)
qed simp

lemma sources_resolvedD:
  "sources_resolved K root root_id ps srcs \<Longrightarrow>
   list_all2 (\<lambda>p k. resolved_path_key_blocking K root root_id p = Inr k) ps (map resolved srcs)"
  unfolding sources_resolved_def by (induction rule: list_all2_induct) auto

lemma candidates_Some:
  "scan_candidates root bs = Some cs \<longleftrightarrow>
     list_all2 (\<lambda>b c. \<exists>path. resolve_state_path root (blocking_path b) = Inr path \<and>
       c = (normalize_key path, allows_exact_replacement b)) bs cs"
  by (induction bs arbitrary: cs) (auto simp: list_all2_Cons1 split: sum.splits)

text \<open>The candidates of a page with their keys.\<close>

lemma page_keys_clear:
  assumes "scan_candidates root bs = Some cs"
    "list_all2 (\<lambda>p k. resolved_path_key_blocking K root root_id p = Inr k) (map fst cs) keys"
  shows "\<not> relation_holds rel srcs (zip (attach_keys (map fst cs) keys) (map snd cs)) \<longleftrightarrow>
    list_all (path_clear K root root_id rel srcs) bs"
  using assms
proof (induction bs arbitrary: cs keys)
  case Nil
  then show ?case by (cases rel) (auto simp: relation_holds_def list_ex_iff)
next
  case (Cons b bs)
  from Cons.prems(1) obtain path cs' where c: "resolve_state_path root (blocking_path b) = Inr path"
    "cs = (normalize_key path, allows_exact_replacement b) # cs'" "scan_candidates root bs = Some cs'"
    by (auto split: sum.splits)
  from Cons.prems(2) c(2) obtain key keys' where k: "keys = key # keys'"
    "resolved_path_key_blocking K root root_id (normalize_key path) = Inr key"
    "list_all2 (\<lambda>p k. resolved_path_key_blocking K root root_id p = Inr k) (map fst cs') keys'"
    by (auto simp: list_all2_Cons1)
  let ?c = "(\<lparr> lexical = normalize_key path, resolved = key \<rparr>, allows_exact_replacement b)"
  define rest where "rest = zip (attach_keys (map fst cs') keys') (map snd cs')"
  have z: "zip (attach_keys (map fst cs) keys) (map snd cs) = ?c # rest"
    by (simp add: c(2) k(1) attach_keys_def rest_def)
  have "relation_holds rel srcs (?c # rest) \<longleftrightarrow> relation_holds rel srcs [?c] \<or> relation_holds rel srcs rest"
    by (subst (1 3) relation_holds_each) simp
  moreover have "path_clear K root root_id rel srcs b \<longleftrightarrow> \<not> relation_holds rel srcs [?c]"
    using c(1) k(2) by (simp add: path_clear_def)
  ultimately show ?case using Cons.IH [OF c(3) k(3), folded rest_def] unfolding z by auto
qed

definition sources_known :: "('fd, 'id) kernel \<Rightarrow> string \<Rightarrow> 'id \<Rightarrow> 'id StatePathScanner \<Rightarrow> 'id LeaseKey list \<Rightarrow> bool" where
  "sources_known K root root_id sc srcs \<longleftrightarrow>
     (case resolved_sources sc of
        None \<Rightarrow> sources_resolved K root root_id (sources sc) srcs
      | Some known \<Rightarrow> srcs = known)"

lemma sources_known_unique:
  "\<lbrakk> sources_known K root root_id sc xs; sources_known K root root_id sc ys \<rbrakk> \<Longrightarrow> xs = ys"
  by (auto simp: sources_known_def dest: sources_resolved_unique split: option.splits)

lemma clear_resolves:
  assumes "list_all (path_clear K root root_id rel srcs) bs"
  shows "\<exists>cs keys. scan_candidates root bs = Some cs \<and>
    list_all2 (\<lambda>p k. resolved_path_key_blocking K root root_id p = Inr k) (map fst cs) keys"
  using assms
proof (induction bs)
  case (Cons b bs)
  then obtain cs keys where "scan_candidates root bs = Some cs"
    "list_all2 (\<lambda>p k. resolved_path_key_blocking K root root_id p = Inr k) (map fst cs) keys" by auto
  moreover obtain path key where "resolve_state_path root (blocking_path b) = Inr path"
    "resolved_path_key_blocking K root root_id (normalize_key path) = Inr key"
    using Cons.prems by (auto simp: path_clear_def split: sum.splits)
  ultimately show ?case by (intro exI [of _ "(normalize_key path, _) # cs"] exI [of _ "key # keys"]) simp
next
  case Nil
  show ?case by (intro exI [of _ "[]"]) simp
qed

lemma list_all2_split:
  "list_all2 P (xs @ ys) zs \<longleftrightarrow> list_all2 P xs (take (length xs) zs) \<and> list_all2 P ys (drop (length xs) zs)"
proof (induction xs arbitrary: zs)
  case (Cons x xs)
  then show ?case by (cases zs) simp_all
qed simp

lemma page_conflicts_clear:
  assumes "page \<noteq> []"
  shows "page_conflicts K root root_id page sc = (sc', False) \<longleftrightarrow>
    (\<exists>srcs. sources_known K root root_id sc srcs \<and> list_all (path_clear K root root_id (relation sc) srcs) page \<and>
       sc' = sc\<lparr>resolved_sources := Some srcs\<rparr>)" (is "?L \<longleftrightarrow> ?R")
proof -
  let ?res = "\<lambda>p k. resolved_path_key_blocking K root root_id p = Inr k"
  let ?pend = "if resolved_sources sc = None then sources sc else []"
  have sc_eq: "sc\<lparr>resolved_sources := Some x\<rparr> = sc" if "resolved_sources sc = Some x" for x
    using that by (cases sc) simp
  have split: "resolved_path_keys_for_state_scan K root root_id (?pend @ qs) = Inr keys \<longleftrightarrow>
      list_all2 ?res ?pend (take (length ?pend) keys) \<and> list_all2 ?res qs (drop (length ?pend) keys)" for qs keys
    unfolding resolve_batch by (rule list_all2_split)
  show ?thesis
  proof
    assume L: ?L
    then obtain cs where cs: "scan_candidates root page = Some cs"
      using assms by (auto simp: page_conflicts_def split: option.splits)
    obtain keys where keys: "resolved_path_keys_for_state_scan K root root_id (?pend @ map fst cs) = Inr keys"
      using L assms cs by (auto simp: page_conflicts_def Let_def split: sum.splits)
    note ks = keys [unfolded split]
    let ?srcs = "case resolved_sources sc of None \<Rightarrow> attach_keys (sources sc) (take (length ?pend) keys) | Some x \<Rightarrow> x"
    have known: "sources_known K root root_id sc ?srcs"
      using ks attach_resolved [of K root root_id "sources sc" "take (length ?pend) keys"]
      by (auto simp: sources_known_def split: option.splits)
    from L assms cs keys have "\<not> relation_holds (relation sc) ?srcs
        (zip (attach_keys (map fst cs) (drop (length ?pend) keys)) (map snd cs)) \<and> sc' = sc\<lparr>resolved_sources := Some ?srcs\<rparr>"
      by (cases "resolved_sources sc") (auto simp: page_conflicts_def Let_def sc_eq)
    with page_keys_clear [OF cs conjunct2 [OF ks]] known show ?R by blast
  next
    assume ?R
    then obtain srcs where srcs: "sources_known K root root_id sc srcs" "list_all (path_clear K root root_id (relation sc) srcs) page"
      "sc' = sc\<lparr>resolved_sources := Some srcs\<rparr>" by blast
    obtain cs ks where cs: "scan_candidates root page = Some cs" "list_all2 ?res (map fst cs) ks"
      using clear_resolves [OF srcs(2)] by blast
    define pre where "pre = (if resolved_sources sc = None then map resolved srcs else [])"
    have pre: "list_all2 ?res ?pend pre"
      using srcs(1) sources_resolvedD [of K root root_id "sources sc" srcs] by (auto simp: pre_def sources_known_def)
    have len: "length pre = length ?pend" using list_all2_lengthD [OF pre] by simp
    have keys: "resolved_path_keys_for_state_scan K root root_id (?pend @ map fst cs) = Inr (pre @ ks)"
      unfolding split len [symmetric] using pre cs(2) by simp
    have att: "attach_keys (sources sc) pre = srcs" if "resolved_sources sc = None"
      using that srcs(1) pre attach_resolved sources_resolved_unique by (fastforce simp: sources_known_def)
    have some: "resolved_sources sc = Some srcs" if "resolved_sources sc \<noteq> None"
      using that srcs(1) by (auto simp: sources_known_def)
    have "\<not> relation_holds (relation sc) srcs (zip (attach_keys (map fst cs) ks) (map snd cs))"
      using page_keys_clear [OF cs] srcs(2) by blast
    with assms cs(1) keys len att some srcs(3) show ?L
      by (cases "resolved_sources sc") (auto simp: page_conflicts_def Let_def sc_eq)
  qed
qed

section \<open>All pages\<close>

abbreviation env_db :: "('fd, 'id) scan_env \<Rightarrow> database" where
  "env_db e \<equiv> connection (scan_store e)"

abbreviation page_rows :: "database \<Rightarrow> StatePathCursor option \<Rightarrow> state_path_row list" where
  "page_rows db after \<equiv> state_page db (map_option cursor_key after) STATE_PATH_ADMISSION_PAGE_SIZE"

lemma page_size: "STATE_PATH_ADMISSION_PAGE_SIZE = 256" "query_limit 256 = Inr 256"
  by (simp_all add: STATE_PATH_ADMISSION_PAGE_SIZE_def query_limit_def i64_try_from_def i64_max_def)

lemma read_page:
  assumes "state_paths_ok (env_db e)" "sql_ok (scan_tick e)"
  shows "snd (state_blocking_paths (scan_tick e) after STATE_PATH_ADMISSION_PAGE_SIZE (scan_store e)) =
    Inr (let rows = page_rows (env_db e) after in
         \<lparr> paths = map blocking_of rows,
           next_cursor = (if length rows = 256 \<and> rows \<noteq> [] then Some (cursor_of (last rows)) else None) \<rparr>)"
  using query_page [OF assms(1), of 256 after] assms(2)
  by (simp add: state_blocking_paths_def page_size read_only_def)

lemma scan_step:
  assumes "state_paths_ok (env_db (env n))" "sql_ok (scan_tick (env n))"
  shows "scan_pages (Suc fuel) env root root_id n after sc =
    (let rows = page_rows (env_db (env n)) after in
     case page_conflicts (scan_kernel (env n)) root root_id (map blocking_of rows) sc of
       (sc, True) \<Rightarrow> Some (Inr True)
     | (sc, False) \<Rightarrow>
         if length rows = 256 \<and> rows \<noteq> []
         then scan_pages fuel env root root_id (Suc n) (Some (cursor_of (last rows))) sc
         else Some (Inr False))"
proof -
  define rows where "rows = page_rows (env_db (env n)) after"
  define full where "full \<longleftrightarrow> length rows = 256 \<and> rows \<noteq> []"
  obtain sc' b where p: "page_conflicts (scan_kernel (env n)) root root_id (map blocking_of rows) sc = (sc', b)" by fastforce
  show ?thesis
    unfolding scan_pages.simps(2) read_page [OF assms] Let_def rows_def [symmetric] full_def [symmetric]
    by (cases b; cases full) (simp_all add: p)
qed

lemma scan_step_False:
  assumes "scan_pages (Suc fuel) env root root_id n after sc = Some (Inr False)" "state_paths_ok (env_db (env n))"
  shows "sql_ok (scan_tick (env n))"
  using assms by (cases "sql_ok (scan_tick (env n))")
    (auto simp: state_blocking_paths_def page_size read_only_def)

declare scan_pages.simps(2) [simp del]

text \<open>A row behind the cursor is on the page, or the page is full and ends before the row.\<close>

lemma row_on_page_or_later:
  assumes ok: "state_paths_ok db" and r: "r \<in> set (state_paths db)"
    and later: "\<And>c. after = Some c \<Longrightarrow> cursor_key c < s_key r"
  defines "rows \<equiv> page_rows db after"
  shows "r \<in> set rows \<or> length rows = 256 \<and> rows \<noteq> [] \<and> s_key (last rows) < s_key r"
proof (rule disjCI)
  let ?rest = "filter (\<lambda>r. case map_option cursor_key after of None \<Rightarrow> True | Some k \<Rightarrow> k < s_key r) (sort_key s_key (state_paths db))"
  have rows: "rows = take 256 ?rest" by (simp add: rows_def state_page_def page_size)
  have mem: "r \<in> set ?rest" using r later by (auto split: option.splits)
  have sorted: "sorted_wrt (<) (map s_key ?rest)"
    using state_path_pages.rows_sorted [OF ok] by (simp add: sorted_wrt_map sorted_wrt_filter)
  assume "\<not> (length rows = 256 \<and> rows \<noteq> [] \<and> s_key (last rows) < s_key r)"
  show "r \<in> set rows"
  proof (rule ccontr)
    assume out: "r \<notin> set rows"
    with mem have d: "r \<in> set (drop 256 ?rest)"
      unfolding rows by (metis Un_iff append_take_drop_id set_append)
    then have "256 < length ?rest" by (cases "256 < length ?rest") auto
    then have len: "length rows = 256" "rows \<noteq> []" by (auto simp: rows)
    have "sorted_wrt (<) (map s_key (rows @ drop 256 ?rest))" using sorted by (simp only: rows append_take_drop_id)
    then have "s_key (last rows) < s_key r" using d len(2) by (auto simp: sorted_wrt_append)
    with len \<open>\<not> (length rows = 256 \<and> rows \<noteq> [] \<and> s_key (last rows) < s_key r)\<close> show False by simp
  qed
qed

text \<open>A scan that answers no conflict read a clear page, and went on when the page was full.\<close>

lemma scan_clear_page:
  assumes scan: "scan_pages (Suc fuel) env root root_id n after sc = Some (Inr False)" and ok: "state_paths_ok (env_db (env n))"
    and ne: "page_rows (env_db (env n)) after \<noteq> []"
  obtains srcs where
    "sources_known (scan_kernel (env n)) root root_id sc srcs"
    "list_all (path_clear (scan_kernel (env n)) root root_id (relation sc) srcs) (map blocking_of (page_rows (env_db (env n)) after))"
    "length (page_rows (env_db (env n)) after) = 256 \<Longrightarrow>
       scan_pages fuel env root root_id (Suc n) (Some (cursor_of (last (page_rows (env_db (env n)) after))))
         (sc\<lparr>resolved_sources := Some srcs\<rparr>) = Some (Inr False)"
proof -
  define rows where "rows = page_rows (env_db (env n)) after"
  define full where "full \<longleftrightarrow> length rows = 256 \<and> rows \<noteq> []"
  have sql: "sql_ok (scan_tick (env n))" by (rule scan_step_False [OF scan ok])
  obtain sc' b where p: "page_conflicts (scan_kernel (env n)) root root_id (map blocking_of rows) sc = (sc', b)" by fastforce
  note step = scan [unfolded scan_step [where env = env and n = n, OF ok sql] Let_def rows_def [symmetric] full_def [symmetric] p]
  have b: "\<not> b" using step by (cases b) simp_all
  have "map blocking_of rows \<noteq> []" using ne by (simp add: rows_def)
  from iffD1 [OF page_conflicts_clear [OF this] p [unfolded eq_False [THEN iffD2, OF b]]] obtain srcs where srcs: "sources_known (scan_kernel (env n)) root root_id sc srcs"
    "list_all (path_clear (scan_kernel (env n)) root root_id (relation sc) srcs) (map blocking_of rows)"
    "sc' = sc\<lparr>resolved_sources := Some srcs\<rparr>" by blast
  have "scan_pages fuel env root root_id (Suc n) (Some (cursor_of (last rows))) (sc\<lparr>resolved_sources := Some srcs\<rparr>) = Some (Inr False)"
    if "length rows = 256"
  proof -
    have full unfolding full_def using that ne [folded rows_def] by blast
    then show ?thesis using step b srcs(3) by simp
  qed
  with srcs(1,2) show thesis by (intro that [of srcs]) (simp_all only: rows_def)
qed

lemma scan_visits_stable:
  assumes ok: "\<And>m. state_paths_ok (env_db (env m))" and r: "\<And>m. r \<in> set (state_paths (env_db (env m)))"
    and later: "\<And>c. after = Some c \<Longrightarrow> cursor_key c < s_key r"
    and scan: "scan_pages fuel env root root_id n after sc = Some (Inr False)"
  shows "\<exists>i m srcs. n \<le> i \<and> i \<le> m \<and> sources_known (scan_kernel (env i)) root root_id sc srcs \<and>
    path_clear (scan_kernel (env m)) root root_id (relation sc) srcs (blocking_of r)"
  using later scan
proof (induction fuel arbitrary: n after sc)
  case (Suc fuel)
  let ?rows = "page_rows (env_db (env n)) after"
  have cases: "r \<in> set ?rows \<or> length ?rows = 256 \<and> ?rows \<noteq> [] \<and> s_key (last ?rows) < s_key r"
    by (rule row_on_page_or_later [OF ok r Suc.prems(1)])
  then have ne: "?rows \<noteq> []" by (metis empty_iff list.set(1))
  obtain srcs where srcs: "sources_known (scan_kernel (env n)) root root_id sc srcs"
    "list_all (path_clear (scan_kernel (env n)) root root_id (relation sc) srcs) (map blocking_of ?rows)"
    "length ?rows = 256 \<Longrightarrow> scan_pages fuel env root root_id (Suc n) (Some (cursor_of (last ?rows)))
         (sc\<lparr>resolved_sources := Some srcs\<rparr>) = Some (Inr False)"
    by (rule scan_clear_page [OF Suc.prems(2) ok ne]) (rule that)
  show ?case
  proof (cases "r \<in> set ?rows")
    case True
    then have "path_clear (scan_kernel (env n)) root root_id (relation sc) srcs (blocking_of r)"
      using srcs(2) unfolding list_all_iff set_map by (rule bspec [rotated, OF imageI])
    with srcs(1) show ?thesis by blast
  next
    case False
    with cases have full: "length ?rows = 256" "s_key (last ?rows) < s_key r" by blast+
    have next_key: "cursor_key c < s_key r" if "Some (cursor_of (last ?rows)) = Some c" for c
      using that full(2) cursor_key_of by (metis option.inject)
    obtain i m srcs' where m: "Suc n \<le> i" "i \<le> m"
      "sources_known (scan_kernel (env i)) root root_id (sc\<lparr>resolved_sources := Some srcs\<rparr>) srcs'"
      "path_clear (scan_kernel (env m)) root root_id (relation (sc\<lparr>resolved_sources := Some srcs\<rparr>)) srcs' (blocking_of r)"
      using Suc.IH [OF next_key srcs(3) [OF full(1)]] by blast
    have "srcs' = srcs" using m(3) by (simp add: sources_known_def)
    with m(4) have "path_clear (scan_kernel (env m)) root root_id (relation sc) srcs (blocking_of r)" by simp
    moreover have "n \<le> m" using m(1,2) by simp
    ultimately show ?thesis using srcs(1) by blast
  qed
qed simp

text \<open>The answer of a scan whose pages are all read in one state: a conflict exactly when a path is
  left that is not clear.\<close>

definition suffix_conflict ::
  "('fd, 'id) kernel \<Rightarrow> string \<Rightarrow> 'id \<Rightarrow> 'id StatePathScanner \<Rightarrow> StateBlockingPath list \<Rightarrow> bool"
where
  "suffix_conflict K root root_id sc bs \<longleftrightarrow>
     bs \<noteq> [] \<and> (\<nexists>srcs. sources_known K root root_id sc srcs \<and> list_all (path_clear K root root_id (relation sc) srcs) bs)"

lemma suffix_conflict_append:
  assumes "xs \<noteq> []" "page_conflicts K root root_id xs sc = (sc', False)"
  shows "suffix_conflict K root root_id sc (xs @ ys) \<longleftrightarrow> suffix_conflict K root root_id sc' ys"
proof -
  from iffD1 [OF page_conflicts_clear [OF assms(1)] assms(2)] obtain srcs where
    srcs: "sources_known K root root_id sc srcs" "list_all (path_clear K root root_id (relation sc) srcs) xs"
      "sc' = sc\<lparr>resolved_sources := Some srcs\<rparr>" by blast
  have only: "sources_known K root root_id sc zs \<longleftrightarrow> zs = srcs" for zs
    using srcs(1) sources_known_unique [of K root root_id sc zs srcs] by auto
  have known: "sources_known K root root_id sc' zs \<longleftrightarrow> zs = srcs" for zs
    by (simp add: srcs(3) sources_known_def)
  have rel: "relation sc' = relation sc" by (simp add: srcs(3))
  show ?thesis using assms(1) srcs(2) by (cases "ys = []") (simp_all add: suffix_conflict_def only known rel)
qed

lemma suffix_conflict_page:
  assumes "xs \<noteq> []" "page_conflicts K root root_id xs sc = (sc', True)"
  shows "suffix_conflict K root root_id sc (xs @ ys)"
proof -
  have "\<not> (\<exists>srcs. sources_known K root root_id sc srcs \<and> list_all (path_clear K root root_id (relation sc) srcs) xs)"
  proof
    assume "\<exists>srcs. sources_known K root root_id sc srcs \<and> list_all (path_clear K root root_id (relation sc) srcs) xs"
    then obtain srcs where "sources_known K root root_id sc srcs" "list_all (path_clear K root root_id (relation sc) srcs) xs"
      by blast
    then have "page_conflicts K root root_id xs sc = (sc\<lparr>resolved_sources := Some srcs\<rparr>, False)"
      by (intro iffD2 [OF page_conflicts_clear [OF assms(1)]] exI [of _ srcs]) simp
    with assms(2) show False by simp
  qed
  with assms(1) show ?thesis by (auto simp: suffix_conflict_def)
qed

lemma scan_suffix:
  assumes ok: "state_paths_ok (env_db e)" and sql: "sql_ok (scan_tick e)"
    and split: "sort_key s_key (state_paths (env_db e)) = xs @ ys"
    and cur: "map_option cursor_key after = (if xs = [] then None else Some (s_key (last xs)))"
    and fuel: "length ys div 256 < fuel"
  shows "scan_pages fuel (\<lambda>_. e) root root_id n after sc =
    Some (Inr (suffix_conflict (scan_kernel e) root root_id sc (map blocking_of ys)))"
  using split cur fuel
proof (induction fuel arbitrary: xs ys after n sc)
  case (Suc fuel)
  define p rest where "p = take 256 ys" and "rest = drop 256 ys"
  have ys: "ys = p @ rest" by (simp add: p_def rest_def)
  have rows: "page_rows (env_db e) after = p"
    unfolding p_def page_size(1) by (rule state_path_pages.page_of_suffix [OF ok Suc.prems(1,2)])
  define full where "full \<longleftrightarrow> length p = 256 \<and> p \<noteq> []"
  obtain sc' b where c: "page_conflicts (scan_kernel e) root root_id (map blocking_of p) sc = (sc', b)" by fastforce
  have step: "scan_pages (Suc fuel) (\<lambda>_. e) root root_id n after sc = (if b then Some (Inr True)
      else if full then scan_pages fuel (\<lambda>_. e) root root_id (Suc n) (Some (cursor_of (last p))) sc' else Some (Inr False))"
    unfolding scan_step [where env = "\<lambda>_. e" and n = n, OF ok sql] Let_def rows full_def [symmetric] c by (cases b) simp_all
  show ?case
  proof (cases "p = []")
    case True
    then have "ys = []" by (simp add: p_def)
    moreover have "b = False" using c True by (simp add: page_conflicts_def)
    ultimately show ?thesis using True by (simp add: step full_def suffix_conflict_def)
  next
    case ne: False
    then have ne': "map blocking_of p \<noteq> []" by simp
    show ?thesis
    proof (cases b)
      case True
      with c have "suffix_conflict (scan_kernel e) root root_id sc (map blocking_of p @ map blocking_of rest)"
        by (intro suffix_conflict_page [OF ne', of _ _ _ _ sc']) simp
      with True show ?thesis by (simp add: step ys)
    next
      case False
      then have tail: "suffix_conflict (scan_kernel e) root root_id sc (map blocking_of ys) \<longleftrightarrow>
          suffix_conflict (scan_kernel e) root root_id sc' (map blocking_of rest)"
        unfolding ys map_append using c by (intro suffix_conflict_append [OF ne']) simp
      show ?thesis
      proof (cases full)
        case True
        have "scan_pages fuel (\<lambda>_. e) root root_id (Suc n) (Some (cursor_of (last p))) sc' =
            Some (Inr (suffix_conflict (scan_kernel e) root root_id sc' (map blocking_of rest)))"
        proof (rule Suc.IH [of "xs @ p"])
          show "sort_key s_key (state_paths (env_db e)) = (xs @ p) @ rest" using Suc.prems(1) ys by simp
          show "map_option cursor_key (Some (cursor_of (last p))) =
              (if xs @ p = [] then None else Some (s_key (last (xs @ p))))" using ne cursor_key_of by simp
          have "length ys = 256 + length rest" using True by (simp add: full_def ys)
          with Suc.prems(3) show "length rest div 256 < fuel" by simp
        qed
        with True \<open>\<not> b\<close> tail show ?thesis by (simp add: step)
      next
        case False
        with ne have "length p \<noteq> 256" by (simp add: full_def)
        then have "length ys < 256" unfolding p_def length_take by linarith
        then have "rest = []" by (simp add: rest_def)
        with False \<open>\<not> b\<close> tail show ?thesis by (simp add: step suffix_conflict_def)
      qed
    qed
  qed
qed simp

lemma conflict_sources_known:
  "sources_known K root root_id (state_path_conflict_scanner requested) srcs \<longleftrightarrow>
     sources_resolved K root root_id (map normalize_key requested) srcs"
  "sources_known K root root_id (state_path_descendant_scanner p) srcs \<longleftrightarrow>
     sources_resolved K root root_id [normalize_key p] srcs"
  "relation (state_path_conflict_scanner requested) = SymmetricConflict"
  "relation (state_path_descendant_scanner p) = StrictDescendant"
  by (simp_all add: sources_known_def state_path_conflict_scanner_def state_path_descendant_scanner_def)

lemma clear_symmetric:
  "path_clear K root root_id SymmetricConflict srcs b \<longleftrightarrow>
     (\<exists>path key. resolve_state_path root (blocking_path b) = Inr path \<and>
        resolved_path_key_blocking K root root_id (normalize_key path) = Inr key \<and>
        (\<forall>s \<in> set srcs. \<not> path_keys_conflict s \<lparr> lexical = normalize_key path, resolved = key \<rparr>))"
  by (auto simp: path_clear_def relation_holds_def list_ex_iff split: sum.splits)

section \<open>A store with one purge job\<close>

definition demo_scan_env :: "(string list, nat) scan_env" where
  "demo_scan_env = \<lparr> scan_tick = demo_tick 0, scan_store = demo_purge_worker, scan_kernel = demo_kernel \<rparr>"

definition demo_trash :: state_path_row where
  "demo_trash = \<lparr> s_kind = 1, s_owner = p_owner demo_ready_row, s_id = p_id demo_ready_row, s_slot = 1,
     s_path = ''b'', s_replace = 0 \<rparr>"

lemma demo_scan_ok:
  "state_paths_ok (env_db demo_scan_env)" "sql_ok (scan_tick demo_scan_env)"
  "state_paths (env_db demo_scan_env) = [demo_trash]"
  using demo_purge_ok demo_ready_ok
  by (simp_all add: demo_scan_env_def state_paths_ok_def demo_purge_worker_def keys_distinct_def demo_tick_def
      state_paths_def demo_trash_def demo_ready_row_def demo_job_def set_ready_def prepared_row_def)

definition demo_entry_key :: "string \<Rightarrow> nat ResolvedPathKey" where
  "demo_entry_key name =
     \<lparr>resolved_parent = 0, unresolved_tail = [name], ancestor_directories = [0], target_directory = None\<rparr>"

lemma demo_entry_resolves:
  "resolved_path_key_blocking demo_kernel ''/r'' 0 ''/r/b'' = Inr (demo_entry_key ''b'')"
  "resolved_path_key_blocking demo_kernel ''/r'' 0 ''/r/c'' = Inr (demo_entry_key ''c'')"
proof -
  have anc: "directory_ancestry_from_root demo_kernel 0 [] = Inr [0]"
    by (simp_all add: directory_ancestry_from_root_def demo_kernel_def MAX_DIRECTORY_ANCESTORS_def numeral_eq_Suc)
  have rel: "relative_path ''/r'' ''/r/b'' = Inr ''b''" "relative_path ''/r'' ''/r/c'' = Inr ''c''" by code_simp+
  have comps: "components ''b'' = [Normal ''b'']" "components ''c'' = [Normal ''c'']" by code_simp+
  have deep: "resolve_deepest_parent_prefix demo_kernel [] = Inr ([], 0)" by code_simp
  have tgt: "find_target_directory demo_kernel [] ''b'' = Inr None" "find_target_directory demo_kernel [] ''c'' = Inr None"
    by code_simp+
  show "resolved_path_key_blocking demo_kernel ''/r'' 0 ''/r/b'' = Inr (demo_entry_key ''b'')"
    "resolved_path_key_blocking demo_kernel ''/r'' 0 ''/r/c'' = Inr (demo_entry_key ''c'')"
    by (simp_all add: resolved_path_key_blocking_def demo_entry_key_def rel comps deep anc tgt)
qed

lemma demo_paths_normal:
  "resolve_state_path ''/r'' ''b'' = Inr ''/r/b''" "normalize_key ''/r/b'' = ''/r/b''" "normalize_key ''/r/c'' = ''/r/c''"
  by code_simp+

lemma demo_keys_apart:
  "\<not> path_keys_conflict \<lparr> lexical = ''/r/c'', resolved = demo_entry_key ''c'' \<rparr>
     \<lparr> lexical = ''/r/b'', resolved = demo_entry_key ''b'' \<rparr>"
  by code_simp

lemma demo_sources:
  "sources_resolved demo_kernel ''/r'' 0 [normalize_key ''/r/c''] srcs \<longleftrightarrow>
     srcs = [\<lparr> lexical = ''/r/c'', resolved = demo_entry_key ''c'' \<rparr>]"
  by (auto simp: sources_resolved_def list_all2_Cons1 demo_paths_normal demo_entry_resolves)

lemma demo_trash_clear:
  "path_clear demo_kernel ''/r'' 0 SymmetricConflict [\<lparr> lexical = ''/r/c'', resolved = demo_entry_key ''c'' \<rparr>]
     (blocking_of demo_trash)"
  using demo_keys_apart
  by (simp add: clear_symmetric blocking_of_def demo_trash_def demo_paths_normal demo_entry_resolves)

section \<open>Properties\<close>

text \<open>Claim C32.  A persisted path is never missed: when the scan reports no conflict for the requested
  paths, then every path that the state database held throughout the scan, whatever other rows
  came and went between the pages, was resolved against the file system and its key does not
  conflict with the key of any requested path.  A stored path that cannot be decoded or
  resolved makes the scan report a conflict.\<close>

theorem persisted_conflict_never_missed:
  assumes "\<And>m. state_paths_ok (connection (scan_store (env m)))"
    and "\<And>m. r \<in> set (state_paths (connection (scan_store (env m))))"
    and scan: "has_persisted_path_conflict fuel slot env root root_id requested = Some (Inr False)"
  shows "\<exists>i m srcs path key.
    sources_resolved (scan_kernel (env i)) root root_id (map normalize_key requested) srcs \<and> i \<le> m \<and>
    resolve_state_path root (s_path r) = Inr path \<and>
    resolved_path_key_blocking (scan_kernel (env m)) root root_id (normalize_key path) = Inr key \<and>
    (\<forall>s \<in> set srcs. \<not> path_keys_conflict s \<lparr> lexical = normalize_key path, resolved = key \<rparr>)"
proof -
  have "scan_pages fuel env root root_id 0 None (state_path_conflict_scanner requested) = Some (Inr False)"
    using scan by (simp add: has_persisted_path_conflict_def split: if_splits)
  from scan_visits_stable [OF assms(1,2) _ this]
  obtain i m srcs where c: "i \<le> m" "sources_resolved (scan_kernel (env i)) root root_id (map normalize_key requested) srcs"
    "path_clear (scan_kernel (env m)) root root_id SymmetricConflict srcs (blocking_of r)"
    unfolding conflict_sources_known by blast
  from c(3) have "\<exists>path key. resolve_state_path root (s_path r) = Inr path \<and>
      resolved_path_key_blocking (scan_kernel (env m)) root root_id (normalize_key path) = Inr key \<and>
      (\<forall>s \<in> set srcs. \<not> path_keys_conflict s \<lparr> lexical = normalize_key path, resolved = key \<rparr>)"
    unfolding clear_symmetric by (simp add: blocking_of_def)
  with c(1,2) show ?thesis by blast
qed

theorem persisted_conflict_never_missed_witness:
  "has_persisted_path_conflict 2 True (\<lambda>_. demo_scan_env) ''/r'' 0 [''/r/c''] = Some (Inr False) \<and>
   (\<exists>key. resolved_path_key_blocking demo_kernel ''/r'' 0 ''/r/b'' = Inr key \<and>
      \<not> path_keys_conflict \<lparr> lexical = ''/r/c'', resolved = demo_entry_key ''c'' \<rparr> \<lparr> lexical = ''/r/b'', resolved = key \<rparr>)"
proof -
  let ?sc = "state_path_conflict_scanner [''/r/c''] :: nat StatePathScanner"
  have "scan_pages 2 (\<lambda>_. demo_scan_env) ''/r'' 0 0 None ?sc =
      Some (Inr (suffix_conflict demo_kernel ''/r'' 0 ?sc [blocking_of demo_trash]))"
    using scan_suffix [OF demo_scan_ok(1,2), of "[]" "[demo_trash]" None 2 "''/r''" 0 0 ?sc] demo_scan_ok(3)
    by (simp add: demo_scan_env_def)
  moreover have "\<not> suffix_conflict demo_kernel ''/r'' 0 ?sc [blocking_of demo_trash]"
    using demo_trash_clear by (simp add: suffix_conflict_def conflict_sources_known demo_sources)
  ultimately have scan: "has_persisted_path_conflict 2 True (\<lambda>_. demo_scan_env) ''/r'' 0 [''/r/c''] = Some (Inr False)"
    by (simp add: has_persisted_path_conflict_def)
  have r: "demo_trash \<in> set (state_paths (connection (scan_store demo_scan_env)))" using demo_scan_ok(3) by simp
  have "\<exists>srcs path key. sources_resolved demo_kernel ''/r'' 0 [normalize_key ''/r/c''] srcs \<and>
      resolve_state_path ''/r'' ''b'' = Inr path \<and>
      resolved_path_key_blocking demo_kernel ''/r'' 0 (normalize_key path) = Inr key \<and>
      (\<forall>s \<in> set srcs. \<not> path_keys_conflict s \<lparr> lexical = normalize_key path, resolved = key \<rparr>)"
    using persisted_conflict_never_missed [OF demo_scan_ok(1) r scan]
    by (simp add: demo_scan_env_def demo_trash_def) blast
  then show ?thesis unfolding demo_sources using scan by (auto simp: demo_paths_normal)
qed

text \<open>Claim C33.  The scan ends and decides: read in one state of the database, both scans return after at
  most one request per 256 rows and one more for what is left, and they report no conflict exactly when there is no
  persisted path or when the request resolves and every persisted path is clear of it.\<close>

theorem state_scan_decides:
  assumes "state_paths_ok (connection (scan_store e))" "sql_ok (scan_tick e)"
    and "length (state_paths (connection (scan_store e))) div 256 < fuel"
  shows "\<exists>conflict descendant.
    has_persisted_path_conflict fuel True (\<lambda>_. e) root root_id requested = Some (Inr conflict) \<and>
    has_persisted_path_descendant fuel True (\<lambda>_. e) root root_id p = Some (Inr descendant) \<and>
    (\<not> conflict \<longleftrightarrow> state_paths (connection (scan_store e)) = [] \<or>
       (\<exists>srcs. sources_resolved (scan_kernel e) root root_id (map normalize_key requested) srcs \<and>
          (\<forall>r \<in> set (state_paths (connection (scan_store e))).
             path_clear (scan_kernel e) root root_id SymmetricConflict srcs (blocking_of r)))) \<and>
    (\<not> descendant \<longleftrightarrow> state_paths (connection (scan_store e)) = [] \<or>
       (\<exists>srcs. sources_resolved (scan_kernel e) root root_id [normalize_key p] srcs \<and>
          (\<forall>r \<in> set (state_paths (connection (scan_store e))).
             path_clear (scan_kernel e) root root_id StrictDescendant srcs (blocking_of r))))"
proof -
  let ?rows = "sort_key s_key (state_paths (connection (scan_store e)))"
  let ?conf = "\<lambda>sc. suffix_conflict (scan_kernel e) root root_id sc (map blocking_of ?rows)"
  have scan: "scan_pages fuel (\<lambda>_. e) root root_id 0 None sc = Some (Inr (?conf sc))" for sc
    by (rule scan_suffix [OF assms(1,2), of "[]"]) (use assms(3) in simp_all)
  have empty: "?rows = [] \<longleftrightarrow> state_paths (connection (scan_store e)) = []"
    by (metis set_empty set_sort)
  show ?thesis
    by (rule exI [of _ "?conf (state_path_conflict_scanner requested)"],
        rule exI [of _ "?conf (state_path_descendant_scanner p)"])
      (simp add: has_persisted_path_conflict_def has_persisted_path_descendant_def scan suffix_conflict_def empty
        conflict_sources_known list_all_iff)
qed

theorem state_scan_decides_witness:
  "state_paths_ok (connection (scan_store demo_scan_env)) \<and>
   has_persisted_path_conflict 1 True (\<lambda>_. demo_scan_env) ''/r'' 0 [''/r/c''] = Some (Inr False)"
proof -
  obtain c d where c: "has_persisted_path_conflict 1 True (\<lambda>_. demo_scan_env) ''/r'' 0 [''/r/c''] = Some (Inr c)"
    "\<not> c \<longleftrightarrow> state_paths (connection (scan_store demo_scan_env)) = [] \<or>
       (\<exists>srcs. sources_resolved (scan_kernel demo_scan_env) ''/r'' 0 (map normalize_key [''/r/c'']) srcs \<and>
          (\<forall>r \<in> set (state_paths (connection (scan_store demo_scan_env))).
             path_clear (scan_kernel demo_scan_env) ''/r'' 0 SymmetricConflict srcs (blocking_of r)))"
    using state_scan_decides [OF demo_scan_ok(1,2), of 1 "''/r''" 0 "[''/r/c'']" "''/r/c''"] demo_scan_ok(3) by auto
  have "scan_kernel demo_scan_env = demo_kernel" by (simp add: demo_scan_env_def)
  then have "\<not> c" using c(2) demo_trash_clear by (simp add: demo_scan_ok(3) demo_sources)
  with c(1) demo_scan_ok(1) show ?thesis by simp
qed

end
