(* ===== verification/Problem.thy ===== *)
theory Problem
  imports Prelude
begin

text \<open>
  Public states and problem documents (\<^verbatim>\<open>server/protocol.rs\<close>, \<^verbatim>\<open>server/problem.rs\<close>): the wire names of
  the operation and upload states, the catalogue of error codes with the compile-time check of
  \<^verbatim>\<open>ErrorCode::checked\<close>, recovery advice, the construction of an \<^verbatim>\<open>ApiError\<close> and its rendering into
  a response.

  A response is its status, its headers and its body.  A JSON body is kept as the list of the
  fields that the derived \<^verbatim>\<open>Serialize\<close> instances write, in declaration order and without the
  fields that \<^verbatim>\<open>skip_serializing_if\<close> drops; its text is the work of the JSON library.  What the
  \<^verbatim>\<open>http\<close> crate decides (reason phrases, valid status codes, valid header values) is an argument.
\<close>

section \<open>Public states\<close>

datatype OperationPublicState = OpRunning | OpSucceeded | OpFailed | OpRejected | OpUnknown

fun operation_wire_name :: "OperationPublicState \<Rightarrow> string" where
  "operation_wire_name OpRunning = ''running''"
| "operation_wire_name OpSucceeded = ''succeeded''"
| "operation_wire_name OpFailed = ''failed''"
| "operation_wire_name OpRejected = ''rejected''"
| "operation_wire_name OpUnknown = ''unknown''"

datatype UploadPublicState =
  UpRunning | UpAwaitingConfirmation | UpCommitted | UpRejected | UpNotSeen | UpNotStarted | UpUnknown

fun upload_wire_name :: "UploadPublicState \<Rightarrow> string" where
  "upload_wire_name UpRunning = ''running''"
| "upload_wire_name UpAwaitingConfirmation = ''awaiting-confirmation''"
| "upload_wire_name UpCommitted = ''committed''"
| "upload_wire_name UpRejected = ''rejected''"
| "upload_wire_name UpNotSeen = ''not-seen''"
| "upload_wire_name UpNotStarted = ''not-started''"
| "upload_wire_name UpUnknown = ''unknown''"

section \<open>Error codes\<close>

datatype ErrorCode = ErrorCode (as_str: string)

text \<open>\<^verbatim>\<open>None\<close> is a failed assertion, which stops the compilation.\<close>

definition checked :: "string \<Rightarrow> ErrorCode option" where
  "checked value =
     (if value = [] \<or> 64 < length value then None
      else if \<not> (CHR ''a'' \<le> hd value \<and> hd value \<le> CHR ''z'') then None
      else if list_ex (\<lambda>byte. \<not> (CHR ''a'' \<le> byte \<and> byte \<le> CHR ''z'' \<or>
                                CHR ''0'' \<le> byte \<and> byte \<le> CHR ''9'' \<or> byte = CHR ''_'')) (tl value) then None
      else Some (ErrorCode value))"

text \<open>The catalogue, by wire name and then by constant.\<close>

definition ERROR_CODES :: "string list" where
  "ERROR_CODES =
     [''api_endpoint_not_found'',
      ''delete_not_committed'',
      ''delete_state_conflict'',
      ''delete_target_changed'',
      ''destination_changed'',
      ''destination_exists'',
      ''destination_directory_not_found'',
      ''destination_not_directory'',
      ''directory_access_forbidden'',
      ''directory_changed'',
      ''directory_depth_limit'',
      ''directory_entry_limit'',
      ''directory_into_itself'',
      ''directory_memory_limit'',
      ''directory_operation_failed'',
      ''directory_operation_limit'',
      ''directory_operation_timeout'',
      ''directory_overwrite_forbidden'',
      ''directory_sort_limit'',
      ''directory_symlink_loop'',
      ''filesystem_timeout'',
      ''insufficient_storage'',
      ''internal_error'',
      ''invalid_destination_path'',
      ''invalid_destination_revision'',
      ''invalid_job_id'',
      ''invalid_json'',
      ''invalid_list_cursor'',
      ''invalid_list_limit'',
      ''invalid_list_path'',
      ''invalid_move_path'',
      ''invalid_operation_id'',
      ''invalid_path'',
      ''invalid_rename_name'',
      ''invalid_rename_path'',
      ''invalid_request'',
      ''invalid_request_body'',
      ''invalid_source_path'',
      ''invalid_source_revision'',
      ''invalid_upload_id'',
      ''invalid_upload_length'',
      ''invalid_upload_offset'',
      ''invalid_upload_overwrite'',
      ''invalid_target_revision'',
      ''job_not_found'',
      ''job_store_unavailable'',
      ''list_cursor_unavailable'',
      ''list_path_not_directory'',
      ''list_path_not_found'',
      ''list_snapshot_limit'',
      ''method_not_allowed'',
      ''mkdir_state_conflict'',
      ''mkdir_state_unavailable'',
      ''move_state_conflict'',
      ''move_state_unavailable'',
      ''operation_id_conflict'',
      ''operation_in_progress'',
      ''operation_not_committed'',
      ''operation_registry_full'',
      ''operation_result_unknown'',
      ''operation_store_unavailable'',
      ''outcome_uncertain'',
      ''path_wait_concurrency_limit'',
      ''path_exists'',
      ''purge_backlog_full'',
      ''purge_state_unavailable'',
      ''request_body_too_large'',
      ''request_conflict'',
      ''request_forbidden'',
      ''request_not_found'',
      ''request_timeout'',
      ''source_changed'',
      ''source_revision_required'',
      ''destination_revision_required'',
      ''rename_state_conflict'',
      ''rename_state_unavailable'',
      ''root_delete_forbidden'',
      ''search_query_too_long'',
      ''search_result_limit'',
      ''server_stopping'',
      ''source_equals_destination'',
      ''source_not_found'',
      ''target_not_found'',
      ''unsupported_filename'',
      ''unsupported_media_type'',
      ''upload_body_exceeds_remaining_length'',
      ''upload_checkpoint_persist_failed'',
      ''upload_committed_length_mismatch'',
      ''upload_concurrency_limit'',
      ''upload_id_rejected'',
      ''upload_idle_timeout'',
      ''upload_in_progress'',
      ''upload_insufficient_storage'',
      ''upload_length_changed'',
      ''upload_length_mismatch'',
      ''upload_metadata_preservation_refused'',
      ''upload_not_published'',
      ''upload_offset_changed'',
      ''upload_outcome_unknown'',
      ''upload_path_wait_timeout'',
      ''upload_precommit_failed'',
      ''upload_preflight_concurrency_limit'',
      ''upload_publication_durability_unknown'',
      ''upload_publication_outcome_unknown'',
      ''upload_result_unknown'',
      ''upload_session_conflict'',
      ''upload_session_not_found'',
      ''upload_session_store_full'',
      ''upload_size_limit_exceeded'',
      ''upload_stage_conflict'',
      ''upload_stage_invalid'',
      ''upload_state_conflict'',
      ''upload_state_unavailable'',
      ''upload_target_changed'',
      ''upload_target_inspection_timeout'',
      ''upload_target_not_found'',
      ''upload_terminal_record_failed'']"

abbreviation API_ENDPOINT_NOT_FOUND :: ErrorCode where "API_ENDPOINT_NOT_FOUND \<equiv> ErrorCode ''api_endpoint_not_found''"
abbreviation DELETE_NOT_COMMITTED :: ErrorCode where "DELETE_NOT_COMMITTED \<equiv> ErrorCode ''delete_not_committed''"
abbreviation DELETE_STATE_CONFLICT :: ErrorCode where "DELETE_STATE_CONFLICT \<equiv> ErrorCode ''delete_state_conflict''"
abbreviation DELETE_TARGET_CHANGED :: ErrorCode where "DELETE_TARGET_CHANGED \<equiv> ErrorCode ''delete_target_changed''"
abbreviation DESTINATION_CHANGED :: ErrorCode where "DESTINATION_CHANGED \<equiv> ErrorCode ''destination_changed''"
abbreviation DESTINATION_EXISTS :: ErrorCode where "DESTINATION_EXISTS \<equiv> ErrorCode ''destination_exists''"
abbreviation DESTINATION_DIRECTORY_NOT_FOUND :: ErrorCode where "DESTINATION_DIRECTORY_NOT_FOUND \<equiv> ErrorCode ''destination_directory_not_found''"
abbreviation DESTINATION_NOT_DIRECTORY :: ErrorCode where "DESTINATION_NOT_DIRECTORY \<equiv> ErrorCode ''destination_not_directory''"
abbreviation DIRECTORY_ACCESS_FORBIDDEN :: ErrorCode where "DIRECTORY_ACCESS_FORBIDDEN \<equiv> ErrorCode ''directory_access_forbidden''"
abbreviation DIRECTORY_CHANGED :: ErrorCode where "DIRECTORY_CHANGED \<equiv> ErrorCode ''directory_changed''"
abbreviation DIRECTORY_DEPTH_LIMIT :: ErrorCode where "DIRECTORY_DEPTH_LIMIT \<equiv> ErrorCode ''directory_depth_limit''"
abbreviation DIRECTORY_ENTRY_LIMIT :: ErrorCode where "DIRECTORY_ENTRY_LIMIT \<equiv> ErrorCode ''directory_entry_limit''"
abbreviation DIRECTORY_INTO_ITSELF :: ErrorCode where "DIRECTORY_INTO_ITSELF \<equiv> ErrorCode ''directory_into_itself''"
abbreviation DIRECTORY_MEMORY_LIMIT :: ErrorCode where "DIRECTORY_MEMORY_LIMIT \<equiv> ErrorCode ''directory_memory_limit''"
abbreviation DIRECTORY_OPERATION_FAILED :: ErrorCode where "DIRECTORY_OPERATION_FAILED \<equiv> ErrorCode ''directory_operation_failed''"
abbreviation DIRECTORY_OPERATION_LIMIT :: ErrorCode where "DIRECTORY_OPERATION_LIMIT \<equiv> ErrorCode ''directory_operation_limit''"
abbreviation DIRECTORY_OPERATION_TIMEOUT :: ErrorCode where "DIRECTORY_OPERATION_TIMEOUT \<equiv> ErrorCode ''directory_operation_timeout''"
abbreviation DIRECTORY_OVERWRITE_FORBIDDEN :: ErrorCode where "DIRECTORY_OVERWRITE_FORBIDDEN \<equiv> ErrorCode ''directory_overwrite_forbidden''"
abbreviation DIRECTORY_SORT_LIMIT :: ErrorCode where "DIRECTORY_SORT_LIMIT \<equiv> ErrorCode ''directory_sort_limit''"
abbreviation DIRECTORY_SYMLINK_LOOP :: ErrorCode where "DIRECTORY_SYMLINK_LOOP \<equiv> ErrorCode ''directory_symlink_loop''"
abbreviation FILESYSTEM_TIMEOUT :: ErrorCode where "FILESYSTEM_TIMEOUT \<equiv> ErrorCode ''filesystem_timeout''"
abbreviation INSUFFICIENT_STORAGE :: ErrorCode where "INSUFFICIENT_STORAGE \<equiv> ErrorCode ''insufficient_storage''"
abbreviation INTERNAL_ERROR :: ErrorCode where "INTERNAL_ERROR \<equiv> ErrorCode ''internal_error''"
abbreviation INVALID_DESTINATION_PATH :: ErrorCode where "INVALID_DESTINATION_PATH \<equiv> ErrorCode ''invalid_destination_path''"
abbreviation INVALID_DESTINATION_REVISION :: ErrorCode where "INVALID_DESTINATION_REVISION \<equiv> ErrorCode ''invalid_destination_revision''"
abbreviation INVALID_JOB_ID :: ErrorCode where "INVALID_JOB_ID \<equiv> ErrorCode ''invalid_job_id''"
abbreviation INVALID_JSON :: ErrorCode where "INVALID_JSON \<equiv> ErrorCode ''invalid_json''"
abbreviation INVALID_LIST_CURSOR :: ErrorCode where "INVALID_LIST_CURSOR \<equiv> ErrorCode ''invalid_list_cursor''"
abbreviation INVALID_LIST_LIMIT :: ErrorCode where "INVALID_LIST_LIMIT \<equiv> ErrorCode ''invalid_list_limit''"
abbreviation INVALID_LIST_PATH :: ErrorCode where "INVALID_LIST_PATH \<equiv> ErrorCode ''invalid_list_path''"
abbreviation INVALID_MOVE_PATH :: ErrorCode where "INVALID_MOVE_PATH \<equiv> ErrorCode ''invalid_move_path''"
abbreviation INVALID_OPERATION_ID :: ErrorCode where "INVALID_OPERATION_ID \<equiv> ErrorCode ''invalid_operation_id''"
abbreviation INVALID_PATH :: ErrorCode where "INVALID_PATH \<equiv> ErrorCode ''invalid_path''"
abbreviation INVALID_RENAME_NAME :: ErrorCode where "INVALID_RENAME_NAME \<equiv> ErrorCode ''invalid_rename_name''"
abbreviation INVALID_RENAME_PATH :: ErrorCode where "INVALID_RENAME_PATH \<equiv> ErrorCode ''invalid_rename_path''"
abbreviation INVALID_REQUEST :: ErrorCode where "INVALID_REQUEST \<equiv> ErrorCode ''invalid_request''"
abbreviation INVALID_REQUEST_BODY :: ErrorCode where "INVALID_REQUEST_BODY \<equiv> ErrorCode ''invalid_request_body''"
abbreviation INVALID_SOURCE_PATH :: ErrorCode where "INVALID_SOURCE_PATH \<equiv> ErrorCode ''invalid_source_path''"
abbreviation INVALID_SOURCE_REVISION :: ErrorCode where "INVALID_SOURCE_REVISION \<equiv> ErrorCode ''invalid_source_revision''"
abbreviation INVALID_UPLOAD_ID :: ErrorCode where "INVALID_UPLOAD_ID \<equiv> ErrorCode ''invalid_upload_id''"
abbreviation INVALID_UPLOAD_LENGTH :: ErrorCode where "INVALID_UPLOAD_LENGTH \<equiv> ErrorCode ''invalid_upload_length''"
abbreviation INVALID_UPLOAD_OFFSET :: ErrorCode where "INVALID_UPLOAD_OFFSET \<equiv> ErrorCode ''invalid_upload_offset''"
abbreviation INVALID_UPLOAD_OVERWRITE :: ErrorCode where "INVALID_UPLOAD_OVERWRITE \<equiv> ErrorCode ''invalid_upload_overwrite''"
abbreviation INVALID_TARGET_REVISION :: ErrorCode where "INVALID_TARGET_REVISION \<equiv> ErrorCode ''invalid_target_revision''"
abbreviation JOB_NOT_FOUND :: ErrorCode where "JOB_NOT_FOUND \<equiv> ErrorCode ''job_not_found''"
abbreviation JOB_STORE_UNAVAILABLE :: ErrorCode where "JOB_STORE_UNAVAILABLE \<equiv> ErrorCode ''job_store_unavailable''"
abbreviation LIST_CURSOR_UNAVAILABLE :: ErrorCode where "LIST_CURSOR_UNAVAILABLE \<equiv> ErrorCode ''list_cursor_unavailable''"
abbreviation LIST_PATH_NOT_DIRECTORY :: ErrorCode where "LIST_PATH_NOT_DIRECTORY \<equiv> ErrorCode ''list_path_not_directory''"
abbreviation LIST_PATH_NOT_FOUND :: ErrorCode where "LIST_PATH_NOT_FOUND \<equiv> ErrorCode ''list_path_not_found''"
abbreviation LIST_SNAPSHOT_LIMIT :: ErrorCode where "LIST_SNAPSHOT_LIMIT \<equiv> ErrorCode ''list_snapshot_limit''"
abbreviation METHOD_NOT_ALLOWED :: ErrorCode where "METHOD_NOT_ALLOWED \<equiv> ErrorCode ''method_not_allowed''"
abbreviation MKDIR_STATE_CONFLICT :: ErrorCode where "MKDIR_STATE_CONFLICT \<equiv> ErrorCode ''mkdir_state_conflict''"
abbreviation MKDIR_STATE_UNAVAILABLE :: ErrorCode where "MKDIR_STATE_UNAVAILABLE \<equiv> ErrorCode ''mkdir_state_unavailable''"
abbreviation MOVE_STATE_CONFLICT :: ErrorCode where "MOVE_STATE_CONFLICT \<equiv> ErrorCode ''move_state_conflict''"
abbreviation MOVE_STATE_UNAVAILABLE :: ErrorCode where "MOVE_STATE_UNAVAILABLE \<equiv> ErrorCode ''move_state_unavailable''"
abbreviation OPERATION_ID_CONFLICT :: ErrorCode where "OPERATION_ID_CONFLICT \<equiv> ErrorCode ''operation_id_conflict''"
abbreviation OPERATION_IN_PROGRESS :: ErrorCode where "OPERATION_IN_PROGRESS \<equiv> ErrorCode ''operation_in_progress''"
abbreviation OPERATION_NOT_COMMITTED :: ErrorCode where "OPERATION_NOT_COMMITTED \<equiv> ErrorCode ''operation_not_committed''"
abbreviation OPERATION_REGISTRY_FULL :: ErrorCode where "OPERATION_REGISTRY_FULL \<equiv> ErrorCode ''operation_registry_full''"
abbreviation OPERATION_RESULT_UNKNOWN :: ErrorCode where "OPERATION_RESULT_UNKNOWN \<equiv> ErrorCode ''operation_result_unknown''"
abbreviation OPERATION_STORE_UNAVAILABLE :: ErrorCode where "OPERATION_STORE_UNAVAILABLE \<equiv> ErrorCode ''operation_store_unavailable''"
abbreviation OUTCOME_UNCERTAIN :: ErrorCode where "OUTCOME_UNCERTAIN \<equiv> ErrorCode ''outcome_uncertain''"
abbreviation PATH_WAIT_CONCURRENCY_LIMIT :: ErrorCode where "PATH_WAIT_CONCURRENCY_LIMIT \<equiv> ErrorCode ''path_wait_concurrency_limit''"
abbreviation PATH_EXISTS :: ErrorCode where "PATH_EXISTS \<equiv> ErrorCode ''path_exists''"
abbreviation PURGE_BACKLOG_FULL :: ErrorCode where "PURGE_BACKLOG_FULL \<equiv> ErrorCode ''purge_backlog_full''"
abbreviation PURGE_STATE_UNAVAILABLE :: ErrorCode where "PURGE_STATE_UNAVAILABLE \<equiv> ErrorCode ''purge_state_unavailable''"
abbreviation REQUEST_BODY_TOO_LARGE :: ErrorCode where "REQUEST_BODY_TOO_LARGE \<equiv> ErrorCode ''request_body_too_large''"
abbreviation REQUEST_CONFLICT :: ErrorCode where "REQUEST_CONFLICT \<equiv> ErrorCode ''request_conflict''"
abbreviation REQUEST_FORBIDDEN :: ErrorCode where "REQUEST_FORBIDDEN \<equiv> ErrorCode ''request_forbidden''"
abbreviation REQUEST_NOT_FOUND :: ErrorCode where "REQUEST_NOT_FOUND \<equiv> ErrorCode ''request_not_found''"
abbreviation REQUEST_TIMEOUT :: ErrorCode where "REQUEST_TIMEOUT \<equiv> ErrorCode ''request_timeout''"
abbreviation SOURCE_CHANGED :: ErrorCode where "SOURCE_CHANGED \<equiv> ErrorCode ''source_changed''"
abbreviation SOURCE_REVISION_REQUIRED :: ErrorCode where "SOURCE_REVISION_REQUIRED \<equiv> ErrorCode ''source_revision_required''"
abbreviation DESTINATION_REVISION_REQUIRED :: ErrorCode where "DESTINATION_REVISION_REQUIRED \<equiv> ErrorCode ''destination_revision_required''"
abbreviation RENAME_STATE_CONFLICT :: ErrorCode where "RENAME_STATE_CONFLICT \<equiv> ErrorCode ''rename_state_conflict''"
abbreviation RENAME_STATE_UNAVAILABLE :: ErrorCode where "RENAME_STATE_UNAVAILABLE \<equiv> ErrorCode ''rename_state_unavailable''"
abbreviation ROOT_DELETE_FORBIDDEN :: ErrorCode where "ROOT_DELETE_FORBIDDEN \<equiv> ErrorCode ''root_delete_forbidden''"
abbreviation SEARCH_QUERY_TOO_LONG :: ErrorCode where "SEARCH_QUERY_TOO_LONG \<equiv> ErrorCode ''search_query_too_long''"
abbreviation SEARCH_RESULT_LIMIT :: ErrorCode where "SEARCH_RESULT_LIMIT \<equiv> ErrorCode ''search_result_limit''"
abbreviation SERVER_STOPPING :: ErrorCode where "SERVER_STOPPING \<equiv> ErrorCode ''server_stopping''"
abbreviation SOURCE_EQUALS_DESTINATION :: ErrorCode where "SOURCE_EQUALS_DESTINATION \<equiv> ErrorCode ''source_equals_destination''"
abbreviation SOURCE_NOT_FOUND :: ErrorCode where "SOURCE_NOT_FOUND \<equiv> ErrorCode ''source_not_found''"
abbreviation TARGET_NOT_FOUND :: ErrorCode where "TARGET_NOT_FOUND \<equiv> ErrorCode ''target_not_found''"
abbreviation UNSUPPORTED_FILENAME :: ErrorCode where "UNSUPPORTED_FILENAME \<equiv> ErrorCode ''unsupported_filename''"
abbreviation UNSUPPORTED_MEDIA_TYPE :: ErrorCode where "UNSUPPORTED_MEDIA_TYPE \<equiv> ErrorCode ''unsupported_media_type''"
abbreviation UPLOAD_BODY_EXCEEDS_REMAINING_LENGTH :: ErrorCode where "UPLOAD_BODY_EXCEEDS_REMAINING_LENGTH \<equiv> ErrorCode ''upload_body_exceeds_remaining_length''"
abbreviation UPLOAD_CHECKPOINT_PERSIST_FAILED :: ErrorCode where "UPLOAD_CHECKPOINT_PERSIST_FAILED \<equiv> ErrorCode ''upload_checkpoint_persist_failed''"
abbreviation UPLOAD_COMMITTED_LENGTH_MISMATCH :: ErrorCode where "UPLOAD_COMMITTED_LENGTH_MISMATCH \<equiv> ErrorCode ''upload_committed_length_mismatch''"
abbreviation UPLOAD_CONCURRENCY_LIMIT :: ErrorCode where "UPLOAD_CONCURRENCY_LIMIT \<equiv> ErrorCode ''upload_concurrency_limit''"
abbreviation UPLOAD_ID_REJECTED :: ErrorCode where "UPLOAD_ID_REJECTED \<equiv> ErrorCode ''upload_id_rejected''"
abbreviation UPLOAD_IDLE_TIMEOUT :: ErrorCode where "UPLOAD_IDLE_TIMEOUT \<equiv> ErrorCode ''upload_idle_timeout''"
abbreviation UPLOAD_IN_PROGRESS :: ErrorCode where "UPLOAD_IN_PROGRESS \<equiv> ErrorCode ''upload_in_progress''"
abbreviation UPLOAD_INSUFFICIENT_STORAGE :: ErrorCode where "UPLOAD_INSUFFICIENT_STORAGE \<equiv> ErrorCode ''upload_insufficient_storage''"
abbreviation UPLOAD_LENGTH_CHANGED :: ErrorCode where "UPLOAD_LENGTH_CHANGED \<equiv> ErrorCode ''upload_length_changed''"
abbreviation UPLOAD_LENGTH_MISMATCH :: ErrorCode where "UPLOAD_LENGTH_MISMATCH \<equiv> ErrorCode ''upload_length_mismatch''"
abbreviation UPLOAD_METADATA_PRESERVATION_REFUSED :: ErrorCode where "UPLOAD_METADATA_PRESERVATION_REFUSED \<equiv> ErrorCode ''upload_metadata_preservation_refused''"
abbreviation UPLOAD_NOT_PUBLISHED :: ErrorCode where "UPLOAD_NOT_PUBLISHED \<equiv> ErrorCode ''upload_not_published''"
abbreviation UPLOAD_OFFSET_CHANGED :: ErrorCode where "UPLOAD_OFFSET_CHANGED \<equiv> ErrorCode ''upload_offset_changed''"
abbreviation UPLOAD_OUTCOME_UNKNOWN :: ErrorCode where "UPLOAD_OUTCOME_UNKNOWN \<equiv> ErrorCode ''upload_outcome_unknown''"
abbreviation UPLOAD_PATH_WAIT_TIMEOUT :: ErrorCode where "UPLOAD_PATH_WAIT_TIMEOUT \<equiv> ErrorCode ''upload_path_wait_timeout''"
abbreviation UPLOAD_PRECOMMIT_FAILED :: ErrorCode where "UPLOAD_PRECOMMIT_FAILED \<equiv> ErrorCode ''upload_precommit_failed''"
abbreviation UPLOAD_PREFLIGHT_CONCURRENCY_LIMIT :: ErrorCode where "UPLOAD_PREFLIGHT_CONCURRENCY_LIMIT \<equiv> ErrorCode ''upload_preflight_concurrency_limit''"
abbreviation UPLOAD_PUBLICATION_DURABILITY_UNKNOWN :: ErrorCode where "UPLOAD_PUBLICATION_DURABILITY_UNKNOWN \<equiv> ErrorCode ''upload_publication_durability_unknown''"
abbreviation UPLOAD_PUBLICATION_OUTCOME_UNKNOWN :: ErrorCode where "UPLOAD_PUBLICATION_OUTCOME_UNKNOWN \<equiv> ErrorCode ''upload_publication_outcome_unknown''"
abbreviation UPLOAD_RESULT_UNKNOWN :: ErrorCode where "UPLOAD_RESULT_UNKNOWN \<equiv> ErrorCode ''upload_result_unknown''"
abbreviation UPLOAD_SESSION_CONFLICT :: ErrorCode where "UPLOAD_SESSION_CONFLICT \<equiv> ErrorCode ''upload_session_conflict''"
abbreviation UPLOAD_SESSION_NOT_FOUND :: ErrorCode where "UPLOAD_SESSION_NOT_FOUND \<equiv> ErrorCode ''upload_session_not_found''"
abbreviation UPLOAD_SESSION_STORE_FULL :: ErrorCode where "UPLOAD_SESSION_STORE_FULL \<equiv> ErrorCode ''upload_session_store_full''"
abbreviation UPLOAD_SIZE_LIMIT_EXCEEDED :: ErrorCode where "UPLOAD_SIZE_LIMIT_EXCEEDED \<equiv> ErrorCode ''upload_size_limit_exceeded''"
abbreviation UPLOAD_STAGE_CONFLICT :: ErrorCode where "UPLOAD_STAGE_CONFLICT \<equiv> ErrorCode ''upload_stage_conflict''"
abbreviation UPLOAD_STAGE_INVALID :: ErrorCode where "UPLOAD_STAGE_INVALID \<equiv> ErrorCode ''upload_stage_invalid''"
abbreviation UPLOAD_STATE_CONFLICT :: ErrorCode where "UPLOAD_STATE_CONFLICT \<equiv> ErrorCode ''upload_state_conflict''"
abbreviation UPLOAD_STATE_UNAVAILABLE :: ErrorCode where "UPLOAD_STATE_UNAVAILABLE \<equiv> ErrorCode ''upload_state_unavailable''"
abbreviation UPLOAD_TARGET_CHANGED :: ErrorCode where "UPLOAD_TARGET_CHANGED \<equiv> ErrorCode ''upload_target_changed''"
abbreviation UPLOAD_TARGET_INSPECTION_TIMEOUT :: ErrorCode where "UPLOAD_TARGET_INSPECTION_TIMEOUT \<equiv> ErrorCode ''upload_target_inspection_timeout''"
abbreviation UPLOAD_TARGET_NOT_FOUND :: ErrorCode where "UPLOAD_TARGET_NOT_FOUND \<equiv> ErrorCode ''upload_target_not_found''"
abbreviation UPLOAD_TERMINAL_RECORD_FAILED :: ErrorCode where "UPLOAD_TERMINAL_RECORD_FAILED \<equiv> ErrorCode ''upload_terminal_record_failed''"

section \<open>Responses\<close>

text \<open>What the \<^verbatim>\<open>http\<close> crate decides.\<close>

record http =
  canonical_reason :: "nat \<Rightarrow> string option"
  from_u16 :: "nat \<Rightarrow> bool"
  status_is_success :: "nat \<Rightarrow> bool"
  header_value :: "string \<Rightarrow> bool"

definition http_ok :: "http \<Rightarrow> bool" where
  "http_ok H \<longleftrightarrow>
     (\<forall>n. from_u16 H n \<longleftrightarrow> 100 \<le> n \<and> n \<le> 999) \<and>
     (\<forall>n. status_is_success H n \<longleftrightarrow> 200 \<le> n \<and> n \<le> 299) \<and>
     (\<forall>v. list_all (\<lambda>c. 32 \<le> (of_char c :: nat) \<and> (of_char c :: nat) < 127) v \<longrightarrow> header_value H v)"

datatype json = JText string | JNumber nat

datatype body = Empty | Json "(string \<times> json) list"

record Response =
  res_status :: nat
  res_headers :: "(string \<times> string) list"
  res_body :: body

text \<open>\<^verbatim>\<open>HeaderMap::insert\<close> replaces every value of the name, \<^verbatim>\<open>get_all\<close> yields the values of a name.\<close>

definition header_insert :: "string \<Rightarrow> string \<Rightarrow> Response \<Rightarrow> Response" where
  "header_insert name value res =
     res\<lparr> res_headers := filter (\<lambda>(n, _). n \<noteq> name) (res_headers res) @ [(name, value)] \<rparr>"

definition header_remove :: "string \<Rightarrow> Response \<Rightarrow> Response" where
  "header_remove name res = res\<lparr> res_headers := filter (\<lambda>(n, _). n \<noteq> name) (res_headers res) \<rparr>"

definition header_values :: "string \<Rightarrow> (string \<times> string) list \<Rightarrow> string list" where
  "header_values name headers = map snd (filter (\<lambda>(n, _). n = name) headers)"

section \<open>Problems\<close>

datatype RecoveryAdvice =
    NoAdvice
  | Retry
  | RetryAfterSeconds u64
  | RetryWithNewId
  | ResumeUpload
  | QueryJob
  | QueryUpload
  | QueryUploadAfterSeconds u64
  | RefreshTarget

fun recovery_wire_name :: "RecoveryAdvice \<Rightarrow> string option" where
  "recovery_wire_name NoAdvice = None"
| "recovery_wire_name Retry = Some ''retry''"
| "recovery_wire_name (RetryAfterSeconds _) = Some ''retry''"
| "recovery_wire_name RetryWithNewId = Some ''retry_with_new_id''"
| "recovery_wire_name ResumeUpload = Some ''resume_upload''"
| "recovery_wire_name QueryJob = Some ''query_job''"
| "recovery_wire_name QueryUpload = Some ''query_upload''"
| "recovery_wire_name (QueryUploadAfterSeconds _) = Some ''query_upload''"
| "recovery_wire_name RefreshTarget = Some ''refresh_target''"

fun retry_after_seconds :: "RecoveryAdvice \<Rightarrow> u64 option" where
  "retry_after_seconds (RetryAfterSeconds seconds) = Some seconds"
| "retry_after_seconds (QueryUploadAfterSeconds seconds) = Some seconds"
| "retry_after_seconds _ = None"

record OperationProblemContext =
  oc_operation_id :: string
  oc_public_state :: OperationPublicState
  oc_http_status :: "nat option"

definition new_operation_context :: "string \<Rightarrow> OperationPublicState \<Rightarrow> nat option \<Rightarrow> OperationProblemContext" where
  "new_operation_context operation_id state http_status =
     \<lparr> oc_operation_id = operation_id, oc_public_state = state, oc_http_status = http_status \<rparr>"

record UploadProblemContext =
  uc_upload_id :: string
  uc_public_state :: UploadPublicState
  uc_upload_length :: "u64 option"
  uc_upload_offset :: "u64 option"

definition new_upload_context ::
  "string \<Rightarrow> UploadPublicState \<Rightarrow> u64 option \<Rightarrow> u64 option \<Rightarrow> UploadProblemContext"
where
  "new_upload_context upload_id state len offset =
     \<lparr> uc_upload_id = upload_id, uc_public_state = state, uc_upload_length = len, uc_upload_offset = offset \<rparr>"

text \<open>The diagnostic source of an error is kept as its text.\<close>

record ApiError =
  e_status :: nat
  e_code :: ErrorCode
  e_detail :: string
  e_source :: "string option"
  e_recovery :: RecoveryAdvice
  e_operation :: "OperationProblemContext option"
  e_upload :: "UploadProblemContext option"

definition new_api_error :: "nat \<Rightarrow> ErrorCode \<Rightarrow> string \<Rightarrow> ApiError" where
  "new_api_error st c detail =
     \<lparr> e_status = st, e_code = c, e_detail = detail, e_source = None, e_recovery = NoAdvice,
       e_operation = None, e_upload = None \<rparr>"

definition with_source :: "string \<Rightarrow> ApiError \<Rightarrow> ApiError" where
  "with_source source e = e\<lparr> e_source := Some source \<rparr>"

definition with_recovery :: "RecoveryAdvice \<Rightarrow> ApiError \<Rightarrow> ApiError" where
  "with_recovery recovery e = e\<lparr> e_recovery := recovery \<rparr>"

definition with_operation :: "OperationProblemContext \<Rightarrow> ApiError \<Rightarrow> ApiError" where
  "with_operation operation e = e\<lparr> e_operation := Some operation, e_upload := None \<rparr>"

definition with_upload :: "UploadProblemContext \<Rightarrow> ApiError \<Rightarrow> ApiError" where
  "with_upload upload e = e\<lparr> e_upload := Some upload, e_operation := None \<rparr>"

text \<open>The \<^verbatim>\<open>Display\<close> instance, which the log uses.\<close>

definition display_api_error :: "ApiError \<Rightarrow> string" where
  "display_api_error e = (case e_source e of Some source \<Rightarrow> source | None \<Rightarrow> e_detail e)"

record ProblemDetails =
  pd_type :: string
  pd_title :: string
  pd_status :: nat
  pd_detail :: string
  pd_code :: ErrorCode
  pd_recovery :: "string option"
  pd_retry_after :: "u64 option"
  pd_operation_id :: "string option"
  pd_upload_id :: "string option"
  pd_state :: "string option"
  pd_upload_state :: "string option"
  pd_http_status :: "nat option"
  pd_upload_length :: "u64 option"
  pd_upload_offset :: "u64 option"

text \<open>\<^verbatim>\<open>None\<close> is the \<^verbatim>\<open>unreachable!\<close> of two contexts at once.\<close>

definition problem_details :: "http \<Rightarrow> ApiError \<Rightarrow> ProblemDetails option" where
  "problem_details H error =
     map_option
       (\<lambda>(operation_id, upload_id, state, upload_state, http_status, len, offset).
          \<lparr> pd_type = ''urn:dufs:problem:'' @ as_str (e_code error),
            pd_title = (case canonical_reason H (e_status error) of Some t \<Rightarrow> t | None \<Rightarrow> ''Request Failed''),
            pd_status = e_status error, pd_detail = e_detail error, pd_code = e_code error,
            pd_recovery = recovery_wire_name (e_recovery error),
            pd_retry_after = retry_after_seconds (e_recovery error),
            pd_operation_id = operation_id, pd_upload_id = upload_id, pd_state = state,
            pd_upload_state = upload_state, pd_http_status = http_status,
            pd_upload_length = len, pd_upload_offset = offset \<rparr>)
       (case (e_operation error, e_upload error) of
          (Some operation, None) \<Rightarrow>
            Some (Some (oc_operation_id operation), None, Some (operation_wire_name (oc_public_state operation)),
                  None, oc_http_status operation, None, None)
        | (None, Some upload) \<Rightarrow>
            Some (None, Some (uc_upload_id upload), None, Some (upload_wire_name (uc_public_state upload)),
                  None, uc_upload_length upload, uc_upload_offset upload)
        | (None, None) \<Rightarrow> Some (None, None, None, None, None, None, None)
        | (Some _, Some _) \<Rightarrow> None)"

text \<open>A field that is written only when it is present.\<close>

definition optional_field :: "string \<Rightarrow> ('a \<Rightarrow> json) \<Rightarrow> 'a option \<Rightarrow> (string \<times> json) list" where
  "optional_field name f v = (case v of None \<Rightarrow> [] | Some x \<Rightarrow> [(name, f x)])"

definition problem_json :: "ProblemDetails \<Rightarrow> (string \<times> json) list" where
  "problem_json p =
     [(''type'', JText (pd_type p)), (''title'', JText (pd_title p)), (''status'', JNumber (pd_status p)),
      (''detail'', JText (pd_detail p)), (''code'', JText (as_str (pd_code p)))] @
     optional_field ''recovery'' JText (pd_recovery p) @
     optional_field ''retry_after'' JNumber (pd_retry_after p) @
     optional_field ''operation_id'' JText (pd_operation_id p) @
     optional_field ''upload_id'' JText (pd_upload_id p) @
     optional_field ''state'' JText (pd_state p) @
     optional_field ''upload_state'' JText (pd_upload_state p) @
     optional_field ''http_status'' JNumber (pd_http_status p) @
     optional_field ''upload_length'' JNumber (pd_upload_length p) @
     optional_field ''upload_offset'' JNumber (pd_upload_offset p)"

datatype render_error = ContextsOverlap | InvalidHeaderValue | InvalidIdHeader

definition render_problem :: "http \<Rightarrow> Response \<Rightarrow> ApiError \<Rightarrow> render_error + Response" where
  "render_problem H res error =
     (case problem_details H error of
        None \<Rightarrow> Inl ContextsOverlap
      | Some details \<Rightarrow>
          let output = problem_json details;
              res = header_insert ''content-type'' ''application/problem+json'' (res\<lparr> res_status := e_status error \<rparr>)
          in (case retry_after_seconds (e_recovery error) of
                Some seconds \<Rightarrow>
                  if header_value H (u64_to_string seconds)
                  then Inr (header_insert ''retry-after'' (u64_to_string seconds) res\<lparr> res_body := Json output \<rparr>)
                  else Inl InvalidHeaderValue
              | None \<Rightarrow> Inr (header_remove ''retry-after'' res\<lparr> res_body := Json output \<rparr>)))"

section \<open>Headers\<close>

lemma header_values_insert [simp]:
  "header_values n (res_headers (header_insert m v res)) = (if n = m then [v] else header_values n (res_headers res))"
  by (auto simp: header_values_def header_insert_def filter_empty_conv split_def intro!: filter_cong arg_cong [of _ _ "map snd"])

lemma header_values_remove [simp]:
  "header_values n (res_headers (header_remove m res)) = (if n = m then [] else header_values n (res_headers res))"
  by (auto simp: header_values_def header_remove_def filter_empty_conv split_def intro!: filter_cong arg_cong [of _ _ "map snd"])

lemma header_frame [simp]:
  "res_status (header_insert m v res) = res_status res" "res_body (header_insert m v res) = res_body res"
  "res_status (header_remove m res) = res_status res" "res_body (header_remove m res) = res_body res"
  by (simp_all add: header_insert_def header_remove_def)

lemma map_of_optional [simp]:
  "map_of (optional_field n f v) m = (if m = n then map_option f v else None)"
  by (cases v) (simp_all add: optional_field_def)

lemma optional_keys:
  "distinct (map fst (optional_field n f v))" "x \<noteq> n \<Longrightarrow> x \<notin> fst ` set (optional_field n f v)"
  "m \<noteq> n \<Longrightarrow> fst ` set (optional_field m g u) \<inter> fst ` set (optional_field n f v) = {}"
  by (cases v; cases u; simp add: optional_field_def)+

lemma digits_visible: "list_all (\<lambda>c. 32 \<le> (of_char c :: nat) \<and> (of_char c :: nat) < 127) (u64_to_string n)"
proof (induction n rule: u64_to_string.induct)
  case (1 n)
  have "of_char (char_of (48 + n mod 10) :: char) = 48 + n mod 10" by (simp add: of_char_of)
  then show ?case using 1 by (subst u64_to_string.simps) (auto simp: of_char_of)
qed

section \<open>Errors as the handlers build them\<close>

inductive constructed :: "ApiError \<Rightarrow> bool" where
  new: "constructed (new_api_error st c detail)"
| source: "constructed e \<Longrightarrow> constructed (with_source why e)"
| recovery: "constructed e \<Longrightarrow> constructed (with_recovery advice e)"
| operation: "constructed e \<Longrightarrow> constructed (with_operation ctx e)"
| upload: "constructed e \<Longrightarrow> constructed (with_upload uctx e)"

lemma constructed_one_context: "constructed e \<Longrightarrow> e_operation e = None \<or> e_upload e = None"
  by (induction rule: constructed.induct)
    (auto simp: new_api_error_def with_source_def with_recovery_def with_operation_def with_upload_def)

lemma details_exist:
  assumes "e_operation e = None \<or> e_upload e = None"
  obtains p where "problem_details H e = Some p" "pd_status p = e_status e" "pd_code p = e_code e"
    "pd_retry_after p = retry_after_seconds (e_recovery e)" "pd_operation_id p = map_option oc_operation_id (e_operation e)"
    "pd_upload_id p = map_option uc_upload_id (e_upload e)"
    "pd_state p = map_option (operation_wire_name \<circ> oc_public_state) (e_operation e)"
    "pd_upload_state p = map_option (upload_wire_name \<circ> uc_public_state) (e_upload e)"
    "pd_detail p = e_detail e" "pd_recovery p = recovery_wire_name (e_recovery e)"
    "pd_http_status p = (case e_operation e of None \<Rightarrow> None | Some c \<Rightarrow> oc_http_status c)"
  using assms by (cases "e_operation e"; cases "e_upload e") (auto simp: problem_details_def intro: that)

lemma details_source: "problem_details H (e\<lparr> e_source := s \<rparr>) = problem_details H e"
  by (simp add: problem_details_def)

lemma problem_fields:
  "map_of (problem_json p) ''status'' = Some (JNumber (pd_status p))"
  "map_of (problem_json p) ''code'' = Some (JText (as_str (pd_code p)))"
  "map_of (problem_json p) ''detail'' = Some (JText (pd_detail p))"
  "map_of (problem_json p) ''recovery'' = map_option JText (pd_recovery p)"
  "map_of (problem_json p) ''retry_after'' = map_option JNumber (pd_retry_after p)"
  "map_of (problem_json p) ''operation_id'' = map_option JText (pd_operation_id p)"
  "map_of (problem_json p) ''upload_id'' = map_option JText (pd_upload_id p)"
  "map_of (problem_json p) ''state'' = map_option JText (pd_state p)"
  "map_of (problem_json p) ''upload_state'' = map_option JText (pd_upload_state p)"
  "map_of (problem_json p) ''http_status'' = map_option JNumber (pd_http_status p)"
  by (simp_all add: problem_json_def map_add_def split: option.splits)

lemma render_ok:
  assumes "http_ok H" and d: "problem_details H e = Some p"
  shows "\<exists>res'. render_problem H res e = Inr res' \<and> res_status res' = e_status e \<and> res_body res' = Json (problem_json p) \<and>
    header_values ''content-type'' (res_headers res') = [''application/problem+json''] \<and>
    header_values ''retry-after'' (res_headers res') =
      (case retry_after_seconds (e_recovery e) of None \<Rightarrow> [] | Some s \<Rightarrow> [u64_to_string s]) \<and>
    (\<forall>n. n \<noteq> ''content-type'' \<longrightarrow> n \<noteq> ''retry-after'' \<longrightarrow>
       header_values n (res_headers res') = header_values n (res_headers res))"
proof -
  have v: "header_value H (u64_to_string s)" for s using assms(1) digits_visible by (simp add: http_ok_def)
  show ?thesis
  proof (cases "retry_after_seconds (e_recovery e)")
    case None
    then show ?thesis by (simp add: render_problem_def d Let_def)
  next
    case (Some s)
    then show ?thesis by (simp add: render_problem_def d Let_def v)
  qed
qed

lemma catalogue_checked: "list_all (\<lambda>w. checked w = Some (ErrorCode w)) ERROR_CODES"
  by code_simp

definition demo_http :: http where
  "demo_http = \<lparr> canonical_reason = (\<lambda>n. if n = 503 then Some ''Service Unavailable'' else None),
     from_u16 = (\<lambda>n. 100 \<le> n \<and> n \<le> 999), status_is_success = (\<lambda>n. 200 \<le> n \<and> n \<le> 299),
     header_value = list_all (\<lambda>c. 32 \<le> (of_char c :: nat) \<and> (of_char c :: nat) < 127) \<rparr>"

lemma demo_http_ok: "http_ok demo_http"
  by (simp add: http_ok_def demo_http_def)

section \<open>Properties\<close>

text \<open>Claim C38.  Every error that the handlers can build renders into one problem document: the
  \<^verbatim>\<open>unreachable!\<close> arm is never taken and no header is refused; the status line agrees with the
  document, the document names an operation or an upload but never both, no field is written
  twice, the \<^verbatim>\<open>Retry-After\<close> header is exactly the \<^verbatim>\<open>retry_after\<close> field, every other header is
  kept, and the diagnostic source of the error never reaches the client.\<close>

theorem problem_rendered:
  assumes "http_ok H" "constructed e"
  shows "\<exists>res' fields. render_problem H res e = Inr res' \<and> res_body res' = Json fields \<and> distinct (map fst fields) \<and>
    res_status res' = e_status e \<and> map_of fields ''status'' = Some (JNumber (e_status e)) \<and>
    map_of fields ''code'' = Some (JText (as_str (e_code e))) \<and>
    map_of fields ''operation_id'' = map_option (JText \<circ> oc_operation_id) (e_operation e) \<and>
    map_of fields ''upload_id'' = map_option (JText \<circ> uc_upload_id) (e_upload e) \<and>
    (map_of fields ''operation_id'' = None \<or> map_of fields ''upload_id'' = None) \<and>
    map_of fields ''retry_after'' = map_option JNumber (retry_after_seconds (e_recovery e)) \<and>
    header_values ''retry-after'' (res_headers res') =
      (case retry_after_seconds (e_recovery e) of None \<Rightarrow> [] | Some s \<Rightarrow> [u64_to_string s]) \<and>
    header_values ''content-type'' (res_headers res') = [''application/problem+json''] \<and>
    (\<forall>n. n \<noteq> ''content-type'' \<longrightarrow> n \<noteq> ''retry-after'' \<longrightarrow>
       header_values n (res_headers res') = header_values n (res_headers res)) \<and>
    (\<forall>why. render_problem H res (with_source why e) = Inr res')"
proof -
  note one = constructed_one_context [OF assms(2)]
  obtain p where p: "problem_details H e = Some p" "pd_status p = e_status e" "pd_code p = e_code e"
    "pd_retry_after p = retry_after_seconds (e_recovery e)" "pd_operation_id p = map_option oc_operation_id (e_operation e)"
    "pd_upload_id p = map_option uc_upload_id (e_upload e)"
    by (rule details_exist [OF one])
  obtain res' where r: "render_problem H res e = Inr res'" "res_status res' = e_status e"
    "res_body res' = Json (problem_json p)"
    "header_values ''content-type'' (res_headers res') = [''application/problem+json'']"
    "header_values ''retry-after'' (res_headers res') =
      (case retry_after_seconds (e_recovery e) of None \<Rightarrow> [] | Some s \<Rightarrow> [u64_to_string s])"
    "\<forall>n. n \<noteq> ''content-type'' \<longrightarrow> n \<noteq> ''retry-after'' \<longrightarrow>
       header_values n (res_headers res') = header_values n (res_headers res)"
    using render_ok [OF assms(1) p(1)] by blast
  have "render_problem H res (with_source why e) = Inr res'" for why
    using r(1) by (simp add: render_problem_def with_source_def details_source p(1) Let_def)
  moreover have "distinct (map fst (problem_json p))"
    by (simp add: problem_json_def optional_keys Int_Un_distrib image_Un)
  ultimately show ?thesis using r p one
    by (intro exI [of _ res'] exI [of _ "problem_json p"]) (auto simp: problem_fields option.map_comp comp_def)
qed

theorem problem_rendered_witness:
  "\<exists>res' fields. render_problem demo_http \<lparr> res_status = 200, res_headers = [], res_body = Empty \<rparr>
       (with_recovery (RetryAfterSeconds 1) (new_api_error 503 SERVER_STOPPING ''Stopping'')) = Inr res' \<and>
     res_body res' = Json fields \<and> res_status res' = 503 \<and> map_of fields ''retry_after'' = Some (JNumber 1)"
proof -
  have c: "constructed (with_recovery (RetryAfterSeconds 1) (new_api_error 503 SERVER_STOPPING ''Stopping''))"
    by (intro constructed.intros)
  show ?thesis
    using problem_rendered [OF demo_http_ok c, of "\<lparr> res_status = 200, res_headers = [], res_body = Empty \<rparr>"]
    by (auto simp: with_recovery_def new_api_error_def)
qed

end
