(* ===== verification/Operation_Registry.thy ===== *)
theory Operation_Registry
  imports Problem Store_Operation Path_Names
begin

text \<open>
  The operation registry (\<^verbatim>\<open>server/operation_registry.rs\<close>, \<^verbatim>\<open>server/identity.rs\<close>): the owner digest and
  the request fingerprint, the outcomes that a mutation can have with their stored form, the
  guard that owns a reservation, and the responses that report the state of an operation.

  The registry speaks to the state store through its command queue.  The last component of an
  event says whether the queue accepted the command; a command that was refused has no effect.
  SHA-256, the UUID codec and the decisions of the \<^verbatim>\<open>http\<close> crate are arguments.
\<close>

section \<open>Owners and fingerprints\<close>

definition domain_separated :: "(string \<Rightarrow> blob) \<Rightarrow> string \<Rightarrow> string \<Rightarrow> blob" where
  "domain_separated sha domain owner_name = sha (domain @ owner_name)"

definition persistent :: "(string \<Rightarrow> blob) \<Rightarrow> string \<Rightarrow> blob" where
  "persistent sha owner_name = domain_separated sha (''dufs-durable-owner-v1'' @ [CHR 0x00]) owner_name"

definition listing_snapshot :: "(string \<Rightarrow> blob) \<Rightarrow> string \<Rightarrow> blob" where
  "listing_snapshot sha owner_name = domain_separated sha (''dufs-list-snapshot-owner-v1'' @ [CHR 0x00]) owner_name"

definition operation_key :: "(string \<Rightarrow> blob) \<Rightarrow> string \<Rightarrow> blob \<Rightarrow> StoreKey" where
  "operation_key sha owner_name uuid = \<lparr> owner = persistent sha owner_name, key_id = uuid \<rparr>"

text \<open>What is fed to the digest: every part behind its length.\<close>

definition framed_parts :: "blob list \<Rightarrow> blob" where
  "framed_parts parts = concat (map (\<lambda>part. u64_to_be_bytes (length part) @ part) parts)"

definition new_fingerprint :: "(string \<Rightarrow> blob) \<Rightarrow> blob list \<Rightarrow> blob" where
  "new_fingerprint sha parts = sha (framed_parts parts)"

section \<open>Outcomes\<close>

datatype TrackedOperationError =
    InvalidJson
  | InvalidPath
  | PathExists
  | InvalidSourcePath
  | InvalidDestinationPath
  | SourceEqualsDestination
  | InvalidMovePath
  | InvalidRenameName
  | InvalidRenamePath
  | SourceNotFound
  | SourceRevisionRequired
  | InvalidSourceRevision
  | SourceChanged
  | DirectoryIntoItself
  | DestinationExists
  | DestinationRevisionRequired
  | InvalidDestinationRevision
  | DestinationChanged
  | DestinationDirectoryNotFound
  | DestinationNotDirectory
  | DirectoryOverwriteForbidden
  | MkdirStateConflict
  | MoveStateConflict
  | RenameStateConflict
  | TargetNotFound
  | DeleteStateConflict
  | PurgeBacklogFull
  | PurgeStateUnavailable
  | DeleteTargetChanged
  | DeleteNotCommitted
  | OutcomeUncertain

definition from_wire_name :: "string \<Rightarrow> TrackedOperationError option" where
  "from_wire_name value =
     map_of
       [(''invalid_json'', InvalidJson),
        (''invalid_path'', InvalidPath),
        (''path_exists'', PathExists),
        (''invalid_source_path'', InvalidSourcePath),
        (''invalid_destination_path'', InvalidDestinationPath),
        (''source_equals_destination'', SourceEqualsDestination),
        (''invalid_move_path'', InvalidMovePath),
        (''invalid_rename_name'', InvalidRenameName),
        (''invalid_rename_path'', InvalidRenamePath),
        (''source_not_found'', SourceNotFound),
        (''source_revision_required'', SourceRevisionRequired),
        (''invalid_source_revision'', InvalidSourceRevision),
        (''source_changed'', SourceChanged),
        (''directory_into_itself'', DirectoryIntoItself),
        (''destination_exists'', DestinationExists),
        (''destination_revision_required'', DestinationRevisionRequired),
        (''invalid_destination_revision'', InvalidDestinationRevision),
        (''destination_changed'', DestinationChanged),
        (''destination_directory_not_found'', DestinationDirectoryNotFound),
        (''destination_not_directory'', DestinationNotDirectory),
        (''directory_overwrite_forbidden'', DirectoryOverwriteForbidden),
        (''mkdir_state_conflict'', MkdirStateConflict),
        (''move_state_conflict'', MoveStateConflict),
        (''rename_state_conflict'', RenameStateConflict),
        (''target_not_found'', TargetNotFound),
        (''delete_state_conflict'', DeleteStateConflict),
        (''purge_backlog_full'', PurgeBacklogFull),
        (''purge_state_unavailable'', PurgeStateUnavailable),
        (''delete_target_changed'', DeleteTargetChanged),
        (''delete_not_committed'', DeleteNotCommitted),
        (''outcome_uncertain'', OutcomeUncertain)] value"

fun tracked_code :: "TrackedOperationError \<Rightarrow> ErrorCode" where
  "tracked_code InvalidJson = INVALID_JSON"
| "tracked_code InvalidPath = INVALID_PATH"
| "tracked_code PathExists = PATH_EXISTS"
| "tracked_code InvalidSourcePath = INVALID_SOURCE_PATH"
| "tracked_code InvalidDestinationPath = INVALID_DESTINATION_PATH"
| "tracked_code SourceEqualsDestination = SOURCE_EQUALS_DESTINATION"
| "tracked_code InvalidMovePath = INVALID_MOVE_PATH"
| "tracked_code InvalidRenameName = INVALID_RENAME_NAME"
| "tracked_code InvalidRenamePath = INVALID_RENAME_PATH"
| "tracked_code SourceNotFound = SOURCE_NOT_FOUND"
| "tracked_code SourceRevisionRequired = SOURCE_REVISION_REQUIRED"
| "tracked_code InvalidSourceRevision = INVALID_SOURCE_REVISION"
| "tracked_code SourceChanged = SOURCE_CHANGED"
| "tracked_code DirectoryIntoItself = DIRECTORY_INTO_ITSELF"
| "tracked_code DestinationExists = DESTINATION_EXISTS"
| "tracked_code DestinationRevisionRequired = DESTINATION_REVISION_REQUIRED"
| "tracked_code InvalidDestinationRevision = INVALID_DESTINATION_REVISION"
| "tracked_code DestinationChanged = DESTINATION_CHANGED"
| "tracked_code DestinationDirectoryNotFound = DESTINATION_DIRECTORY_NOT_FOUND"
| "tracked_code DestinationNotDirectory = DESTINATION_NOT_DIRECTORY"
| "tracked_code DirectoryOverwriteForbidden = DIRECTORY_OVERWRITE_FORBIDDEN"
| "tracked_code MkdirStateConflict = MKDIR_STATE_CONFLICT"
| "tracked_code MoveStateConflict = MOVE_STATE_CONFLICT"
| "tracked_code RenameStateConflict = RENAME_STATE_CONFLICT"
| "tracked_code TargetNotFound = TARGET_NOT_FOUND"
| "tracked_code DeleteStateConflict = DELETE_STATE_CONFLICT"
| "tracked_code PurgeBacklogFull = PURGE_BACKLOG_FULL"
| "tracked_code PurgeStateUnavailable = PURGE_STATE_UNAVAILABLE"
| "tracked_code DeleteTargetChanged = DELETE_TARGET_CHANGED"
| "tracked_code DeleteNotCommitted = DELETE_NOT_COMMITTED"
| "tracked_code OutcomeUncertain = OUTCOME_UNCERTAIN"

fun tracked_detail :: "TrackedOperationError \<Rightarrow> string" where
  "tracked_detail InvalidJson = ''Invalid JSON request''"
| "tracked_detail InvalidPath = ''Invalid path''"
| "tracked_detail PathExists = ''Path already exists''"
| "tracked_detail InvalidSourcePath = ''Invalid source path''"
| "tracked_detail InvalidDestinationPath = ''Invalid destination path''"
| "tracked_detail SourceEqualsDestination = ''Source and destination must differ''"
| "tracked_detail InvalidMovePath = ''Invalid move path''"
| "tracked_detail InvalidRenameName = ''Rename name must be one valid path segment''"
| "tracked_detail InvalidRenamePath = ''Invalid rename path''"
| "tracked_detail SourceNotFound = ''Source not found''"
| "tracked_detail SourceRevisionRequired = ''Source revision is required''"
| "tracked_detail InvalidSourceRevision = ''Source revision is invalid''"
| "tracked_detail SourceChanged = ''Source changed after it was listed''"
| "tracked_detail DirectoryIntoItself = ''A directory cannot be moved into itself''"
| "tracked_detail DestinationExists = ''Destination already exists''"
| "tracked_detail DestinationRevisionRequired = ''Destination revision is required for overwrite''"
| "tracked_detail InvalidDestinationRevision = ''Destination revision is invalid''"
| "tracked_detail DestinationChanged = ''Destination changed after overwrite confirmation''"
| "tracked_detail DestinationDirectoryNotFound = ''Destination directory not found''"
| "tracked_detail DestinationNotDirectory = ''Destination path is not a directory''"
| "tracked_detail DirectoryOverwriteForbidden = ''Directories cannot be overwritten''"
| "tracked_detail MkdirStateConflict = ''Directory path conflicts with an active upload or pending delete''"
| "tracked_detail MoveStateConflict = ''Source or destination conflicts with an active upload or pending delete''"
| "tracked_detail RenameStateConflict = ''Rename source or destination conflicts with an active upload or pending delete''"
| "tracked_detail TargetNotFound = ''Target not found''"
| "tracked_detail DeleteStateConflict = ''Target conflicts with an active upload or pending delete''"
| "tracked_detail PurgeBacklogFull = ''Delete backlog is temporarily full''"
| "tracked_detail PurgeStateUnavailable = ''Delete state storage is temporarily unavailable''"
| "tracked_detail DeleteTargetChanged = ''Delete target changed before commit''"
| "tracked_detail DeleteNotCommitted = ''Delete was not committed; refresh the target before retrying''"
| "tracked_detail OutcomeUncertain = ''Operation outcome is uncertain; inspect the target before trying again''"

definition tracked_recovery :: "TrackedOperationError \<Rightarrow> RecoveryAdvice" where
  "tracked_recovery error = (case error of OutcomeUncertain \<Rightarrow> QueryJob | _ \<Rightarrow> NoAdvice)"

record OperationOutcome =
  oo_status :: nat
  oo_state :: OperationPublicState
  oo_error :: "TrackedOperationError option"


definition failure :: "nat \<Rightarrow> TrackedOperationError \<Rightarrow> OperationOutcome" where
  "failure st error = \<lparr> oo_status = st, oo_state = OpFailed, oo_error = Some error \<rparr>"

definition uncertain_outcome :: OperationOutcome where
  "uncertain_outcome = \<lparr> oo_status = 500, oo_state = OpUnknown, oo_error = Some OutcomeUncertain \<rparr>"

text \<open>\<^verbatim>\<open>None\<close> is the \<^verbatim>\<open>unreachable!\<close> of an outcome that is not terminal.\<close>

definition into_stored :: "OperationOutcome \<Rightarrow> StoredOutcome option" where
  "into_stored oc =
     map_option (\<lambda>st. \<lparr> status = oo_status oc, outcome_state = st,
                        code = map_option (\<lambda>e. as_str (tracked_code e)) (oo_error oc) \<rparr>)
       (case oo_state oc of
          OpSucceeded \<Rightarrow> Some Succeeded
        | OpFailed \<Rightarrow> Some Failed
        | OpUnknown \<Rightarrow> Some UnknownOutcome
        | OpRunning \<Rightarrow> None
        | OpRejected \<Rightarrow> None)"

datatype registry_error =
    BadStoredStatus | UnknownTerminalError | IncompleteOutcome | SuccessWithoutSuccessStatus | ErrorWithSuccessStatus
  | NotTerminal | DispatchRefused | StoreFailed store_error | LostBeforeCommit | LostBeforeCompletion

definition public_state_of :: "StoredTerminalState \<Rightarrow> OperationPublicState" where
  "public_state_of st = (case st of Succeeded \<Rightarrow> OpSucceeded | Failed \<Rightarrow> OpFailed | UnknownOutcome \<Rightarrow> OpUnknown)"

definition from_stored :: "http \<Rightarrow> StoredOutcome \<Rightarrow> registry_error + OperationOutcome" where
  "from_stored H so =
     (if \<not> from_u16 H (status so) then Inl BadStoredStatus
      else let state = public_state_of (outcome_state so) in
        (case (case code so of
                 None \<Rightarrow> if state = OpSucceeded then Inr None else Inl IncompleteOutcome
               | Some c \<Rightarrow>
                   if state \<noteq> OpSucceeded
                   then (case from_wire_name c of None \<Rightarrow> Inl UnknownTerminalError | Some e \<Rightarrow> Inr (Some e))
                   else Inl IncompleteOutcome) of
           Inl e \<Rightarrow> Inl e
         | Inr error \<Rightarrow>
             if state = OpSucceeded \<and> \<not> status_is_success H (status so) then Inl SuccessWithoutSuccessStatus
             else if state \<noteq> OpSucceeded \<and> status_is_success H (status so) then Inl ErrorWithSuccessStatus
             else Inr \<lparr> oo_status = status so, oo_state = state, oo_error = error \<rparr>))"

section \<open>The registry and its guard\<close>

record OperationGuard =
  guard_key :: StoreKey
  guard_lease :: blob
  guard_completed :: bool

datatype BeginOperation =
  GuardStarted OperationGuard | BeginRunning | BeginReplay OperationOutcome | BeginRefused | RegistryFull | BeginUnavailable

datatype OperationStatus = JobRunning | JobCompleted OperationOutcome | JobNotFound | JobUnavailable

definition begin_request ::
  "(string \<Rightarrow> blob) \<Rightarrow> http \<Rightarrow> tick \<Rightarrow> bool \<Rightarrow> string \<Rightarrow> blob \<Rightarrow> blob \<Rightarrow> StoreWorker \<Rightarrow>
   StoreWorker \<times> (registry_error + BeginOperation)"
where
  "begin_request sha H t accepted owner_name uuid fp w =
     (let key = operation_key sha owner_name uuid in
      if \<not> accepted then (w, Inr BeginUnavailable)
      else (case begin_operation t key fp w of
         (w, Inl e) \<Rightarrow> (w, Inl (StoreFailed e))
       | (w, Inr stored) \<Rightarrow>
           (w, case stored of
                 Started lease \<Rightarrow>
                   Inr (GuardStarted \<lparr> guard_key = key, guard_lease = lease, guard_completed = False \<rparr>)
               | OperationRunning \<Rightarrow> Inr BeginRunning
               | Replay so \<Rightarrow> (case from_stored H so of Inl e \<Rightarrow> Inl e | Inr oc \<Rightarrow> Inr (BeginReplay oc))
               | BeginConflict \<Rightarrow> Inr BeginRefused
               | BeginFull \<Rightarrow> Inr RegistryFull)))"

definition status_request ::
  "(string \<Rightarrow> blob) \<Rightarrow> http \<Rightarrow> tick \<Rightarrow> bool \<Rightarrow> string \<Rightarrow> blob \<Rightarrow> StoreWorker \<Rightarrow>
   StoreWorker \<times> (registry_error + OperationStatus)"
where
  "status_request sha H t accepted owner_name uuid w =
     (if \<not> accepted then (w, Inr JobUnavailable)
      else (case operation_status t (operation_key sha owner_name uuid) w of
         (w, Inl _) \<Rightarrow> (w, Inr JobUnavailable)
       | (w, Inr stored) \<Rightarrow>
           (w, case stored of
                 StatusRunning \<Rightarrow> Inr JobRunning
               | Completed so \<Rightarrow> (case from_stored H so of Inl e \<Rightarrow> Inl e | Inr oc \<Rightarrow> Inr (JobCompleted oc))
               | StatusNotFound \<Rightarrow> Inr JobNotFound)))"

definition mark_commit_started ::
  "tick \<Rightarrow> bool \<Rightarrow> OperationGuard \<Rightarrow> StoreWorker \<Rightarrow> StoreWorker \<times> (registry_error + unit)"
where
  "mark_commit_started t accepted g w =
     (if guard_completed g then (w, Inr ())
      else if \<not> accepted then (w, Inl DispatchRefused)
      else (case mark_operation_commit_started t (guard_key g) (guard_lease g) w of
         (w, Inl e) \<Rightarrow> (w, Inl (StoreFailed e))
       | (w, Inr changed) \<Rightarrow> (w, if \<not> changed then Inl LostBeforeCommit else Inr ())))"



section \<open>Operation identifiers\<close>

definition OPERATION_ID_HEADER :: string where "OPERATION_ID_HEADER = ''x-dufs-operation-id''"
definition OPERATION_STATE_HEADER :: string where "OPERATION_STATE_HEADER = ''x-dufs-operation-state''"

definition parse_canonical_operation_id :: "uuid_ops \<Rightarrow> string \<Rightarrow> blob option" where
  "parse_canonical_operation_id U value =
     (case parse_str U value of
        None \<Rightarrow> None
      | Some uuid \<Rightarrow> if hyphenated U uuid = value then Some uuid else None)"

text \<open>\<^verbatim>\<open>HeaderValue::to_str\<close> accepts visible ASCII, the space and the tab.\<close>

definition header_to_str :: "string \<Rightarrow> string option" where
  "header_to_str value =
     (if list_all (\<lambda>c. c = CHR 0x09 \<or> 32 \<le> (of_char c :: nat) \<and> (of_char c :: nat) < 127) value then Some value else None)"

definition parse_operation_id :: "uuid_ops \<Rightarrow> (string \<times> string) list \<Rightarrow> string + blob option" where
  "parse_operation_id U headers =
     (case header_values OPERATION_ID_HEADER headers of
        [] \<Rightarrow> Inr None
      | [value] \<Rightarrow>
          (case header_to_str value of
             None \<Rightarrow> Inl ''The x-dufs-operation-id header must be a canonical UUID''
           | Some value \<Rightarrow>
               (case parse_canonical_operation_id U value of
                  None \<Rightarrow> Inl ''The x-dufs-operation-id header must be a canonical UUID''
                | Some uuid \<Rightarrow> Inr (Some uuid)))
      | _ \<Rightarrow> Inl ''The x-dufs-operation-id header must appear exactly once'')"

section \<open>Responses\<close>

definition set_operation_headers ::
  "http \<Rightarrow> uuid_ops \<Rightarrow> blob \<Rightarrow> OperationPublicState \<Rightarrow> Response \<Rightarrow> render_error + Response"
where
  "set_operation_headers H U uuid state res =
     (if \<not> header_value H (hyphenated U uuid) then Inl InvalidIdHeader
      else Inr (header_insert OPERATION_STATE_HEADER (operation_wire_name state)
                 (header_insert OPERATION_ID_HEADER (hyphenated U uuid) res)))"

definition set_json_body :: "(string \<times> json) list \<Rightarrow> Response \<Rightarrow> Response" where
  "set_json_body obj res = (header_insert ''content-type'' ''application/json'' res)\<lparr> res_body := Json obj \<rparr>"

record OperationBody =
  ob_operation_id :: string
  ob_state :: OperationPublicState
  ob_http_status :: "nat option"
  ob_code :: "ErrorCode option"
  ob_detail :: "string option"

text \<open>The two bodies differ in the name of their first field.\<close>

definition operation_body_json :: "string \<Rightarrow> OperationBody \<Rightarrow> (string \<times> json) list" where
  "operation_body_json id_field b =
     [(id_field, JText (ob_operation_id b)), (''state'', JText (operation_wire_name (ob_state b)))] @
     optional_field ''http_status'' JNumber (ob_http_status b) @
     optional_field ''code'' (\<lambda>c. JText (as_str c)) (ob_code b) @
     optional_field ''detail'' JText (ob_detail b)"

text \<open>The headers, then the rest of the response.\<close>

definition operation_response ::
  "http \<Rightarrow> uuid_ops \<Rightarrow> blob \<Rightarrow> OperationPublicState \<Rightarrow> (Response \<Rightarrow> render_error + Response) \<Rightarrow> Response \<Rightarrow>
   render_error + Response"
where
  "operation_response H U uuid state body_of res =
     (case set_operation_headers H U uuid state res of Inl e \<Rightarrow> Inl e | Inr res \<Rightarrow> body_of res)"

definition apply_operation_outcome ::
  "http \<Rightarrow> uuid_ops \<Rightarrow> blob \<Rightarrow> OperationOutcome \<Rightarrow> bool \<Rightarrow> Response \<Rightarrow> render_error + Response"
where
  "apply_operation_outcome H U uuid oc replayed =
     operation_response H U uuid (oo_state oc) (\<lambda>res.
       let res = (if replayed then header_insert ''x-dufs-operation-replayed'' ''true'' res else res) in
       (case oo_error oc of
          Some error \<Rightarrow>
            render_problem H res
              (with_operation (new_operation_context (hyphenated U uuid) (oo_state oc) (Some (oo_status oc)))
                (with_recovery (tracked_recovery error)
                  (new_api_error (oo_status oc) (tracked_code error) (tracked_detail error))))
        | None \<Rightarrow> Inr (res\<lparr> res_status := oo_status oc \<rparr>)))"

definition apply_running :: "http \<Rightarrow> uuid_ops \<Rightarrow> blob \<Rightarrow> Response \<Rightarrow> render_error + Response" where
  "apply_running H U uuid res =
     operation_response H U uuid OpRunning (\<lambda>res.
       Inr (set_json_body (operation_body_json ''operation_id''
              \<lparr> ob_operation_id = hyphenated U uuid, ob_state = OpRunning, ob_http_status = None,
                ob_code = Some OPERATION_IN_PROGRESS, ob_detail = Some ''Operation is still running'' \<rparr>)
            (header_insert ''retry-after'' ''1'' res))) (res\<lparr> res_status := 202 \<rparr>)"

text \<open>A problem about an operation that has no outcome status.\<close>

definition operation_problem ::
  "http \<Rightarrow> uuid_ops \<Rightarrow> blob \<Rightarrow> OperationPublicState \<Rightarrow> nat \<Rightarrow> ErrorCode \<Rightarrow> string \<Rightarrow> RecoveryAdvice \<Rightarrow> Response \<Rightarrow>
   render_error + Response"
where
  "operation_problem H U uuid state st c detail advice =
     operation_response H U uuid state (\<lambda>res.
       render_problem H res
         (with_operation (new_operation_context (hyphenated U uuid) state None)
           (with_recovery advice (new_api_error st c detail))))"

definition apply_conflict :: "http \<Rightarrow> uuid_ops \<Rightarrow> blob \<Rightarrow> Response \<Rightarrow> render_error + Response" where
  "apply_conflict H U uuid =
     operation_problem H U uuid OpRejected 409 OPERATION_ID_CONFLICT
       ''Operation ID was already used for a different request'' NoAdvice"

definition apply_registry_full :: "http \<Rightarrow> uuid_ops \<Rightarrow> blob \<Rightarrow> Response \<Rightarrow> render_error + Response" where
  "apply_registry_full H U uuid =
     operation_problem H U uuid OpRejected 503 OPERATION_REGISTRY_FULL
       ''Operation registry is temporarily full'' (RetryAfterSeconds 1)"

definition apply_registry_unavailable :: "http \<Rightarrow> uuid_ops \<Rightarrow> blob \<Rightarrow> Response \<Rightarrow> render_error + Response" where
  "apply_registry_unavailable H U uuid =
     operation_problem H U uuid OpRejected 503 OPERATION_STORE_UNAVAILABLE
       ''Operation state store is temporarily unavailable'' (RetryAfterSeconds 1)"

definition apply_status ::
  "http \<Rightarrow> uuid_ops \<Rightarrow> blob \<Rightarrow> OperationStatus \<Rightarrow> Response \<Rightarrow> render_error + Response"
where
  "apply_status H U uuid st res =
     (case st of
        JobRunning \<Rightarrow>
          operation_response H U uuid OpRunning (\<lambda>res.
            Inr (set_json_body (operation_body_json ''job_id''
              \<lparr> ob_operation_id = hyphenated U uuid, ob_state = OpRunning, ob_http_status = None,
                ob_code = None, ob_detail = None \<rparr>) res)) (res\<lparr> res_status := 200 \<rparr>)
      | JobCompleted oc \<Rightarrow>
          operation_response H U uuid (oo_state oc) (\<lambda>res.
            Inr (set_json_body (operation_body_json ''job_id''
              \<lparr> ob_operation_id = hyphenated U uuid, ob_state = oo_state oc, ob_http_status = Some (oo_status oc),
                ob_code = map_option tracked_code (oo_error oc),
                ob_detail = map_option tracked_detail (oo_error oc) \<rparr>) res)) (res\<lparr> res_status := 200 \<rparr>)
      | JobNotFound \<Rightarrow>
          operation_problem H U uuid OpUnknown 404 JOB_NOT_FOUND ''Job not found'' RefreshTarget res
      | JobUnavailable \<Rightarrow>
          operation_problem H U uuid OpUnknown 503 JOB_STORE_UNAVAILABLE
            ''Job state store is temporarily unavailable'' (RetryAfterSeconds 1) res)"

definition apply_invalid_id :: "http \<Rightarrow> string \<Rightarrow> Response \<Rightarrow> render_error + Response" where
  "apply_invalid_id H message res = render_problem H res (new_api_error 400 INVALID_OPERATION_ID message)"

definition apply_invalid_job_id :: "http \<Rightarrow> string \<Rightarrow> Response \<Rightarrow> render_error + Response" where
  "apply_invalid_job_id H detail res = render_problem H res (new_api_error 400 INVALID_JOB_ID detail)"

definition apply_unknown ::
  "http \<Rightarrow> uuid_ops \<Rightarrow> blob \<Rightarrow> nat \<Rightarrow> ErrorCode \<Rightarrow> string \<Rightarrow> Response \<Rightarrow> render_error + Response"
where
  "apply_unknown H U uuid st c message = operation_problem H U uuid OpUnknown st c message QueryJob"

section \<open>Outcomes and their stored form\<close>


lemma code_of_wire_name: "from_wire_name c = Some e \<Longrightarrow> c = as_str (tracked_code e)"
  unfolding from_wire_name_def by (drule map_of_SomeD) auto






lemma stored_back:
  assumes "http_ok H" "from_stored H so = Inr oc"
  shows "into_stored oc = Some so"
proof -
  have st: "oo_status oc = status so" "oo_state oc = public_state_of (outcome_state so)"
    "code so = map_option (\<lambda>e. as_str (tracked_code e)) (oo_error oc)"
    using assms(2) by (auto simp: from_stored_def Let_def dest: code_of_wire_name split: if_splits option.splits sum.splits)
  then show ?thesis by (cases so; cases "outcome_state so") (auto simp: into_stored_def public_state_of_def)
qed

section \<open>Fingerprints\<close>


section \<open>Consistency of the responses\<close>

definition uuid_visible :: "uuid_ops \<Rightarrow> bool" where
  "uuid_visible U \<longleftrightarrow>
     (\<forall>u. list_all (\<lambda>c. 32 \<le> (of_char c :: nat) \<and> (of_char c :: nat) < 127) (hyphenated U u))"

text \<open>A response that reports one state of one operation, in its headers and in its body alike.\<close>

definition reports ::
  "uuid_ops \<Rightarrow> blob \<Rightarrow> (Response \<Rightarrow> render_error + Response) \<Rightarrow> OperationPublicState \<Rightarrow> nat \<Rightarrow> string \<Rightarrow> bool"
where
  "reports U uuid f state st id_field \<longleftrightarrow>
     (\<forall>res. \<exists>res' obj. f res = Inr res' \<and> res_status res' = st \<and> res_body res' = Json obj \<and>
        header_values OPERATION_ID_HEADER (res_headers res') = [hyphenated U uuid] \<and>
        header_values OPERATION_STATE_HEADER (res_headers res') = [operation_wire_name state] \<and>
        map_of obj id_field = Some (JText (hyphenated U uuid)) \<and>
        map_of obj ''state'' = Some (JText (operation_wire_name state)))"

text \<open>A response that reports it in its headers and leaves the body as it was.\<close>

definition announces ::
  "uuid_ops \<Rightarrow> blob \<Rightarrow> (Response \<Rightarrow> render_error + Response) \<Rightarrow> OperationPublicState \<Rightarrow> nat \<Rightarrow> bool"
where
  "announces U uuid f state st \<longleftrightarrow>
     (\<forall>res. \<exists>res'. f res = Inr res' \<and> res_status res' = st \<and> res_body res' = res_body res \<and>
        header_values OPERATION_ID_HEADER (res_headers res') = [hyphenated U uuid] \<and>
        header_values OPERATION_STATE_HEADER (res_headers res') = [operation_wire_name state])"

lemma operation_headers_set:
  assumes "http_ok H" "uuid_visible U"
  shows "\<exists>res'. set_operation_headers H U uuid state res = Inr res' \<and> res_status res' = res_status res \<and> res_body res' = res_body res \<and>
    header_values OPERATION_ID_HEADER (res_headers res') = [hyphenated U uuid] \<and>
    header_values OPERATION_STATE_HEADER (res_headers res') = [operation_wire_name state]"
proof -
  have "header_value H (hyphenated U uuid)" using assms by (simp add: http_ok_def uuid_visible_def)
  then show ?thesis
    by (simp add: set_operation_headers_def OPERATION_ID_HEADER_def OPERATION_STATE_HEADER_def)
qed

lemma render_reports:
  assumes H: "http_ok H" and ctx: "e_operation e = Some (new_operation_context (hyphenated U uuid) state st)" "e_upload e = None"
    and head: "header_values OPERATION_ID_HEADER (res_headers res) = [hyphenated U uuid]"
      "header_values OPERATION_STATE_HEADER (res_headers res) = [operation_wire_name state]"
  shows "\<exists>res' obj. render_problem H res e = Inr res' \<and> res_status res' = e_status e \<and> res_body res' = Json obj \<and>
    header_values OPERATION_ID_HEADER (res_headers res') = [hyphenated U uuid] \<and>
    header_values OPERATION_STATE_HEADER (res_headers res') = [operation_wire_name state] \<and>
    map_of obj ''operation_id'' = Some (JText (hyphenated U uuid)) \<and>
    map_of obj ''state'' = Some (JText (operation_wire_name state))"
proof -
  have one: "e_operation e = None \<or> e_upload e = None" using ctx(2) by simp
  obtain p where p: "problem_details H e = Some p" "pd_operation_id p = map_option oc_operation_id (e_operation e)"
    "pd_state p = map_option (operation_wire_name \<circ> oc_public_state) (e_operation e)"
    by (rule details_exist [OF one])
  obtain res' where r: "render_problem H res e = Inr res'" "res_status res' = e_status e" "res_body res' = Json (problem_json p)"
    "\<forall>n. n \<noteq> ''content-type'' \<longrightarrow> n \<noteq> ''retry-after'' \<longrightarrow>
       header_values n (res_headers res') = header_values n (res_headers res)"
    using render_ok [OF H p(1)] by blast
  have "header_values OPERATION_ID_HEADER (res_headers res') = [hyphenated U uuid]"
    "header_values OPERATION_STATE_HEADER (res_headers res') = [operation_wire_name state]"
    using r(4) head by (simp_all add: OPERATION_ID_HEADER_def OPERATION_STATE_HEADER_def)
  with r(1-3) p(2,3) ctx(1) show ?thesis
    by (simp add: problem_fields new_operation_context_def)
qed

lemma problem_reports:
  assumes "http_ok H" "uuid_visible U"
  shows "reports U uuid (operation_problem H U uuid state st c detail advice) state st ''operation_id''"
  unfolding reports_def
proof
  fix res
  obtain res1 where h: "set_operation_headers H U uuid state res = Inr res1"
    "header_values OPERATION_ID_HEADER (res_headers res1) = [hyphenated U uuid]"
    "header_values OPERATION_STATE_HEADER (res_headers res1) = [operation_wire_name state]"
    using operation_headers_set [OF assms] by blast
  let ?e = "with_operation (new_operation_context (hyphenated U uuid) state None)
      (with_recovery advice (new_api_error st c detail))"
  have e: "e_operation ?e = Some (new_operation_context (hyphenated U uuid) state None)" "e_upload ?e = None" "e_status ?e = st"
    by (simp_all add: with_operation_def with_recovery_def new_api_error_def)
  show "\<exists>res' obj. operation_problem H U uuid state st c detail advice res = Inr res' \<and> res_status res' = st \<and>
      res_body res' = Json obj \<and> header_values OPERATION_ID_HEADER (res_headers res') = [hyphenated U uuid] \<and>
      header_values OPERATION_STATE_HEADER (res_headers res') = [operation_wire_name state] \<and>
      map_of obj ''operation_id'' = Some (JText (hyphenated U uuid)) \<and>
      map_of obj ''state'' = Some (JText (operation_wire_name state))"
    using render_reports [OF assms(1) e(1,2) h(2,3)] by (simp add: operation_problem_def operation_response_def h(1) e(3))
qed

lemma apply_status_problem:
  "apply_status H U uuid JobNotFound =
     operation_problem H U uuid OpUnknown 404 JOB_NOT_FOUND ''Job not found'' RefreshTarget"
  "apply_status H U uuid JobUnavailable =
     operation_problem H U uuid OpUnknown 503 JOB_STORE_UNAVAILABLE
       ''Job state store is temporarily unavailable'' (RetryAfterSeconds 1)"
  by (rule ext, simp add: apply_status_def)+

lemma outcome_reports:
  assumes "http_ok H" "uuid_visible U" "oo_error oc \<noteq> None"
  shows "reports U uuid (apply_operation_outcome H U uuid oc replayed) (oo_state oc) (oo_status oc) ''operation_id''"
  unfolding reports_def
proof
  fix res
  obtain error where error: "oo_error oc = Some error" using assms(3) by blast
  obtain res1 where h: "set_operation_headers H U uuid (oo_state oc) res = Inr res1"
    "header_values OPERATION_ID_HEADER (res_headers res1) = [hyphenated U uuid]"
    "header_values OPERATION_STATE_HEADER (res_headers res1) = [operation_wire_name (oo_state oc)]"
    using operation_headers_set [OF assms(1,2)] by blast
  define res2 where "res2 = (if replayed then header_insert ''x-dufs-operation-replayed'' ''true'' res1 else res1)"
  have h2: "header_values OPERATION_ID_HEADER (res_headers res2) = [hyphenated U uuid]"
    "header_values OPERATION_STATE_HEADER (res_headers res2) = [operation_wire_name (oo_state oc)]"
    using h(2,3) by (simp_all add: res2_def OPERATION_ID_HEADER_def OPERATION_STATE_HEADER_def)
  let ?e = "with_operation (new_operation_context (hyphenated U uuid) (oo_state oc) (Some (oo_status oc)))
      (with_recovery (tracked_recovery error) (new_api_error (oo_status oc) (tracked_code error) (tracked_detail error)))"
  have e: "e_operation ?e = Some (new_operation_context (hyphenated U uuid) (oo_state oc) (Some (oo_status oc)))"
    "e_upload ?e = None" "e_status ?e = oo_status oc"
    by (simp_all add: with_operation_def with_recovery_def new_api_error_def)
  show "\<exists>res' obj. apply_operation_outcome H U uuid oc replayed res = Inr res' \<and> res_status res' = oo_status oc \<and>
      res_body res' = Json obj \<and> header_values OPERATION_ID_HEADER (res_headers res') = [hyphenated U uuid] \<and>
      header_values OPERATION_STATE_HEADER (res_headers res') = [operation_wire_name (oo_state oc)] \<and>
      map_of obj ''operation_id'' = Some (JText (hyphenated U uuid)) \<and>
      map_of obj ''state'' = Some (JText (operation_wire_name (oo_state oc)))"
    using render_reports [OF assms(1) e(1,2) h2]
    by (simp add: apply_operation_outcome_def operation_response_def h(1) error e(3) Let_def res2_def [symmetric])
qed

lemma outcome_announces:
  assumes "http_ok H" "uuid_visible U" "oo_error oc = None"
  shows "announces U uuid (apply_operation_outcome H U uuid oc replayed) (oo_state oc) (oo_status oc)"
  unfolding announces_def
proof
  fix res
  obtain res1 where "set_operation_headers H U uuid (oo_state oc) res = Inr res1" "res_body res1 = res_body res"
    "header_values OPERATION_ID_HEADER (res_headers res1) = [hyphenated U uuid]"
    "header_values OPERATION_STATE_HEADER (res_headers res1) = [operation_wire_name (oo_state oc)]"
    using operation_headers_set [OF assms(1,2)] by blast
  then show "\<exists>res'. apply_operation_outcome H U uuid oc replayed res = Inr res' \<and> res_status res' = oo_status oc \<and>
      res_body res' = res_body res \<and> header_values OPERATION_ID_HEADER (res_headers res') = [hyphenated U uuid] \<and>
      header_values OPERATION_STATE_HEADER (res_headers res') = [operation_wire_name (oo_state oc)]"
    by (simp add: apply_operation_outcome_def operation_response_def assms(3) Let_def
        OPERATION_ID_HEADER_def OPERATION_STATE_HEADER_def)
qed

lemma json_reports:
  assumes "http_ok H" "uuid_visible U" "id_field \<noteq> ''state''"
    and "\<And>res. f res = operation_response H U uuid state (\<lambda>res. Inr (set_json_body (operation_body_json id_field
              \<lparr> ob_operation_id = hyphenated U uuid, ob_state = state, ob_http_status = hs, ob_code = c, ob_detail = d \<rparr>)
            (g res))) (res\<lparr> res_status := st \<rparr>)"
    and g: "\<And>n res. n \<noteq> ''retry-after'' \<Longrightarrow> header_values n (res_headers (g res)) = header_values n (res_headers res)"
      "\<And>res. res_status (g res) = res_status res"
  shows "reports U uuid f state st id_field"
  unfolding reports_def
proof
  fix res
  obtain res1 where h: "set_operation_headers H U uuid state (res\<lparr> res_status := st \<rparr>) = Inr res1" "res_status res1 = st"
    "header_values OPERATION_ID_HEADER (res_headers res1) = [hyphenated U uuid]"
    "header_values OPERATION_STATE_HEADER (res_headers res1) = [operation_wire_name state]"
    using operation_headers_set [OF assms(1,2), of uuid state "res\<lparr> res_status := st \<rparr>"] by auto
  have "OPERATION_ID_HEADER \<noteq> ''retry-after''" "OPERATION_STATE_HEADER \<noteq> ''retry-after''"
    "OPERATION_ID_HEADER \<noteq> ''content-type''" "OPERATION_STATE_HEADER \<noteq> ''content-type''"
    by (simp_all add: OPERATION_ID_HEADER_def OPERATION_STATE_HEADER_def)
  then show "\<exists>res' obj. f res = Inr res' \<and> res_status res' = st \<and> res_body res' = Json obj \<and>
      header_values OPERATION_ID_HEADER (res_headers res') = [hyphenated U uuid] \<and>
      header_values OPERATION_STATE_HEADER (res_headers res') = [operation_wire_name state] \<and>
      map_of obj id_field = Some (JText (hyphenated U uuid)) \<and>
      map_of obj ''state'' = Some (JText (operation_wire_name state))"
    using h(2-4) assms(3) g(2)
    by (simp add: assms(4) operation_response_def h(1) set_json_body_def g(1) operation_body_json_def)
qed

section \<open>Operations that reached their commit\<close>

text \<open>The store remembers, until the given time, that the operation may have taken effect.\<close>

definition remembers :: "StoreKey \<Rightarrow> i64 \<Rightarrow> database \<Rightarrow> bool" where
  "remembers key until db \<longleftrightarrow>
     (\<exists>r \<in> set (operations db). is_operation key r \<and>
        (o_state r = 1 \<or> o_state r = 2 \<and> (\<exists>e. o_expires_at_ms r = Some e \<and> until \<le> e)))"

lemma completed_remembers:
  assumes "is_operation key r" "until \<le> e" "set_completed oc now e r \<in> set (operations db)"
  shows "remembers key until db"
  using assms unfolding remembers_def
  by (intro bexI [of _ "set_completed oc now e r"]) (auto simp: set_completed_def is_operation_def OPERATION_COMPLETED_def)

lemma tx_remembers:
  assumes ok: "operations_ok L db" and r: "r \<in> set (operations db)" "is_operation key r" "o_state r = 1" "o_lease r = lease"
    and until: "until \<le> now + ttl_ms L"
  shows "mark_commit_started_tx key lease now db = Inr (db', m) \<Longrightarrow> remembers key until db'"
    "complete_operation_tx L key lease oc now db = Inr (db', m) \<Longrightarrow> remembers key until db'"
    "abandon_operation_tx L key lease now db = Inr (db', u) \<Longrightarrow> remembers key until db'"
proof -
  have leased: "leased_in key lease {0, 1} r" "leased_in key lease {1} r" using r(2-4) by (simp_all add: leased_in_def)
  have not0: "\<not> leased_in key lease {0} x" if "x \<in> set (operations db)" for x
    using that r(1-3) keys_distinct_eqD [of o_key "operations db" x r] ok
    by (auto simp: operations_ok_def is_operation_key leased_in_def)
  have upd: "f r \<in> set (update_where P f (operations db))" if "P r" for f P
    using r(1) that by (auto simp: set_update_where)
  show "mark_commit_started_tx key lease now db = Inr (db', m) \<Longrightarrow> remembers key until db'"
    using r(1-3) not0 [OF r(1)] update_keeps [OF r(1), of "leased_in key lease {0}" "set_commit_started now"]
    by (auto simp: mark_tx_Inr remembers_def)
  show "remembers key until db'" if "complete_operation_tx L key lease oc now db = Inr (db', m)"
  proof (rule completed_remembers [OF r(2) until, of oc now])
    show "set_completed oc now (now + ttl_ms L) r \<in> set (operations db')"
      using that upd [of "leased_in key lease {0, 1}", OF leased(1)] by (simp add: complete_tx_Inr)
  qed
  show "remembers key until db'" if ab: "abandon_operation_tx L key lease now db = Inr (db', u)"
  proof (cases rule: abandon_tx_cases [OF ab])
    case 1
    then obtain x where "x \<in> set (operations db)" "leased_in key lease {0} x"
      by (auto simp: count_where_def filter_empty_conv)
    with not0 show ?thesis by blast
  next
    case 2
    show ?thesis
    proof (rule completed_remembers [OF r(2) until, of uncertain now])
      show "set_completed uncertain now (now + ttl_ms L) r \<in> set (operations db')"
        using 2(1) upd [of "leased_in key lease {1}", OF leased(2)] by simp
    qed
  qed
qed

lemma timed_remembers:
  assumes "remembers key until (connection w)" "until \<le> last_ms (clock w) + ttl_ms (limits w)"
    and "\<And>now db' x. \<lbrakk> body now (connection w) = Inr (db', x); until \<le> now + ttl_ms (limits w) \<rbrakk> \<Longrightarrow> remembers key until db'"
  shows "remembers key until (connection (fst (timed t w body)))"
proof (cases rule: timed_cases [of t w body])
  case (done' now db x)
  have "last_ms (clock w) \<le> now" using observe_Inr(1,2) [OF done'(1)] by simp
  with assms(2,3) done'(3,5) show ?thesis by auto
qed (use assms(1) in simp)

lemma step_remembers:
  assumes ok: "operation_store_ok w" and until: "until \<le> last_ms (clock w) + ttl_ms (limits w)"
    and r: "remembers key until (connection w)"
  shows "remembers key until (connection (operation_step w e)) \<or> until \<le> last_ms (clock (operation_step w e))"
proof -
  obtain t c where tc: "e = (t, c)" by fastforce
  from r obtain x where x: "x \<in> set (operations (connection w))" "is_operation key x"
    "o_state x = 1 \<or> o_state x = 2 \<and> (\<exists>e. o_expires_at_ms x = Some e \<and> until \<le> e)"
    unfolding remembers_def by blast
  show ?thesis
  proof (cases "o_state x = 1")
    case False
    then obtain ex where ex: "o_state x = 2" "o_expires_at_ms x = Some ex" "until \<le> ex" using x(3) by blast
    from step_keeps_completed [OF x(1) ex(1,2), of e] x(2) ex show ?thesis
      unfolding remembers_def by force
  next
    case open': True
    show ?thesis
    proof (cases "uses_lease key (o_lease x) c")
      case False
      have "x \<in> set (operations (connection (operation_step w e)))"
        by (rule step_keeps_leased [OF x(1,2) refl]) (use open' False tc in simp_all)
      with x(2) open' show ?thesis unfolding remembers_def by blast
    next
      case True
      note okdb = ok [unfolded operation_store_ok_def, THEN conjunct2]
      note tx = tx_remembers [OF okdb x(1,2) open' refl]
      have "remembers key until (connection (operation_step w e))"
      proof (cases c)
        case (MarkCommitStarted k l)
        with True show ?thesis
          by (simp add: tc mark_operation_commit_started_def) (rule timed_remembers [OF r until], rule tx(1))
      next
        case (Complete k l oc)
        with True show ?thesis
          by (simp add: tc complete_operation_fst r) (intro impI timed_remembers [OF r until], rule tx(2))
      next
        case (Abandon k l)
        with True show ?thesis
          by (simp add: tc abandon_operation_def) (rule timed_remembers [OF r until], rule tx(3))
      qed (use True in simp_all)
      then show ?thesis ..
    qed
  qed
qed

lemma run_remembers:
  assumes "operation_store_ok w" "until \<le> last_ms (clock w) + ttl_ms (limits w)"
    "remembers key until (connection w) \<or> until \<le> last_ms (clock w)" "list_all operation_event_ok es"
  shows "remembers key until (connection (run_steps operation_step w es)) \<or>
    until \<le> last_ms (clock (run_steps operation_step w es))"
  using assms
proof (induction es arbitrary: w)
  case (Cons e es)
  have "operation_store_ok (operation_step w e)" by (rule operation_step_ok) (use Cons.prems in simp_all)
  moreover have "until \<le> last_ms (clock (operation_step w e)) + ttl_ms (limits (operation_step w e))"
    using Cons.prems(2) step_clock_mono [of w e] by (simp add: operation_step_frame)
  moreover have "remembers key until (connection (operation_step w e)) \<or> until \<le> last_ms (clock (operation_step w e))"
  proof (cases "until \<le> last_ms (clock w)")
    case True
    with step_clock_mono [of w e] show ?thesis by simp
  next
    case False
    with Cons.prems(3) show ?thesis by (intro step_remembers [OF Cons.prems(1,2)]) simp
  qed
  ultimately show ?case using Cons.IH [of "operation_step w e"] Cons.prems(4) by simp
qed simp

section \<open>From the registry to the store\<close>



lemma begin_request_answer:
  assumes "begin_request sha H t True owner_name uuid fp w = (w2, Inr b)"
  obtains res where "begin_operation t (operation_key sha owner_name uuid) fp w = (w2, Inr res)"
    "res = OperationRunning \<Longrightarrow> b = BeginRunning" "res = BeginConflict \<Longrightarrow> b = BeginRefused"
    "\<And>so. res = Replay so \<Longrightarrow> \<exists>oc. from_stored H so = Inr oc \<and> b = BeginReplay oc"
  using assms
  by (auto simp: begin_request_def Let_def split: if_splits prod.splits sum.splits StoreBegin.splits)

lemma mark_remembers:
  assumes ok: "operation_store_ok w" and mark: "mark_commit_started t accepted g w = (w1, Inr ())" "\<not> guard_completed g"
  shows "remembers (guard_key g) until (connection w1)"
proof -
  let ?tx = "mark_commit_started_tx (guard_key g) (guard_lease g)"
  have m: "timed t w ?tx = (w1, Inr True)"
    using mark by (auto simp: mark_commit_started_def mark_operation_commit_started_def split: if_splits prod.splits sum.splits)
  show ?thesis
  proof (cases rule: timed_cases [of t w ?tx])
    case (failed e)
    with m show ?thesis by simp
  next
    case (done' now db x)
    let ?P = "leased_in (guard_key g) (guard_lease g) {0}"
    from done'(3-5) m have tx: "?tx now (connection w) = Inr (connection w1, True)" by simp
    then have "filter ?P (operations (connection w)) \<noteq> []" by (auto simp: mark_tx_Inr count_where_def)
    then obtain r where r: "r \<in> set (operations (connection w))" "?P r" by (auto simp: filter_empty_conv)
    have "set_commit_started now r \<in> set (operations (connection w1))"
      using tx r by (auto simp: mark_tx_Inr set_update_where)
    with r(2) show ?thesis unfolding remembers_def
      by (intro bexI [of _ "set_commit_started now r"])
        (auto simp: set_commit_started_def is_operation_def leased_in_def OPERATION_COMMIT_STARTED_def)
  qed
qed


lemma mark_registry_step:
  assumes "mark_commit_started t True g w = (w1, Inr ())" "\<not> guard_completed g"
  shows "w1 = operation_step w (t, MarkCommitStarted (guard_key g) (guard_lease g))"
  using assms by (auto simp: mark_commit_started_def split: prod.splits sum.splits)



section \<open>A store with one operation\<close>

definition demo_sha :: "string \<Rightarrow> blob" where
  "demo_sha x = (if hd x = CHR ''d'' then replicate 32 CHR ''o'' else replicate 32 CHR ''f'')"

definition demo_guard :: OperationGuard where
  "demo_guard = \<lparr> guard_key = demo_store_key, guard_lease = replicate 16 CHR ''l'', guard_completed = False \<rparr>"

lemma hd_be_bytes: "n < 256 ^ k \<Longrightarrow> hd (be_bytes (Suc k) n) = (char_of (0 :: nat) :: char)"
proof (induction k arbitrary: n)
  case (Suc k)
  have "length (be_bytes (Suc k) (n div 256)) = Suc k" by (rule length_be_bytes)
  then have ne: "be_bytes (Suc k) (n div 256) \<noteq> []" by (metis list.size(3) nat.distinct(1))
  have "n div 256 < 256 ^ k" using Suc.prems by (simp add: less_mult_imp_div_less mult.commute)
  then have "hd (be_bytes (Suc k) (n div 256)) = (char_of (0 :: nat) :: char)" by (rule Suc.IH)
  then have "hd (be_bytes (Suc k) (n div 256) @ [char_of (n mod 256)]) = (char_of (0 :: nat) :: char)"
    unfolding hd_append2 [OF ne] .
  then show ?case unfolding be_bytes.simps(2) [of "Suc k"] .
qed simp

lemma demo_registry:
  "\<forall>x. length (demo_sha x) = 32" "operation_key demo_sha ''u'' (replicate 16 CHR ''i'') = demo_store_key"
  "new_fingerprint demo_sha [''a''] = demo_fp"
proof -
  have e: "(8 :: nat) = Suc 7" by simp
  have "(1 :: nat) < 256 ^ 7" by simp
  from hd_be_bytes [OF this] have "hd (u64_to_be_bytes 1) = (char_of (0 :: nat) :: char)"
    unfolding u64_to_be_bytes_def e .
  then have one: "hd (u64_to_be_bytes 1) = CHR 0x00" by (simp add: char_of_def)
  have "u64_to_be_bytes 1 \<noteq> []" by (metis length_u64_to_be_bytes list.size(3) zero_neq_numeral)
  with one have "hd (framed_parts [''a'']) = CHR 0x00" by (simp add: framed_parts_def)
  then show "new_fingerprint demo_sha [''a''] = demo_fp"
    by (simp add: new_fingerprint_def demo_sha_def demo_fp_def)
qed (simp_all add: demo_sha_def operation_key_def persistent_def domain_separated_def demo_store_key_def)


lemma demo_started_ok: "operation_store_ok demo_started"
  using operation_step_ok [OF demo_ok(1), of "(demo_tick 0, Begin demo_store_key demo_fp)"] demo_ok
  by (simp add: demo_started_def)

lemma demo_uuid_visible: "uuid_visible hex_uuid"
proof -
  have "list_all (\<lambda>c. 32 \<le> (of_char c :: nat) \<and> (of_char c :: nat) < 127) (encode_hex bs)" for bs
    using encode_hex_lower [of bs]
    by (auto simp: list_all_iff is_lower_hex_def is_ascii_digit_def less_eq_char_def)
  then show ?thesis by (simp add: uuid_visible_def hex_uuid_def)
qed

section \<open>Properties\<close>

text \<open>Claim C4.  A mutation that reached its commit point is never executed again: once the guard of
  an operation has recorded the start of the commit, then whatever becomes of the guard
  (completed, dropped, cancelled, its commands repeated) and whatever other commands follow, a
  request under the same key is told that the operation runs, replays an outcome or is refused,
  until the time to live after the commit has passed; it is never given a new guard.\<close>

theorem committed_operation_never_restarts:
  assumes ok: "operation_store_ok w" and t: "tick_ok t" "key_ok (guard_key g)" "length (guard_lease g) = 16"
    and mark: "mark_commit_started t True g w = (w1, Inr ())" "\<not> guard_completed g"
    and es: "list_all operation_event_ok es"
    and again: "begin_request sha H t' True owner_name uuid fp (run_steps operation_step w1 es) = (w2, Inr b)"
    and key: "operation_key sha owner_name uuid = guard_key g"
    and retained: "last_ms (clock w2) < last_ms (clock w1) + ttl_ms (limits w)"
  shows "b = BeginRunning \<or> b = BeginRefused \<or> (\<exists>oc. b = BeginReplay oc)"
proof -
  let ?until = "last_ms (clock w1) + ttl_ms (limits w)" and ?w = "run_steps operation_step w1 es"
  note w1 = mark_registry_step [OF mark]
  have lim: "limits w1 = limits w" unfolding w1 by (rule operation_step_frame)
  have ok1: "operation_store_ok w1" unfolding w1 by (rule operation_step_ok [OF ok]) (use t in simp)
  have ok2: "operation_store_ok ?w" by (rule operation_machine.run_inv [OF ok1 es])
  obtain res where res: "begin_operation t' (guard_key g) fp ?w = (w2, Inr res)"
    "res = OperationRunning \<Longrightarrow> b = BeginRunning" "res = BeginConflict \<Longrightarrow> b = BeginRefused"
    "\<And>so. res = Replay so \<Longrightarrow> \<exists>oc. from_stored H so = Inr oc \<and> b = BeginReplay oc"
    using begin_request_answer [OF again] unfolding key by blast
  have "last_ms (clock ?w) \<le> last_ms (clock w2)"
    using timed_clock_mono [of ?w t' "begin_operation_tx (limits ?w) (fresh t') (guard_key g) fp"] res(1)
    by (simp add: begin_operation_def)
  moreover have "remembers (guard_key g) ?until (connection ?w) \<or> ?until \<le> last_ms (clock ?w)"
    by (rule run_remembers [OF ok1 _ _ es]) (use lim mark_remembers [OF ok mark] in simp_all)
  ultimately have "remembers (guard_key g) ?until (connection ?w)" using retained by linarith
  then obtain r where r: "r \<in> set (operations (connection ?w))" "is_operation (guard_key g) r"
    "o_state r = 1 \<or> o_state r = 2 \<and> (\<exists>e. o_expires_at_ms r = Some e \<and> ?until \<le> e)"
    unfolding remembers_def by blast
  have live: "\<not> is_expired (last_ms (clock w2)) r"
    using r(3) retained open_not_expired [of r] by (auto simp: is_expired_def)
  from begin_finds [OF ok2 r(1,2) res(1) live] res(2-4) show ?thesis by blast
qed

theorem committed_operation_never_restarts_witness:
  "\<exists>w1 w2. mark_commit_started (demo_tick 1) True demo_guard demo_started = (w1, Inr ()) \<and>
     begin_request demo_sha demo_http (demo_tick 2) True ''u'' (replicate 16 CHR ''i'') demo_fp w1 = (w2, Inr BeginRunning)"
proof -
  obtain w1 w2 where a: "mark_operation_commit_started (demo_tick 1) demo_store_key (replicate 16 CHR ''l'') demo_started = (w1, Inr True)"
    "begin_operation (demo_tick 2) demo_store_key demo_fp w1 = (w2, Inr OperationRunning)"
    "last_ms (clock w2) < last_ms (clock w1) + ttl_ms (limits demo_started)"
    unfolding demo_started_def
    by (simp add: demo_eval mark_operation_commit_started_def mark_commit_started_tx_def set_commit_started_def)
  have m: "mark_commit_started (demo_tick 1) True demo_guard demo_started = (w1, Inr ())"
    using a(1) by (simp add: mark_commit_started_def demo_guard_def)
  have b: "begin_request demo_sha demo_http (demo_tick 2) True ''u'' (replicate 16 CHR ''i'') demo_fp w1 = (w2, Inr BeginRunning)"
    using a(2) by (simp add: begin_request_def demo_registry)
  have "BeginRunning = BeginRunning \<or> BeginRunning = BeginRefused \<or> (\<exists>oc. BeginRunning = BeginReplay oc)"
    by (rule committed_operation_never_restarts [OF demo_started_ok demo_ok(2) _ _ m, of "[]"])
      (use b a(3) demo_ok demo_registry in \<open>simp_all add: demo_guard_def\<close>)
  with m b show ?thesis by blast
qed



text \<open>Claim C37.  Every answer about an operation is consistent: for every valid identifier the response is
  produced under the status of the state it reports and names the operation and that state in its
  headers; every answer but a successful outcome names both in its body as well, alike, and a
  successful outcome leaves the body to its handler.  In particular an accepted, a refused and a
  deferred request are never reported under the state of another.\<close>

theorem operation_responses_consistent:
  assumes "http_ok H" "uuid_visible U"
  shows "reports U uuid (apply_running H U uuid) OpRunning 202 ''operation_id'' \<and>
    reports U uuid (apply_conflict H U uuid) OpRejected 409 ''operation_id'' \<and>
    reports U uuid (apply_registry_full H U uuid) OpRejected 503 ''operation_id'' \<and>
    reports U uuid (apply_registry_unavailable H U uuid) OpRejected 503 ''operation_id'' \<and>
    reports U uuid (apply_unknown H U uuid st c message) OpUnknown st ''operation_id'' \<and>
    reports U uuid (apply_status H U uuid JobRunning) OpRunning 200 ''job_id'' \<and>
    reports U uuid (apply_status H U uuid (JobCompleted oc)) (oo_state oc) 200 ''job_id'' \<and>
    reports U uuid (apply_status H U uuid JobNotFound) OpUnknown 404 ''operation_id'' \<and>
    reports U uuid (apply_status H U uuid JobUnavailable) OpUnknown 503 ''operation_id'' \<and>
    (oo_error oc \<noteq> None \<longrightarrow>
       reports U uuid (apply_operation_outcome H U uuid oc replayed) (oo_state oc) (oo_status oc) ''operation_id'') \<and>
    (oo_error oc = None \<longrightarrow> announces U uuid (apply_operation_outcome H U uuid oc replayed) (oo_state oc) (oo_status oc))"
proof (intro conjI impI)
  show "reports U uuid (apply_running H U uuid) OpRunning 202 ''operation_id''"
    by (rule json_reports [OF assms, where g = "header_insert ''retry-after'' ''1''"]) (simp_all add: apply_running_def)
  show "reports U uuid (apply_status H U uuid JobRunning) OpRunning 200 ''job_id''"
    by (rule json_reports [OF assms, where g = "\<lambda>res. res"]) (simp_all add: apply_status_def)
  show "reports U uuid (apply_status H U uuid (JobCompleted oc)) (oo_state oc) 200 ''job_id''"
    by (rule json_reports [OF assms, where g = "\<lambda>res. res"]) (simp_all add: apply_status_def)
  show "reports U uuid (apply_operation_outcome H U uuid oc replayed) (oo_state oc) (oo_status oc) ''operation_id''"
    if "oo_error oc \<noteq> None" by (rule outcome_reports [OF assms that])
  show "announces U uuid (apply_operation_outcome H U uuid oc replayed) (oo_state oc) (oo_status oc)"
    if "oo_error oc = None" by (rule outcome_announces [OF assms that])
qed (use problem_reports [OF assms] in \<open>simp_all add: apply_conflict_def apply_registry_full_def
    apply_registry_unavailable_def apply_unknown_def apply_status_problem\<close>)

theorem operation_responses_consistent_witness:
  "http_ok demo_http \<and> uuid_visible hex_uuid \<and>
   reports hex_uuid (replicate 16 CHR ''i'') (apply_running demo_http hex_uuid (replicate 16 CHR ''i'')) OpRunning 202 ''operation_id'' \<and>
   announces hex_uuid (replicate 16 CHR ''i'')
     (apply_operation_outcome demo_http hex_uuid (replicate 16 CHR ''i'') \<lparr> oo_status = 201, oo_state = OpSucceeded, oo_error = None \<rparr> True) OpSucceeded 201"
  using operation_responses_consistent [OF demo_http_ok demo_uuid_visible, of "replicate 16 CHR ''i''" 0 _ _ "\<lparr> oo_status = 201, oo_state = OpSucceeded, oo_error = None \<rparr>" True]
    demo_http_ok demo_uuid_visible by simp

end
