(* ===== verification/Store_Actor.thy ===== *)
theory Store_Actor
  imports Store_Purge
begin

text \<open>
  The state-store actor (\<^verbatim>\<open>server/state_store/actor.rs\<close> and the command types of
  \<^verbatim>\<open>server/state_store.rs\<close>): one thread owns the database and serves commands from a bounded queue;
  abandonments of reservations and the shutdown arrive on a separate control channel, which is
  drained before every command, and an abandonment that the database refuses is kept and tried
  again, one per turn.

  A turn of the loop is a function of what the environment decides during it: the readings of the
  clocks and of SQLite for each access, whether the requester has gone before the command is
  looked at, and whether the reply reaches it.  The checks that the handle makes before it sends a
  command are part of the command here.  The metadata tables that the readiness probe reads do not
  change while the actor runs; the probe takes what it finds there as arguments.
\<close>

section \<open>Commands\<close>

datatype Command =
    Wake
  | ProbeReadiness
  | BeginCommand StoreKey blob
  | StatusCommand StoreKey
  | MarkCommitStartedCommand StoreKey blob
  | CompleteCommand StoreKey blob StoredOutcome
  | SaveUploadSession StoredUploadSession nat
  | LoadUploadSession StoreKey
  | ListUploadSessionsPageBlocking "StoreKey option" i64
  | ListUploadSessionsPage "StoreKey option" i64
  | RejectUploadSessionCommand StoreKey string string nat
  | ListExpiredUploadSessions "StoreKey option" i64
  | MatchExpiredUploadSession ExpiredUploadSession
  | RemoveUploadSessionIfMatches StoredUploadSession
  | RemoveExpiredUploadSessionIfMatches ExpiredUploadSession
  | PreparePurgeJob StoredPurgeJob
  | LoadPurgeJob StoreKey
  | ListPreparedPurgeJobs i64
  | ListPurgeJobs i64
  | IsStatePathBoundBlocking string
  | ListStateBlockingPaths "StatePathCursor option" usize
  | MarkPurgeJobReady StoreKey blob
  | ClaimDuePurgeJob
  | RetryPurgeJob StoreKey nat
  | CompletePurgeJob StoreKey
  | RemovePurgeJob StoreKey

datatype ControlCommand = AbandonControl StoreKey blob | Shutdown

datatype Reply =
    ReadinessReply "unit result"
  | BeginReply "StoreBegin result"
  | StatusReply "StoreStatus result"
  | FlagReply "bool result"
  | SaveReply "StoreUploadSession result"
  | SessionReply "StoredUploadSession option result"
  | SessionsReply "StoredUploadSession list result"
  | RejectReply "RejectUploadSession result"
  | ExpiredReply "ExpiredUploadSession list result"
  | PrepareReply "StorePurgeJob result"
  | JobReply "StoredPurgeJob option result"
  | JobsReply "StoredPurgeJob list result"
  | PageReply "StatePathPage result"

text \<open>What the environment decides while one command is handled.\<close>

record handling =
  h_tick :: tick
  h_cleanup_tick :: tick
  h_closed :: bool
  h_delivered :: bool
  h_product_ok :: bool
  h_metadata_rows :: nat

section \<open>Handling\<close>

definition defer_abandon :: "StoreKey \<Rightarrow> blob \<Rightarrow> StoreWorker \<Rightarrow> StoreWorker" where
  "defer_abandon key lease w =
     (if list_ex (\<lambda>pending. pending = (key, lease)) (deferred_abandons w) then w
      else w\<lparr> deferred_abandons := deferred_abandons w @ [(key, lease)] \<rparr>)"

definition retry_one_deferred_abandon :: "tick \<Rightarrow> StoreWorker \<Rightarrow> StoreWorker" where
  "retry_one_deferred_abandon t w =
     (case deferred_abandons w of
        [] \<Rightarrow> w
      | (key, lease) # rest \<Rightarrow>
          (case abandon_operation t key lease (w\<lparr> deferred_abandons := rest \<rparr>) of
             (w, Inl _) \<Rightarrow> w\<lparr> deferred_abandons := deferred_abandons w @ [(key, lease)] \<rparr>
           | (w, Inr _) \<Rightarrow> w))"

text \<open>The probe writes inside a transaction that it rolls back.\<close>

definition probe_readiness :: "handling \<Rightarrow> StoreWorker \<Rightarrow> StoreWorker \<times> unit result" where
  "probe_readiness h w =
     (w, if \<not> h_product_ok h then Inl ConstraintFailure
         else if \<not> sql_ok (h_tick h) then Inl SqlFailure
         else if \<not> 2 \<le> h_metadata_rows h then Inl ConstraintFailure
         else Inr ())"

definition abandon_or_defer :: "tick \<Rightarrow> StoreKey \<Rightarrow> blob \<Rightarrow> StoreWorker \<Rightarrow> StoreWorker" where
  "abandon_or_defer t key lease w =
     (case abandon_operation t key lease w of
        (w, Inl _) \<Rightarrow> defer_abandon key lease w
      | (w, Inr _) \<Rightarrow> w)"

text \<open>The drain of the control channel; the flag says whether the actor stops.\<close>

fun drain_controls :: "(nat \<Rightarrow> tick) \<Rightarrow> ControlCommand list \<Rightarrow> StoreWorker \<Rightarrow> StoreWorker \<times> bool" where
  "drain_controls ts [] w = (w, False)"
| "drain_controls ts (AbandonControl key lease # cs) w =
     drain_controls (\<lambda>n. ts (Suc n)) cs (abandon_or_defer (ts 0) key lease w)"
| "drain_controls ts (Shutdown # cs) w = (w, True)"

definition process_controls :: "tick \<Rightarrow> (nat \<Rightarrow> tick) \<Rightarrow> ControlCommand list \<Rightarrow> StoreWorker \<Rightarrow> StoreWorker \<times> bool" where
  "process_controls t ts cs w = drain_controls ts cs (retry_one_deferred_abandon t w)"

definition reply_with :: "('a \<Rightarrow> Reply) \<Rightarrow> StoreWorker \<times> 'a \<Rightarrow> StoreWorker \<times> Reply option" where
  "reply_with f answer = (fst answer, Some (f (snd answer)))"

definition unless_closed :: "handling \<Rightarrow> StoreWorker \<Rightarrow> StoreWorker \<times> Reply option \<Rightarrow> StoreWorker \<times> Reply option" where
  "unless_closed h w answer = (if h_closed h then (w, None) else answer)"

definition handle_begin :: "handling \<Rightarrow> StoreKey \<Rightarrow> blob \<Rightarrow> StoreWorker \<Rightarrow> StoreWorker \<times> Reply option" where
  "handle_begin h key fp w =
     (case begin_operation (h_tick h) key fp w of
        (w, Inl e) \<Rightarrow> (w, if h_delivered h then Some (BeginReply (Inl e)) else None)
      | (w, Inr begun) \<Rightarrow>
          if h_delivered h then (w, Some (BeginReply (Inr begun)))
          else (case begun of
                  Started lease \<Rightarrow> (abandon_or_defer (h_cleanup_tick h) key lease w, None)
                | _ \<Rightarrow> (w, None)))"

fun handle_command :: "handling \<Rightarrow> Command \<Rightarrow> StoreWorker \<Rightarrow> StoreWorker \<times> Reply option" where
  "handle_command h Wake w = (w, None)"
| "handle_command h ProbeReadiness w = unless_closed h w (reply_with ReadinessReply (probe_readiness h w))"
| "handle_command h (BeginCommand key fp) w = unless_closed h w (handle_begin h key fp w)"
| "handle_command h (StatusCommand key) w =
     unless_closed h w (reply_with StatusReply (operation_status (h_tick h) key w))"
| "handle_command h (MarkCommitStartedCommand key lease) w =
     reply_with FlagReply (mark_operation_commit_started (h_tick h) key lease w)"
| "handle_command h (CompleteCommand key lease oc) w =
     reply_with FlagReply (complete_operation (h_tick h) key lease oc w)"
| "handle_command h (SaveUploadSession s ttl) w = reply_with SaveReply (save_upload_session (h_tick h) s ttl w)"
| "handle_command h (LoadUploadSession key) w =
     unless_closed h w (reply_with SessionReply (read_only (h_tick h) w (load_upload_session key)))"
| "handle_command h (ListUploadSessionsPageBlocking after limit) w =
     reply_with SessionsReply (upload_sessions_page (h_tick h) after limit w)"
| "handle_command h (ListUploadSessionsPage after limit) w =
     unless_closed h w (reply_with SessionsReply (upload_sessions_page (h_tick h) after limit w))"
| "handle_command h (RejectUploadSessionCommand key target stage ttl) w =
     reply_with RejectReply (reject_upload_session (h_tick h) key target stage ttl w)"
| "handle_command h (ListExpiredUploadSessions after limit) w =
     unless_closed h w (reply_with ExpiredReply (expired_upload_sessions (h_tick h) after limit w))"
| "handle_command h (MatchExpiredUploadSession expected) w =
     unless_closed h w (reply_with FlagReply (expired_upload_session_matches (h_tick h) expected w))"
| "handle_command h (RemoveUploadSessionIfMatches expected) w =
     reply_with FlagReply (remove_upload_session_if_matches (h_tick h) expected w)"
| "handle_command h (RemoveExpiredUploadSessionIfMatches expected) w =
     reply_with FlagReply (remove_expired_upload_session_if_matches (h_tick h) expected w)"
| "handle_command h (PreparePurgeJob j) w = reply_with PrepareReply (prepare_purge_job (h_tick h) j w)"
| "handle_command h (LoadPurgeJob key) w =
     unless_closed h w (reply_with JobReply (read_only (h_tick h) w (load_purge_job key)))"
| "handle_command h (ListPreparedPurgeJobs limit) w =
     unless_closed h w (reply_with JobsReply (prepared_purge_jobs (h_tick h) limit w))"
| "handle_command h (ListPurgeJobs limit) w =
     unless_closed h w (reply_with JobsReply (list_purge_jobs (h_tick h) limit w))"
| "handle_command h (IsStatePathBoundBlocking path) w = reply_with FlagReply (state_path_is_bound (h_tick h) path w)"
| "handle_command h (ListStateBlockingPaths after limit) w =
     unless_closed h w (reply_with PageReply (state_blocking_paths (h_tick h) after limit w))"
| "handle_command h (MarkPurgeJobReady key revision) w =
     reply_with FlagReply (mark_purge_job_ready (h_tick h) key revision w)"
| "handle_command h ClaimDuePurgeJob w = reply_with JobReply (claim_due_purge_job (h_tick h) w)"
| "handle_command h (RetryPurgeJob key delay) w = reply_with FlagReply (retry_purge_job (h_tick h) key delay w)"
| "handle_command h (CompletePurgeJob key) w = reply_with FlagReply (complete_purge_job (h_tick h) key w)"
| "handle_command h (RemovePurgeJob key) w = reply_with FlagReply (remove_purge_job (h_tick h) key w)"

section \<open>The loop\<close>

record turn =
  t_retry :: tick
  t_controls :: "nat \<Rightarrow> tick"
  t_command :: Command
  t_handling :: handling

text \<open>One turn: the control channel, then one command.  The flag says whether the actor stopped.\<close>

definition run_turn :: "turn \<Rightarrow> ControlCommand list \<Rightarrow> StoreWorker \<Rightarrow> StoreWorker \<times> Reply option \<times> bool" where
  "run_turn tn cs w =
     (case process_controls (t_retry tn) (t_controls tn) cs w of
        (w, True) \<Rightarrow> (w, None, True)
      | (w, False) \<Rightarrow> (case handle_command (t_handling tn) (t_command tn) w of (w, r) \<Rightarrow> (w, r, False)))"

text \<open>The actor with its control channel and the reservations that live guards own.\<close>

record ActorSystem =
  worker :: StoreWorker
  control_queue :: "ControlCommand list"
  guards :: "(StoreKey \<times> blob) list"
  stopped :: bool

definition guards_after ::
  "handling \<Rightarrow> Command \<Rightarrow> Reply option \<Rightarrow> (StoreKey \<times> blob) list \<Rightarrow> (StoreKey \<times> blob) list"
where
  "guards_after h c r gs =
     (case (c, r) of
        (BeginCommand key fp, Some (BeginReply (Inr (Started lease)))) \<Rightarrow> (key, lease) # gs
      | (CompleteCommand key lease oc, Some (FlagReply (Inr True))) \<Rightarrow>
          if h_delivered h then filter (\<lambda>g. g \<noteq> (key, lease)) gs else gs
      | _ \<Rightarrow> gs)"

text \<open>What can happen: a turn of the loop, a guard that is dropped without having completed (or the
  envelope that carried it), and the request to close the store.\<close>

inductive system_step :: "ActorSystem \<Rightarrow> turn option \<Rightarrow> ActorSystem \<Rightarrow> bool" where
  turn: "\<lbrakk> \<not> stopped s; run_turn tn (control_queue s) (worker s) = (w, r, stop) \<rbrakk> \<Longrightarrow>
     system_step s (Some tn)
       \<lparr> worker = w, control_queue = [], guards = guards_after (t_handling tn) (t_command tn) r (guards s), stopped = stop \<rparr>"
| drop: "(key, lease) \<in> set (guards s) \<Longrightarrow>
     system_step s None (s\<lparr> control_queue := control_queue s @ [AbandonControl key lease],
                            guards := filter (\<lambda>g. g \<noteq> (key, lease)) (guards s) \<rparr>)"
| close: "system_step s None (s\<lparr> control_queue := control_queue s @ [Shutdown] \<rparr>)"

inductive system_steps :: "ActorSystem \<Rightarrow> turn list \<Rightarrow> ActorSystem \<Rightarrow> bool" where
  none: "system_steps s [] s"
| quiet: "\<lbrakk> system_step s None s'; system_steps s' tns s'' \<rbrakk> \<Longrightarrow> system_steps s tns s''"
| turns: "\<lbrakk> system_step s (Some tn) s'; system_steps s' tns s'' \<rbrakk> \<Longrightarrow> system_steps s (tn # tns) s''"

section \<open>Each command stays in its table\<close>

lemma operation_tx_frame:
  "begin_operation_tx L l key fp now db = Inr (db', b) \<Longrightarrow> upload_sessions db' = upload_sessions db \<and> purge_jobs db' = purge_jobs db"
  "operation_status_tx key now db = Inr (db', st) \<Longrightarrow> upload_sessions db' = upload_sessions db \<and> purge_jobs db' = purge_jobs db"
  "mark_commit_started_tx key l now db = Inr (db', m) \<Longrightarrow> upload_sessions db' = upload_sessions db \<and> purge_jobs db' = purge_jobs db"
  "complete_operation_tx L key l oc now db = Inr (db', m) \<Longrightarrow> upload_sessions db' = upload_sessions db \<and> purge_jobs db' = purge_jobs db"
  "abandon_operation_tx L key l now db = Inr (db', u) \<Longrightarrow> upload_sessions db' = upload_sessions db \<and> purge_jobs db' = purge_jobs db"
  by (auto elim!: begin_tx_cases abandon_tx_cases dest!: status_tx_db simp: mark_tx_Inr complete_tx_Inr)

lemma operation_step_tables:
  "upload_sessions (connection (operation_step w e)) = upload_sessions (connection w) \<and>
   purge_jobs (connection (operation_step w e)) = purge_jobs (connection w)"
proof -
  obtain t c where e: "e = (t, c)" by fastforce
  note keeps = timed_keeps [where P = "\<lambda>db. upload_sessions db = upload_sessions (connection w) \<and>
      purge_jobs db = purge_jobs (connection w)", OF conjI [OF refl refl]]
  show ?thesis
    by (cases c) (auto simp: e begin_operation_def operation_status_def mark_operation_commit_started_def
        complete_operation_fst abandon_operation_def dest: operation_tx_frame intro!: keeps)
qed

lemma upload_tx_frame:
  "save_upload_session_tx L x ttl now db = Inr (db', r) \<Longrightarrow> operations db' = operations db \<and> purge_jobs db' = purge_jobs db"
  "reject_upload_session_tx key tgt stg ttl now db = Inr (db', j) \<Longrightarrow> operations db' = operations db \<and> purge_jobs db' = purge_jobs db"
  "remove_session_tx x db = Inr (db', b) \<Longrightarrow> operations db' = operations db \<and> purge_jobs db' = purge_jobs db"
  "remove_expired_tx y now db = Inr (db', b) \<Longrightarrow> operations db' = operations db \<and> purge_jobs db' = purge_jobs db"
  by (auto simp: save_upload_session_tx_def write_session_def reject_upload_session_tx_def remove_session_tx_def
      remove_expired_tx_def Let_def split: sum.splits option.splits if_splits prod.splits)

lemma transact_keeps:
  assumes "P (connection w)" "\<And>db' r. body (connection w) = Inr (db', r) \<Longrightarrow> P db'"
  shows "P (connection (fst (transact t w body)))"
  using assms by (auto simp: transact_def split: sum.splits prod.splits)

lemma upload_step_tables:
  "operations (connection (upload_step w e)) = operations (connection w) \<and>
   purge_jobs (connection (upload_step w e)) = purge_jobs (connection w)"
proof -
  obtain t c where e: "e = (t, c)" by fastforce
  let ?P = "\<lambda>db. operations db = operations (connection w) \<and> purge_jobs db = purge_jobs (connection w)"
  note keeps = timed_keeps [where P = ?P, OF conjI [OF refl refl]]
  show ?thesis
  proof (cases c)
    case (SaveUpload x ttl)
    show ?thesis unfolding e SaveUpload upload_step.simps
      by (cases rule: save_fst [of t x ttl w]) (auto dest: upload_tx_frame(1) intro!: keeps)
  next
    case (RejectUpload key tgt stg ttl)
    show ?thesis unfolding e RejectUpload upload_step.simps
      by (cases rule: reject_fst [of t key tgt stg ttl w]) (auto dest: upload_tx_frame(2) intro!: keeps)
  next
    case (RemoveUploadIfMatches x)
    have "?P (connection (fst (transact t w (remove_session_tx x))))"
      by (rule transact_keeps [where P = ?P]) (auto dest: upload_tx_frame(3))
    then show ?thesis unfolding e RemoveUploadIfMatches upload_step.simps remove_upload_session_if_matches_def
      by (auto split: sum.splits)
  next
    case (RemoveExpiredUploadIfMatches y)
    have "?P (connection (fst (timed t w (remove_expired_tx y))))"
      by (rule keeps) (auto dest: upload_tx_frame(4))
    then show ?thesis unfolding e RemoveExpiredUploadIfMatches upload_step.simps remove_expired_upload_session_if_matches_def
      by (auto split: sum.splits)
  qed
qed

lemma purge_tx_frame:
  "prepare_purge_job_tx L j now db = Inr (db', r) \<Longrightarrow> operations db' = operations db \<and> upload_sessions db' = upload_sessions db"
  "mark_ready_tx key rv now db = Inr (db', b) \<Longrightarrow> operations db' = operations db \<and> upload_sessions db' = upload_sessions db"
  "claim_due_tx now db = Inr (db', x) \<Longrightarrow> operations db' = operations db \<and> upload_sessions db' = upload_sessions db"
  "retry_tx key d now db = Inr (db', b) \<Longrightarrow> operations db' = operations db \<and> upload_sessions db' = upload_sessions db"
  "delete_purge Q db = Inr (db', b) \<Longrightarrow> operations db' = operations db \<and> upload_sessions db' = upload_sessions db"
  by (auto simp: prepare_purge_job_tx_def mark_ready_tx_def claim_due_tx_def retry_tx_def delete_purge_def
      split: sum.splits option.splits if_splits prod.splits list.splits)

lemma purge_step_tables:
  "operations (connection (purge_step w e)) = operations (connection w) \<and>
   upload_sessions (connection (purge_step w e)) = upload_sessions (connection w)"
proof -
  obtain t c where e: "e = (t, c)" by fastforce
  let ?P = "\<lambda>db. operations db = operations (connection w) \<and> upload_sessions db = upload_sessions (connection w)"
  note keeps = timed_keeps [where P = ?P, OF conjI [OF refl refl]]
  note tkeeps = transact_keeps [where P = ?P, OF conjI [OF refl refl]]
  have 1: "?P (connection (fst (timed t w (prepare_purge_job_tx L j))))" for L j
    by (rule keeps) (auto dest: purge_tx_frame(1))
  have 2: "?P (connection (fst (timed t w (mark_ready_tx key rv))))" for key rv
    by (rule keeps) (auto dest: purge_tx_frame(2))
  have 3: "?P (connection (fst (timed t w claim_due_tx)))"
    by (rule keeps) (auto dest: purge_tx_frame(3))
  have 4: "?P (connection (fst (timed t w (retry_tx key d))))" for key d
    by (rule keeps) (auto dest: purge_tx_frame(4))
  have 5: "?P (connection (fst (transact t w (delete_purge Q))))" for Q
    by (rule tkeeps) (auto dest: purge_tx_frame(5))
  show ?thesis
    using 1 2 3 4 5 by (cases c) (auto simp: e prepare_purge_job_def mark_ready_fst claim_due_purge_job_def
        retry_purge_job_def complete_purge_job_def remove_purge_job_def split: sum.splits)
qed

section \<open>The invariant of the store\<close>

definition store_ok :: "StoreWorker \<Rightarrow> bool" where
  "store_ok w \<longleftrightarrow>
     clock_ok (clock w) \<and> operations_ok (limits w) (connection w) \<and> uploads_ok (limits w) (connection w) \<and>
     purges_ok (limits w) (connection w)"

fun lease_ok :: "StoreKey \<times> blob \<Rightarrow> bool" where
  "lease_ok (key, lease) \<longleftrightarrow> key_ok key \<and> length lease = 16"

definition actor_ok :: "StoreWorker \<Rightarrow> bool" where
  "actor_ok w \<longleftrightarrow> store_ok w \<and> list_all lease_ok (deferred_abandons w) \<and> distinct (deferred_abandons w)"

text \<open>What the argument types of the commands guarantee.\<close>

fun actor_command_ok :: "Command \<Rightarrow> bool" where
  "actor_command_ok (BeginCommand key fp) \<longleftrightarrow> key_ok key \<and> length fp = 32"
| "actor_command_ok (StatusCommand key) \<longleftrightarrow> key_ok key"
| "actor_command_ok (MarkCommitStartedCommand key lease) \<longleftrightarrow> key_ok key \<and> length lease = 16"
| "actor_command_ok (CompleteCommand key lease oc) \<longleftrightarrow> key_ok key \<and> length lease = 16 \<and> status oc \<le> 65535"
| "actor_command_ok (SaveUploadSession s ttl) \<longleftrightarrow> session_typed s"
| "actor_command_ok (PreparePurgeJob j) \<longleftrightarrow> job_typed j"
| "actor_command_ok (MarkPurgeJobReady key revision) \<longleftrightarrow> length revision = 32"
| "actor_command_ok _ \<longleftrightarrow> True"

definition turn_ok :: "turn \<Rightarrow> bool" where
  "turn_ok tn \<longleftrightarrow>
     tick_ok (t_retry tn) \<and> (\<forall>n. tick_ok (t_controls tn n)) \<and> tick_ok (h_tick (t_handling tn)) \<and>
     tick_ok (h_cleanup_tick (t_handling tn)) \<and> actor_command_ok (t_command tn)"

lemma tables_cong:
  "operations db' = operations db \<Longrightarrow> operations_ok L db' \<longleftrightarrow> operations_ok L db"
  "upload_sessions db' = upload_sessions db \<Longrightarrow> uploads_ok L db' \<longleftrightarrow> uploads_ok L db"
  "purge_jobs db' = purge_jobs db \<Longrightarrow> purges_ok L db' \<longleftrightarrow> purges_ok L db"
  by (simp_all add: operations_ok_def uploads_ok_def purges_ok_def)

lemma store_ok_operation:
  assumes "store_ok w" "operation_event_ok e"
  shows "store_ok (operation_step w e)"
proof -
  have "operation_store_ok (operation_step w e)"
    by (rule operation_step_ok [OF _ assms(2)]) (use assms(1) in \<open>simp add: store_ok_def operation_store_ok_def\<close>)
  moreover note frame = operation_step_tables [of w e]
  ultimately show ?thesis
    using assms(1) tables_cong(2) [OF frame [THEN conjunct1]] tables_cong(3) [OF frame [THEN conjunct2]]
    by (simp only: store_ok_def operation_store_ok_def operation_step_frame)
qed

lemma store_ok_upload:
  assumes "store_ok w" "upload_event_ok e"
  shows "store_ok (upload_step w e)"
proof -
  have "upload_store_ok (upload_step w e)"
    by (rule upload_step_ok [OF _ assms(2)]) (use assms(1) in \<open>simp add: store_ok_def upload_store_ok_def\<close>)
  moreover note frame = upload_step_tables [of w e]
  ultimately show ?thesis
    using assms(1) tables_cong(1) [OF frame [THEN conjunct1]] tables_cong(3) [OF frame [THEN conjunct2]]
    by (simp only: store_ok_def upload_store_ok_def upload_step_frame)
qed

lemma store_ok_purge:
  assumes "store_ok w" "purge_event_ok e"
  shows "store_ok (purge_step w e)"
proof -
  have "purge_store_ok (purge_step w e)"
    by (rule purge_step_ok [OF _ assms(2)]) (use assms(1) in \<open>simp add: store_ok_def purge_store_ok_def\<close>)
  moreover note frame = purge_step_tables [of w e]
  ultimately show ?thesis
    using assms(1) tables_cong(1) [OF frame [THEN conjunct1]] tables_cong(2) [OF frame [THEN conjunct2]]
    by (simp only: store_ok_def purge_store_ok_def purge_step_frame)
qed

lemma now_ms_effect:
  "connection (fst (now_ms t w)) = connection w" "limits (fst (now_ms t w)) = limits w"
  "deferred_abandons (fst (now_ms t w)) = deferred_abandons w"
  "\<lbrakk> clock_ok (clock w); tick_ok t \<rbrakk> \<Longrightarrow> clock_ok (clock (fst (now_ms t w)))"
proof -
  obtain c r where ob: "observe (wall t) (monotonic t) (clock w) = (c, r)" by fastforce
  show "connection (fst (now_ms t w)) = connection w" "limits (fst (now_ms t w)) = limits w"
    "deferred_abandons (fst (now_ms t w)) = deferred_abandons w"
    by (simp_all add: now_ms_def ob)
  show "clock_ok (clock (fst (now_ms t w)))" if "clock_ok (clock w)" "tick_ok t"
    using observe_Inl [of "wall t" "monotonic t" "clock w" c] observe_Inr(4) [of "wall t" "monotonic t" "clock w" c] ob that
    by (cases r) (auto simp: now_ms_def tick_ok_def)
qed

text \<open>What one command can do to the worker.\<close>

lemma handle_effect:
  assumes "actor_command_ok c"
  obtains (same) "fst (handle_command h c w) = w"
  | (time) "fst (handle_command h c w) = fst (now_ms (h_tick h) w)"
  | (operation) oc where "fst (handle_command h c w) = operation_step w (h_tick h, oc)" "command_ok oc"
      "\<And>key fp lease. \<lbrakk> oc = Begin key fp; snd (begin_operation (h_tick h) key fp w) = Inr (Started lease) \<rbrakk> \<Longrightarrow>
         c = BeginCommand key fp \<and> snd (handle_command h c w) = Some (BeginReply (Inr (Started lease)))"
  | (upload) uc where "fst (handle_command h c w) = upload_step w (h_tick h, uc)" "tick_ok (h_tick h) \<Longrightarrow> upload_event_ok (h_tick h, uc)"
  | (purge) pc where "fst (handle_command h c w) = purge_step w (h_tick h, pc)" "tick_ok (h_tick h) \<Longrightarrow> purge_event_ok (h_tick h, pc)"
  | (undelivered) key fp lease where "c = BeginCommand key fp" "begin_operation (h_tick h) key fp w =
      (operation_step w (h_tick h, Begin key fp), Inr (Started lease))"
      "fst (handle_command h c w) = abandon_or_defer (h_cleanup_tick h) key lease (operation_step w (h_tick h, Begin key fp))"
proof (cases c)
  case (BeginCommand key fp)
  obtain w' r where b: "begin_operation (h_tick h) key fp w = (w', r)" by fastforce
  have step: "operation_step w (h_tick h, Begin key fp) = w'" by (simp add: b)
  show thesis
  proof (cases "h_closed h")
    case True
    then show thesis by (intro same) (simp add: BeginCommand unless_closed_def)
  next
    case False
    show thesis
    proof (cases "\<not> h_delivered h \<and> (\<exists>lease. r = Inr (Started lease))")
      case True
      then obtain lease where "r = Inr (Started lease)" by blast
      with True False b step show thesis
        by (intro undelivered [of key fp lease]) (simp_all add: BeginCommand unless_closed_def handle_begin_def)
    next
      case deliv: False
      have "fst (handle_command h c w) = w'"
        using deliv False b by (auto simp: BeginCommand unless_closed_def handle_begin_def split: sum.splits StoreBegin.splits)
      then show thesis
        using deliv False b step assms
        by (intro operation [of "Begin key fp"]) (auto simp: BeginCommand unless_closed_def handle_begin_def)
    qed
  qed
next
  case (StatusCommand key)
  show thesis
  proof (cases "h_closed h")
    case True
    then show thesis by (intro same) (simp add: StatusCommand unless_closed_def)
  next
    case False
    with assms show thesis
      by (intro operation [of "Status key"]) (simp_all add: StatusCommand unless_closed_def reply_with_def)
  qed
next
  case (MarkCommitStartedCommand key lease)
  with assms show thesis by (intro operation [of "MarkCommitStarted key lease"]) (simp_all add: reply_with_def)
next
  case (CompleteCommand key lease oc)
  with assms show thesis by (intro operation [of "Complete key lease oc"]) (simp_all add: reply_with_def)
next
  case (SaveUploadSession x ttl)
  with assms show thesis by (intro upload [of "SaveUpload x ttl"]) (simp_all add: reply_with_def)
next
  case (RejectUploadSessionCommand key tgt stg ttl)
  then show thesis by (intro upload [of "RejectUpload key tgt stg ttl"]) (simp_all add: reply_with_def)
next
  case (RemoveUploadSessionIfMatches x)
  then show thesis by (intro upload [of "RemoveUploadIfMatches x"]) (simp_all add: reply_with_def)
next
  case (RemoveExpiredUploadSessionIfMatches x)
  then show thesis by (intro upload [of "RemoveExpiredUploadIfMatches x"]) (simp_all add: reply_with_def)
next
  case (PreparePurgeJob j)
  with assms show thesis by (intro purge [of "PreparePurge j"]) (simp_all add: reply_with_def)
next
  case (MarkPurgeJobReady key rv)
  with assms show thesis by (intro purge [of "MarkPurgeReady key rv"]) (simp_all add: reply_with_def)
next
  case ClaimDuePurgeJob
  then show thesis by (intro purge [of ClaimDuePurge]) (simp_all add: reply_with_def)
next
  case (RetryPurgeJob key d)
  then show thesis by (intro purge [of "RetryPurge key d"]) (simp_all add: reply_with_def)
next
  case (CompletePurgeJob key)
  then show thesis by (intro purge [of "CompletePurge key"]) (simp_all add: reply_with_def)
next
  case (RemovePurgeJob key)
  then show thesis by (intro purge [of "RemovePurge key"]) (simp_all add: reply_with_def)
next
  case (ListExpiredUploadSessions after limit)
  have "fst (expired_upload_sessions (h_tick h) after limit w) = fst (now_ms (h_tick h) w)"
    by (auto simp: expired_upload_sessions_def read_only_def split: prod.splits sum.splits)
  then show thesis
    by (cases "h_closed h") (rule same, simp add: ListExpiredUploadSessions unless_closed_def, rule time, simp add: ListExpiredUploadSessions unless_closed_def reply_with_def)
next
  case (MatchExpiredUploadSession x)
  have "fst (expired_upload_session_matches (h_tick h) x w) = fst (now_ms (h_tick h) w)"
    by (auto simp: expired_upload_session_matches_def read_only_def split: prod.splits sum.splits)
  then show thesis
    by (cases "h_closed h") (rule same, simp add: MatchExpiredUploadSession unless_closed_def, rule time, simp add: MatchExpiredUploadSession unless_closed_def reply_with_def)
qed (rule same; auto simp: unless_closed_def reply_with_def probe_readiness_def read_only_def upload_sessions_page_def
    prepared_purge_jobs_def list_purge_jobs_def state_path_is_bound_def state_blocking_paths_def split: sum.splits)+

section \<open>Open reservations\<close>

definition row_lease :: "operation_row \<Rightarrow> StoreKey \<times> blob" where
  "row_lease r = (\<lparr> owner = o_owner r, key_id = o_id r \<rparr>, o_lease r)"

text \<open>The leases under which an operation is reserved or has started its commit.\<close>

definition open_leases :: "database \<Rightarrow> (StoreKey \<times> blob) set" where
  "open_leases db = row_lease ` {r \<in> set (operations db). o_state r \<in> {0, 1}}"

lemma leased_row: "leased_in key lease states r \<longleftrightarrow> row_lease r = (key, lease) \<and> o_state r \<in> states"
  by (cases key) (auto simp: leased_in_def is_operation_def row_lease_def)

lemma open_leasesI: "\<lbrakk> r \<in> set (operations db); o_state r \<in> {0, 1} \<rbrakk> \<Longrightarrow> row_lease r \<in> open_leases db"
  unfolding open_leases_def by blast

lemma open_leasesE:
  assumes "g \<in> open_leases db"
  obtains r where "r \<in> set (operations db)" "o_state r \<in> {0, 1}" "g = row_lease r"
  using assms unfolding open_leases_def by blast

lemma open_leases_delete: "operations db' = delete_where P (operations db) \<Longrightarrow> open_leases db' \<subseteq> open_leases db"
  by (auto elim!: open_leasesE intro: open_leasesI simp: delete_where_def)

lemma open_leases_update:
  assumes "operations db' = update_where P f (operations db)"
    and "\<And>r. P r \<Longrightarrow> o_state r \<in> {0, 1}" "\<And>r. row_lease (f r) = row_lease r"
  shows "open_leases db' \<subseteq> open_leases db"
proof
  fix g assume "g \<in> open_leases db'"
  then obtain r where r: "r \<in> set (update_where P f (operations db))" "o_state r \<in> {0, 1}" "g = row_lease r"
    using assms(1) by (auto elim: open_leasesE)
  from r(1) obtain x where "x \<in> set (operations db)" "r = (if P x then f x else x)"
    by (auto simp: set_update_where)
  with r(2,3) assms(2,3) show "g \<in> open_leases db" by (cases "P x") (auto intro: open_leasesI)
qed

lemma row_lease_kept:
  "row_lease (set_commit_started now r) = row_lease r" "row_lease (set_completed oc now e r) = row_lease r"
  by (simp_all add: row_lease_def set_commit_started_def set_completed_def)

lemma begin_open:
  assumes "begin_operation_tx L lease key fp now db = Inr (db', b)"
  shows "open_leases db' \<subseteq> open_leases db \<union> (if b = Started lease then {(key, lease)} else {})"
proof -
  have purge: "open_leases (purge_expired now db) \<subseteq> open_leases db"
    by (rule open_leases_delete) simp
  show ?thesis
  proof (cases rule: begin_tx_cases [OF assms])
    case 3
    have "row_lease (reserved_row key fp lease now) = (key, lease)"
      by (simp add: row_lease_def reserved_row_def)
    then have "open_leases db' \<subseteq> insert (key, lease) (open_leases (purge_expired now db))"
      unfolding open_leases_def 3(2) by auto
    with purge 3(3) show ?thesis by auto
  qed (use purge in auto)
qed

lemma status_open: "operation_status_tx key now db = Inr (db', st) \<Longrightarrow> open_leases db' \<subseteq> open_leases db"
  by (rule open_leases_delete [of _ "is_expired now"]) (drule status_tx_db, simp)

lemma mark_open: "mark_commit_started_tx key lease now db = Inr (db', m) \<Longrightarrow> open_leases db' \<subseteq> open_leases db"
  by (rule open_leases_update [of _ "leased_in key lease {0}" "set_commit_started now"])
    (auto simp: mark_tx_Inr leased_row row_lease_kept)

text \<open>Completing the rows of a lease closes it.\<close>

lemma completed_update_open:
  assumes ops: "operations db' = update_where (leased_in key lease states) (set_completed oc now e) (operations db)"
    and states: "states \<subseteq> {0, 1}"
    and all: "\<And>x. \<lbrakk> x \<in> set (operations db); row_lease x = (key, lease); o_state x \<in> {0, 1} \<rbrakk> \<Longrightarrow> o_state x \<in> states"
  shows "open_leases db' \<subseteq> open_leases db - {(key, lease)}"
proof -
  have "open_leases db' \<subseteq> open_leases db"
    by (rule open_leases_update [OF ops]) (use states in \<open>auto simp: leased_row row_lease_kept\<close>)
  moreover have "(key, lease) \<notin> open_leases db'"
  proof
    assume "(key, lease) \<in> open_leases db'"
    then obtain r where r: "r \<in> set (operations db')" "o_state r \<in> {0, 1}" "row_lease r = (key, lease)"
      by (metis open_leasesE)
    then obtain x where x: "x \<in> set (operations db)"
      "r = (if leased_in key lease states x then set_completed oc now e x else x)" by (auto simp: ops set_update_where)
    show False
    proof (cases "leased_in key lease states x")
      case True
      with x(2) have "o_state r = 2" by (simp add: set_completed_def OPERATION_COMPLETED_def)
      with r(2) show False by simp
    next
      case False
      with x(2) have "r = x" by simp
      with False r(2,3) all [OF x(1)] show False by (simp add: leased_row)
    qed
  qed
  ultimately show ?thesis by blast
qed

lemma complete_open:
  assumes "complete_operation_tx L key lease oc now db = Inr (db', m)"
  shows "open_leases db' \<subseteq> open_leases db - {(key, lease)}"
  by (rule completed_update_open [of _ _ _ "{0, 1}" oc now "now + ttl_ms L"]) (use assms in \<open>simp_all add: complete_tx_Inr\<close>)

lemma abandon_open:
  assumes ok: "operations_ok L' db" and ab: "abandon_operation_tx L key lease now db = Inr (db', u)"
  shows "open_leases db' \<subseteq> open_leases db - {(key, lease)}"
proof -
  have same: "x = r" if "x \<in> set (operations db)" "r \<in> set (operations db)" "row_lease x = row_lease r" for x r
    using that ok keys_distinct_eqD [of o_key "operations db" x r]
    by (simp add: operations_ok_def row_lease_def o_key_def)
  show ?thesis
  proof (cases rule: abandon_tx_cases [OF ab])
    case 1
    then have ops: "operations db' = delete_where (leased_in key lease {0}) (operations db)" by simp
    have "(key, lease) \<notin> open_leases db'"
    proof
      assume "(key, lease) \<in> open_leases db'"
      then obtain r where r: "r \<in> set (operations db')" "row_lease r = (key, lease)" by (metis open_leasesE)
      from 1(2) obtain x where x: "x \<in> set (operations db)" "leased_in key lease {0} x"
        by (auto simp: count_where_def filter_empty_conv)
      from r(1) have r': "r \<in> set (operations db)" "\<not> leased_in key lease {0} r" by (simp_all add: ops delete_where_def)
      have "x = r" by (rule same [OF x(1) r'(1)]) (use x(2) r(2) in \<open>simp add: leased_row\<close>)
      with x(2) r'(2) show False by simp
    qed
    with open_leases_delete [OF ops] show ?thesis by blast
  next
    case 2
    show ?thesis
    proof (rule completed_update_open [of _ _ _ "{1}" uncertain now "now + ttl_ms L"])
      fix x assume "x \<in> set (operations db)" "row_lease x = (key, lease)" "o_state x \<in> {0, 1}"
      moreover from this(1) have "\<not> leased_in key lease {0} x" using 2(2) by (auto simp: count_where_def filter_empty_conv)
      ultimately show "o_state x \<in> {1}" by (simp add: leased_row)
    qed (use 2(1) in simp_all)
  qed
qed

text \<open>An operation command opens at most the reservation it reports.\<close>

lemma operation_step_open:
  assumes ok: "operations_ok L (connection w)"
  shows "open_leases (connection (operation_step w (t, c))) \<subseteq> open_leases (connection w) \<union>
    {(key, lease). \<exists>fp. c = Begin key fp \<and> snd (begin_operation t key fp w) = Inr (Started lease)}"
proof (cases c)
  case (Begin key fp)
  show ?thesis
  proof (cases rule: timed_cases [of t w "begin_operation_tx (limits w) (fresh t) key fp"])
    case (failed e)
    then show ?thesis by (auto simp: Begin begin_operation_def)
  next
    case (done' now db b)
    with begin_open [OF done'(3)] show ?thesis
      by (auto simp: Begin begin_operation_def split: if_splits)
  qed
next
  case (Status key)
  have "open_leases (connection (fst (timed t w (operation_status_tx key)))) \<subseteq> open_leases (connection w)"
    by (rule timed_keeps [where P = "\<lambda>db. open_leases db \<subseteq> open_leases (connection w)"]) (auto dest: status_open)
  then show ?thesis by (auto simp: Status operation_status_def)
next
  case (MarkCommitStarted key lease)
  have "open_leases (connection (fst (timed t w (mark_commit_started_tx key lease)))) \<subseteq> open_leases (connection w)"
    by (rule timed_keeps [where P = "\<lambda>db. open_leases db \<subseteq> open_leases (connection w)"]) (auto dest: mark_open)
  then show ?thesis by (auto simp: MarkCommitStarted mark_operation_commit_started_def)
next
  case (Complete key lease oc)
  have "open_leases (connection (fst (timed t w (complete_operation_tx (limits w) key lease oc)))) \<subseteq> open_leases (connection w)"
    by (rule timed_keeps [where P = "\<lambda>db. open_leases db \<subseteq> open_leases (connection w)"]) (auto dest: complete_open)
  then show ?thesis by (auto simp: Complete complete_operation_fst)
next
  case (Abandon key lease)
  have "open_leases (connection (fst (timed t w (abandon_operation_tx (limits w) key lease)))) \<subseteq> open_leases (connection w)"
    by (rule timed_keeps [where P = "\<lambda>db. open_leases db \<subseteq> open_leases (connection w)"]) (auto dest: abandon_open [OF ok])
  then show ?thesis by (auto simp: Abandon abandon_operation_def)
qed

lemma abandon_closes:
  assumes ok: "operations_ok L (connection w)" and ab: "abandon_operation t key lease w = (w', Inr u)"
  shows "open_leases (connection w') \<subseteq> open_leases (connection w) - {(key, lease)}"
proof (cases rule: timed_cases [of t w "abandon_operation_tx (limits w) key lease"])
  case (failed e)
  with ab show ?thesis by (simp add: abandon_operation_def)
next
  case (done' now db b)
  with abandon_open [OF ok done'(3)] ab show ?thesis by (simp add: abandon_operation_def)
qed

lemma completion_closes:
  assumes "complete_operation t key lease oc w = (w', Inr True)"
  shows "(key, lease) \<notin> open_leases (connection w')"
proof -
  from assms have c: "timed t w (complete_operation_tx (limits w) key lease oc) = (w', Inr True)"
    by (auto simp: complete_operation_def split: sum.splits)
  show ?thesis
  proof (cases rule: timed_cases [of t w "complete_operation_tx (limits w) key lease oc"])
    case (failed e)
    with c show ?thesis by simp
  next
    case (done' now db b)
    with complete_open [OF done'(3)] c show ?thesis by auto
  qed
qed

section \<open>Reservations without an owner in the actor\<close>

text \<open>The open reservations that no deferred abandonment will close.\<close>

definition loose :: "StoreWorker \<Rightarrow> (StoreKey \<times> blob) set" where
  "loose w = open_leases (connection w) - set (deferred_abandons w)"

definition abandons :: "ControlCommand list \<Rightarrow> (StoreKey \<times> blob) set" where
  "abandons cs = {(key, lease). AbandonControl key lease \<in> set cs}"

lemma abandons_simps [simp]:
  "abandons [] = {}" "abandons (Shutdown # cs) = abandons cs"
  "abandons (AbandonControl key lease # cs) = insert (key, lease) (abandons cs)"
  "abandons (cs @ ds) = abandons cs \<union> abandons ds"
  by (auto simp: abandons_def)

lemma actor_ok_tables: "actor_ok w \<Longrightarrow> operations_ok (limits w) (connection w)"
  by (simp add: actor_ok_def store_ok_def)

lemma abandon_step: "fst (abandon_operation t key lease w) = operation_step w (t, Abandon key lease)"
  by simp

lemma abandon_actor_ok:
  assumes "actor_ok w" "tick_ok t" "lease_ok (key, lease)"
  shows "actor_ok (fst (abandon_operation t key lease w))"
proof -
  have "store_ok (operation_step w (t, Abandon key lease))"
    by (rule store_ok_operation) (use assms in \<open>simp_all add: actor_ok_def\<close>)
  with assms(1) show ?thesis
    unfolding abandon_step by (simp only: actor_ok_def operation_step_frame)
qed

lemma abandon_refused:
  assumes "abandon_operation t key lease w = (w', Inl e)"
  shows "connection w' = connection w"
proof (cases rule: timed_cases [of t w "abandon_operation_tx (limits w) key lease"])
  case (failed e')
  with assms show ?thesis by (simp add: abandon_operation_def)
next
  case (done' now db b)
  with assms show ?thesis by (simp add: abandon_operation_def)
qed

lemma abandon_deferred: "deferred_abandons (fst (abandon_operation t key lease w)) = deferred_abandons w"
  unfolding abandon_step by (rule operation_step_frame)

lemma defer_abandon_fields:
  "connection (defer_abandon key lease w) = connection w"
  "set (deferred_abandons (defer_abandon key lease w)) = insert (key, lease) (set (deferred_abandons w))"
  "\<lbrakk> actor_ok w; lease_ok (key, lease) \<rbrakk> \<Longrightarrow> actor_ok (defer_abandon key lease w)"
  by (auto simp: defer_abandon_def list_ex_iff actor_ok_def store_ok_def)

lemma abandon_or_defer_ok:
  assumes "actor_ok w" "tick_ok t" "lease_ok (key, lease)"
  shows "actor_ok (abandon_or_defer t key lease w)" "loose (abandon_or_defer t key lease w) \<subseteq> loose w - {(key, lease)}"
proof -
  obtain w' r where ab: "abandon_operation t key lease w = (w', r)" by fastforce
  have ok: "actor_ok w'" using abandon_actor_ok [OF assms] ab by simp
  have d: "deferred_abandons w' = deferred_abandons w" using abandon_deferred [of t key lease w] ab by simp
  show "actor_ok (abandon_or_defer t key lease w)"
    using ok defer_abandon_fields(3) [OF ok assms(3)] by (cases r) (simp_all add: abandon_or_defer_def ab)
  show "loose (abandon_or_defer t key lease w) \<subseteq> loose w - {(key, lease)}"
  proof (cases r)
    case (Inl e)
    with abandon_refused ab have "connection w' = connection w" by blast
    then show ?thesis by (auto simp: abandon_or_defer_def ab Inl loose_def defer_abandon_fields d)
  next
    case (Inr u)
    with abandon_closes [OF actor_ok_tables [OF assms(1)]] ab
    have "open_leases (connection w') \<subseteq> open_leases (connection w) - {(key, lease)}" by blast
    then show ?thesis by (auto simp: abandon_or_defer_def ab Inr loose_def d)
  qed
qed

lemma retry_ok:
  assumes ok: "actor_ok w" and t: "tick_ok t"
  shows "actor_ok (retry_one_deferred_abandon t w)" "loose (retry_one_deferred_abandon t w) \<subseteq> loose w"
proof -
  have "actor_ok (retry_one_deferred_abandon t w) \<and> loose (retry_one_deferred_abandon t w) \<subseteq> loose w"
  proof (cases "deferred_abandons w")
    case Nil
    with ok show ?thesis by (simp add: retry_one_deferred_abandon_def)
  next
    case (Cons g rest)
    obtain key lease where g: "g = (key, lease)" by fastforce
    let ?w = "w\<lparr> deferred_abandons := rest \<rparr>"
    have ok': "actor_ok ?w" "lease_ok (key, lease)" "(key, lease) \<notin> set rest"
      using ok by (simp_all add: actor_ok_def store_ok_def Cons g)
    obtain w' r where ab: "abandon_operation t key lease ?w = (w', r)" by fastforce
    have okw: "actor_ok w'" using abandon_actor_ok [OF ok'(1) t ok'(2)] ab by simp
    have d: "deferred_abandons w' = rest" using abandon_deferred [of t key lease ?w] ab by simp
    show ?thesis
    proof (cases r)
      case (Inl e)
      with abandon_refused ab have "connection w' = connection w" by fastforce
      with okw ok'(2,3) show ?thesis
        by (auto simp: retry_one_deferred_abandon_def Cons g ab Inl d loose_def actor_ok_def store_ok_def)
    next
      case (Inr u)
      with abandon_closes [OF actor_ok_tables [OF ok'(1)]] ab
      have "open_leases (connection w') \<subseteq> open_leases (connection w) - {(key, lease)}" by fastforce
      with okw show ?thesis by (auto simp: retry_one_deferred_abandon_def Cons g ab Inr d loose_def)
    qed
  qed
  then show "actor_ok (retry_one_deferred_abandon t w)" "loose (retry_one_deferred_abandon t w) \<subseteq> loose w" by simp_all
qed

fun control_ok :: "ControlCommand \<Rightarrow> bool" where
  "control_ok (AbandonControl key lease) \<longleftrightarrow> lease_ok (key, lease)"
| "control_ok Shutdown \<longleftrightarrow> True"

lemma drain_ok:
  assumes "actor_ok w" "\<And>n. tick_ok (ts n)" "list_all control_ok cs" "drain_controls ts cs w = (w', stop)"
  shows "actor_ok w' \<and> (\<not> stop \<longrightarrow> loose w' \<subseteq> loose w - abandons cs)"
  using assms
proof (induction ts cs w arbitrary: w' rule: drain_controls.induct)
  case (2 ts key lease cs w)
  have ok: "actor_ok (abandon_or_defer (ts 0) key lease w)"
    "loose (abandon_or_defer (ts 0) key lease w) \<subseteq> loose w - {(key, lease)}"
    using abandon_or_defer_ok [OF 2(2) 2(3)] 2(4) by simp_all
  have "actor_ok w' \<and> (\<not> stop \<longrightarrow> loose w' \<subseteq> loose (abandon_or_defer (ts 0) key lease w) - abandons cs)"
    by (rule 2(1) [OF ok(1) 2(3)]) (use 2(4,5) in simp_all)
  with ok(2) show ?case by auto
qed auto

lemma process_ok:
  assumes "actor_ok w" "turn_ok tn" "list_all control_ok cs"
    "process_controls (t_retry tn) (t_controls tn) cs w = (w', stop)"
  shows "actor_ok w' \<and> (\<not> stop \<longrightarrow> loose w' \<subseteq> loose w - abandons cs)"
proof -
  have r: "actor_ok (retry_one_deferred_abandon (t_retry tn) w)" "loose (retry_one_deferred_abandon (t_retry tn) w) \<subseteq> loose w"
    using retry_ok [OF assms(1)] assms(2) by (simp_all add: turn_ok_def)
  have "actor_ok w' \<and> (\<not> stop \<longrightarrow> loose w' \<subseteq> loose (retry_one_deferred_abandon (t_retry tn) w) - abandons cs)"
    by (rule drain_ok [OF r(1) _ assms(3)]) (use assms(2,4) in \<open>simp_all add: turn_ok_def process_controls_def\<close>)
  with r(2) show ?thesis by blast
qed

section \<open>A turn of the loop\<close>

text \<open>The reservation that a delivered reply hands to a new guard.\<close>

definition granted :: "Command \<Rightarrow> Reply option \<Rightarrow> (StoreKey \<times> blob) set" where
  "granted c r = {(key, lease). \<exists>fp. c = BeginCommand key fp \<and> r = Some (BeginReply (Inr (Started lease)))}"

lemma handle_ok:
  assumes ok: "actor_ok w" and t: "tick_ok (h_tick h)" "tick_ok (h_cleanup_tick h)" and c: "actor_command_ok c"
  shows "actor_ok (fst (handle_command h c w)) \<and>
    loose (fst (handle_command h c w)) \<subseteq> loose w \<union> granted c (snd (handle_command h c w))"
proof (cases rule: handle_effect [OF c, of h w])
  case 1
  with ok show ?thesis by simp
next
  case 2
  have "clock_ok (clock (fst (now_ms (h_tick h) w)))"
    by (rule now_ms_effect(4)) (use ok t(1) in \<open>simp_all add: actor_ok_def store_ok_def\<close>)
  with ok show ?thesis unfolding 2 actor_ok_def store_ok_def loose_def now_ms_effect(1-3) by blast
next
  case (3 oc)
  have "store_ok (operation_step w (h_tick h, oc))"
    by (rule store_ok_operation) (use ok t 3(2) in \<open>simp_all add: actor_ok_def\<close>)
  then have a: "actor_ok (operation_step w (h_tick h, oc))"
    using ok by (simp only: actor_ok_def operation_step_frame)
  have "open_leases (connection (operation_step w (h_tick h, oc))) \<subseteq>
      open_leases (connection w) \<union> granted c (snd (handle_command h c w))"
  proof
    fix g assume g: "g \<in> open_leases (connection (operation_step w (h_tick h, oc)))"
    show "g \<in> open_leases (connection w) \<union> granted c (snd (handle_command h c w))"
    proof (cases "g \<in> open_leases (connection w)")
      case False
      with subsetD [OF operation_step_open [OF actor_ok_tables [OF ok]] g]
      obtain key lease fp where "g = (key, lease)" "oc = Begin key fp"
        "snd (begin_operation (h_tick h) key fp w) = Inr (Started lease)" by auto
      with 3(3) [of key fp lease] have "g \<in> granted c (snd (handle_command h c w))" unfolding granted_def by blast
      then show ?thesis ..
    qed simp
  qed
  with a show ?thesis unfolding 3(1) loose_def operation_step_frame by blast
next
  case (4 uc)
  have "store_ok (upload_step w (h_tick h, uc))"
    by (rule store_ok_upload) (use ok t 4(2) in \<open>simp_all add: actor_ok_def\<close>)
  then have "actor_ok (upload_step w (h_tick h, uc))"
    using ok by (simp only: actor_ok_def upload_step_frame)
  moreover have "loose (upload_step w (h_tick h, uc)) = loose w"
    unfolding loose_def upload_step_frame open_leases_def upload_step_tables [THEN conjunct1] ..
  ultimately show ?thesis unfolding 4(1) by blast
next
  case (5 pc)
  have "store_ok (purge_step w (h_tick h, pc))"
    by (rule store_ok_purge) (use ok t 5(2) in \<open>simp_all add: actor_ok_def\<close>)
  then have "actor_ok (purge_step w (h_tick h, pc))"
    using ok by (simp only: actor_ok_def purge_step_frame)
  moreover have "loose (purge_step w (h_tick h, pc)) = loose w"
    unfolding loose_def purge_step_frame open_leases_def purge_step_tables [THEN conjunct1] ..
  ultimately show ?thesis unfolding 5(1) by blast
next
  case (6 key fp lease)
  let ?w = "operation_step w (h_tick h, Begin key fp)"
  have "store_ok ?w" by (rule store_ok_operation) (use ok t c 6(1) in \<open>simp_all add: actor_ok_def\<close>)
  then have a: "actor_ok ?w" using ok by (simp only: actor_ok_def operation_step_frame)
  have l: "lease_ok (key, lease)"
    using begin_lease [OF 6(2)] t(1) c 6(1) by (simp add: tick_ok_def)
  have "open_leases (connection ?w) \<subseteq> open_leases (connection w) \<union> {(key, lease)}"
  proof -
    have b: "snd (begin_operation (h_tick h) key fp w) = Inr (Started lease)"
      using arg_cong [OF 6(2), of snd] by (simp del: operation_step.simps)
    then have "{(k, l). \<exists>f. Begin key fp = Begin k f \<and> snd (begin_operation (h_tick h) k f w) = Inr (Started l)} \<subseteq> {(key, lease)}"
      by auto
    with operation_step_open [OF actor_ok_tables [OF ok], of "h_tick h" "Begin key fp"] show ?thesis by blast
  qed
  then have "loose ?w \<subseteq> loose w \<union> {(key, lease)}" unfolding loose_def operation_step_frame by blast
  with abandon_or_defer_ok [OF a t(2) l] show ?thesis unfolding 6(3) by blast
qed

lemma guards_granted:
  assumes "\<nexists>key lease oc. c = CompleteCommand key lease oc \<and> r = Some (FlagReply (Inr True))"
  shows "set gs \<union> granted c r \<subseteq> set (guards_after h c r gs)"
proof (cases c)
  case (BeginCommand key fp)
  then show ?thesis
    by (auto simp: guards_after_def granted_def split: option.splits Reply.splits sum.splits StoreBegin.splits)
next
  case (CompleteCommand key lease oc)
  with assms show ?thesis
    by (auto simp: guards_after_def granted_def split: option.splits Reply.splits sum.splits bool.splits)
qed (simp_all add: guards_after_def granted_def)

lemma handle_guards:
  assumes "actor_ok w" "tick_ok (h_tick h)" "tick_ok (h_cleanup_tick h)" "actor_command_ok c"
    and gs: "loose w \<subseteq> set gs"
  shows "loose (fst (handle_command h c w)) \<subseteq> set (guards_after h c (snd (handle_command h c w)) gs)"
proof -
  note h = handle_ok [OF assms(1-4), THEN conjunct2]
  show ?thesis
  proof (cases "\<exists>key lease oc. c = CompleteCommand key lease oc \<and> snd (handle_command h c w) = Some (FlagReply (Inr True))")
    case True
    then obtain key lease oc where cc: "c = CompleteCommand key lease oc"
      "snd (handle_command h c w) = Some (FlagReply (Inr True))" by blast
    obtain w' r where comp: "complete_operation (h_tick h) key lease oc w = (w', r)" by fastforce
    with cc have "r = Inr True" by (simp add: reply_with_def)
    with completion_closes comp have "(key, lease) \<notin> open_leases (connection w')" by blast
    then have "(key, lease) \<notin> loose (fst (handle_command h c w))" by (simp add: cc(1) reply_with_def comp loose_def)
    with h gs cc show ?thesis unfolding cc(2) by (auto simp: guards_after_def granted_def)
  next
    case False
    with guards_granted [of c "snd (handle_command h c w)" gs h] h gs show ?thesis by blast
  qed
qed

section \<open>The system\<close>

definition system_ok :: "ActorSystem \<Rightarrow> bool" where
  "system_ok s \<longleftrightarrow>
     actor_ok (worker s) \<and> list_all control_ok (control_queue s) \<and> list_all lease_ok (guards s) \<and>
     (stopped s \<or> loose (worker s) \<subseteq> set (guards s) \<union> abandons (control_queue s))"

lemma guards_after_ok:
  assumes "list_all lease_ok gs" "actor_command_ok c" "tick_ok (h_tick h)" "r = snd (handle_command h c w)"
  shows "list_all lease_ok (guards_after h c r gs)"
proof (cases c)
  case (BeginCommand key fp)
  have "length lease = 16" if b: "r = Some (BeginReply (Inr (Started lease)))" for lease
  proof -
    obtain w' x where "begin_operation (h_tick h) key fp w = (w', x)" by fastforce
    moreover from this b have "x = Inr (Started lease)"
      using assms(4) by (auto simp: BeginCommand unless_closed_def handle_begin_def split: if_splits sum.splits StoreBegin.splits)
    ultimately have "lease = fresh (h_tick h)" using begin_lease by blast
    with assms(3) show ?thesis by (simp add: tick_ok_def)
  qed
  with assms(1,2) show ?thesis
    by (auto simp: BeginCommand guards_after_def split: option.splits Reply.splits sum.splits StoreBegin.splits)
next
  case (CompleteCommand key lease oc)
  with assms(1) show ?thesis
    by (auto simp: guards_after_def list_all_iff split: option.splits Reply.splits sum.splits bool.splits)
qed (use assms(1) in \<open>simp_all add: guards_after_def\<close>)

lemma system_step_ok:
  assumes "system_step s e s'" "system_ok s" "\<And>tn. e = Some tn \<Longrightarrow> turn_ok tn"
  shows "system_ok s'"
  using assms
proof (induction rule: system_step.induct)
  case (turn s tn w r stop)
  have tn: "turn_ok tn" by (rule turn.prems(2)) simp
  note h = tn [unfolded turn_ok_def]
  obtain w1 b where p: "process_controls (t_retry tn) (t_controls tn) (control_queue s) (worker s) = (w1, b)" by fastforce
  have ok1: "actor_ok w1 \<and> (\<not> b \<longrightarrow> loose w1 \<subseteq> loose (worker s) - abandons (control_queue s))"
    by (rule process_ok [OF _ tn _ p]) (use turn.prems(1) in \<open>simp_all add: system_ok_def\<close>)
  show ?case
  proof (cases b)
    case True
    with turn.hyps(2) p have "w = w1" "stop" "r = None" by (simp_all add: run_turn_def)
    with ok1 turn.prems(1) show ?thesis by (auto simp: system_ok_def guards_after_def split: Command.splits)
  next
    case False
    let ?h = "handle_command (t_handling tn) (t_command tn) w1"
    from turn.hyps(2) p False have w: "w = fst ?h" "r = snd ?h" "\<not> stop"
      by (simp_all add: run_turn_def split: prod.splits)
    have "loose w1 \<subseteq> set (guards s)" using ok1 False turn.prems(1) turn.hyps(1) by (auto simp: system_ok_def)
    then have "loose w \<subseteq> set (guards_after (t_handling tn) (t_command tn) r (guards s))"
      unfolding w by (intro handle_guards) (use ok1 h in simp_all)
    moreover have "actor_ok w" unfolding w using handle_ok [of w1 "t_handling tn" "t_command tn"] ok1 h by blast
    moreover have "list_all lease_ok (guards_after (t_handling tn) (t_command tn) r (guards s))"
      by (rule guards_after_ok [OF _ _ _ w(2)]) (use h turn.prems(1) in \<open>simp_all add: system_ok_def\<close>)
    ultimately show ?thesis by (simp add: system_ok_def)
  qed
next
  case (drop key lease s)
  then show ?case by (auto simp: system_ok_def list_all_iff)
next
  case (close s)
  then show ?case by (auto simp: system_ok_def)
qed

lemma system_steps_ok:
  assumes "system_steps s tns s'" "system_ok s" "list_all turn_ok tns"
  shows "system_ok s'"
  using assms
proof (induction rule: system_steps.induct)
  case (quiet s s' tns s'')
  then show ?case using system_step_ok [OF quiet.hyps(1)] by auto
next
  case (turns s tn s' tns s'')
  then show ?case using system_step_ok [OF turns.hyps(1)] by auto
qed

definition fresh_system :: "StoreWorker \<Rightarrow> ActorSystem" where
  "fresh_system w = \<lparr> worker = w, control_queue = [], guards = [], stopped = False \<rparr>"

lemma fresh_system_ok:
  "\<lbrakk> store_ok w; deferred_abandons w = []; open_leases (connection w) = {} \<rbrakk> \<Longrightarrow> system_ok (fresh_system w)"
  by (simp add: system_ok_def fresh_system_def actor_ok_def loose_def)

section \<open>A system with one guard\<close>

lemma demo_store_ok: "store_ok demo_worker"
proof -
  have "purges_ok (limits demo_worker) (connection demo_worker)"
    by (simp add: purges_ok_def demo_worker_def demo_limits_def keys_distinct_def count_where_def)
  with demo_ok(1) demo_upload_ok(1) show ?thesis
    by (simp add: store_ok_def operation_store_ok_def upload_store_ok_def)
qed

definition demo_turn :: turn where
  "demo_turn = \<lparr> t_retry = demo_tick 0, t_controls = (\<lambda>_. demo_tick 0), t_command = BeginCommand demo_store_key demo_fp,
     t_handling = \<lparr> h_tick = demo_tick 0, h_cleanup_tick = demo_tick 0, h_closed = False, h_delivered = True,
       h_product_ok = True, h_metadata_rows = 2 \<rparr> \<rparr>"

definition demo_system :: ActorSystem where
  "demo_system = \<lparr> worker = demo_started, control_queue = [], guards = [(demo_store_key, replicate 16 CHR ''l'')], stopped = False \<rparr>"

lemma demo_turn_ok: "turn_ok demo_turn"
  using demo_ok by (simp add: turn_ok_def demo_turn_def)

lemma demo_worker_idle: "deferred_abandons demo_worker = []" "open_leases (connection demo_worker) = {}"
  by (simp_all add: demo_worker_def open_leases_def)

lemma demo_system_steps: "system_steps (fresh_system demo_worker) [demo_turn] demo_system"
proof -
  let ?s = "fresh_system demo_worker"
  have "run_turn demo_turn (control_queue ?s) (worker ?s) =
      (demo_started, Some (BeginReply (Inr (Started (replicate 16 CHR ''l'')))), False)"
    using demo_begin demo_worker_idle(1)
    by (simp add: run_turn_def fresh_system_def process_controls_def retry_one_deferred_abandon_def demo_turn_def
        unless_closed_def handle_begin_def)
  from system_step.turn [OF _ this] have "system_step ?s (Some demo_turn) demo_system"
    by (simp add: fresh_system_def demo_system_def demo_turn_def guards_after_def)
  from turns [OF this none] show ?thesis .
qed

section \<open>Properties\<close>

text \<open>Claim C9.  The actor keeps the store: from a well-formed database, no sequence of commands,
  abandonments, cancelled requests, dropped guards and failing accesses breaks the invariant of
  any of the three tables or of the clock, and the list of deferred abandonments never holds one
  twice.\<close>

theorem actor_keeps_store:
  assumes "store_ok w" "deferred_abandons w = []" "open_leases (connection w) = {}"
    and "system_steps (fresh_system w) tns s" "list_all turn_ok tns"
  shows "store_ok (worker s) \<and> distinct (deferred_abandons (worker s))"
  using system_steps_ok [OF assms(4) fresh_system_ok [OF assms(1-3)] assms(5)]
  by (simp add: system_ok_def actor_ok_def)

theorem actor_keeps_store_witness:
  "system_steps (fresh_system demo_worker) [demo_turn] demo_system \<and> store_ok (worker demo_system)"
  using actor_keeps_store [OF demo_store_ok demo_worker_idle demo_system_steps] demo_turn_ok demo_system_steps by simp

text \<open>Claim C8.  No reservation leaks: as long as the actor runs, every operation that is reserved or has
  started its commit belongs to a guard that is still alive, or its abandonment is on the
  control channel, or it is among the deferred abandonments that the actor retries.  A request
  that is cancelled while its reservation is under way, a reply that is not delivered and a
  database that refuses the clean-up are all covered.\<close>

theorem no_reservation_leaks:
  assumes "store_ok w" "deferred_abandons w = []" "open_leases (connection w) = {}"
    and "system_steps (fresh_system w) tns s" "list_all turn_ok tns" "\<not> stopped s"
    and "r \<in> set (operations (connection (worker s)))" "o_state r \<in> {OPERATION_RESERVED, OPERATION_COMMIT_STARTED}"
  shows "row_lease r \<in> set (guards s) \<or>
    (\<exists>key lease. row_lease r = (key, lease) \<and> AbandonControl key lease \<in> set (control_queue s)) \<or>
    row_lease r \<in> set (deferred_abandons (worker s))"
proof -
  have "row_lease r \<in> open_leases (connection (worker s))"
    by (rule open_leasesI [OF assms(7)]) (use assms(8) in \<open>simp add: OPERATION_RESERVED_def OPERATION_COMMIT_STARTED_def\<close>)
  moreover have "loose (worker s) \<subseteq> set (guards s) \<union> abandons (control_queue s)"
    using system_steps_ok [OF assms(4) fresh_system_ok [OF assms(1-3)] assms(5)] assms(6) by (simp add: system_ok_def)
  ultimately show ?thesis unfolding loose_def abandons_def by blast
qed

theorem no_reservation_leaks_witness:
  "\<exists>r. r \<in> set (operations (connection (worker demo_system))) \<and> o_state r = OPERATION_RESERVED \<and>
     row_lease r \<in> set (guards demo_system)"
proof -
  let ?r = "reserved_row demo_store_key demo_fp (replicate 16 CHR ''l'') 10"
  have r: "?r \<in> set (operations (connection (worker demo_system)))" "o_state ?r = OPERATION_RESERVED"
    by (simp_all add: demo_system_def demo_started_def demo_eval OPERATION_RESERVED_def)
  have "row_lease ?r \<in> set (guards demo_system) \<or>
      (\<exists>key lease. row_lease ?r = (key, lease) \<and> AbandonControl key lease \<in> set (control_queue demo_system)) \<or>
      row_lease ?r \<in> set (deferred_abandons (worker demo_system))"
    by (rule no_reservation_leaks [OF demo_store_ok demo_worker_idle demo_system_steps])
      (use demo_turn_ok r in \<open>simp_all add: demo_system_def\<close>)
  moreover have "deferred_abandons (worker demo_system) = []"
    using operation_step_frame(2) [of demo_worker "(demo_tick 0, Begin demo_store_key demo_fp)"] demo_worker_idle(1)
    by (simp add: demo_system_def demo_started_def)
  ultimately have "row_lease ?r \<in> set (guards demo_system)" by (simp add: demo_system_def)
  with r show ?thesis by blast
qed

end
