(* ===== verification/Schema_Sql.thy ===== *)
theory Schema_Sql
  imports Prelude "HOL-Library.Multiset" "HOL-Library.Option_ord"
begin

text \<open>
  The part of \<^verbatim>\<open>src/server/state_store/database.rs\<close> that compares the schema of an existing state
  database with the schema of the program: the canonical form of a stored SQL text and the
  snapshot of a schema.  Texts are compared byte by byte; the sources walk over characters, but
  every character they single out is ASCII.

  The lemmas show that the two scanners with one character of look-ahead are simple automata,
  and that two table definitions have the same canonical form exactly when they have the same
  clauses up to their order.
\<close>

section \<open>Canonical SQL\<close>

datatype schema_error =
    UnterminatedLiteral | UnterminatedIdentifier | NotAscii | NoColumnList | UnbalancedTable
  | UnterminatedTable | UnbalancedClause | BadClause | EmptyClause

datatype sql_mode = Bare | Literal | Identifier

text \<open>\<^verbatim>\<open>char::is_ascii_whitespace\<close>, which unlike \<^verbatim>\<open>trim\<close> leaves the vertical tab.\<close>

definition is_ascii_whitespace :: "char \<Rightarrow> bool" where
  "is_ascii_whitespace c \<longleftrightarrow>
     c = CHR '' '' \<or> c = CHR 0x09 \<or> c = CHR 0x0A \<or> c = CHR 0x0C \<or> c = CHR 0x0D"

abbreviation "quote \<equiv> CHR 0x27"
abbreviation "dquote \<equiv> CHR 0x22"

fun push :: "char \<Rightarrow> schema_error + string \<Rightarrow> schema_error + string" where
  "push c (Inl e) = Inl e"
| "push c (Inr s) = Inr (c # s)"

fun compact_sql :: "sql_mode \<Rightarrow> string \<Rightarrow> schema_error + string" where
  "compact_sql Bare [] = Inr []"
| "compact_sql Bare (c # cs) =
     (if is_ascii_whitespace c then compact_sql Bare cs
      else if c = quote then push c (compact_sql Literal cs)
      else if c = dquote then compact_sql Identifier cs
      else push (to_ascii_lower c) (compact_sql Bare cs))"
| "compact_sql Literal [] = Inl UnterminatedLiteral"
| "compact_sql Literal [c] =
     (if c = quote then push c (compact_sql Bare []) else push c (compact_sql Literal []))"
| "compact_sql Literal (c # d # cs) =
     (if c = quote then
        if d = quote then push c (push d (compact_sql Literal cs))
        else push c (compact_sql Bare (d # cs))
      else push c (compact_sql Literal (d # cs)))"
| "compact_sql Identifier [] = Inl UnterminatedIdentifier"
| "compact_sql Identifier [c] =
     (if c = dquote then compact_sql Bare [] else push (to_ascii_lower c) (compact_sql Identifier []))"
| "compact_sql Identifier (c # d # cs) =
     (if c = dquote then
        if d = dquote then push dquote (compact_sql Identifier cs)
        else compact_sql Bare (d # cs)
      else push (to_ascii_lower c) (compact_sql Identifier (d # cs)))"

definition pop_semicolons :: "string \<Rightarrow> string" where
  "pop_semicolons s = rev (dropWhile (\<lambda>c. c = CHR '';'') (rev s))"

text \<open>
  \<^verbatim>\<open>canonical_create_table_sql\<close>.  The first loop looks for the parenthesis that closes the column
  list; it yields whether it ended inside a string and where the list closes.  The second loop
  cuts the list at its top-level commas; \<^term>\<open>clause\<close> holds the current clause reversed.
\<close>

fun scan_close :: "nat \<Rightarrow> bool \<Rightarrow> nat \<Rightarrow> string \<Rightarrow> schema_error + (bool \<times> nat option)" where
  "scan_close depth in_string index [] = Inr (in_string, None)"
| "scan_close depth in_string index (c # cs) =
     (if c = quote then
        case cs of
          d # ds \<Rightarrow>
            if in_string \<and> d = quote then scan_close depth in_string (index + 2) ds
            else scan_close depth (\<not> in_string) (index + 1) cs
        | [] \<Rightarrow> scan_close depth (\<not> in_string) (index + 1) cs
      else if c = CHR ''('' \<and> \<not> in_string then scan_close (depth + 1) in_string (index + 1) cs
      else if c = CHR '')'' \<and> \<not> in_string then
        if depth = 0 then Inl UnbalancedTable
        else if depth - 1 = 0 then Inr (in_string, Some index)
        else scan_close (depth - 1) in_string (index + 1) cs
      else scan_close depth in_string (index + 1) cs)"

fun scan_clauses :: "nat \<Rightarrow> bool \<Rightarrow> string \<Rightarrow> string \<Rightarrow> schema_error + string list" where
  "scan_clauses depth in_string clause [] =
     (if \<not> in_string \<and> depth = 0 then Inr [rev clause] else Inl BadClause)"
| "scan_clauses depth in_string clause (c # cs) =
     (if c = quote then
        case cs of
          d # ds \<Rightarrow>
            if in_string \<and> d = quote then scan_clauses depth in_string (d # c # clause) ds
            else scan_clauses depth (\<not> in_string) (c # clause) cs
        | [] \<Rightarrow> scan_clauses depth (\<not> in_string) (c # clause) cs
      else if c = CHR ''('' \<and> \<not> in_string then scan_clauses (depth + 1) in_string (c # clause) cs
      else if c = CHR '')'' \<and> \<not> in_string then
        if depth = 0 then Inl UnbalancedClause
        else scan_clauses (depth - 1) in_string (c # clause) cs
      else if c = CHR '','' \<and> \<not> in_string \<and> depth = 0 then
        (case scan_clauses depth in_string [] cs of
           Inl e \<Rightarrow> Inl e
         | Inr clauses \<Rightarrow> Inr (rev clause # clauses))
      else scan_clauses depth in_string (c # clause) cs)"

definition is_ascii :: "string \<Rightarrow> bool" where
  "is_ascii s = list_all (\<lambda>c. of_char c < (128 :: nat)) s"

definition position :: "char \<Rightarrow> string \<Rightarrow> nat option" where
  "position c s = (if c \<in> set s then Some (length (takeWhile (\<lambda>x. x \<noteq> c) s)) else None)"

text \<open>What stands before the column list, its clauses, and what follows it.\<close>

definition table_parts :: "string \<Rightarrow> schema_error + (string \<times> string list \<times> string)" where
  "table_parts compact =
     (if \<not> is_ascii compact then Inl NotAscii
      else case position (CHR ''('') compact of
        None \<Rightarrow> Inl NoColumnList
      | Some opening \<Rightarrow>
          (case scan_close 0 False opening (drop opening compact) of
             Inl e \<Rightarrow> Inl e
           | Inr (in_string, close) \<Rightarrow>
               if in_string then Inl UnterminatedTable
               else (case close of
                 None \<Rightarrow> Inl UnbalancedTable
               | Some close \<Rightarrow>
                   (case scan_clauses 0 False [] (take (close - (opening + 1)) (drop (opening + 1) compact)) of
                      Inl e \<Rightarrow> Inl e
                    | Inr clauses \<Rightarrow>
                        if list_all (\<lambda>clause. clause \<noteq> []) clauses
                        then Inr (take opening compact, clauses, drop (close + 1) compact)
                        else Inl EmptyClause))))"

definition canonical_create_table_sql :: "string \<Rightarrow> schema_error + string" where
  "canonical_create_table_sql compact =
     (case table_parts compact of
        Inl e \<Rightarrow> Inl e
      | Inr (before, clauses, after) \<Rightarrow>
          Inr (before @ ''('' @ join '','' (sort clauses) @ '')'' @ after))"

definition canonical_schema_sql :: "string \<Rightarrow> schema_error + string" where
  "canonical_schema_sql sql =
     (case compact_sql Bare sql of
        Inl e \<Rightarrow> Inl e
      | Inr compact \<Rightarrow>
          let compact = pop_semicolons compact in
          if prefix ''createtable'' compact then canonical_create_table_sql compact else Inr compact)"

section \<open>Snapshots of a schema\<close>

text \<open>
  A row of \<^verbatim>\<open>sqlite_schema\<close>, and what the pragmas of SQLite report about a table.  Columns and
  indexes are sorted by all their fields in the order of their declaration, with \<^verbatim>\<open>None\<close> first,
  which is the order on tuples.
\<close>

record SchemaObjectSnapshot =
  object_type :: string
  object_name :: string
  table_name :: string
  object_sql :: "string option"

type_synonym ColumnSchemaSnapshot = "string \<times> string \<times> i64 \<times> string option \<times> i64 \<times> i64"
type_synonym IndexColumnSchemaSnapshot = "i64 \<times> string option \<times> i64 \<times> string option"
type_synonym IndexSchemaSnapshot = "string \<times> i64 \<times> string \<times> i64 \<times> IndexColumnSchemaSnapshot list"

record TableSchemaSnapshot =
  t_name :: string
  column_count :: i64
  without_rowid :: i64
  strict :: i64
  columns :: "ColumnSchemaSnapshot list"
  indexes :: "IndexSchemaSnapshot list"
  foreign_key_count :: i64

record SchemaSnapshot =
  objects :: "SchemaObjectSnapshot list"
  snapshot_tables :: "TableSchemaSnapshot list"

definition to_ascii_upper :: "char \<Rightarrow> char" where
  "to_ascii_upper c =
     (if CHR ''a'' \<le> c \<and> c \<le> CHR ''z'' then char_of ((of_char c :: nat) - 32) else c)"

text \<open>\<^verbatim>\<open>.map(..).collect::<Result<Vec<_>>>()\<close> and \<^verbatim>\<open>Option::map(..).transpose()\<close>.\<close>

fun collect_results :: "('a \<Rightarrow> 'e + 'b) \<Rightarrow> 'a list \<Rightarrow> 'e + 'b list" where
  "collect_results f [] = Inr []"
| "collect_results f (x # xs) =
     (case f x of
        Inl e \<Rightarrow> Inl e
      | Inr y \<Rightarrow> (case collect_results f xs of Inl e \<Rightarrow> Inl e | Inr ys \<Rightarrow> Inr (y # ys)))"

definition transpose_sql :: "string option \<Rightarrow> schema_error + string option" where
  "transpose_sql sql =
     (case sql of
        None \<Rightarrow> Inr None
      | Some text \<Rightarrow> (case canonical_schema_sql text of Inl e \<Rightarrow> Inl e | Inr c \<Rightarrow> Inr (Some c)))"

definition inspect_column :: "ColumnSchemaSnapshot \<Rightarrow> schema_error + ColumnSchemaSnapshot" where
  "inspect_column col =
     (case col of (name, declared_type, not_null, default_value, pk, hidden) \<Rightarrow>
        (case transpose_sql default_value of
           Inl e \<Rightarrow> Inl e
         | Inr v \<Rightarrow> Inr (name, map to_ascii_upper declared_type, not_null, v, pk, hidden)))"

definition inspect_table_schema :: "TableSchemaSnapshot \<Rightarrow> schema_error + TableSchemaSnapshot" where
  "inspect_table_schema t =
     (case collect_results inspect_column (columns t) of
        Inl e \<Rightarrow> Inl e
      | Inr cols \<Rightarrow> Inr (t\<lparr> columns := sort cols, indexes := sort (indexes t) \<rparr>))"

text \<open>Objects of the program: of one of the four kinds and not named \<^verbatim>\<open>sqlite_*\<close>.\<close>

definition is_persistent :: "SchemaObjectSnapshot \<Rightarrow> bool" where
  "is_persistent ob \<longleftrightarrow>
     object_type ob \<in> {''table'', ''index'', ''trigger'', ''view''} \<and> \<not> prefix ''sqlite_'' (object_name ob)"

definition inspect_object :: "SchemaObjectSnapshot \<Rightarrow> schema_error + SchemaObjectSnapshot" where
  "inspect_object ob =
     (case transpose_sql (object_sql ob) of Inl e \<Rightarrow> Inl e | Inr sql \<Rightarrow> Inr (ob\<lparr> object_sql := sql \<rparr>))"

text \<open>\<^term>\<open>pragmas\<close> is what SQLite reports about the table of a name.\<close>

definition inspect_schema ::
  "(string \<Rightarrow> TableSchemaSnapshot) \<Rightarrow> SchemaObjectSnapshot list \<Rightarrow> schema_error + SchemaSnapshot"
where
  "inspect_schema pragmas sqlite_schema =
     (case collect_results inspect_object
             (sort_key (\<lambda>ob. (object_type ob, object_name ob)) (filter is_persistent sqlite_schema)) of
        Inl e \<Rightarrow> Inl e
      | Inr obs \<Rightarrow>
          let table_names = sort (map object_name (filter (\<lambda>ob. object_type ob = ''table'') obs)) in
          (case collect_results (\<lambda>name. inspect_table_schema (pragmas name)) table_names of
             Inl e \<Rightarrow> Inl e
           | Inr ts \<Rightarrow> Inr \<lparr> objects = obs, snapshot_tables = ts \<rparr>))"

section \<open>The scanners as automata\<close>

text \<open>
  A doubled quote inside a string ends and reopens it, so the look-ahead changes nothing: one
  step on one character is enough.
\<close>

fun sql_step :: "nat \<times> bool \<Rightarrow> char \<Rightarrow> (nat \<times> bool) option" where
  "sql_step (depth, in_string) c =
     (if c = quote then Some (depth, \<not> in_string)
      else if in_string then Some (depth, in_string)
      else if c = CHR ''('' then Some (depth + 1, in_string)
      else if c = CHR '')'' then (if depth = 0 then None else Some (depth - 1, in_string))
      else Some (depth, in_string))"

fun sql_run :: "nat \<times> bool \<Rightarrow> string \<Rightarrow> (nat \<times> bool) option" where
  "sql_run st [] = Some st"
| "sql_run st (c # cs) = (case sql_step st c of None \<Rightarrow> None | Some st' \<Rightarrow> sql_run st' cs)"

lemma sql_run_append:
  "sql_run st (xs @ ys) = (case sql_run st xs of None \<Rightarrow> None | Some st' \<Rightarrow> sql_run st' ys)"
  by (induction xs arbitrary: st) (auto split: option.splits)

text \<open>The cut at top-level commas, one character at a time.\<close>

fun cut_clauses :: "nat \<times> bool \<Rightarrow> string \<Rightarrow> string \<Rightarrow> string list option" where
  "cut_clauses st clause [] = (if st = (0, False) then Some [rev clause] else None)"
| "cut_clauses st clause (c # cs) =
     (if c = CHR '','' \<and> st = (0, False) then map_option ((#) (rev clause)) (cut_clauses st [] cs)
      else case sql_step st c of None \<Rightarrow> None | Some st' \<Rightarrow> cut_clauses st' (c # clause) cs)"

lemma scan_clauses_quote:
  assumes "\<not> (in_string \<and> (\<exists>ds. cs = quote # ds))"
  shows "scan_clauses depth in_string clause (quote # cs) = scan_clauses depth (\<not> in_string) (quote # clause) cs"
  using assms by (subst scan_clauses.simps(2)) (auto split: list.splits)

lemma scan_clauses_escape:
  "scan_clauses depth True clause (quote # quote # ds) = scan_clauses depth True (quote # quote # clause) ds"
  by simp

lemma scan_clauses_Inr:
  "scan_clauses depth in_string clause cs = Inr clauses \<longleftrightarrow> cut_clauses (depth, in_string) clause cs = Some clauses"
proof (induction depth in_string clause cs arbitrary: clauses rule: scan_clauses.induct)
  case (2 depth in_string clause c cs)
  show ?case
  proof (cases "c = quote")
    case quoted: True
    show ?thesis
    proof (cases "in_string \<and> (\<exists>ds. cs = quote # ds)")
      case True
      then obtain ds where ds: "in_string" "cs = quote # ds" by blast
      with 2(2) [OF quoted ds(2)] quoted show ?thesis by (simp add: scan_clauses_escape)
    next
      case False
      have "scan_clauses depth (\<not> in_string) (c # clause) cs = Inr clauses \<longleftrightarrow>
          cut_clauses (depth, \<not> in_string) (c # clause) cs = Some clauses"
        using quoted False 2(1,3) by (cases cs) blast+
      with quoted scan_clauses_quote [OF False] show ?thesis by simp
    qed
  next
    case plain: False
    show ?thesis
    proof (cases "c = CHR '','' \<and> \<not> in_string \<and> depth = 0")
      case True
      have ih: "scan_clauses 0 False [] cs = Inr rest \<longleftrightarrow> cut_clauses (0, False) [] cs = Some rest" for rest
        using True plain 2(6) by simp
      show ?thesis
      proof (cases "scan_clauses 0 False [] cs")
        case (Inl e)
        then have "cut_clauses (0, False) [] cs = None" using ih by (metis Inl_Inr_False not_Some_eq)
        with Inl True show ?thesis by simp
      next
        case (Inr rest)
        with ih [of rest] True show ?thesis by simp
      qed
    next
      case False
      with plain 2(4,5,7) show ?thesis by (cases in_string; cases "depth = 0"; simp)
    qed
  qed
qed simp

text \<open>Where the list closes: after the shortest piece that brings the automaton back to the outside.\<close>

fun cut_close :: "nat \<times> bool \<Rightarrow> string \<Rightarrow> nat option" where
  "cut_close st [] = None"
| "cut_close st (c # cs) =
     (if c = CHR '')'' \<and> st = (Suc 0, False) then Some 0
      else case sql_step st c of None \<Rightarrow> None | Some st' \<Rightarrow> map_option Suc (cut_close st' cs))"

lemma scan_close_quote:
  assumes "\<not> (in_string \<and> (\<exists>ds. cs = quote # ds))"
  shows "scan_close depth in_string index (quote # cs) = scan_close depth (\<not> in_string) (index + 1) cs"
  using assms by (subst scan_close.simps(2)) (auto split: list.splits)

lemma scan_close_Some:
  "scan_close depth in_string index cs = Inr (b, Some n) \<longleftrightarrow>
     \<not> b \<and> (\<exists>k. cut_close (depth, in_string) cs = Some k \<and> n = index + k)"
proof (induction depth in_string index cs arbitrary: b n rule: scan_close.induct)
  case (2 depth in_string index c cs)
  show ?case
  proof (cases "c = quote")
    case quoted: True
    show ?thesis
    proof (cases "in_string \<and> (\<exists>ds. cs = quote # ds)")
      case True
      then obtain ds where ds: "in_string" "cs = quote # ds" by blast
      with 2(2) [OF quoted ds(2)] quoted show ?thesis by auto
    next
      case False
      have "scan_close depth (\<not> in_string) (index + 1) cs = Inr (b, Some n) \<longleftrightarrow>
          \<not> b \<and> (\<exists>k. cut_close (depth, \<not> in_string) cs = Some k \<and> n = index + 1 + k)"
        using quoted False 2(1,3) by (cases cs) blast+
      with quoted scan_close_quote [OF False] show ?thesis by auto
    qed
  next
    case False
    with 2 show ?thesis by auto
  qed
qed simp

text \<open>A clause: text the cut leaves in one piece.\<close>

definition is_clause :: "string \<Rightarrow> bool" where
  "is_clause cl \<longleftrightarrow> cut_clauses (0, False) [] cl = Some [cl]"

lemma cut_clauses_acc:
  "cut_clauses st acc cs = map_option (\<lambda>cls. (rev acc @ hd cls) # tl cls) (cut_clauses st [] cs) \<and>
   cut_clauses st [] cs \<noteq> Some []"
proof (induction cs arbitrary: st acc)
  case (Cons c cs)
  show ?case
  proof (cases "c = CHR '','' \<and> st = (0, False)")
    case True
    then show ?thesis by (cases "cut_clauses st [] cs") simp_all
  next
    case False
    show ?thesis
    proof (cases "sql_step st c")
      case (Some st')
      have "cut_clauses st' (c # acc) cs = map_option (\<lambda>cls. (rev (c # acc) @ hd cls) # tl cls) (cut_clauses st' [] cs)"
        "cut_clauses st' [c] cs = map_option (\<lambda>cls. (rev [c] @ hd cls) # tl cls) (cut_clauses st' [] cs)"
        using Cons.IH by blast+
      with Some False show ?thesis by (cases "cut_clauses st' [] cs") auto
    qed (use False in auto)
  qed
qed simp

lemma cut_clauses_pieces:
  assumes "cut_clauses st [] cs = Some (x # xs)"
  shows "cs = join '','' (x # xs) \<and> cut_clauses st [] x = Some [x] \<and> list_all is_clause xs"
  using assms
proof (induction cs arbitrary: st x xs)
  case (Cons c cs)
  show ?case
  proof (cases "c = CHR '','' \<and> st = (0, False)")
    case True
    with Cons.prems obtain y ys where y: "cut_clauses st [] cs = Some (y # ys)" "x = []" "xs = y # ys"
      using cut_clauses_acc [of st "[]" cs] by (cases "cut_clauses st [] cs"; cases "the (cut_clauses st [] cs)") auto
    from Cons.IH [OF y(1)] True y show ?thesis by (simp add: is_clause_def)
  next
    case False
    with Cons.prems obtain st' where st': "sql_step st c = Some st'" "cut_clauses st' [c] cs = Some (x # xs)"
      by (cases "sql_step st c") auto
    then obtain y where y: "cut_clauses st' [] cs = Some (y # xs)" "x = c # y"
      using cut_clauses_acc [of st' "[c]" cs] by (cases "cut_clauses st' [] cs"; cases "the (cut_clauses st' [] cs)") auto
    from Cons.IH [OF y(1)] have ih: "cs = join '','' (y # xs)" "cut_clauses st' [] y = Some [y]" "list_all is_clause xs"
      by blast+
    have "cut_clauses st' [c] y = Some [c # y]" using cut_clauses_acc [of st' "[c]" y] ih(2) by simp
    with False st'(1) ih y(2) show ?thesis by (cases xs) auto
  qed
qed (auto split: if_splits)

lemma cut_clauses_append:
  assumes "cut_clauses st [] x = Some [x]"
  shows "cut_clauses st [] (x @ CHR '','' # cs) = map_option ((#) x) (cut_clauses (0, False) [] cs)"
  using assms
proof (induction x arbitrary: st)
  case Nil
  then show ?case by (simp split: if_splits)
next
  case (Cons c x)
  show ?case
  proof (cases "c = CHR '','' \<and> st = (0, False)")
    case True
    with Cons.prems show ?thesis using cut_clauses_acc [of st "[]" x] by auto
  next
    case False
    with Cons.prems obtain st' where st': "sql_step st c = Some st'" "cut_clauses st' [c] x = Some [c # x]"
      by (cases "sql_step st c") auto
    then have "cut_clauses st' [] x = Some [x]"
      using cut_clauses_acc [of st' "[c]" x] by (cases "cut_clauses st' [] x"; cases "the (cut_clauses st' [] x)") auto
    from Cons.IH [OF this] cut_clauses_acc [of st' "[c]" "x @ CHR '','' # cs"] False st'(1) show ?thesis
      by (cases "cut_clauses (0, False) [] cs") auto
  qed
qed

lemma cut_clauses_join:
  assumes "cls \<noteq> []" "list_all is_clause cls"
  shows "cut_clauses (0, False) [] (join '','' cls) = Some cls"
  using assms
proof (induction "'',''" cls rule: join.induct)
  case (3 p q ps)
  then have "cut_clauses (0, False) [] p = Some [p]" by (simp add: is_clause_def)
  from cut_clauses_append [OF this, of "join '','' (q # ps)"] 3 show ?case by simp
qed (simp_all add: is_clause_def)

lemma cut_close_split:
  "cut_close st cs = Some k \<Longrightarrow> k < length cs \<and> cs = take k cs @ CHR '')'' # drop (Suc k) cs"
proof (induction cs arbitrary: st k)
  case (Cons c cs)
  then show ?case by (cases k) (auto split: if_splits option.splits)
qed simp

lemma cut_close_clauses:
  "cut_clauses (d, b) acc body = Some cls \<Longrightarrow> cut_close (Suc d, b) (body @ CHR '')'' # rest) = Some (length body)"
proof (induction body arbitrary: d b acc cls)
  case (Cons c body)
  show ?case
  proof (cases "c = CHR '','' \<and> \<not> b \<and> d = 0")
    case True
    with Cons.prems obtain cls' where "cut_clauses (d, b) [] body = Some cls'" by auto
    from Cons.IH [OF this] True show ?thesis by simp
  next
    case False
    with Cons.prems obtain d' b' where st: "sql_step (d, b) c = Some (d', b')" "cut_clauses (d', b') (c # acc) body = Some cls"
      by (cases "sql_step (d, b) c") (auto simp del: sql_step.simps)
    from st(1) have "sql_step (Suc d, b) c = Some (Suc d', b')" "c = CHR '')'' \<Longrightarrow> b \<or> d \<noteq> 0"
      by (auto split: if_splits)
    with Cons.IH [OF st(2)] show ?thesis by auto
  qed
qed (simp split: if_splits)

section \<open>The parts of a table definition\<close>

lemma takeWhile_before: "c \<notin> set h \<Longrightarrow> takeWhile (\<lambda>x. x \<noteq> c) (h @ c # t) = h"
  by (induction h) auto

lemma position_append: "c \<notin> set h \<Longrightarrow> position c (h @ c # t) = Some (length h)"
  by (simp add: position_def takeWhile_before)

lemma position_Some:
  assumes "position c s = Some n"
  shows "\<exists>h t. s = h @ c # t \<and> c \<notin> set h \<and> n = length h"
proof -
  have c: "c \<in> set s" using assms by (simp add: position_def split: if_splits)
  obtain h t where h: "s = h @ c # t" "c \<notin> set h" using split_list_first [OF c] by blast
  with position_append [OF h(2), of t] assms show ?thesis by auto
qed

lemma table_parts_Inr:
  "table_parts s = Inr (before, cls, after) \<longleftrightarrow>
     is_ascii s \<and> s = before @ ''('' @ join '','' cls @ '')'' @ after \<and> CHR ''('' \<notin> set before \<and>
     cls \<noteq> [] \<and> list_all (\<lambda>cl. is_clause cl \<and> cl \<noteq> []) cls"
  (is "?l \<longleftrightarrow> ?r")
proof
  assume asm: ?r
  then have ascii: "is_ascii s" ..
  from asm have r: "s = before @ CHR ''('' # join '','' cls @ CHR '')'' # after"
    "CHR ''('' \<notin> set before" "cls \<noteq> []" "list_all is_clause cls" "list_all (\<lambda>cl. cl \<noteq> []) cls"
    by (simp_all add: list_all_iff)
  note r = ascii r
  let ?n = "length before" and ?b = "join '','' cls"
  note cut = cut_clauses_join [OF r(4,5)]
  have "cut_close (0, False) (drop ?n s) = Some (Suc (length ?b))"
    using cut_close_clauses [OF cut, of after] by (simp add: r(2))
  then have close: "scan_close 0 False ?n (drop ?n s) = Inr (False, Some (Suc (?n + length ?b)))"
    by (simp add: scan_close_Some)
  have scan: "scan_clauses 0 False [] ?b = Inr cls" using cut by (simp add: scan_clauses_Inr)
  show ?l
    using r(1,6) position_append [OF r(3)] close scan unfolding table_parts_def by (simp add: r(2))
next
  assume l: ?l
  then obtain n where n: "is_ascii s" "position (CHR ''('') s = Some n"
    by (auto simp: table_parts_def split: if_splits option.splits)
  obtain h t where h: "s = h @ CHR ''('' # t" "CHR ''('' \<notin> set h" "n = length h"
    using position_Some [OF n(2)] by blast
  from l n obtain m where m: "scan_close 0 False n (drop n s) = Inr (False, Some m)"
    "scan_clauses 0 False [] (take (m - (n + 1)) (drop (n + 1) s)) = Inr cls"
    "list_all (\<lambda>cl. cl \<noteq> []) cls" "before = take n s" "after = drop (m + 1) s"
    by (auto simp: table_parts_def split: if_splits option.splits sum.splits)
  from m(1) obtain k where k: "cut_close (0, False) (drop n s) = Some k" "m = n + k"
    unfolding scan_close_Some by blast
  then obtain j where j: "cut_close (Suc 0, False) t = Some j" "k = Suc j" by (auto simp: h(1,3))
  note sp = cut_close_split [OF j(1)]
  have body: "scan_clauses 0 False [] (take j t) = Inr cls" using m(2) by (simp add: k(2) j(2) h(1,3))
  obtain x xs where x: "cls = x # xs"
    using body cut_clauses_acc [of "(0, False)" "[]" "take j t"] by (cases cls) (auto simp: scan_clauses_Inr)
  have "take j t = join '','' cls \<and> list_all is_clause cls"
    using cut_clauses_pieces [of "(0, False)" "take j t" x xs] body by (simp add: scan_clauses_Inr x is_clause_def)
  moreover have "before = h" "after = drop (Suc j) t" by (simp_all add: m(4,5) h(1,3) k(2) j(2))
  ultimately show ?r using n(1) h(1,2) sp m(3) x by (auto simp: list_all_iff)
qed

lemma set_join: "set (join [c] ps) \<subseteq> insert c (\<Union> (set ` set ps))"
  by (induction "[c]" ps rule: join.induct) auto

lemma join_set: "p \<in> set ps \<Longrightarrow> set p \<subseteq> set (join sep ps)"
  by (induction sep ps rule: join.induct) auto

text \<open>Sorting the clauses gives a definition with the sorted clauses.\<close>

lemma canonical_parts:
  assumes "table_parts s = Inr (before, cls, after)"
  shows "table_parts (before @ ''('' @ join '','' (sort cls) @ '')'' @ after) = Inr (before, sort cls, after)"
proof -
  note r = iffD1 [OF table_parts_Inr assms]
  have "set (join '','' (sort cls)) \<subseteq> insert (CHR '','') (set (join '','' cls))"
    using set_join [of "CHR '',''" "sort cls"] join_set [of _ cls "'',''"] by auto
  then have "is_ascii (before @ ''('' @ join '','' (sort cls) @ '')'' @ after)"
    using r by (auto simp: is_ascii_def list_all_iff)
  moreover have "sort cls \<noteq> []" using r by (metis length_0_conv length_sort)
  moreover have "list_all (\<lambda>cl. is_clause cl \<and> cl \<noteq> []) (sort cls)"
    using r by (simp add: list_all_iff)
  ultimately show ?thesis using r unfolding table_parts_Inr by blast
qed

section \<open>Properties\<close>

text \<open>Claim C35.  The comparison of table definitions is exact up to the order of their clauses: a
  definition that is accepted is its head, its parenthesised clauses and its tail, and two
  accepted definitions have the same canonical form exactly when they have the same head, the
  same tail and the same clauses, each as often, whatever quotes, parentheses and commas the
  clauses contain.  The canonical form is itself accepted and canonical.\<close>

theorem table_definitions_canonical:
  assumes "canonical_create_table_sql s = Inr a" "canonical_create_table_sql s' = Inr a'"
  shows "\<exists>before cls after before' cls' after'.
    table_parts s = Inr (before, cls, after) \<and> s = before @ ''('' @ join '','' cls @ '')'' @ after \<and>
    table_parts s' = Inr (before', cls', after') \<and> s' = before' @ ''('' @ join '','' cls' @ '')'' @ after' \<and>
    (a = a' \<longleftrightarrow> before = before' \<and> mset cls = mset cls' \<and> after = after') \<and>
    canonical_create_table_sql a = Inr a"
proof -
  obtain before cls after where p: "table_parts s = Inr (before, cls, after)"
    "a = before @ ''('' @ join '','' (sort cls) @ '')'' @ after"
    using assms(1) by (auto simp: canonical_create_table_sql_def split: sum.splits)
  obtain before' cls' after' where p': "table_parts s' = Inr (before', cls', after')"
    "a' = before' @ ''('' @ join '','' (sort cls') @ '')'' @ after'"
    using assms(2) by (auto simp: canonical_create_table_sql_def split: sum.splits)
  have a: "table_parts a = Inr (before, sort cls, after)" "table_parts a' = Inr (before', sort cls', after')"
    unfolding p(2) p'(2) by (rule canonical_parts [OF p(1)], rule canonical_parts [OF p'(1)])
  have same: "a = a' \<longleftrightarrow> before = before' \<and> mset cls = mset cls' \<and> after = after'"
  proof
    assume "a = a'"
    with a have eq: "before = before' \<and> sort cls = sort cls' \<and> after = after'" by simp
    then have "mset cls = mset cls'" by (metis mset_sort)
    with eq show "before = before' \<and> mset cls = mset cls' \<and> after = after'" by simp
  next
    assume r: "before = before' \<and> mset cls = mset cls' \<and> after = after'"
    then have "sort cls = sort cls'" by (metis properties_for_sort mset_sort sorted_sort)
    with r show "a = a'" by (simp add: p(2) p'(2))
  qed
  have "canonical_create_table_sql a = Inr a"
    using a(1) by (simp add: canonical_create_table_sql_def p(2) sorted_sort_id)
  with p(1) p'(1) same iffD1 [OF table_parts_Inr p(1)] iffD1 [OF table_parts_Inr p'(1)]
  show ?thesis by blast
qed

theorem table_definitions_canonical_witness:
  "\<exists>a. canonical_create_table_sql ''createtablet(bcheck(b!=')'),a)strict'' = Inr a \<and>
     canonical_create_table_sql ''createtablet(a,bcheck(b!=')'))strict'' = Inr a \<and> canonical_create_table_sql a = Inr a"
proof -
  let ?s = "''createtablet(bcheck(b!=')'),a)strict''" and ?s' = "''createtablet(a,bcheck(b!=')'))strict''"
  have e: "canonical_create_table_sql ?s = Inr ?s'" "canonical_create_table_sql ?s' = Inr ?s'"
    by code_simp+
  from table_definitions_canonical [OF e] have "canonical_create_table_sql ?s' = Inr ?s'" by blast
  with e show ?thesis by blast
qed

end
