(* ===== verification/Store_Database.thy ===== *)
theory Store_Database
  imports Store_Actor Schema_Sql
begin

text \<open>
  The rest of \<^verbatim>\<open>src/server/state_store/database.rs\<close>: inspecting and opening the database file,
  validating that it is a state database of this program for this shared root, creating the
  schema, and recovering the rows a stopped process left behind; and the start of the actor in
  \<^verbatim>\<open>actor.rs\<close> on the recovered database.

  The crate that fingerprints a schema, the pragmas and the parser of SQLite and the package
  version are the argument \<^verbatim>\<open>F\<close>.  What the file system reports at each look is an argument of
  the check that looks.  The lemmas show that recovery ends every reservation and establishes
  what the actor relies on, that a mutation which reached its commit point is not repeated by a
  restart, and that a database is used for the root it was created for only.
\<close>

section \<open>The database file\<close>

record ProductMetadataRow =
  singleton :: i64
  application :: string
  application_version :: string
  schema_revision :: i64
  schema_sha256 :: string

record state_file =
  sqlite_schema :: "SchemaObjectSnapshot list"
  product_metadata :: "ProductMetadataRow list"
  store_meta :: "(string \<times> blob) list"
  state_tables :: database

definition empty_database :: database where
  "empty_database = \<lparr> operations = [], upload_sessions = [], purge_jobs = [] \<rparr>"

record SchemaIdentity =
  id_application :: string
  id_version :: string
  id_revision :: u64
  id_fingerprint :: string

record foundation =
  created_objects :: "SchemaObjectSnapshot list"
  table_pragmas :: "SchemaObjectSnapshot list \<Rightarrow> string \<Rightarrow> TableSchemaSnapshot"
  foundation_fingerprint :: "SchemaObjectSnapshot list \<Rightarrow> string option"
  valid_metadata_ddl :: "string \<Rightarrow> bool"
  valid_identity :: "SchemaIdentity \<Rightarrow> bool"
  current_schema_verified :: "ProductMetadataRow list \<Rightarrow> SchemaObjectSnapshot list \<Rightarrow> SchemaIdentity \<Rightarrow> bool"
  package_version :: string

datatype startup_error =
    SqliteError | SchemaError schema_error | SchemaDiffers | MetadataDdl | MetadataDiffers
  | FingerprintRejected | FingerprintInconsistent | MetaMissing string | WrongDevice | WrongInode
  | IntegrityFailed string | NotHardened | WrongJournalMode string | NotExtra | ForeignKeysOff
  | TrustedSchemaOn | MmapOn | RecoveryError store_error
  | FileIo | FileSymlink | FileNotRegular | FileLinks | FileReplaced | SidecarAppeared
  | SnapshotTooLarge | SnapshotChanged | EmptyMainWithSidecar | SidecarWithoutMain
  | NoFileName | ParentNotDirectory

type_synonym 'a startup = "startup_error + 'a"

definition APPLICATION :: string where "APPLICATION = ''dufs-ram''"
definition CURRENT_SCHEMA_REVISION :: i64 where "CURRENT_SCHEMA_REVISION = 1"
definition MAX_RAW_DATABASE_SNAPSHOT_BYTES :: u64 where
  "MAX_RAW_DATABASE_SNAPSHOT_BYTES = 1024 * 1024 * 1024"

section \<open>Validation\<close>

definition persistent_object_count :: "state_file \<Rightarrow> int" where
  "persistent_object_count f = count_where is_persistent (sqlite_schema f)"

definition validate_exact_schema :: "foundation \<Rightarrow> state_file \<Rightarrow> unit startup" where
  "validate_exact_schema F f =
     (case inspect_schema (table_pragmas F (sqlite_schema f)) (sqlite_schema f) of
        Inl e \<Rightarrow> Inl (SchemaError e)
      | Inr actual \<Rightarrow>
          (case inspect_schema (table_pragmas F (created_objects F)) (created_objects F) of
             Inl e \<Rightarrow> Inl (SchemaError e)
           | Inr expected \<Rightarrow> if actual = expected then Inr () else Inl SchemaDiffers))"

definition expected_schema_identity :: "foundation \<Rightarrow> SchemaIdentity startup" where
  "expected_schema_identity F =
     (case foundation_fingerprint F (created_objects F) of
        None \<Rightarrow> Inl FingerprintRejected
      | Some fp \<Rightarrow>
          let identity = \<lparr> id_application = APPLICATION, id_version = package_version F,
                id_revision = nat CURRENT_SCHEMA_REVISION, id_fingerprint = fp \<rparr> in
          if valid_identity F identity then Inr identity else Inl MetadataDiffers)"

definition validate_product_metadata :: "foundation \<Rightarrow> state_file \<Rightarrow> unit startup" where
  "validate_product_metadata F f =
     (case validate_exact_schema F f of
        Inl e \<Rightarrow> Inl e
      | Inr _ \<Rightarrow>
          (case select_where (\<lambda>ob. object_type ob = ''table'' \<and> object_name ob = ''product_metadata'') (sqlite_schema f) of
             None \<Rightarrow> Inl SqliteError
           | Some ob \<Rightarrow>
               (case object_sql ob of
                  None \<Rightarrow> Inl SqliteError
                | Some ddl \<Rightarrow>
                    if \<not> valid_metadata_ddl F ddl then Inl MetadataDdl
                    else (case expected_schema_identity F of
                      Inl e \<Rightarrow> Inl e
                    | Inr expected \<Rightarrow>
                        if current_schema_verified F (sort_key singleton (product_metadata f)) (sqlite_schema f) expected
                        then Inr () else Inl MetadataDiffers))))"

definition load_meta :: "string \<Rightarrow> state_file \<Rightarrow> blob startup" where
  "load_meta key f =
     (case map_of (store_meta f) key of None \<Rightarrow> Inl (MetaMissing key) | Some v \<Rightarrow> Inr v)"

definition verify_root_identity :: "RootIdentity \<Rightarrow> state_file \<Rightarrow> unit startup" where
  "verify_root_identity expected f =
     (case load_meta ''root-device-be'' f of
        Inl e \<Rightarrow> Inl e
      | Inr dev \<Rightarrow>
          (case load_meta ''root-inode-be'' f of
             Inl e \<Rightarrow> Inl e
           | Inr ino \<Rightarrow>
               if dev \<noteq> u64_to_be_bytes (root_device expected) then Inl WrongDevice
               else if ino \<noteq> u64_to_be_bytes (root_inode expected) then Inl WrongInode
               else Inr ()))"

text \<open>
  \<^term>\<open>check\<close> is the answer of \<^verbatim>\<open>PRAGMA quick_check\<close>; \<^verbatim>\<open>None\<close> stands for a validation during which
  SQLite failed to answer a query.
\<close>

definition validate_integrity :: "string \<Rightarrow> unit startup" where
  "validate_integrity check =
     (if eq_ignore_ascii_case check ''ok'' then Inr () else Inl (IntegrityFailed check))"

definition validate_database_before_mutation ::
  "foundation \<Rightarrow> string option \<Rightarrow> RootIdentity \<Rightarrow> state_file \<Rightarrow> unit startup"
where
  "validate_database_before_mutation F check root f =
     (case check of
        None \<Rightarrow> Inl SqliteError
      | Some answer \<Rightarrow>
          if persistent_object_count f = 0 then validate_integrity answer
          else (case validate_product_metadata F f of
            Inl e \<Rightarrow> Inl e
          | Inr _ \<Rightarrow>
              (case verify_root_identity root f of
                 Inl e \<Rightarrow> Inl e
               | Inr _ \<Rightarrow> validate_integrity answer)))"

section \<open>Schema and recovery\<close>

definition insert_root_identity :: "RootIdentity \<Rightarrow> state_file \<Rightarrow> state_file" where
  "insert_root_identity root f =
     f\<lparr> store_meta := store_meta f @
          [(''root-device-be'', u64_to_be_bytes (root_device root)), (''root-inode-be'', u64_to_be_bytes (root_inode root))] \<rparr>"

text \<open>
  An empty file holds no tables; \<^verbatim>\<open>CURRENT_SCHEMA\<close> creates them.  An error rolls the transaction
  back.  \<^term>\<open>ok\<close> tells whether SQLite executes it.
\<close>

definition initialize_schema ::
  "foundation \<Rightarrow> bool \<Rightarrow> RootIdentity \<Rightarrow> state_file \<Rightarrow> state_file \<times> unit startup"
where
  "initialize_schema F ok root f =
     (if persistent_object_count f \<noteq> 0 then
        (f, case validate_product_metadata F f of
              Inl e \<Rightarrow> Inl e
            | Inr _ \<Rightarrow> verify_root_identity root f)
      else case foundation_fingerprint F (created_objects F) of
        None \<Rightarrow> (f, Inl FingerprintRejected)
      | Some expected \<Rightarrow>
          if \<not> ok then (f, Inl SqliteError)
          else
            let g = \<lparr> sqlite_schema = sqlite_schema f @ created_objects F, product_metadata = [], store_meta = [],
                      state_tables = empty_database \<rparr> in
            (case foundation_fingerprint F (sqlite_schema g) of
               None \<Rightarrow> (f, Inl FingerprintRejected)
             | Some actual \<Rightarrow>
                 if actual \<noteq> expected then (f, Inl FingerprintInconsistent)
                 else
                   let g = g\<lparr> product_metadata :=
                             [\<lparr> singleton = 1, application = APPLICATION, application_version = package_version F,
                                schema_revision = CURRENT_SCHEMA_REVISION, schema_sha256 = expected \<rparr>] \<rparr>;
                       g = insert_root_identity root g in
                   (case validate_product_metadata F g of
                      Inl e \<Rightarrow> (f, Inl e)
                    | Inr _ \<Rightarrow>
                        (case verify_root_identity root g of
                           Inl e \<Rightarrow> (f, Inl e)
                         | Inr _ \<Rightarrow> (g, Inr ())))))"

text \<open>\<^verbatim>\<open>recover_database\<close>, statement by statement.\<close>

definition cap_operation :: "i64 \<Rightarrow> operation_row \<Rightarrow> operation_row" where
  "cap_operation expires_at r = r\<lparr> o_expires_at_ms := Some expires_at \<rparr>"

definition set_upload_unknown :: "i64 \<Rightarrow> i64 \<Rightarrow> upload_row \<Rightarrow> upload_row" where
  "set_upload_unknown now expires_at r =
     r\<lparr> u_state := UPLOAD_UNKNOWN, u_updated_at_ms := now, u_expires_at_ms := expires_at \<rparr>"

definition cap_upload :: "i64 \<Rightarrow> upload_row \<Rightarrow> upload_row" where
  "cap_upload expires_at r = r\<lparr> u_expires_at_ms := expires_at \<rparr>"

definition release_claim :: "i64 \<Rightarrow> purge_row \<Rightarrow> purge_row" where
  "release_claim now r =
     r\<lparr> p_state := PURGE_READY, p_next_attempt_at_ms := now, p_updated_at_ms := now \<rparr>"

definition cap_purge :: "i64 \<Rightarrow> purge_row \<Rightarrow> purge_row" where
  "cap_purge now r = r\<lparr> p_next_attempt_at_ms := now, p_updated_at_ms := now \<rparr>"

definition late_operation :: "i64 \<Rightarrow> operation_row \<Rightarrow> bool" where
  "late_operation expires_at r \<longleftrightarrow>
     o_state r = OPERATION_COMPLETED \<and> (case o_expires_at_ms r of None \<Rightarrow> False | Some t \<Rightarrow> expires_at < t)"

definition recover_operations :: "i64 \<Rightarrow> i64 \<Rightarrow> database \<Rightarrow> database result" where
  "recover_operations expires_at now db =
     (let db = purge_expired now db;
          rows = delete_where (\<lambda>r. o_state r = OPERATION_RESERVED) (operations db) in
      case update_rows operation_check (\<lambda>r. o_state r = OPERATION_COMMIT_STARTED)
             (set_completed uncertain now expires_at) rows of
        Inl e \<Rightarrow> Inl e
      | Inr (rows, _) \<Rightarrow>
          (case update_rows operation_check (late_operation expires_at) (cap_operation expires_at) rows of
             Inl e \<Rightarrow> Inl e
           | Inr (rows, _) \<Rightarrow> Inr (db\<lparr> operations := rows \<rparr>)))"

definition recover_uploads :: "i64 \<Rightarrow> i64 \<Rightarrow> database \<Rightarrow> database result" where
  "recover_uploads expires_at now db =
     (case update_rows upload_check (\<lambda>r. u_state r = UPLOAD_COMMIT_STARTED)
             (set_upload_unknown now expires_at) (upload_sessions db) of
        Inl e \<Rightarrow> Inl e
      | Inr (rows, _) \<Rightarrow>
          (case update_rows upload_check (\<lambda>r. expires_at < u_expires_at_ms r) (cap_upload expires_at) rows of
             Inl e \<Rightarrow> Inl e
           | Inr (rows, _) \<Rightarrow> Inr (db\<lparr> upload_sessions := rows \<rparr>)))"

definition recover_purges :: "i64 \<Rightarrow> database \<Rightarrow> database result" where
  "recover_purges now db =
     (case update_rows purge_check (\<lambda>r. p_state r = PURGE_CLAIMED) (release_claim now) (purge_jobs db) of
        Inl e \<Rightarrow> Inl e
      | Inr (rows, _) \<Rightarrow>
          (case update_rows purge_check (\<lambda>r. p_state r = PURGE_READY \<and> now < p_next_attempt_at_ms r)
                  (cap_purge now) rows of
             Inl e \<Rightarrow> Inl e
           | Inr (rows, _) \<Rightarrow> Inr (db\<lparr> purge_jobs := rows \<rparr>)))"

definition recover_database :: "bool \<Rightarrow> i64 \<Rightarrow> i64 \<Rightarrow> i64 \<Rightarrow> database \<Rightarrow> database \<times> unit result" where
  "recover_database ok operation_ttl upload_ttl now db =
     (case expiration_time now operation_ttl of
        Inl e \<Rightarrow> (db, Inl e)
      | Inr operation_expires_at \<Rightarrow>
          (case expiration_time now upload_ttl of
             Inl e \<Rightarrow> (db, Inl e)
           | Inr upload_expires_at \<Rightarrow>
               if \<not> ok then (db, Inl SqlFailure)
               else (case recover_operations operation_expires_at now db of
                 Inl e \<Rightarrow> (db, Inl e)
               | Inr db1 \<Rightarrow>
                   (case recover_uploads upload_expires_at now db1 of
                      Inl e \<Rightarrow> (db, Inl e)
                    | Inr db2 \<Rightarrow>
                        (case recover_purges now db2 of
                           Inl e \<Rightarrow> (db, Inl e)
                         | Inr db3 \<Rightarrow> (db3, Inr ()))))))"

section \<open>Files beside the database\<close>

text \<open>
  \<^verbatim>\<open>symlink_metadata\<close> of a path and \<^verbatim>\<open>metadata\<close> of an open file.  A look that fails is an error, and
  for the path it may find nothing.
\<close>

record SidecarMetadataSnapshot =
  sn_device :: u64
  sn_inode :: u64
  sn_mode :: nat
  sn_links :: u64
  sn_uid :: nat
  sn_gid :: nat
  sn_size :: u64
  modified_seconds :: i64
  modified_nanoseconds :: i64
  changed_seconds :: i64
  changed_nanoseconds :: i64

record Metadata =
  is_symlink :: bool
  is_file :: bool
  from_metadata :: SidecarMetadataSnapshot

datatype look = NotFound | LookFailed | Found Metadata

text \<open>\<^verbatim>\<open>validate_main_database_metadata\<close> and \<^verbatim>\<open>validate_sidecar_metadata\<close> make the same checks.\<close>

definition validate_metadata :: "Metadata \<Rightarrow> unit startup" where
  "validate_metadata m =
     (if is_symlink m then Inl FileSymlink
      else if \<not> is_file m then Inl FileNotRegular
      else if sn_links (from_metadata m) \<noteq> 1 then Inl FileLinks
      else Inr ())"

text \<open>The snapshot an opened file and its path must agree on: \<^verbatim>\<open>MainDatabaseGuard::inspect\<close>.\<close>

definition inspect_main :: "look \<Rightarrow> look \<Rightarrow> SidecarMetadataSnapshot startup" where
  "inspect_main path_look open_look =
     (case path_look of
        Found path_metadata \<Rightarrow>
          (case validate_metadata path_metadata of
             Inl e \<Rightarrow> Inl e
           | Inr _ \<Rightarrow>
               (case open_look of
                  Found opened_metadata \<Rightarrow>
                    (case validate_metadata opened_metadata of
                       Inl e \<Rightarrow> Inl e
                     | Inr _ \<Rightarrow>
                         if from_metadata path_metadata = from_metadata opened_metadata
                         then Inr (from_metadata opened_metadata) else Inl FileReplaced)
                | _ \<Rightarrow> Inl FileIo))
      | _ \<Rightarrow> Inl FileIo)"

definition same_file :: "SidecarMetadataSnapshot \<Rightarrow> look \<Rightarrow> unit startup" where
  "same_file snapshot l =
     (case l of
        Found m \<Rightarrow>
          (case validate_metadata m of
             Inl e \<Rightarrow> Inl e
           | Inr _ \<Rightarrow> if from_metadata m = snapshot then Inr () else Inl FileReplaced)
      | _ \<Rightarrow> Inl FileIo)"

definition revalidate_main :: "SidecarMetadataSnapshot \<Rightarrow> look \<Rightarrow> look \<Rightarrow> unit startup" where
  "revalidate_main snapshot open_look path_look =
     (case same_file snapshot open_look of Inl e \<Rightarrow> Inl e | Inr _ \<Rightarrow> same_file snapshot path_look)"

datatype SqliteSidecarState = Absent | Present SidecarMetadataSnapshot

definition inspect_sidecar :: "look \<Rightarrow> look \<Rightarrow> SqliteSidecarState startup" where
  "inspect_sidecar path_look open_look =
     (case path_look of
        NotFound \<Rightarrow> Inr Absent
      | _ \<Rightarrow> (case inspect_main path_look open_look of Inl e \<Rightarrow> Inl e | Inr sn \<Rightarrow> Inr (Present sn)))"

definition revalidate_sidecar :: "SqliteSidecarState \<Rightarrow> look \<Rightarrow> look \<Rightarrow> unit startup" where
  "revalidate_sidecar state open_look path_look =
     (case state of
        Absent \<Rightarrow>
          (case path_look of NotFound \<Rightarrow> Inr () | Found _ \<Rightarrow> Inl SidecarAppeared | LookFailed \<Rightarrow> Inl FileIo)
      | Present sn \<Rightarrow> revalidate_main sn open_look path_look)"

definition check_sidecar :: "SqliteSidecarState \<times> look \<times> look \<Rightarrow> unit startup" where
  "check_sidecar = (\<lambda>(state, open_look, path_look). revalidate_sidecar state open_look path_look)"

definition revalidate_sidecars :: "SqliteSidecarState list \<Rightarrow> (look \<times> look) list \<Rightarrow> unit startup" where
  "revalidate_sidecars states looks =
     (case collect_results check_sidecar (zip states looks) of Inl e \<Rightarrow> Inl e | Inr _ \<Rightarrow> Inr ())"

text \<open>
  \<^verbatim>\<open>SqliteSidecarGuard::inspect\<close> looks at the path and the opened file of each sidecar, in the order
  journal, write-ahead log, shared memory, and then once more at all of them.
\<close>

definition inspect_sidecars :: "(look \<times> look) list \<Rightarrow> (look \<times> look) list \<Rightarrow> SqliteSidecarState list startup" where
  "inspect_sidecars looks again =
     (case collect_results (\<lambda>(path_look, open_look). inspect_sidecar path_look open_look) looks of
        Inl e \<Rightarrow> Inl e
      | Inr states \<Rightarrow> (case revalidate_sidecars states again of Inl e \<Rightarrow> Inl e | Inr _ \<Rightarrow> Inr states))"

definition has_present_sidecar :: "SqliteSidecarState list \<Rightarrow> bool" where
  "has_present_sidecar states = list_ex (\<lambda>s. s \<noteq> Absent) states"

definition rollback_journal :: "SqliteSidecarState list \<Rightarrow> SidecarMetadataSnapshot option" where
  "rollback_journal states = (case states of Present sn # _ \<Rightarrow> Some sn | _ \<Rightarrow> None)"

text \<open>One moment at which main file and sidecars are looked at again.\<close>

record checkpoint =
  main_open :: look
  main_path :: look
  sidecar_looks :: "(look \<times> look) list"

definition revalidate ::
  "SidecarMetadataSnapshot \<Rightarrow> SqliteSidecarState list \<Rightarrow> checkpoint \<Rightarrow> unit startup"
where
  "revalidate main sidecars cp =
     (case revalidate_main main (main_open cp) (main_path cp) of
        Inl e \<Rightarrow> Inl e
      | Inr _ \<Rightarrow> revalidate_sidecars sidecars (sidecar_looks cp))"

text \<open>\<^verbatim>\<open>copy_raw_main_database_snapshot\<close> and \<^verbatim>\<open>copy_rollback_journal_snapshot\<close>; \<^term>\<open>copied\<close> is what arrived.\<close>

definition copy_snapshot :: "u64 \<Rightarrow> u64 \<Rightarrow> u64 option \<Rightarrow> unit startup" where
  "copy_snapshot max_bytes file_size copied =
     (if \<not> file_size \<le> max_bytes then Inl SnapshotTooLarge
      else case checked_add_u64 max_bytes 1 of
        None \<Rightarrow> Inl SnapshotTooLarge
      | Some _ \<Rightarrow>
          (case copied of
             None \<Rightarrow> Inl FileIo
           | Some n \<Rightarrow>
               if \<not> n \<le> max_bytes then Inl SnapshotTooLarge
               else if n \<noteq> file_size then Inl SnapshotChanged else Inr ()))"

section \<open>Opening\<close>

text \<open>The answers to the two configuration calls, and to the pragmas that are read back.\<close>

definition harden_connection :: "(bool \<times> bool) option \<Rightarrow> unit startup" where
  "harden_connection answer =
     (case answer of
        None \<Rightarrow> Inl SqliteError
      | Some (defensive, trusted_schema) \<Rightarrow>
          if \<not> defensive then Inl NotHardened else if trusted_schema then Inl NotHardened else Inr ())"

definition configure_validated_connection :: "(string \<times> int \<times> int \<times> int \<times> int) option \<Rightarrow> unit startup" where
  "configure_validated_connection answer =
     (case answer of
        None \<Rightarrow> Inl SqliteError
      | Some (mode, synchronous, foreign_keys, trusted_schema, mmap_size) \<Rightarrow>
          if \<not> eq_ignore_ascii_case mode ''delete'' then Inl (WrongJournalMode mode)
          else if synchronous \<noteq> 3 then Inl NotExtra
          else if foreign_keys \<noteq> 1 then Inl ForeignKeysOff
          else if trusted_schema \<noteq> 0 then Inl TrustedSchemaOn
          else if mmap_size \<noteq> 0 then Inl MmapOn
          else Inr ())"

record open_env =
  side_first :: "(look \<times> look) list"
  side_again :: "(look \<times> look) list"
  main_first :: "look \<times> look"
  checkpoints :: "nat \<Rightarrow> checkpoint"
  raw_copied :: "u64 option"
  raw_harden :: "(bool \<times> bool) option"
  raw_check :: "string option"
  journal_main_copied :: "u64 option"
  journal_copied :: "u64 option"
  recovered_copy :: state_file
  recovered_harden :: "(bool \<times> bool) option"
  recovered_check :: "string option"
  sqlite_opens :: bool
  harden_answer :: "(bool \<times> bool) option"

text \<open>The main file alone, copied aside and read without its sidecars.\<close>

definition validate_raw_main_database ::
  "foundation \<Rightarrow> open_env \<Rightarrow> nat \<Rightarrow> RootIdentity \<Rightarrow> SidecarMetadataSnapshot \<Rightarrow> SqliteSidecarState list \<Rightarrow>
   state_file \<Rightarrow> unit startup"
where
  "validate_raw_main_database F env i root main sidecars raw =
     (case copy_snapshot MAX_RAW_DATABASE_SNAPSHOT_BYTES (sn_size main) (raw_copied env) of Inl e \<Rightarrow> Inl e | Inr _ \<Rightarrow>
      (case revalidate main sidecars (checkpoints env i) of Inl e \<Rightarrow> Inl e | Inr _ \<Rightarrow>
      (case harden_connection (raw_harden env) of Inl e \<Rightarrow> Inl e | Inr _ \<Rightarrow>
       if \<not> (persistent_object_count raw \<noteq> 0 \<or> \<not> has_present_sidecar sidecars) then Inl EmptyMainWithSidecar
       else (case validate_database_before_mutation F (raw_check env) root raw of Inl e \<Rightarrow> Inl e | Inr _ \<Rightarrow>
             revalidate main sidecars (checkpoints env (i + 1))))))"

definition open_connection ::
  "foundation \<Rightarrow> open_env \<Rightarrow> RootIdentity \<Rightarrow> state_file \<Rightarrow> unit startup"
where
  "open_connection F env root raw =
     (case inspect_sidecars (side_first env) (side_again env) of Inl e \<Rightarrow> Inl e | Inr sidecars \<Rightarrow>
      (case inspect_main (fst (main_first env)) (snd (main_first env)) of Inl e \<Rightarrow> Inl e | Inr main \<Rightarrow>
      (case revalidate main sidecars (checkpoints env 0) of Inl e \<Rightarrow> Inl e | Inr _ \<Rightarrow>
      (case validate_raw_main_database F env 1 root main sidecars raw of Inl e \<Rightarrow> Inl e | Inr _ \<Rightarrow>
      (case revalidate main sidecars (checkpoints env 3) of Inl e \<Rightarrow> Inl e | Inr _ \<Rightarrow>
       if \<not> sqlite_opens env then Inl SqliteError
       else (case revalidate main sidecars (checkpoints env 4) of Inl e \<Rightarrow> Inl e | Inr _ \<Rightarrow>
             harden_connection (harden_answer env)))))))"

text \<open>
  A hot journal is first rolled back on private copies.  The answer tells whether SQLite may
  write to the originals.
\<close>

definition validate_private_rollback_journal_recovery ::
  "foundation \<Rightarrow> open_env \<Rightarrow> nat \<Rightarrow> RootIdentity \<Rightarrow> SidecarMetadataSnapshot \<Rightarrow> SqliteSidecarState list \<Rightarrow> bool startup"
where
  "validate_private_rollback_journal_recovery F env i root main sidecars =
     (case rollback_journal sidecars of None \<Rightarrow> Inr False | Some journal \<Rightarrow>
      (case copy_snapshot MAX_RAW_DATABASE_SNAPSHOT_BYTES (sn_size main) (journal_main_copied env) of Inl e \<Rightarrow> Inl e | Inr _ \<Rightarrow>
      (case copy_snapshot MAX_RAW_DATABASE_SNAPSHOT_BYTES (sn_size journal) (journal_copied env) of Inl e \<Rightarrow> Inl e | Inr _ \<Rightarrow>
      (case revalidate main sidecars (checkpoints env i) of Inl e \<Rightarrow> Inl e | Inr _ \<Rightarrow>
      (case harden_connection (recovered_harden env) of Inl e \<Rightarrow> Inl e | Inr _ \<Rightarrow>
      (case validate_database_before_mutation F (recovered_check env) root (recovered_copy env) of Inl e \<Rightarrow> Inl e | Inr _ \<Rightarrow>
      (case revalidate main sidecars (checkpoints env (i + 1)) of Inl e \<Rightarrow> Inl e | Inr _ \<Rightarrow> Inr True)))))))"

text \<open>
  What the preparation of the file does to the file system is a list of effects, the last of which
  may have failed.  On a writable connection SQLite rolls the journal of the originals back when it
  first reads them, in the hardening or in the validation that follow.
\<close>

datatype file_effect = RolledBackJournal | CreatedFile | SetPermissions | SyncedFile | SyncedDirectory

definition open_existing_database_for_preflight ::
  "foundation \<Rightarrow> open_env \<Rightarrow> RootIdentity \<Rightarrow> state_file \<Rightarrow> file_effect list \<times> unit startup"
where
  "open_existing_database_for_preflight F env root raw =
     (case inspect_sidecars (side_first env) (side_again env) of Inl e \<Rightarrow> ([], Inl e) | Inr sidecars \<Rightarrow>
      (case inspect_main (fst (main_first env)) (snd (main_first env)) of Inl e \<Rightarrow> ([], Inl e) | Inr main \<Rightarrow>
      (case revalidate main sidecars (checkpoints env 0) of Inl e \<Rightarrow> ([], Inl e) | Inr _ \<Rightarrow>
      (case validate_raw_main_database F env 1 root main sidecars raw of Inl e \<Rightarrow> ([], Inl e) | Inr _ \<Rightarrow>
      (case revalidate main sidecars (checkpoints env 3) of Inl e \<Rightarrow> ([], Inl e) | Inr _ \<Rightarrow>
      (case validate_private_rollback_journal_recovery F env 4 root main sidecars of Inl e \<Rightarrow> ([], Inl e) | Inr writable \<Rightarrow>
      (case revalidate main sidecars (checkpoints env 6) of Inl e \<Rightarrow> ([], Inl e) | Inr _ \<Rightarrow>
       if \<not> sqlite_opens env then ([], Inl SqliteError)
       else (case revalidate main sidecars (checkpoints env 7) of Inl e \<Rightarrow> ([], Inl e) | Inr _ \<Rightarrow>
             (if writable then [RolledBackJournal] else [], harden_connection (harden_answer env))))))))))"

text \<open>\<^term>\<open>view\<close> is what SQLite shows once it has taken the sidecars into account.\<close>

definition preflight_existing_database ::
  "foundation \<Rightarrow> open_env \<Rightarrow> string option \<Rightarrow> RootIdentity \<Rightarrow> state_file \<Rightarrow> state_file \<Rightarrow> file_effect list \<times> unit startup"
where
  "preflight_existing_database F env check root raw view =
     (case open_existing_database_for_preflight F env root raw of
        (effects, Inl e) \<Rightarrow> (effects, Inl e)
      | (effects, Inr _) \<Rightarrow> (effects, validate_database_before_mutation F check root view))"

text \<open>\<^verbatim>\<open>prepare_database_file\<close>.\<close>

record prepare_env =
  names_file :: bool
  prep_first :: "(look \<times> look) list"
  prep_again :: "(look \<times> look) list"
  prep_main :: look
  parent_is_dir :: "bool option"
  create_new :: look
  existing_metadata :: look
  set_permissions :: bool
  sync_file :: bool
  sync_directory :: bool
  preflight_open :: open_env
  preflight_check :: "string option"

text \<open>\<^term>\<open>create_new\<close> answers \<^verbatim>\<open>NotFound\<close> when the file was created, and \<^verbatim>\<open>Found\<close> when there was one.\<close>

definition prepare_existing ::
  "foundation \<Rightarrow> prepare_env \<Rightarrow> RootIdentity \<Rightarrow> state_file \<Rightarrow> state_file \<Rightarrow> file_effect list \<times> unit startup"
where
  "prepare_existing F env root raw view =
     (case existing_metadata env of
        Found m \<Rightarrow>
          (case validate_metadata m of
             Inl e \<Rightarrow> ([], Inl e)
           | Inr _ \<Rightarrow>
               (case preflight_existing_database F (preflight_open env) (preflight_check env) root raw view of
                  (effects, Inl e) \<Rightarrow> (effects, Inl e)
                | (effects, Inr _) \<Rightarrow>
                    if set_permissions env then (effects @ [SetPermissions], Inr ()) else (effects, Inl FileIo)))
      | _ \<Rightarrow> ([], Inl FileIo))"

definition prepare_new :: "prepare_env \<Rightarrow> file_effect list \<times> unit startup" where
  "prepare_new env =
     (if \<not> set_permissions env then ([CreatedFile], Inl FileIo)
      else if \<not> sync_file env then ([CreatedFile, SetPermissions], Inl FileIo)
      else if \<not> sync_directory env then ([CreatedFile, SetPermissions, SyncedFile], Inl FileIo)
      else ([CreatedFile, SetPermissions, SyncedFile, SyncedDirectory], Inr ()))"

definition prepare_database_file ::
  "foundation \<Rightarrow> prepare_env \<Rightarrow> RootIdentity \<Rightarrow> state_file \<Rightarrow> state_file \<Rightarrow> file_effect list \<times> unit startup"
where
  "prepare_database_file F env root raw view =
     (if \<not> names_file env then ([], Inl NoFileName)
      else case inspect_sidecars (prep_first env) (prep_again env) of
        Inl e \<Rightarrow> ([], Inl e)
      | Inr sidecars \<Rightarrow>
          if has_present_sidecar sidecars \<and> prep_main env = NotFound then ([], Inl SidecarWithoutMain)
          else if has_present_sidecar sidecars \<and> prep_main env = LookFailed then ([], Inl FileIo)
          else (case parent_is_dir env of
            None \<Rightarrow> ([], Inl FileIo)
          | Some dir \<Rightarrow>
              if \<not> dir then ([], Inl ParentNotDirectory)
              else (case create_new env of
                NotFound \<Rightarrow> prepare_new env
              | Found _ \<Rightarrow> prepare_existing F env root raw view
              | LookFailed \<Rightarrow> ([], Inl FileIo))))"

record startup_env = open_env +
  first_check :: "string option"
  pragma_answers :: "(string \<times> int \<times> int \<times> int \<times> int) option"
  schema_ok :: bool
  recovery_ok :: bool

definition initialize_database ::
  "foundation \<Rightarrow> startup_env \<Rightarrow> RootIdentity \<Rightarrow> i64 \<Rightarrow> i64 \<Rightarrow> i64 \<Rightarrow> state_file \<Rightarrow> state_file \<times> unit startup"
where
  "initialize_database F env root operation_ttl upload_ttl now f =
     (case validate_database_before_mutation F (first_check env) root f of
        Inl e \<Rightarrow> (f, Inl e)
      | Inr _ \<Rightarrow>
          (case configure_validated_connection (pragma_answers env) of
             Inl e \<Rightarrow> (f, Inl e)
           | Inr _ \<Rightarrow>
               (case initialize_schema F (schema_ok env) root f of
                  (f, Inl e) \<Rightarrow> (f, Inl e)
                | (f, Inr _) \<Rightarrow>
                    (case recover_database (recovery_ok env) operation_ttl upload_ttl now (state_tables f) of
                       (db, Inl e) \<Rightarrow> (f\<lparr> state_tables := db \<rparr>, Inl (RecoveryError e))
                     | (db, Inr _) \<Rightarrow> (f\<lparr> state_tables := db \<rparr>, Inr ())))))"

definition open_initialized_connection ::
  "foundation \<Rightarrow> startup_env \<Rightarrow> RootIdentity \<Rightarrow> i64 \<Rightarrow> i64 \<Rightarrow> i64 \<Rightarrow> state_file \<Rightarrow> state_file \<Rightarrow>
   state_file \<times> unit startup"
where
  "open_initialized_connection F env root operation_ttl upload_ttl now raw view =
     (case open_connection F (open_env.truncate env) root raw of
        Inl e \<Rightarrow> (view, Inl e)
      | Inr _ \<Rightarrow> initialize_database F env root operation_ttl upload_ttl now view)"

text \<open>
  The start of the actor: a clock anchored at the first reading, recovery at its first time, and
  a worker without deferred abandonments.  The channel on which it reports that it is ready is
  not modelled.
\<close>

record start_clock =
  anchor_wall :: "i64 option"
  anchor_monotonic :: nat
  first_wall :: "i64 option"
  first_monotonic :: nat

definition start_worker ::
  "foundation \<Rightarrow> startup_env \<Rightarrow> start_clock \<Rightarrow> RootIdentity \<Rightarrow> Limits \<Rightarrow> state_file \<Rightarrow> state_file \<Rightarrow>
   state_file \<times> StoreWorker startup"
where
  "start_worker F env at_start root L raw view =
     (case anchor_wall at_start of
        None \<Rightarrow> (view, Inl (RecoveryError ClockUnrepresentable))
      | Some wall_now \<Rightarrow>
          (case observe (first_wall at_start) (first_monotonic at_start) (new_clock wall_now (anchor_monotonic at_start)) of
             (c, Inl e) \<Rightarrow> (view, Inl (RecoveryError e))
           | (c, Inr recovery_now) \<Rightarrow>
               (case open_initialized_connection F env root (ttl_ms L) (upload_ttl_ms L) recovery_now raw view of
                  (f, Inl e) \<Rightarrow> (f, Inl e)
                | (f, Inr _) \<Rightarrow>
                    (f, Inr \<lparr> connection = state_tables f, clock = c, limits = L, deferred_abandons = [] \<rparr>))))"

section \<open>Facts about recovery\<close>

interpretation cap_operation_update: row_update o_key "cap_operation e" for e
  by unfold_locales (simp add: o_key_def cap_operation_def)

interpretation unknown_update: row_update u_key "set_upload_unknown now e" for now e
  by unfold_locales (simp add: u_key_def set_upload_unknown_def)

interpretation cap_upload_update: row_update u_key "cap_upload e" for e
  by unfold_locales (simp add: u_key_def cap_upload_def)

interpretation release_update: row_update p_key "release_claim now" for now
  by unfold_locales (simp add: p_key_def release_claim_def)

interpretation release_trash: row_update p_trash_path "release_claim now" for now
  by unfold_locales (simp add: release_claim_def)

interpretation cap_purge_update: row_update p_key "cap_purge now" for now
  by unfold_locales (simp add: p_key_def cap_purge_def)

interpretation cap_purge_trash: row_update p_trash_path "cap_purge now" for now
  by unfold_locales (simp add: cap_purge_def)

lemma uncertain_row_ok:
  "operation_row_ok r \<Longrightarrow> operation_row_ok (set_completed uncertain now e r)"
  by (rule completed_row_ok [OF uncertain_valid], rule completed_check [OF _ uncertain_valid])
    (auto simp: operation_row_ok_def uncertain_def UNKNOWN_CODE_def)

lemma cap_row_ok:
  assumes "operation_row_ok r" "late_operation e r"
  shows "operation_row_ok (cap_operation e r)"
proof -
  have "into_outcome (cap_operation e r) = into_outcome r"
    by (simp add: into_outcome_def cap_operation_def Let_def cong: option.case_cong sum.case_cong)
  moreover have "operation_check (cap_operation e r) = operation_check r"
    using assms(2)
    by (cases "o_expires_at_ms r") (simp_all add: late_operation_def operation_check_def operation_lifecycle_check_def
        cap_operation_def is_null_def)
  ultimately show ?thesis using assms(1) by (simp add: operation_row_ok_def cap_operation_def)
qed

text \<open>What recovery makes of an operation that it keeps.\<close>

definition recovered_operation :: "i64 \<Rightarrow> i64 \<Rightarrow> operation_row \<Rightarrow> operation_row" where
  "recovered_operation e now r =
     (let r = (if o_state r = OPERATION_COMMIT_STARTED then set_completed uncertain now e r else r)
      in if late_operation e r then cap_operation e r else r)"

lemma recover_operations_rows:
  assumes ok: "operations_ok L db"
  obtains db' where "recover_operations e now db = Inr db'" "operations_ok L db'"
    "upload_sessions db' = upload_sessions db" "purge_jobs db' = purge_jobs db"
    "operations db' = map (recovered_operation e now)
       (filter (\<lambda>r. \<not> is_expired now r \<and> o_state r \<noteq> OPERATION_RESERVED) (operations db))"
proof -
  let ?started = "\<lambda>r. o_state r = OPERATION_COMMIT_STARTED" and ?f = "set_completed uncertain now e"
  let ?rows0 = "delete_where (\<lambda>r. o_state r = OPERATION_RESERVED) (delete_where (is_expired now) (operations db))"
  let ?rows1 = "update_where ?started ?f ?rows0"
  let ?rows2 = "update_where (late_operation e) (cap_operation e) ?rows1"
  have ok0: "operations_ok L (db\<lparr>operations := ?rows0\<rparr>)"
    using operations_ok_delete [OF operations_ok_delete [OF ok, of "is_expired now"],
        of "\<lambda>r. o_state r = OPERATION_RESERVED"] by simp
  then have r0: "operation_row_ok r" if "r \<in> set ?rows0" for r
    using that unfolding operations_ok_def list_all_iff by simp
  have "operations_ok L ((db\<lparr>operations := ?rows0\<rparr>)\<lparr>operations := ?rows1\<rparr>)"
    using operations_ok_update [OF ok0 complete_update.row_update_axioms [of uncertain now e], of ?started]
      uncertain_row_ok [OF r0] by simp
  then have ok1: "operations_ok L (db\<lparr>operations := ?rows1\<rparr>)" by simp
  then have r1: "operation_row_ok r" if "r \<in> set ?rows1" for r
    using that unfolding operations_ok_def list_all_iff by simp
  have "operations_ok L ((db\<lparr>operations := ?rows1\<rparr>)\<lparr>operations := ?rows2\<rparr>)"
    using operations_ok_update [OF ok1 cap_operation_update.row_update_axioms [of e], of "late_operation e"]
      cap_row_ok [OF r1] by simp
  then have ok2: "operations_ok L (db\<lparr>operations := ?rows2\<rparr>)" by simp
  have u1: "update_rows operation_check ?started ?f ?rows0 = Inr (?rows1, count_where ?started ?rows0)"
    unfolding update_rows_Inr using uncertain_row_ok [OF r0] by (simp add: operation_row_ok_def)
  have u2: "update_rows operation_check (late_operation e) (cap_operation e) ?rows1 =
      Inr (?rows2, count_where (late_operation e) ?rows1)"
    unfolding update_rows_Inr using cap_row_ok [OF r1] by (simp add: operation_row_ok_def)
  have rec: "recover_operations e now db = Inr (db\<lparr>operations := ?rows2\<rparr>)"
    using u1 u2 by (simp add: recover_operations_def purge_expired_def Let_def)
  have "?rows2 = map (recovered_operation e now)
       (filter (\<lambda>r. \<not> is_expired now r \<and> o_state r \<noteq> OPERATION_RESERVED) (operations db))"
    by (simp add: update_where_def delete_where_def recovered_operation_def Let_def conj_commute)
  with that [OF rec ok2] show thesis by simp
qed

lemma unknown_row_ok:
  assumes "upload_row_ok r" "u_state r = UPLOAD_COMMIT_STARTED"
  shows "upload_row_ok (set_upload_unknown now e r)"
proof -
  obtain x where x: "decode_upload_row r = Inr x" using assms(1) by (auto simp: upload_row_ok_def)
  note d = decode_upload_Inr [OF x]
  have st: "us_state x = CommitStarted" using d(7) assms(2) by (cases "us_state x") simp_all
  have v: "validate_session (x\<lparr>us_state := UnknownUpload\<rparr>) = Inr ()"
    using d(8) st by (simp add: validate_session_ok)
  have "decode_upload_row (set_upload_unknown now e r) = Inr (x\<lparr>us_state := UnknownUpload\<rparr>)"
    using x st d v
    by (cases "us_key x"; cases x)
      (auto simp: decode_upload_row_def set_upload_unknown_def upload_from_database_def Let_def u64_try_from_def
        split: sum.splits option.splits if_splits)
  with assms(1) show ?thesis by (simp add: upload_row_ok_def upload_check_def set_upload_unknown_def)
qed

lemma decode_cap_upload: "decode_upload_row (cap_upload e r) = decode_upload_row r"
  by (simp add: decode_upload_row_def cap_upload_def Let_def cong: sum.case_cong prod.case_cong option.case_cong)

lemma cap_upload_ok: "upload_row_ok r \<Longrightarrow> upload_row_ok (cap_upload e r)"
  by (simp add: upload_row_ok_def decode_cap_upload) (simp add: upload_check_def cap_upload_def)

lemma release_row_ok:
  assumes "purge_row_ok r" "p_state r = PURGE_CLAIMED"
  shows "purge_row_ok (release_claim now r)"
proof -
  obtain j where j: "decode_purge_row r = Inr j" using assms(1) by (auto simp: purge_row_ok_def)
  have "decode_purge_row (release_claim now r) = Inr (job_of (release_claim now r) Ready)"
    using j by (simp add: decode_purge_Inr release_claim_def) (auto intro: exI [of _ Ready])
  with assms show ?thesis by (simp add: purge_row_ok_def purge_check_def release_claim_def)
qed

lemma decode_cap_purge: "decode_purge_row (cap_purge now r) = decode_purge_row r"
  by (simp add: decode_purge_row_def cap_purge_def Let_def cong: sum.case_cong prod.case_cong option.case_cong if_cong)

lemma cap_purge_ok: "purge_row_ok r \<Longrightarrow> purge_row_ok (cap_purge now r)"
  by (simp add: purge_row_ok_def decode_cap_purge) (auto simp: purge_check_def cap_purge_def)

lemma recover_uploads_rows:
  assumes ok: "uploads_ok L db"
  obtains db' where "recover_uploads e now db = Inr db'" "uploads_ok L db'"
    "operations db' = operations db" "purge_jobs db' = purge_jobs db"
    "\<forall>r \<in> set (upload_sessions db'). u_state r \<noteq> UPLOAD_COMMIT_STARTED"
proof -
  let ?started = "\<lambda>r. u_state r = UPLOAD_COMMIT_STARTED" and ?f = "set_upload_unknown now e"
  let ?late = "\<lambda>r. e < u_expires_at_ms r"
  let ?rows1 = "update_where ?started ?f (upload_sessions db)"
  let ?rows2 = "update_where ?late (cap_upload e) ?rows1"
  have r0: "upload_row_ok r" if "r \<in> set (upload_sessions db)" for r by (rule ok_row [OF ok that])
  have ok1: "uploads_ok L (db\<lparr>upload_sessions := ?rows1\<rparr>)"
    by (rule uploads_ok_update [OF ok unknown_update.row_update_axioms])
      (simp_all only: unknown_row_ok [OF r0], simp_all add: set_upload_unknown_def active_row_def)
  then have r1: "upload_row_ok r" if "r \<in> set ?rows1" for r
    using that unfolding uploads_ok_def list_all_iff by simp
  have "uploads_ok L ((db\<lparr>upload_sessions := ?rows1\<rparr>)\<lparr>upload_sessions := update_where ?late (cap_upload e)
      (upload_sessions (db\<lparr>upload_sessions := ?rows1\<rparr>))\<rparr>)"
  proof (rule uploads_ok_update [OF ok1 cap_upload_update.row_update_axioms])
    fix r assume "r \<in> set (upload_sessions (db\<lparr>upload_sessions := ?rows1\<rparr>))"
    then show "upload_row_ok (cap_upload e r)" using cap_upload_ok [OF r1] by simp
  qed (simp_all add: cap_upload_def active_row_def)
  then have ok2: "uploads_ok L (db\<lparr>upload_sessions := ?rows2\<rparr>)" by simp
  have u1: "update_rows upload_check ?started ?f (upload_sessions db) = Inr (?rows1, count_where ?started (upload_sessions db))"
    unfolding update_rows_Inr using unknown_row_ok [OF r0] by (simp add: upload_row_ok_def)
  have u2: "update_rows upload_check ?late (cap_upload e) ?rows1 = Inr (?rows2, count_where ?late ?rows1)"
    unfolding update_rows_Inr using cap_upload_ok [OF r1] by (simp add: upload_row_ok_def)
  have rec: "recover_uploads e now db = Inr (db\<lparr>upload_sessions := ?rows2\<rparr>)"
    using u1 u2 by (simp add: recover_uploads_def)
  have "\<forall>r \<in> set ?rows2. u_state r \<noteq> UPLOAD_COMMIT_STARTED"
    by (auto simp: update_where_def set_upload_unknown_def cap_upload_def)
  with that [OF rec ok2] show thesis by simp
qed

lemma recover_purges_rows:
  assumes ok: "purges_ok L db"
  obtains db' where "recover_purges now db = Inr db'" "purges_ok L db'"
    "operations db' = operations db" "upload_sessions db' = upload_sessions db"
    "\<forall>r \<in> set (purge_jobs db'). p_state r \<noteq> PURGE_CLAIMED \<and> (p_state r = PURGE_READY \<longrightarrow> p_next_attempt_at_ms r \<le> now)"
proof -
  let ?claimed = "\<lambda>r. p_state r = PURGE_CLAIMED"
  let ?late = "\<lambda>r. p_state r = PURGE_READY \<and> now < p_next_attempt_at_ms r"
  let ?rows1 = "update_where ?claimed (release_claim now) (purge_jobs db)"
  let ?rows2 = "update_where ?late (cap_purge now) ?rows1"
  have r0: "purge_row_ok r" if "r \<in> set (purge_jobs db)" for r
    using ok that unfolding purges_ok_def list_all_iff by blast
  have ok1: "purges_ok L (db\<lparr>purge_jobs := ?rows1\<rparr>)"
    by (rule purges_ok_update [OF ok release_update.row_update_axioms release_trash.row_update_axioms])
      (rule release_row_ok [OF r0])
  then have r1: "purge_row_ok r" if "r \<in> set ?rows1" for r
    using that unfolding purges_ok_def list_all_iff by simp
  have "purges_ok L ((db\<lparr>purge_jobs := ?rows1\<rparr>)\<lparr>purge_jobs := update_where ?late (cap_purge now)
      (purge_jobs (db\<lparr>purge_jobs := ?rows1\<rparr>))\<rparr>)"
  proof (rule purges_ok_update [OF ok1 cap_purge_update.row_update_axioms cap_purge_trash.row_update_axioms])
    fix r assume "r \<in> set (purge_jobs (db\<lparr>purge_jobs := ?rows1\<rparr>))"
    then show "purge_row_ok (cap_purge now r)" using cap_purge_ok [OF r1] by simp
  qed
  then have ok2: "purges_ok L (db\<lparr>purge_jobs := ?rows2\<rparr>)" by simp
  have u1: "update_rows purge_check ?claimed (release_claim now) (purge_jobs db) =
      Inr (?rows1, count_where ?claimed (purge_jobs db))"
    unfolding update_rows_Inr using release_row_ok [OF r0] by (simp add: purge_row_ok_def)
  have u2: "update_rows purge_check ?late (cap_purge now) ?rows1 = Inr (?rows2, count_where ?late ?rows1)"
    unfolding update_rows_Inr using cap_purge_ok [OF r1] by (simp add: purge_row_ok_def)
  have rec: "recover_purges now db = Inr (db\<lparr>purge_jobs := ?rows2\<rparr>)"
    using u1 u2 by (simp add: recover_purges_def)
  have "\<forall>r \<in> set ?rows2. p_state r \<noteq> PURGE_CLAIMED \<and> (p_state r = PURGE_READY \<longrightarrow> p_next_attempt_at_ms r \<le> now)"
    by (auto simp: update_where_def release_claim_def cap_purge_def)
  with that [OF rec ok2] show thesis by simp
qed

text \<open>Nothing is under way: no reservation, no running commit, no claimed job.\<close>

definition settled :: "i64 \<Rightarrow> database \<Rightarrow> bool" where
  "settled now db \<longleftrightarrow>
     list_all (\<lambda>r. o_state r = OPERATION_COMPLETED) (operations db) \<and>
     list_all (\<lambda>r. u_state r \<noteq> UPLOAD_COMMIT_STARTED) (upload_sessions db) \<and>
     list_all (\<lambda>r. p_state r \<noteq> PURGE_CLAIMED \<and> (p_state r = PURGE_READY \<longrightarrow> p_next_attempt_at_ms r \<le> now)) (purge_jobs db)"

definition tables_ok :: "Limits \<Rightarrow> database \<Rightarrow> bool" where
  "tables_ok L db \<longleftrightarrow> operations_ok L db \<and> uploads_ok L db \<and> purges_ok L db"

lemma recovered_operation_state:
  "\<lbrakk> operation_check r; o_state r \<noteq> OPERATION_RESERVED \<rbrakk> \<Longrightarrow> o_state (recovered_operation e now r) = OPERATION_COMPLETED"
  using operation_check_state [of r]
  by (auto simp: recovered_operation_def Let_def cap_operation_def set_completed_def)

text \<open>On well-formed tables recovery fails only because of the clock or SQLite.\<close>

lemma recover_database_done:
  assumes ok: "tables_ok L db" and times: "in_i64 (now + ttl)" "in_i64 (now + upload_ttl)"
  obtains db' where "recover_database True ttl upload_ttl now db = (db', Inr ())" "tables_ok L db'" "settled now db'"
    "operations db' = map (recovered_operation (now + ttl) now)
       (filter (\<lambda>r. \<not> is_expired now r \<and> o_state r \<noteq> OPERATION_RESERVED) (operations db))"
proof -
  let ?e = "now + ttl"
  have ok0: "operations_ok L db" "uploads_ok L db" "purges_ok L db" using ok by (simp_all add: tables_ok_def)
  obtain db1 where d1: "recover_operations ?e now db = Inr db1" "operations_ok L db1"
    "upload_sessions db1 = upload_sessions db" "purge_jobs db1 = purge_jobs db"
    "operations db1 = map (recovered_operation ?e now)
       (filter (\<lambda>r. \<not> is_expired now r \<and> o_state r \<noteq> OPERATION_RESERVED) (operations db))"
    using recover_operations_rows [OF ok0(1)] .
  have "uploads_ok L db1" using tables_cong(2) [OF d1(3)] ok0(2) by blast
  then obtain db2 where d2: "recover_uploads (now + upload_ttl) now db1 = Inr db2" "uploads_ok L db2"
    "operations db2 = operations db1" "purge_jobs db2 = purge_jobs db1"
    "\<forall>r \<in> set (upload_sessions db2). u_state r \<noteq> UPLOAD_COMMIT_STARTED"
    using recover_uploads_rows by blast
  have "purge_jobs db2 = purge_jobs db" using d1(4) d2(4) by simp
  from tables_cong(3) [OF this] have "purges_ok L db2" using ok0(3) by blast
  then obtain db3 where d3: "recover_purges now db2 = Inr db3" "purges_ok L db3"
    "operations db3 = operations db2" "upload_sessions db3 = upload_sessions db2"
    "\<forall>r \<in> set (purge_jobs db3). p_state r \<noteq> PURGE_CLAIMED \<and> (p_state r = PURGE_READY \<longrightarrow> p_next_attempt_at_ms r \<le> now)"
    using recover_purges_rows by blast
  have ops: "operations db3 = operations db1" using d3(3) d2(3) by simp
  have rec: "recover_database True ttl upload_ttl now db = (db3, Inr ())"
    using d1(1) d2(1) d3(1) times by (simp add: recover_database_def expiration_time_def checked_add_i64_def)
  have t: "tables_ok L db3"
    using tables_cong(1) [OF ops] d1(2) tables_cong(2) [OF d3(4)] d2(2) d3(2) by (simp add: tables_ok_def)
  have "operation_check r" if "r \<in> set (operations db)" for r
    using ok0(1) that unfolding operations_ok_def list_all_iff operation_row_ok_def by blast
  then have "list_all (\<lambda>r. o_state r = OPERATION_COMPLETED) (operations db3)"
    unfolding ops d1(5) list_all_iff using recovered_operation_state by auto
  with d2(5) d3(4,5) have "settled now db3" by (simp add: settled_def list_all_iff)
  from that [OF rec t this] show thesis using ops d1(5) by simp
qed

lemma settled_no_leases: "settled now db \<Longrightarrow> open_leases db = {}"
  by (auto simp: settled_def list_all_iff elim!: open_leasesE)

lemma recover_database_Inr:
  assumes ok: "tables_ok L db" and rec: "recover_database b ttl upload_ttl now db = (db', Inr u)"
  shows "tables_ok L db'" "settled now db'"
    "operations db' = map (recovered_operation (now + ttl) now)
       (filter (\<lambda>r. \<not> is_expired now r \<and> o_state r \<noteq> OPERATION_RESERVED) (operations db))"
proof -
  have c: "in_i64 (now + ttl)" "in_i64 (now + upload_ttl)" b
    using rec by (auto simp: recover_database_def expiration_time_def checked_add_i64_def split: if_splits)
  obtain db2 where d: "recover_database True ttl upload_ttl now db = (db2, Inr ())" "tables_ok L db2" "settled now db2"
    "operations db2 = map (recovered_operation (now + ttl) now)
       (filter (\<lambda>r. \<not> is_expired now r \<and> o_state r \<noteq> OPERATION_RESERVED) (operations db))"
    using recover_database_done [OF ok c(1,2)] .
  have "db2 = db'" using d(1) rec c(3) by simp
  with d show "tables_ok L db'" "settled now db'"
    "operations db' = map (recovered_operation (now + ttl) now)
       (filter (\<lambda>r. \<not> is_expired now r \<and> o_state r \<noteq> OPERATION_RESERVED) (operations db))"
    by simp_all
qed

section \<open>Facts about opening\<close>

text \<open>The database is one of this program, created for this root.\<close>

definition belongs :: "foundation \<Rightarrow> RootIdentity \<Rightarrow> state_file \<Rightarrow> bool" where
  "belongs F root f \<longleftrightarrow>
     persistent_object_count f \<noteq> 0 \<and> validate_product_metadata F f = Inr () \<and> verify_root_identity root f = Inr ()"

lemma belongs_tables [simp]: "belongs F root (g\<lparr>state_tables := db\<rparr>) = belongs F root g"
  by (simp add: belongs_def persistent_object_count_def validate_product_metadata_def validate_exact_schema_def
      verify_root_identity_def load_meta_def cong: sum.case_cong option.case_cong if_cong)

lemma object_count_tables [simp]: "persistent_object_count (g\<lparr>state_tables := db\<rparr>) = persistent_object_count g"
  by (simp add: persistent_object_count_def)

lemma belongs_root_unique:
  assumes "belongs F root f" "belongs F root' f"
    and "root_device root \<le> u64_max" "root_inode root \<le> u64_max" "root_device root' \<le> u64_max" "root_inode root' \<le> u64_max"
  shows "root' = root"
proof -
  have "u64_to_be_bytes (root_device root') = u64_to_be_bytes (root_device root)"
    "u64_to_be_bytes (root_inode root') = u64_to_be_bytes (root_inode root)"
    using assms(1,2) by (auto simp: belongs_def verify_root_identity_def split: sum.splits if_splits)
  with assms(3-6) u64_to_be_bytes_inj show ?thesis by (cases root; cases root') auto
qed

lemma validated:
  "validate_database_before_mutation F check root f = Inr u \<Longrightarrow> persistent_object_count f = 0 \<or> belongs F root f"
  by (auto simp: validate_database_before_mutation_def belongs_def split: option.splits if_splits sum.splits)

lemma metadata_table:
  assumes "validate_product_metadata F f = Inr u"
  shows "persistent_object_count f \<noteq> 0"
proof -
  from assms obtain ob where
    "select_where (\<lambda>ob. object_type ob = ''table'' \<and> object_name ob = ''product_metadata'') (sqlite_schema f) = Some ob"
    by (auto simp: validate_product_metadata_def split: sum.splits option.splits)
  from select_where_Some [OF this] have "ob \<in> set (sqlite_schema f)" "is_persistent ob"
    by (simp_all add: is_persistent_def)
  then show ?thesis unfolding persistent_object_count_def count_where_0 by blast
qed

lemma initialize_schema_Inr:
  assumes "initialize_schema F ok root f = (g, Inr u)"
  shows "belongs F root g" "persistent_object_count f \<noteq> 0 \<Longrightarrow> g = f"
    "persistent_object_count f = 0 \<Longrightarrow> state_tables g = empty_database"
proof -
  consider "persistent_object_count f \<noteq> 0" "g = f" "validate_product_metadata F g = Inr ()" "verify_root_identity root g = Inr ()"
    | "persistent_object_count f = 0" "state_tables g = empty_database" "validate_product_metadata F g = Inr ()"
      "verify_root_identity root g = Inr ()"
    using assms
    by (cases "persistent_object_count f = 0")
      (auto simp: initialize_schema_def insert_root_identity_def Let_def split: sum.splits option.splits if_splits)
  then show "belongs F root g" "persistent_object_count f \<noteq> 0 \<Longrightarrow> g = f"
    "persistent_object_count f = 0 \<Longrightarrow> state_tables g = empty_database"
    using metadata_table [of F g "()"] by (cases; simp add: belongs_def)+
qed

lemma start_worker_Inr:
  assumes "start_worker F env at_start root L raw view = (f, Inr w)"
  obtains wall_now c now g db where "anchor_wall at_start = Some wall_now"
    "observe (first_wall at_start) (first_monotonic at_start) (new_clock wall_now (anchor_monotonic at_start)) = (c, Inr now)"
    "open_connection F (open_env.truncate env) root raw = Inr ()"
    "validate_database_before_mutation F (first_check env) root view = Inr ()"
    "initialize_schema F (schema_ok env) root view = (g, Inr ())"
    "recover_database (recovery_ok env) (ttl_ms L) (upload_ttl_ms L) now (state_tables g) = (db, Inr ())"
    "f = g\<lparr>state_tables := db\<rparr>"
    "w = \<lparr> connection = db, clock = c, limits = L, deferred_abandons = [] \<rparr>"
proof -
  from assms obtain wall_now c now where 1: "anchor_wall at_start = Some wall_now"
    "observe (first_wall at_start) (first_monotonic at_start) (new_clock wall_now (anchor_monotonic at_start)) = (c, Inr now)"
    "open_initialized_connection F env root (ttl_ms L) (upload_ttl_ms L) now raw view = (f, Inr ())"
    "w = \<lparr> connection = state_tables f, clock = c, limits = L, deferred_abandons = [] \<rparr>"
    by (auto simp: start_worker_def split: option.splits prod.splits sum.splits)
  from 1(3) have 2: "open_connection F (open_env.truncate env) root raw = Inr ()"
    "initialize_database F env root (ttl_ms L) (upload_ttl_ms L) now view = (f, Inr ())"
    by (auto simp: open_initialized_connection_def split: sum.splits)
  from 2(2) obtain g db where 3: "validate_database_before_mutation F (first_check env) root view = Inr ()"
    "initialize_schema F (schema_ok env) root view = (g, Inr ())"
    "recover_database (recovery_ok env) (ttl_ms L) (upload_ttl_ms L) now (state_tables g) = (db, Inr ())"
    "f = g\<lparr>state_tables := db\<rparr>"
    by (auto simp: initialize_database_def split: sum.splits prod.splits)
  from that [OF 1(1,2) 2(1) 3] 1(4) 3(4) show thesis by simp
qed

lemma validated_limits:
  "validate_limits cap per ttl upload_ttl repository = Inr L \<Longrightarrow>
   0 \<le> capacity L \<and> 0 \<le> per_owner L \<and> 0 \<le> upload_capacity L \<and> 0 \<le> upload_per_owner L \<and>
   0 \<le> purge_capacity L \<and> 0 \<le> purge_per_owner L"
  by (auto simp: validate_limits_def i64_try_from_def split: if_splits option.splits sum.splits prod.splits)

lemma empty_tables_ok:
  "validate_limits cap per ttl upload_ttl repository = Inr L \<Longrightarrow> tables_ok L empty_database"
  using validated_limits [of cap per ttl upload_ttl repository L]
  by (simp add: tables_ok_def operations_ok_def uploads_ok_def purges_ok_def empty_database_def keys_distinct_def
      stages_exclusive_def count_where_def)

text \<open>What a file may hold before a start.\<close>

definition file_ok :: "Limits \<Rightarrow> state_file \<Rightarrow> bool" where
  "file_ok L f \<longleftrightarrow> (persistent_object_count f \<noteq> 0 \<longrightarrow> tables_ok L (state_tables f))"

definition start_ok :: "start_clock \<Rightarrow> bool" where
  "start_ok at_start \<longleftrightarrow> wall_ok (anchor_wall at_start) \<and> wall_ok (first_wall at_start)"

lemma started:
  assumes lim: "validate_limits cap per ttl upload_ttl repository = Inr L"
    and at_start: "start_ok at_start" and before: "file_ok L view"
    and start: "start_worker F env at_start root L raw view = (f, Inr w)"
  shows "store_ok w" "settled (last_ms (clock w)) (connection w)" "deferred_abandons w = []"
    "open_leases (connection w) = {}" "limits w = L" "belongs F root f"
    "persistent_object_count view \<noteq> 0 \<Longrightarrow>
     operations (connection w) = map (recovered_operation (last_ms (clock w) + ttl_ms L) (last_ms (clock w)))
       (filter (\<lambda>r. \<not> is_expired (last_ms (clock w)) r \<and> o_state r \<noteq> OPERATION_RESERVED) (operations (state_tables view)))"
proof -
  obtain wall_now c now g db where s: "anchor_wall at_start = Some wall_now"
    "observe (first_wall at_start) (first_monotonic at_start) (new_clock wall_now (anchor_monotonic at_start)) = (c, Inr now)"
    "open_connection F (open_env.truncate env) root raw = Inr ()"
    "validate_database_before_mutation F (first_check env) root view = Inr ()"
    "initialize_schema F (schema_ok env) root view = (g, Inr ())"
    "recover_database (recovery_ok env) (ttl_ms L) (upload_ttl_ms L) now (state_tables g) = (db, Inr ())"
    "f = g\<lparr>state_tables := db\<rparr>"
    "w = \<lparr> connection = db, clock = c, limits = L, deferred_abandons = [] \<rparr>"
    using start_worker_Inr [OF start] .
  note init = initialize_schema_Inr [OF s(5)]
  have g: "tables_ok L (state_tables g)"
    using init(2,3) before empty_tables_ok [OF lim] by (cases "persistent_object_count view = 0") (simp_all add: file_ok_def)
  note rec = recover_database_Inr [OF g s(6)]
  have last: "last_ms c = now" by (rule observe_Inr(2) [OF s(2)])
  have "clock_ok (new_clock wall_now (anchor_monotonic at_start))"
    using at_start s(1) by (simp add: start_ok_def wall_ok_def clock_ok_def new_clock_def)
  then have "clock_ok c" using observe_Inr(4) [OF s(2)] at_start by (simp add: start_ok_def)
  with rec(1) show "store_ok w" by (simp add: s(8) store_ok_def tables_ok_def)
  show "settled (last_ms (clock w)) (connection w)" using rec(2) by (simp add: s(8) last)
  then show "open_leases (connection w) = {}" by (rule settled_no_leases)
  show "deferred_abandons w = []" "limits w = L" by (simp_all add: s(8))
  show "belongs F root f"
    using init(1) by (simp add: s(7))
  assume "persistent_object_count view \<noteq> 0"
  with init(2) rec(3) show "operations (connection w) =
      map (recovered_operation (last_ms (clock w) + ttl_ms L) (last_ms (clock w)))
       (filter (\<lambda>r. \<not> is_expired (last_ms (clock w)) r \<and> o_state r \<noteq> OPERATION_RESERVED) (operations (state_tables view)))"
    by (simp add: s(8) last)
qed

text \<open>A file that is neither empty nor the program's own for this root.\<close>

definition foreign :: "foundation \<Rightarrow> RootIdentity \<Rightarrow> state_file \<Rightarrow> bool" where
  "foreign F root f \<longleftrightarrow> persistent_object_count f \<noteq> 0 \<and> \<not> belongs F root f"

lemma validated_not_foreign: "validate_database_before_mutation F check root f = Inr u \<Longrightarrow> \<not> foreign F root f"
  using validated [of F check root f u] by (auto simp: foreign_def)

text \<open>It is refused before anything changes, as is a file SQLite cannot read.\<close>

lemma raw_refused:
  assumes "foreign F root raw \<or> raw_check env = None"
  shows "validate_raw_main_database F env i root main sidecars raw \<noteq> Inr u"
proof -
  have "validate_database_before_mutation F (raw_check env) root raw \<noteq> Inr u" for u
    using validated_not_foreign [of F "raw_check env" root raw u] assms by (auto simp: validate_database_before_mutation_def)
  then show ?thesis by (auto simp: validate_raw_main_database_def split: sum.splits)
qed

lemma foreign_refused:
  assumes "foreign F root raw \<or> raw_check env = None"
  shows "\<exists>e. open_connection F env root raw = Inl e" "\<exists>e. open_existing_database_for_preflight F env root raw = ([], Inl e)"
  by (auto simp: open_connection_def open_existing_database_for_preflight_def raw_refused [OF assms] split: sum.splits)

text \<open>The journal of the originals is rolled back only if the private copies came out as the program's own.\<close>

lemma rollback_only_own:
  assumes "foreign F root (recovered_copy env)"
  shows "fst (open_existing_database_for_preflight F env root raw) = []"
proof -
  have "validate_private_rollback_journal_recovery F env i root main sidecars \<noteq> Inr True" for i main sidecars
    using validated_not_foreign [of F "recovered_check env" root "recovered_copy env"] assms
    by (auto simp: validate_private_rollback_journal_recovery_def split: sum.splits option.splits)
  then show ?thesis
    by (auto simp: open_existing_database_for_preflight_def split: sum.splits)
qed

lemma start_foreign:
  assumes "foreign F root raw \<or> raw_check env = None \<or> foreign F root view"
  shows "\<exists>e. start_worker F env at_start root L raw view = (view, Inl e)"
proof -
  have "\<exists>e. open_initialized_connection F env root ttl upload_ttl now raw view = (view, Inl e)" for ttl upload_ttl now
  proof (cases "open_connection F (open_env.truncate env) root raw")
    case (Inr u)
    then have "\<not> (foreign F root raw \<or> raw_check env = None)"
      using foreign_refused(1) [of F root raw "open_env.truncate env"] by (auto simp: open_env.defs)
    with assms validated_not_foreign [of F "first_check env" root view]
    have "validate_database_before_mutation F (first_check env) root view \<noteq> Inr u'" for u' by blast
    with Inr show ?thesis by (auto simp: open_initialized_connection_def initialize_database_def split: sum.splits)
  qed (simp add: open_initialized_connection_def)
  then have o: "fst (open_initialized_connection F env root ttl upload_ttl now raw view) = view"
    "snd (open_initialized_connection F env root ttl upload_ttl now raw view) \<noteq> Inr u" for ttl upload_ttl now u
    by (metis fst_conv, metis snd_conv Inl_Inr_False)
  show ?thesis
  proof (cases "anchor_wall at_start")
    case (Some wall_now)
    obtain c r where ob: "observe (first_wall at_start) (first_monotonic at_start)
        (new_clock wall_now (anchor_monotonic at_start)) = (c, r)" by fastforce
    show ?thesis
    proof (cases r)
      case (Inr now)
      obtain f q where q: "open_initialized_connection F env root (ttl_ms L) (upload_ttl_ms L) now raw view = (f, q)" by fastforce
      with o(1) [of "ttl_ms L" "upload_ttl_ms L" now] o(2) [of "ttl_ms L" "upload_ttl_ms L" now] Some ob Inr
      show ?thesis by (cases q) (simp_all add: start_worker_def)
    qed (simp add: start_worker_def Some ob)
  qed (simp add: start_worker_def)
qed

lemma prepare_foreign:
  assumes "foreign F root raw \<or> raw_check (preflight_open env) = None \<or>
      foreign F root view \<and> recovered_copy (preflight_open env) = view"
    and "create_new env \<noteq> NotFound"
  shows "\<exists>e. prepare_database_file F env root raw view = ([], Inl e)"
proof -
  let ?open = "open_existing_database_for_preflight F (preflight_open env) root raw"
  have "\<exists>e. preflight_existing_database F (preflight_open env) check root raw view = ([], Inl e)" for check
  proof (cases "snd ?open")
    case (Inl e)
    have "fst ?open = []" using assms(1) foreign_refused(2) rollback_only_own by (metis fst_conv)
    with Inl show ?thesis by (cases ?open) (simp add: preflight_existing_database_def)
  next
    case (Inr u)
    then have "\<not> (foreign F root raw \<or> raw_check (preflight_open env) = None)"
      using foreign_refused(2) [of F root raw "preflight_open env"] by (metis Inl_Inr_False snd_conv)
    then have v: "foreign F root view" "recovered_copy (preflight_open env) = view" using assms(1) by auto
    have "fst ?open = []" by (rule rollback_only_own) (simp add: v)
    moreover obtain e where "validate_database_before_mutation F check root view = Inl e"
      using validated_not_foreign [of F check root view] v(1) by (metis sumE)
    ultimately show ?thesis using Inr by (cases ?open) (simp add: preflight_existing_database_def)
  qed
  then obtain e where e: "preflight_existing_database F (preflight_open env) (preflight_check env) root raw view = ([], Inl e)"
    by blast
  have "\<exists>e. prepare_existing F env root raw view = ([], Inl e)"
    by (simp add: prepare_existing_def e split: look.splits sum.splits)
  then show ?thesis using assms(2) by (auto simp: prepare_database_file_def split: sum.splits option.splits look.splits)
qed

text \<open>The limits are those the actor was started with.\<close>

lemma abandon_limits:
  "limits (abandon_or_defer t key lease w) = limits w" "limits (retry_one_deferred_abandon t w) = limits w"
  by (auto simp: abandon_or_defer_def defer_abandon_def retry_one_deferred_abandon_def abandon_operation_def
      dest: arg_cong [of _ _ "\<lambda>x. limits (fst x)"] split: prod.splits sum.splits list.splits)

lemma drain_limits: "limits (fst (drain_controls ts cs w)) = limits w"
  by (induction ts cs w rule: drain_controls.induct) (simp_all add: abandon_limits)

lemma handle_limits: "actor_command_ok c \<Longrightarrow> limits (fst (handle_command h c w)) = limits w"
  by (erule handle_effect [of c h w])
    (simp_all only: now_ms_effect operation_step_frame upload_step_frame purge_step_frame abandon_limits)

lemma system_step_limits:
  "\<lbrakk> system_step s x s'; \<And>tn. x = Some tn \<Longrightarrow> turn_ok tn \<rbrakk> \<Longrightarrow> limits (worker s') = limits (worker s)"
proof (induction rule: system_step.induct)
  case (turn s tn w r stop)
  obtain w1 b where p: "process_controls (t_retry tn) (t_controls tn) (control_queue s) (worker s) = (w1, b)" by fastforce
  have w1: "limits w1 = limits (worker s)"
    using drain_limits [of "t_controls tn" "control_queue s" "retry_one_deferred_abandon (t_retry tn) (worker s)"] p
    by (simp add: process_controls_def abandon_limits)
  have "actor_command_ok (t_command tn)" using turn.prems by (simp add: turn_ok_def)
  from handle_limits [OF this, of "t_handling tn" w1] turn.hyps(2) p w1 show ?case
    by (cases b) (auto simp: run_turn_def split: prod.splits)
qed simp_all

lemma system_steps_limits:
  "\<lbrakk> system_steps s tns s'; list_all turn_ok tns \<rbrakk> \<Longrightarrow> limits (worker s') = limits (worker s)"
proof (induction rule: system_steps.induct)
  case (quiet s s' tns s'')
  then show ?case using system_step_limits [of s None s'] by simp
next
  case (turns s tn s' tns s'')
  then show ?case using system_step_limits [of s "Some tn" s'] by simp
qed simp

text \<open>What a request finds after a restart.\<close>

lemma recovered_fields:
  assumes "operation_row_ok r" "o_state r = OPERATION_COMMIT_STARTED \<or> o_state r = OPERATION_COMPLETED \<and> o_expires_at_ms r = Some x"
  shows "is_operation key (recovered_operation e now r) = is_operation key r"
    "o_fingerprint (recovered_operation e now r) = o_fingerprint r"
    "o_state (recovered_operation e now r) = OPERATION_COMPLETED"
    "o_expires_at_ms (recovered_operation e now r) = Some (if o_state r = OPERATION_COMPLETED then min x e else e)"
    "into_outcome (recovered_operation e now r) =
       (if o_state r = OPERATION_COMPLETED then into_outcome r else Inr uncertain)"
proof -
  have cap: "into_outcome (cap_operation e r) = into_outcome r" for r
    by (simp add: into_outcome_def cap_operation_def Let_def cong: option.case_cong sum.case_cong)
  show "is_operation key (recovered_operation e now r) = is_operation key r"
    "o_fingerprint (recovered_operation e now r) = o_fingerprint r"
    by (simp_all add: recovered_operation_def Let_def cap_operation_def set_completed_def is_operation_def)
  show "o_state (recovered_operation e now r) = OPERATION_COMPLETED"
    "o_expires_at_ms (recovered_operation e now r) = Some (if o_state r = OPERATION_COMPLETED then min x e else e)"
    "into_outcome (recovered_operation e now r) =
       (if o_state r = OPERATION_COMPLETED then into_outcome r else Inr uncertain)"
    using assms(2)
    by (auto simp: recovered_operation_def Let_def late_operation_def cap into_outcome_completed [OF uncertain_valid])
      (auto simp: cap_operation_def set_completed_def)
qed

lemma run_clock_mono: "last_ms (clock w) \<le> last_ms (clock (run_steps operation_step w es))"
proof (induction es arbitrary: w)
  case (Cons e es)
  from order_trans [OF step_clock_mono Cons.IH] show ?case by (simp del: operation_step.simps)
qed simp

section \<open>Witnesses\<close>

definition demo_object :: SchemaObjectSnapshot where
  "demo_object = \<lparr> object_type = ''table'', object_name = ''product_metadata'', table_name = ''product_metadata'',
     object_sql = Some ''CREATE TABLE product_metadata (singleton);'' \<rparr>"

definition demo_foundation :: foundation where
  "demo_foundation =
     \<lparr> created_objects = [demo_object],
       table_pragmas = (\<lambda>_ name. \<lparr> t_name = name, column_count = 1, without_rowid = 0, strict = 0, columns = [],
                                  indexes = [], foreign_key_count = 0 \<rparr>),
       foundation_fingerprint = (\<lambda>obs. Some (concat (map object_name obs))),
       valid_metadata_ddl = (\<lambda>_. True), valid_identity = (\<lambda>_. True),
       current_schema_verified = (\<lambda>rows obs expected.
         map schema_sha256 rows = [id_fingerprint expected] \<and> map application rows = [id_application expected]),
       package_version = ''1'' \<rparr>"

definition demo_root :: RootIdentity where
  "demo_root = \<lparr> root_device = 1, root_inode = 2 \<rparr>"

definition demo_metadata :: Metadata where
  "demo_metadata = \<lparr> is_symlink = False, is_file = True, from_metadata =
     \<lparr> sn_device = 1, sn_inode = 3, sn_mode = 384, sn_links = 1, sn_uid = 0, sn_gid = 0, sn_size = 0, modified_seconds = 0,
       modified_nanoseconds = 0, changed_seconds = 0, changed_nanoseconds = 0 \<rparr> \<rparr>"

definition demo_empty :: state_file where
  "demo_empty = \<lparr> sqlite_schema = [], product_metadata = [], store_meta = [], state_tables = empty_database \<rparr>"

definition demo_startup :: startup_env where
  "demo_startup =
     \<lparr> side_first = replicate 3 (NotFound, NotFound), side_again = replicate 3 (NotFound, NotFound),
       main_first = (Found demo_metadata, Found demo_metadata),
       checkpoints = (\<lambda>_. \<lparr> main_open = Found demo_metadata, main_path = Found demo_metadata,
                          sidecar_looks = replicate 3 (NotFound, NotFound) \<rparr>),
       raw_copied = Some 0, raw_harden = Some (True, False), raw_check = Some ''ok'', journal_main_copied = None,
       journal_copied = None, recovered_copy = demo_empty, recovered_harden = None, recovered_check = None,
       sqlite_opens = True, harden_answer = Some (True, False), first_check = Some ''ok'',
       pragma_answers = Some (''delete'', 3, 1, 0, 0), schema_ok = True, recovery_ok = True \<rparr>"

definition demo_start_clock :: "i64 \<Rightarrow> start_clock" where
  "demo_start_clock n = \<lparr> anchor_wall = Some n, anchor_monotonic = 0, first_wall = Some n, first_monotonic = 0 \<rparr>"

definition demo_file :: "database \<Rightarrow> state_file" where
  "demo_file db =
     \<lparr> sqlite_schema = [demo_object],
       product_metadata = [\<lparr> singleton = 1, application = APPLICATION, application_version = ''1'',
                             schema_revision = CURRENT_SCHEMA_REVISION, schema_sha256 = ''product_metadata'' \<rparr>],
       store_meta = [(''root-device-be'', u64_to_be_bytes 1), (''root-inode-be'', u64_to_be_bytes 2)], state_tables = db \<rparr>"

lemma demo_object_sql:
  "inspect_object demo_object = Inr (demo_object\<lparr>object_sql := Some ''createtableproduct_metadata(singleton)''\<rparr>)"
proof -
  have "canonical_schema_sql ''CREATE TABLE product_metadata (singleton);'' = Inr ''createtableproduct_metadata(singleton)''"
    by code_simp
  then show ?thesis by (simp add: inspect_object_def transpose_sql_def demo_object_def)
qed

lemma demo_object_persistent: "is_persistent demo_object"
  by (simp add: is_persistent_def demo_object_def)

lemma demo_schema_inspected:
  "inspect_schema (table_pragmas demo_foundation [demo_object]) [demo_object] =
     Inr \<lparr> objects = [demo_object\<lparr>object_sql := Some ''createtableproduct_metadata(singleton)''\<rparr>],
           snapshot_tables = [\<lparr> t_name = ''product_metadata'', column_count = 1, without_rowid = 0, strict = 0, columns = [],
                                indexes = [], foreign_key_count = 0 \<rparr>] \<rparr>"
  by (simp add: inspect_schema_def demo_object_sql demo_object_persistent Let_def)
    (simp add: demo_object_def inspect_table_schema_def demo_foundation_def)

lemma demo_belongs: "belongs demo_foundation demo_root (demo_file db)"
proof -
  have "persistent_object_count (demo_file db) \<noteq> 0"
    by (simp add: persistent_object_count_def demo_file_def count_where_def demo_object_persistent)
  moreover have "validate_exact_schema demo_foundation (demo_file db) = Inr ()"
    using demo_schema_inspected
    by (simp add: validate_exact_schema_def demo_file_def) (simp add: demo_foundation_def)
  then have "validate_product_metadata demo_foundation (demo_file db) = Inr ()"
    by (simp add: validate_product_metadata_def demo_file_def select_where_def demo_object_def expected_schema_identity_def
        demo_foundation_def Let_def)
  moreover have "verify_root_identity demo_root (demo_file db) = Inr ()"
    by (simp add: verify_root_identity_def load_meta_def demo_file_def demo_root_def)
  ultimately show ?thesis by (simp add: belongs_def)
qed

lemma demo_valid:
  "validate_database_before_mutation demo_foundation (Some ''ok'') demo_root (demo_file db) = Inr ()"
  using demo_belongs [of db]
  by (simp add: belongs_def validate_database_before_mutation_def validate_integrity_def eq_ignore_ascii_case_def)

lemma demo_looks:
  "inspect_sidecars (replicate 3 (NotFound, NotFound)) (replicate 3 (NotFound, NotFound)) = Inr [Absent, Absent, Absent]"
  "inspect_main (Found demo_metadata) (Found demo_metadata) = Inr (from_metadata demo_metadata)"
  "revalidate (from_metadata demo_metadata) [Absent, Absent, Absent]
     \<lparr> main_open = Found demo_metadata, main_path = Found demo_metadata, sidecar_looks = replicate 3 (NotFound, NotFound) \<rparr> = Inr ()"
  by (simp_all add: inspect_sidecars_def inspect_sidecar_def revalidate_sidecars_def check_sidecar_def revalidate_sidecar_def
      inspect_main_def validate_metadata_def demo_metadata_def revalidate_def revalidate_main_def same_file_def numeral_3_eq_3)

lemma demo_opens: "open_connection demo_foundation (open_env.truncate demo_startup) demo_root (demo_file db) = Inr ()"
proof -
  have "persistent_object_count (demo_file db) \<noteq> 0" using demo_belongs [of db] by (simp add: belongs_def)
  with demo_looks demo_valid show ?thesis
    by (simp add: open_connection_def open_env.defs demo_startup_def validate_raw_main_database_def copy_snapshot_def
        MAX_RAW_DATABASE_SNAPSHOT_BYTES_def harden_connection_def checked_add_u64_def u64_max_def)
      (simp add: demo_metadata_def)
qed

lemma demo_limits_valid:
  "validate_limits 8 4 1000000000 1000000000
     \<lparr> r_upload_capacity = 8, r_upload_per_owner = 4, r_purge_capacity = 8, r_purge_per_owner = 4 \<rparr> = Inr demo_limits"
  by (simp add: validate_limits_def duration_ms_def as_millis_def i64_try_from_def i64_max_def demo_limits_def)

definition demo_recovered :: "database \<Rightarrow> StoreWorker" where
  "demo_recovered db = \<lparr> connection = db, clock = new_clock 10 0, limits = demo_limits, deferred_abandons = [] \<rparr>"

lemma demo_restart:
  assumes "tables_ok demo_limits db"
  obtains db' where "recover_database True 1000 1000 10 db = (db', Inr ())" "start_worker demo_foundation demo_startup (demo_start_clock 10) demo_root demo_limits (demo_file db) (demo_file db) =
      (demo_file db', Inr (demo_recovered db'))"
    "operations db' = map (recovered_operation 1010 10)
       (filter (\<lambda>r. \<not> is_expired 10 r \<and> o_state r \<noteq> OPERATION_RESERVED) (operations db))"
proof -
  have "in_i64 (10 + 1000)" by (simp add: in_i64_def i64_min_def i64_max_def)
  then obtain db' where d: "recover_database True 1000 1000 10 db = (db', Inr ())"
    "operations db' = map (recovered_operation 1010 10)
       (filter (\<lambda>r. \<not> is_expired 10 r \<and> o_state r \<noteq> OPERATION_RESERVED) (operations db))"
    using recover_database_done [OF assms, of 10 1000 1000] by auto
  have ob: "observe (Some 10) 0 (new_clock 10 0) = (new_clock 10 0, Inr 10)"
    by (simp add: observe_def new_clock_def as_millis_def i64_try_from_def checked_add_i64_def in_i64_def i64_max_def i64_min_def)
  have schema: "initialize_schema demo_foundation True demo_root (demo_file db) = (demo_file db, Inr ())"
    using demo_belongs [of db] by (simp add: initialize_schema_def belongs_def)
  have conf: "configure_validated_connection (Some (''delete'', 3, 1, 0, 0)) = Inr ()"
    by (simp add: configure_validated_connection_def eq_ignore_ascii_case_def)
  have upd: "(demo_file db)\<lparr>state_tables := db'\<rparr> = demo_file db'" "state_tables (demo_file db) = db" "state_tables (demo_file db') = db'"
    by (simp_all add: demo_file_def)
  have env: "first_check demo_startup = Some ''ok''" "pragma_answers demo_startup = Some (''delete'', 3, 1, 0, 0)"
    "schema_ok demo_startup" "recovery_ok demo_startup" by (simp_all add: demo_startup_def)
  have ttl: "ttl_ms demo_limits = 1000" "upload_ttl_ms demo_limits = 1000" by (simp_all add: demo_limits_def)
  have "initialize_database demo_foundation demo_startup demo_root 1000 1000 10 (demo_file db) = (demo_file db', Inr ())"
    using demo_valid [of db] schema conf d(1) by (simp add: initialize_database_def env upd)
  then have "open_initialized_connection demo_foundation demo_startup demo_root 1000 1000 10 (demo_file db) (demo_file db) =
      (demo_file db', Inr ())"
    using demo_opens [of db] by (simp add: open_initialized_connection_def)
  then have "start_worker demo_foundation demo_startup (demo_start_clock 10) demo_root demo_limits (demo_file db) (demo_file db) =
      (demo_file db', Inr (demo_recovered db'))"
    using ob by (simp add: start_worker_def demo_start_clock_def ttl upd demo_recovered_def)
  from that [OF d(1) this d(2)] show thesis .
qed

lemma demo_start_ok: "start_ok (demo_start_clock 10)"
  by (simp add: start_ok_def demo_start_clock_def wall_ok_def in_i64_def i64_max_def i64_min_def)

lemma demo_tables_ok: "tables_ok demo_limits (connection demo_worker)"
  using demo_store_ok by (simp add: store_ok_def tables_ok_def demo_worker_def)

lemma demo_first_start:
  "start_worker demo_foundation demo_startup (demo_start_clock 10) demo_root demo_limits
      (demo_file empty_database) (demo_file empty_database) = (demo_file empty_database, Inr demo_worker)"
proof -
  have e: "connection demo_worker = empty_database" "demo_recovered empty_database = demo_worker"
    by (simp_all add: empty_database_def demo_worker_def demo_recovered_def)
  have rec: "recover_database True 1000 1000 10 empty_database = (empty_database, Inr ())"
    by (simp add: recover_database_def expiration_time_def checked_add_i64_def in_i64_def i64_max_def i64_min_def
        recover_operations_def recover_uploads_def recover_purges_def empty_database_def purge_expired_def
        delete_where_def update_rows_def update_where_def Let_def)
  have ok0: "tables_ok demo_limits empty_database" using demo_tables_ok e(1) by simp
  show "start_worker demo_foundation demo_startup (demo_start_clock 10) demo_root demo_limits
      (demo_file empty_database) (demo_file empty_database) = (demo_file empty_database, Inr demo_worker)"
    using demo_restart [OF ok0] rec e(2) by (metis prod.inject)
qed

section \<open>Properties\<close>

text \<open>Claim C11.  A restart is safe at any moment: when the actor has started on the database of its
  shared root, empty or well-formed, run through any sequence of turns and stopped anywhere, then the next start
  finds every row readable, discards what was only reserved, records what had started its
  commit as uncertain, returns claimed jobs to the queue, and hands the actor a store in which
  nothing is under way and every invariant holds; so did the first start.\<close>

theorem restart_settles:
  assumes "validate_limits cap per ttl upload_ttl repository = Inr L"
    and "start_ok at_start" "file_ok L view" "start_worker F env at_start root L raw view = (f, Inr w)"
    and "system_steps (fresh_system w) tns s" "list_all turn_ok tns"
    and "start_ok at_start'"
      "start_worker F env' at_start' root' L raw' (f\<lparr>state_tables := connection (worker s)\<rparr>) = (f', Inr w')"
  shows "store_ok w \<and> settled (last_ms (clock w)) (connection w) \<and>
    store_ok w' \<and> settled (last_ms (clock w')) (connection w') \<and> deferred_abandons w' = [] \<and> open_leases (connection w') = {}"
proof -
  note first = started [OF assms(1-4)]
  have "store_ok (worker s) \<and> limits (worker s) = limits w"
    using system_steps_ok [OF assms(5) fresh_system_ok [OF first(1,3,4)] assms(6)] system_steps_limits [OF assms(5,6)]
    by (simp add: system_ok_def actor_ok_def fresh_system_def)
  then have "file_ok L (f\<lparr>state_tables := connection (worker s)\<rparr>)"
    by (auto simp: file_ok_def store_ok_def tables_ok_def first(5))
  from started [OF assms(1,7) this assms(8)] first show ?thesis by simp
qed

theorem restart_settles_witness:
  "\<exists>f f' w'. start_worker demo_foundation demo_startup (demo_start_clock 10) demo_root demo_limits
       (demo_file empty_database) (demo_file empty_database) = (f, Inr demo_worker) \<and>
     system_steps (fresh_system demo_worker) [demo_turn] demo_system \<and>
     start_worker demo_foundation demo_startup (demo_start_clock 10) demo_root demo_limits
       (f\<lparr>state_tables := connection (worker demo_system)\<rparr>) (f\<lparr>state_tables := connection (worker demo_system)\<rparr>) = (f', Inr w') \<and>
     store_ok w' \<and> open_leases (connection w') = {}"
proof -
  let ?db = "connection (worker demo_system)"
  have ok0: "tables_ok demo_limits empty_database"
    using demo_tables_ok by (simp add: empty_database_def demo_worker_def)
  note first = demo_first_start
  have sys: "store_ok (worker demo_system)" "limits (worker demo_system) = demo_limits"
    using system_steps_ok [OF demo_system_steps fresh_system_ok [OF demo_store_ok demo_worker_idle]] demo_turn_ok
      system_steps_limits [OF demo_system_steps]
    by (simp_all add: system_ok_def actor_ok_def fresh_system_def demo_worker_def)
  then have ok: "tables_ok demo_limits ?db" by (simp add: store_ok_def tables_ok_def)
  obtain db' where second: "start_worker demo_foundation demo_startup (demo_start_clock 10) demo_root demo_limits
      (demo_file ?db) (demo_file ?db) = (demo_file db', Inr (demo_recovered db'))"
    using demo_restart [OF ok] by blast
  have upd: "(demo_file empty_database)\<lparr>state_tables := ?db\<rparr> = demo_file ?db" by (simp add: demo_file_def)
  have f: "file_ok demo_limits (demo_file empty_database)" using ok0 by (simp add: file_ok_def demo_file_def)
  have "store_ok (demo_recovered db') \<and> open_leases (connection (demo_recovered db')) = {}"
    using restart_settles [OF demo_limits_valid demo_start_ok f first demo_system_steps _ demo_start_ok, of demo_startup demo_root
        "demo_file ?db" "demo_file db'" "demo_recovered db'"] second demo_turn_ok unfolding upd by simp
  with first second demo_system_steps show ?thesis unfolding upd [symmetric] by blast
qed

text \<open>Claim C10.  A restart neither repeats nor forgets a mutation: an operation that had started its commit
  when the process stopped is answered as uncertain after the next start, and one that had
  completed is answered with its outcome, to the same request, while a different request under
  the key is refused; this lasts for the time to live after the start, or as long as a completed
  operation was retained anyway.\<close>

theorem restart_replays:
  assumes start: "validate_limits cap per ttl upload_ttl repository = Inr L" "start_ok at_start" "file_ok L view"
      "start_worker F env at_start root L raw view = (f, Inr w)" "persistent_object_count view \<noteq> 0"
    and r: "r \<in> set (operations (state_tables view))" "is_operation key r"
      "o_state r = OPERATION_COMMIT_STARTED \<or> o_state r = OPERATION_COMPLETED \<and> o_expires_at_ms r = Some x"
    and es: "list_all operation_event_ok es"
    and again: "begin_operation t key fp (run_steps operation_step w es) = (w2, Inr res)"
    and retained: "last_ms (clock w2) < last_ms (clock w) + ttl_ms L" "o_state r = OPERATION_COMPLETED \<Longrightarrow> last_ms (clock w2) < x"
  shows "res = (if fp = o_fingerprint r
    then Replay (if o_state r = OPERATION_COMPLETED then projr (into_outcome r) else uncertain) else BeginConflict)"
proof -
  let ?now = "last_ms (clock w)" and ?e = "last_ms (clock w) + ttl_ms L" and ?w = "run_steps operation_step w es"
  let ?r = "recovered_operation ?e ?now r"
  note st = started [OF start(1-4)]
  have row: "operation_row_ok r"
    using start(3,5) r(1) unfolding file_ok_def tables_ok_def operations_ok_def list_all_iff by blast
  note fields = recovered_fields [OF row r(3)]
  have mono: "?now \<le> last_ms (clock ?w)" "last_ms (clock ?w) \<le> last_ms (clock w2)"
    using run_clock_mono [of w es] timed_clock_mono [of ?w t "begin_operation_tx (limits ?w) (fresh t) key fp"] again
    by (simp_all add: begin_operation_def)
  have live: "\<not> is_expired ?now r" using r(3) retained(2) mono by (auto simp: is_expired_def)
  have "?r \<in> set (operations (connection w))"
    unfolding st(7) [OF start(5)] using r(1,3) live by auto
  then have "?r \<in> set (operations (connection ?w)) \<or> (if o_state r = OPERATION_COMPLETED then min x ?e else ?e) \<le> last_ms (clock ?w)"
    using run_keeps_completed [where w = w and es = es, OF _ _ fields(4) [where e = ?e and now = ?now]] fields(3) by simp
  with mono retained have in': "?r \<in> set (operations (connection ?w))" by (auto split: if_splits)
  have ok: "operation_store_ok ?w"
    by (rule operation_machine.run_inv [OF _ es]) (use st(1) in \<open>simp add: store_ok_def operation_store_ok_def\<close>)
  have live': "\<not> is_expired (last_ms (clock w2)) ?r"
    using fields(3,4) retained by (auto simp: is_expired_def min_def)
  have "is_operation key ?r" using fields(1) r(2) by simp
  from begin_finds [OF ok in' this again live'] fields show ?thesis by auto
qed

theorem restart_replays_witness:
  "\<exists>db f w w2. operations db = [set_commit_started 5 (reserved_row demo_store_key demo_fp (replicate 16 CHR ''l'') 3)] \<and>
     start_worker demo_foundation demo_startup (demo_start_clock 10) demo_root demo_limits (demo_file db) (demo_file db) =
       (f, Inr w) \<and>
     begin_operation (demo_tick 1) demo_store_key demo_fp w = (w2, Inr (Replay uncertain))"
proof -
  let ?r = "set_commit_started 5 (reserved_row demo_store_key demo_fp (replicate 16 CHR ''l'') 3)"
  let ?db = "empty_database\<lparr>operations := [?r]\<rparr>"
  have chk: "operation_row_ok ?r" by (simp add: operation_row_ok_def demo_eval set_commit_started_def)
  then have ok: "tables_ok demo_limits ?db"
    by (simp add: tables_ok_def operations_ok_def uploads_ok_def purges_ok_def empty_database_def keys_distinct_def
        stages_exclusive_def count_where_def demo_limits_def)
  obtain db' where d: "start_worker demo_foundation demo_startup (demo_start_clock 10) demo_root demo_limits
      (demo_file ?db) (demo_file ?db) = (demo_file db', Inr (demo_recovered db'))"
    "operations db' = [set_completed uncertain 10 1010 ?r]"
    using demo_restart [OF ok]
    by (auto simp: recovered_operation_def is_expired_def late_operation_def set_completed_def set_commit_started_def)
  obtain w2 res where b: "begin_operation (demo_tick 1) demo_store_key demo_fp (demo_recovered db') = (w2, Inr res)"
    "last_ms (clock w2) < 10 + ttl_ms demo_limits"
    by (simp add: demo_eval demo_recovered_def d(2) new_clock_def set_commit_started_def uncertain_def UNKNOWN_STATUS_def
        UNKNOWN_CODE_def char_count_def is_cont_def MAX_ERROR_CODE_CHARS_def)
  have count: "persistent_object_count (demo_file ?db) \<noteq> 0" using demo_belongs [of ?db] by (simp add: belongs_def)
  have f: "file_ok demo_limits (demo_file ?db)" using ok by (simp add: file_ok_def demo_file_def)
  have last: "last_ms (clock (demo_recovered db')) = 10" by (simp add: demo_recovered_def new_clock_def)
  have "res = (if demo_fp = o_fingerprint ?r
      then Replay (if o_state ?r = OPERATION_COMPLETED then projr (into_outcome ?r) else uncertain) else BeginConflict)"
    by (rule restart_replays [OF demo_limits_valid demo_start_ok f d(1) count, of _ demo_store_key 0 "[]" "demo_tick 1"])
      (use b last in \<open>simp_all add: demo_file_def set_commit_started_def reserved_row_def is_operation_def\<close>)
  then have "res = Replay uncertain" by (simp add: set_commit_started_def reserved_row_def)
  with d(1) b(1) show ?thesis by (intro exI [of _ ?db] exI [of _ "demo_file db'"]) auto
qed

text \<open>Claim C12.  A state database serves the shared root it was created for and no other.  A start
  succeeds only on a file that is empty or this program's own for this root, as it lies on disk and
  as SQLite shows it with its sidecars; the file it leaves is foreign to every other root, whatever
  is written to the tables later.  Whatever file is foreign to a root, or cannot be read by SQLite,
  is refused for that root and left as it is: a start returns it unchanged, without schema or recovery, and
  the preparation before it has no effect on the file system, so that no permission is changed and
  no journal is rolled back.  (For a file that is foreign only with its journal applied, this rests
  on SQLite recovering the private copies to what it would show of the originals.)\<close>

theorem database_bound_to_root:
  assumes "root_device root \<le> u64_max" "root_inode root \<le> u64_max"
    and "start_worker F env at_start root L raw view = (f, Inr w)"
    and "root_device root' \<le> u64_max" "root_inode root' \<le> u64_max" "root' \<noteq> root"
  shows "\<not> foreign F root raw \<and> \<not> foreign F root view \<and> foreign F root' (f\<lparr>state_tables := db\<rparr>) \<and>
    (\<forall>R env at_start L raw view.
       foreign F R raw \<or> raw_check env = None \<or> foreign F R view \<longrightarrow>
       (\<exists>e. start_worker F env at_start R L raw view = (view, Inl e))) \<and>
    (\<forall>R penv raw view.
       foreign F R raw \<or> raw_check (preflight_open penv) = None \<or>
         foreign F R view \<and> recovered_copy (preflight_open penv) = view \<longrightarrow>
       create_new penv \<noteq> NotFound \<longrightarrow>
       (\<exists>e. prepare_database_file F penv R raw view = ([], Inl e)))"
proof -
  obtain wall_now c now g db' where s:
    "initialize_schema F (schema_ok env) root view = (g, Inr ())" "f = g\<lparr>state_tables := db'\<rparr>"
    using start_worker_Inr [OF assms(3)] by metis
  have f: "belongs F root f" using initialize_schema_Inr(1) [OF s(1)] by (simp add: s(2))
  have "foreign F root' (f\<lparr>state_tables := db\<rparr>)"
    using belongs_root_unique [OF f _ assms(1,2,4,5)] assms(6) f unfolding foreign_def belongs_tables object_count_tables
    by (metis belongs_def)
  moreover have "\<not> foreign F root raw \<and> \<not> foreign F root view"
    using start_foreign [of F root raw env view at_start L] assms(3) by auto
  ultimately show ?thesis using start_foreign prepare_foreign by (intro conjI allI impI) blast+
qed

definition demo_prepare :: prepare_env where
  "demo_prepare =
     \<lparr> names_file = True, prep_first = replicate 3 (NotFound, NotFound), prep_again = replicate 3 (NotFound, NotFound),
       prep_main = Found demo_metadata, parent_is_dir = Some True, create_new = Found demo_metadata,
       existing_metadata = Found demo_metadata, set_permissions = True, sync_file = True, sync_directory = True,
       preflight_open = open_env.truncate demo_startup, preflight_check = Some ''ok'' \<rparr>"

theorem database_bound_to_root_witness:
  "\<exists>f e e'. start_worker demo_foundation demo_startup (demo_start_clock 10) demo_root demo_limits
       (demo_file empty_database) (demo_file empty_database) = (f, Inr demo_worker) \<and>
     start_worker demo_foundation demo_startup (demo_start_clock 10) \<lparr> root_device = 1, root_inode = 7 \<rparr> demo_limits f f = (f, Inl e) \<and>
     prepare_database_file demo_foundation demo_prepare \<lparr> root_device = 1, root_inode = 7 \<rparr> f f = ([], Inl e')"
proof -
  let ?f = "demo_file empty_database" and ?other = "\<lparr> root_device = 1, root_inode = 7 \<rparr>"
  have first: "start_worker demo_foundation demo_startup (demo_start_clock 10) demo_root demo_limits ?f ?f = (?f, Inr demo_worker)"
    by (rule demo_first_start)
  have same: "?f\<lparr>state_tables := empty_database\<rparr> = ?f" by (simp add: demo_file_def)
  have "create_new demo_prepare \<noteq> NotFound" by (simp add: demo_prepare_def)
  with database_bound_to_root [OF _ _ first, of ?other empty_database, unfolded same]
  have "\<exists>e. start_worker demo_foundation demo_startup (demo_start_clock 10) ?other demo_limits ?f ?f = (?f, Inl e)"
    "\<exists>e. prepare_database_file demo_foundation demo_prepare ?other ?f ?f = ([], Inl e)"
    by (simp_all add: demo_root_def u64_max_def)
  with first show ?thesis by blast
qed

end
