(* ===== verification/Disk_Space.thy ===== *)
theory Disk_Space
  imports Prelude "HOL-Library.Option_ord"
begin

text \<open>
  \<^verbatim>\<open>src/server/disk_space.rs\<close>: the process-wide ledger of disk space that streaming writers have
  reserved.  The mutex makes each access to the ledger one step; the probe of the file system
  between two accesses is an input, and so is what other threads did to the ledger meanwhile.

  The lemmas show that the ledger always equals the sum of what the live reservations still
  track, so that none of the overflow panics and assertions of the code can fire, that a
  reservation is granted only when the probe covers everything outstanding, and what the
  rounding of a request to allocation units amounts to.
\<close>

section \<open>The ledger\<close>

definition MAX_CAPACITY_SNAPSHOT_RETRIES :: usize where
  "MAX_CAPACITY_SNAPSHOT_RETRIES = 8"

definition RESERVATION_RELEASE_BATCH_BYTES :: u64 where
  "RESERVATION_RELEASE_BATCH_BYTES = 1024 * 1024"

record DiskSpaceState =
  reserved :: "u64 \<rightharpoonup> u64"
  revisions :: "u64 \<rightharpoonup> u64"

record DiskSpaceReservation =
  res_device :: u64
  remaining :: u64
  pending_release :: u64

definition new_tracker :: DiskSpaceState where
  "new_tracker = \<lparr> reserved = Map.empty, revisions = Map.empty \<rparr>"

text \<open>\<^verbatim>\<open>.get(&device).copied().unwrap_or_default()\<close>.\<close>

definition get_or_default :: "(u64 \<rightharpoonup> u64) \<Rightarrow> u64 \<Rightarrow> u64" where
  "get_or_default m d = (case m d of None \<Rightarrow> 0 | Some n \<Rightarrow> n)"

definition bump_revision :: "u64 \<Rightarrow> DiskSpaceState \<Rightarrow> DiskSpaceState" where
  "bump_revision d s =
     s\<lparr> revisions := (revisions s)(d \<mapsto> wrapping_add_u64 (get_or_default (revisions s) d) 1) \<rparr>"

definition space_budget_fits :: "u64 \<Rightarrow> u64 \<Rightarrow> u64 \<Rightarrow> u64 \<Rightarrow> bool" where
  "space_budget_fits available already_reserved requested minimum_free =
     (case checked_add_u64 minimum_free already_reserved of
        None \<Rightarrow> False
      | Some required \<Rightarrow>
          (case checked_add_u64 required requested of
             None \<Rightarrow> False
           | Some required \<Rightarrow> required \<le> available))"

text \<open>
  The outcome of an operation that may panic: \<^verbatim>\<open>None\<close> is the panic of an \<^verbatim>\<open>expect\<close> or of a
  \<^verbatim>\<open>debug_assert\<close>.
\<close>

definition reserve_locked ::
  "u64 \<Rightarrow> u64 \<Rightarrow> u64 \<Rightarrow> u64 \<Rightarrow> DiskSpaceState \<Rightarrow> (DiskSpaceState \<times> DiskSpaceReservation option) option"
where
  "reserve_locked d available requested minimum_free s =
     (let held = get_or_default (reserved s) d in
      if \<not> space_budget_fits available held requested minimum_free then Some (s, None)
      else
        let granted = \<lparr> res_device = d, remaining = requested, pending_release = 0 \<rparr> in
        if 0 < requested then
          (case checked_add_u64 held requested of
             None \<Rightarrow> None
           | Some grown \<Rightarrow> Some (bump_revision d (s\<lparr> reserved := (reserved s)(d \<mapsto> grown) \<rparr>), Some granted))
        else Some (s, Some granted))"

definition release :: "u64 \<Rightarrow> u64 \<Rightarrow> DiskSpaceState \<Rightarrow> DiskSpaceState option" where
  "release d bytes s =
     (if bytes = 0 then Some s
      else case reserved s d of
        None \<Rightarrow> None
      | Some held \<Rightarrow>
          if \<not> bytes \<le> held then None
          else
            let left = held - bytes;
                s = s\<lparr> reserved := (if left = 0 then (reserved s)(d := None) else (reserved s)(d \<mapsto> left)) \<rparr>
            in Some (bump_revision d s))"

definition flush_pending_release ::
  "DiskSpaceReservation \<Rightarrow> DiskSpaceState \<Rightarrow> (DiskSpaceState \<times> DiskSpaceReservation) option"
where
  "flush_pending_release r s =
     (case release (res_device r) (pending_release r) s of
        None \<Rightarrow> None
      | Some s \<Rightarrow> Some (s, r\<lparr> pending_release := 0 \<rparr>))"

definition consume ::
  "u64 \<Rightarrow> DiskSpaceReservation \<Rightarrow> DiskSpaceState \<Rightarrow> (DiskSpaceState \<times> DiskSpaceReservation) option"
where
  "consume bytes r s =
     (if \<not> bytes \<le> remaining r then None
      else
        let consumed = min bytes (remaining r) in
        (case checked_add_u64 (pending_release r) consumed of
           None \<Rightarrow> None
         | Some pending \<Rightarrow>
             let r = r\<lparr> remaining := remaining r - consumed, pending_release := pending \<rparr> in
             if RESERVATION_RELEASE_BATCH_BYTES \<le> pending then flush_pending_release r s else Some (s, r)))"

definition drop_reservation :: "DiskSpaceReservation \<Rightarrow> DiskSpaceState \<Rightarrow> DiskSpaceState option" where
  "drop_reservation r s =
     (case checked_add_u64 (remaining r) (pending_release r) of
        None \<Rightarrow> None
      | Some tracked \<Rightarrow> release (res_device r) tracked s)"

text \<open>
  The loops that read the revision of the device, probe the file system without the lock, and
  use the probe only if the revision is still the same.  A round is the ledger at the first
  lock, the answer of the probe, and the ledger at the second lock.
\<close>

type_synonym round = "DiskSpaceState \<times> u64 option \<times> DiskSpaceState"

datatype 'a probed = ProbeFailed | WouldBlock | Decided nat 'a

definition stable :: "u64 \<Rightarrow> round \<Rightarrow> bool" where
  "stable d r =
     (case r of (seen, _, locked) \<Rightarrow> get_or_default (revisions locked) d = get_or_default (revisions seen) d)"

fun probe_rounds :: "u64 \<Rightarrow> (u64 \<Rightarrow> DiskSpaceState \<Rightarrow> 'a) \<Rightarrow> nat \<Rightarrow> nat \<Rightarrow> (nat \<Rightarrow> round) \<Rightarrow> 'a probed" where
  "probe_rounds d decide 0 i rounds = WouldBlock"
| "probe_rounds d decide (Suc left) i rounds =
     (case rounds i of (seen, probe, locked) \<Rightarrow>
        (case probe of
           None \<Rightarrow> ProbeFailed
         | Some available \<Rightarrow>
             if \<not> stable d (rounds i) then probe_rounds d decide left (Suc i) rounds
             else Decided i (decide available locked)))"

definition reserve_on_device ::
  "u64 \<Rightarrow> u64 \<Rightarrow> u64 \<Rightarrow> (nat \<Rightarrow> round) \<Rightarrow> (DiskSpaceState \<times> DiskSpaceReservation option) option probed"
where
  "reserve_on_device d requested minimum_free rounds =
     probe_rounds d (\<lambda>available locked. reserve_locked d available requested minimum_free locked)
       MAX_CAPACITY_SNAPSHOT_RETRIES 0 rounds"

definition reserved_space_is_available_on_device ::
  "u64 \<Rightarrow> u64 \<Rightarrow> (nat \<Rightarrow> round) \<Rightarrow> bool probed"
where
  "reserved_space_is_available_on_device d minimum_free rounds =
     probe_rounds d
       (\<lambda>available locked.
          case checked_add_u64 minimum_free (get_or_default (reserved locked) d) of
            None \<Rightarrow> False
          | Some required \<Rightarrow> required \<le> available)
       MAX_CAPACITY_SNAPSHOT_RETRIES 0 rounds"

definition available_bytes :: "u64 \<Rightarrow> u64 \<Rightarrow> u64 option" where
  "available_bytes available_blocks fragment_size = checked_mul_u64 available_blocks fragment_size"

definition round_up :: "u64 \<Rightarrow> u64 \<Rightarrow> u64 option" where
  "round_up value unit =
     (if value = 0 then Some 0
      else case checked_sub_u64 unit 1 of
        None \<Rightarrow> None
      | Some unit_less_1 \<Rightarrow>
          (case checked_add_u64 value unit_less_1 of
             None \<Rightarrow> None
           | Some grown \<Rightarrow> Some (grown div unit * unit)))"

definition allocation_budget :: "u64 \<Rightarrow> u64 \<Rightarrow> u64 \<Rightarrow> u64 option" where
  "allocation_budget logical_bytes allocation_unit metadata_bytes =
     (case round_up logical_bytes allocation_unit of
        None \<Rightarrow> None
      | Some a \<Rightarrow>
          (case round_up metadata_bytes allocation_unit of
             None \<Rightarrow> None
           | Some b \<Rightarrow> checked_add_u64 a b))"

definition allocated_reservation_bytes :: "u64 \<Rightarrow> u64 \<Rightarrow> u64 \<Rightarrow> u64 option" where
  "allocated_reservation_bytes fragment_size logical_bytes metadata_bytes =
     allocation_budget logical_bytes (max fragment_size 1) metadata_bytes"

section \<open>The threads\<close>

text \<open>
  Everything that happens to the ledger: a request is granted at its second lock, a writer
  consumes bytes it has reserved, flushes its batch before a safety check, or drops its
  reservation.  \<^verbatim>\<open>None\<close> is a panic.
\<close>

datatype ledger_event =
    Grant u64 u64 u64 u64
  | Consume nat u64
  | Flush nat
  | Drop nat

record ledger =
  tracker :: DiskSpaceState
  live :: "DiskSpaceReservation list"

fun ledger_step :: "ledger \<Rightarrow> ledger_event \<Rightarrow> ledger option" where
  "ledger_step l (Grant d available requested minimum_free) =
     (case reserve_locked d available requested minimum_free (tracker l) of
        None \<Rightarrow> None
      | Some (s, None) \<Rightarrow> Some (l\<lparr> tracker := s \<rparr>)
      | Some (s, Some r) \<Rightarrow> Some \<lparr> tracker = s, live = live l @ [r] \<rparr>)"
| "ledger_step l (Consume i bytes) =
     (case consume bytes (live l ! i) (tracker l) of
        None \<Rightarrow> None
      | Some (s, r) \<Rightarrow> Some \<lparr> tracker = s, live = (live l)[i := r] \<rparr>)"
| "ledger_step l (Flush i) =
     (case flush_pending_release (live l ! i) (tracker l) of
        None \<Rightarrow> None
      | Some (s, r) \<Rightarrow> Some \<lparr> tracker = s, live = (live l)[i := r] \<rparr>)"
| "ledger_step l (Drop i) =
     (case drop_reservation (live l ! i) (tracker l) of
        None \<Rightarrow> None
      | Some s \<Rightarrow> Some \<lparr> tracker = s, live = take i (live l) @ drop (Suc i) (live l) \<rparr>)"

text \<open>What the writers respect: they use reservations they own and never more than is left.\<close>

fun event_ok :: "ledger \<Rightarrow> ledger_event \<Rightarrow> bool" where
  "event_ok l (Grant d available requested minimum_free) \<longleftrightarrow> available \<le> u64_max"
| "event_ok l (Consume i bytes) \<longleftrightarrow> i < length (live l) \<and> bytes \<le> remaining (live l ! i)"
| "event_ok l (Flush i) \<longleftrightarrow> i < length (live l)"
| "event_ok l (Drop i) \<longleftrightarrow> i < length (live l)"

fun ledger_run :: "ledger \<Rightarrow> ledger_event list \<Rightarrow> ledger option" where
  "ledger_run l [] = Some l"
| "ledger_run l (e # es) = (case ledger_step l e of None \<Rightarrow> None | Some l' \<Rightarrow> ledger_run l' es)"

fun run_ok :: "ledger \<Rightarrow> ledger_event list \<Rightarrow> bool" where
  "run_ok l [] = True"
| "run_ok l (e # es) = (event_ok l e \<and> (case ledger_step l e of None \<Rightarrow> True | Some l' \<Rightarrow> run_ok l' es))"

definition fresh_ledger :: ledger where
  "fresh_ledger = \<lparr> tracker = new_tracker, live = [] \<rparr>"

section \<open>The ledger is the sum of the reservations\<close>

definition tracked :: "DiskSpaceReservation \<Rightarrow> nat" where
  "tracked r = remaining r + pending_release r"

definition outstanding :: "u64 \<Rightarrow> DiskSpaceReservation list \<Rightarrow> nat" where
  "outstanding d rs = sum_list (map (\<lambda>r. if res_device r = d then tracked r else 0) rs)"

definition ledger_ok :: "ledger \<Rightarrow> bool" where
  "ledger_ok l \<longleftrightarrow>
     (\<forall>d. reserved (tracker l) d = (if outstanding d (live l) = 0 then None else Some (outstanding d (live l)))) \<and>
     (\<forall>d. outstanding d (live l) \<le> u64_max)"

lemma outstanding_append: "outstanding d (xs @ ys) = outstanding d xs + outstanding d ys"
  by (simp add: outstanding_def)

lemma outstanding_split:
  "i < length rs \<Longrightarrow>
   outstanding d rs = outstanding d (take i rs @ drop (Suc i) rs) + (if res_device (rs ! i) = d then tracked (rs ! i) else 0)"
  by (subst id_take_nth_drop [of i rs]) (simp_all add: outstanding_def)

lemma outstanding_update:
  "i < length rs \<Longrightarrow>
   outstanding d (rs[i := r]) = outstanding d (take i rs @ drop (Suc i) rs) + (if res_device r = d then tracked r else 0)"
  by (simp add: upd_conv_take_nth_drop outstanding_def)

lemma tracker_get: "ledger_ok l \<Longrightarrow> get_or_default (reserved (tracker l)) d = outstanding d (live l)"
  by (simp add: ledger_ok_def get_or_default_def)

lemma release_exact:
  assumes "reserved s d = (if n = 0 then None else Some n)" "bytes \<le> n"
  obtains s' where "release d bytes s = Some s'"
    "reserved s' = (reserved s)(d := (if n - bytes = 0 then None else Some (n - bytes)))"
proof (cases "bytes = 0")
  case True
  with assms have "(reserved s)(d := (if n - bytes = 0 then None else Some (n - bytes))) = reserved s"
    by (auto simp: fun_eq_iff)
  with True that [of s] show thesis by (simp add: release_def)
next
  case False
  with assms that show thesis by (simp add: release_def bump_revision_def Let_def)
qed

lemma space_budget_fits_iff:
  "available \<le> u64_max \<Longrightarrow>
   space_budget_fits available held requested minimum_free \<longleftrightarrow> minimum_free + held + requested \<le> available"
  by (auto simp: space_budget_fits_def checked_add_u64_def)

text \<open>A reservation that shrinks takes the ledger with it.\<close>

lemma tracked_bound:
  assumes "ledger_ok l" "i < length (live l)"
  shows "tracked (live l ! i) \<le> outstanding (res_device (live l ! i)) (live l)"
    "outstanding (res_device (live l ! i)) (live l) \<le> u64_max"
proof -
  show "tracked (live l ! i) \<le> outstanding (res_device (live l ! i)) (live l)"
    using outstanding_split [OF assms(2), of "res_device (live l ! i)"] by simp
  show "outstanding (res_device (live l ! i)) (live l) \<le> u64_max" using assms(1) by (simp add: ledger_ok_def)
qed

lemma ledger_shrinks:
  assumes ok: "ledger_ok l" and i: "i < length (live l)" and r: "r = live l ! i" and b: "bytes \<le> tracked r"
  obtains s where "release (res_device r) bytes (tracker l) = Some s"
    "\<forall>rs. (\<forall>d. outstanding d rs = outstanding d (live l) - (if d = res_device r then bytes else 0)) \<longrightarrow>
       ledger_ok \<lparr> tracker = s, live = rs \<rparr>"
proof -
  let ?d = "res_device r" and ?n = "outstanding (res_device r) (live l)"
  have res: "reserved (tracker l) ?d = (if ?n = 0 then None else Some ?n)" using ok by (simp add: ledger_ok_def)
  have "bytes \<le> ?n" using tracked_bound(1) [OF ok i] b unfolding r by linarith
  then obtain s where s: "release ?d bytes (tracker l) = Some s"
    "reserved s = (reserved (tracker l))(?d := (if ?n - bytes = 0 then None else Some (?n - bytes)))"
    using release_exact [OF res] by blast
  have "ledger_ok \<lparr> tracker = s, live = rs \<rparr>"
    if rs: "\<And>d. outstanding d rs = outstanding d (live l) - (if d = ?d then bytes else 0)" for rs
    using ok unfolding ledger_ok_def by (auto simp: s(2) rs intro: order_trans [OF diff_le_self])
  with that [OF s(1)] show thesis by blast
qed

lemma flush_ok:
  assumes ok: "ledger_ok l" and i: "i < length (live l)"
  obtains s r where "flush_pending_release (live l ! i) (tracker l) = Some (s, r)"
    "ledger_ok \<lparr> tracker = s, live = (live l)[i := r] \<rparr>"
proof -
  let ?r = "live l ! i"
  obtain s where s: "release (res_device ?r) (pending_release ?r) (tracker l) = Some s"
    "\<forall>rs. (\<forall>d. outstanding d rs = outstanding d (live l) - (if d = res_device ?r then pending_release ?r else 0)) \<longrightarrow>
       ledger_ok \<lparr> tracker = s, live = rs \<rparr>"
    using ledger_shrinks [OF ok i refl, of "pending_release ?r"] by (auto simp: tracked_def)
  have "ledger_ok \<lparr> tracker = s, live = (live l)[i := ?r\<lparr>pending_release := 0\<rparr>] \<rparr>"
    by (rule s(2) [THEN spec, THEN mp]) (simp add: outstanding_update [OF i] outstanding_split [OF i] tracked_def)
  with that [of s "?r\<lparr>pending_release := 0\<rparr>"] s(1) show thesis by (simp add: flush_pending_release_def)
qed

lemma ledger_step_ok:
  assumes ok: "ledger_ok l" and e: "event_ok l e"
  obtains l' where "ledger_step l e = Some l'" "ledger_ok l'"
proof (cases e)
  case (Grant d available requested minimum_free)
  let ?held = "outstanding d (live l)"
  have held: "get_or_default (reserved (tracker l)) d = ?held" by (rule tracker_get [OF ok])
  show thesis
  proof (cases "space_budget_fits available ?held requested minimum_free")
    case False
    with held have "ledger_step l e = Some l" by (simp add: Grant reserve_locked_def Let_def)
    with ok that show thesis by blast
  next
    case True
    with e have fits: "?held + requested \<le> u64_max" by (simp add: Grant space_budget_fits_iff)
    let ?r = "\<lparr> res_device = d, remaining = requested, pending_release = 0 \<rparr>"
    have out: "outstanding x (live l @ [?r]) = outstanding x (live l) + (if x = d then requested else 0)" for x
      by (simp add: outstanding_append) (simp add: outstanding_def tracked_def)
    show thesis
    proof (cases "0 < requested")
      case False
      with True held have "ledger_step l e = Some \<lparr> tracker = tracker l, live = live l @ [?r] \<rparr>"
        by (simp add: Grant reserve_locked_def Let_def)
      moreover have "ledger_ok \<lparr> tracker = tracker l, live = live l @ [?r] \<rparr>"
        using ok False fits unfolding ledger_ok_def by (simp add: out del: not_gr_zero)
      ultimately show thesis using that by blast
    next
      case pos: True
      let ?s = "bump_revision d (tracker l\<lparr> reserved := (reserved (tracker l))(d \<mapsto> ?held + requested) \<rparr>)"
      have "ledger_step l e = Some \<lparr> tracker = ?s, live = live l @ [?r] \<rparr>"
        using True pos held fits by (simp add: Grant reserve_locked_def Let_def checked_add_u64_def)
      moreover have "ledger_ok \<lparr> tracker = ?s, live = live l @ [?r] \<rparr>"
        using ok pos fits by (auto simp: ledger_ok_def out bump_revision_def)
      ultimately show thesis using that by blast
    qed
  qed
next
  case (Consume i bytes)
  let ?r = "live l ! i"
  have i: "i < length (live l)" and b: "bytes \<le> remaining ?r" using e by (simp_all add: Consume)
  let ?q = "?r\<lparr> remaining := remaining ?r - bytes, pending_release := pending_release ?r + bytes \<rparr>"
  let ?m = "l\<lparr> live := (live l)[i := ?q] \<rparr>"
  have le: "pending_release ?r + bytes \<le> u64_max"
    using tracked_bound [OF ok i] b by (simp add: tracked_def)
  have "outstanding d (live ?m) = outstanding d (live l)" for d
    using b by (simp add: outstanding_update [OF i] outstanding_split [OF i] tracked_def)
  then have ok': "ledger_ok ?m" using ok by (simp add: ledger_ok_def)
  show thesis
  proof (cases "RESERVATION_RELEASE_BATCH_BYTES \<le> pending_release ?r + bytes")
    case False
    then have "ledger_step l e = Some ?m" using b le by (cases l) (simp add: Consume consume_def Let_def checked_add_u64_def)
    with ok' that show thesis by blast
  next
    case True
    obtain s q where f: "flush_pending_release (live ?m ! i) (tracker ?m) = Some (s, q)"
      "ledger_ok \<lparr> tracker = s, live = (live ?m)[i := q] \<rparr>"
      using flush_ok [OF ok', of i] i by auto
    have "ledger_step l e = Some \<lparr> tracker = s, live = (live ?m)[i := q] \<rparr>"
      using True f(1) b le i by (simp add: Consume consume_def Let_def checked_add_u64_def)
    with f(2) that show thesis by blast
  qed
next
  case (Flush i)
  then have i: "i < length (live l)" using e by simp
  obtain s r where f: "flush_pending_release (live l ! i) (tracker l) = Some (s, r)"
    "ledger_ok \<lparr> tracker = s, live = (live l)[i := r] \<rparr>" using flush_ok [OF ok i] .
  then have "ledger_step l e = Some \<lparr> tracker = s, live = (live l)[i := r] \<rparr>" by (simp add: Flush)
  with f(2) that show thesis by blast
next
  case (Drop i)
  then have i: "i < length (live l)" using e by simp
  let ?r = "live l ! i" and ?rs = "take i (live l) @ drop (Suc i) (live l)"
  obtain s where s: "release (res_device ?r) (tracked ?r) (tracker l) = Some s"
    "\<forall>rs. (\<forall>d. outstanding d rs = outstanding d (live l) - (if d = res_device ?r then tracked ?r else 0)) \<longrightarrow>
       ledger_ok \<lparr> tracker = s, live = rs \<rparr>"
    by (rule ledger_shrinks [OF ok i refl order_refl])
  have ok': "ledger_ok \<lparr> tracker = s, live = ?rs \<rparr>" by (rule s(2) [THEN spec, THEN mp]) (simp add: outstanding_split [OF i])
  have "tracked ?r \<le> u64_max" using tracked_bound [OF ok i] by linarith
  with s(1) have "ledger_step l e = Some \<lparr> tracker = s, live = ?rs \<rparr>"
    by (simp add: Drop drop_reservation_def checked_add_u64_def tracked_def)
  with ok' that show thesis by blast
qed

lemma ledger_run_ok:
  "\<lbrakk> ledger_ok l; run_ok l es \<rbrakk> \<Longrightarrow> \<exists>l'. ledger_run l es = Some l' \<and> ledger_ok l'"
proof (induction es arbitrary: l)
  case (Cons e es)
  then obtain l' where l': "ledger_step l e = Some l'" "ledger_ok l'" using ledger_step_ok [of l e] by auto
  with Cons.IH [of l'] Cons.prems(2) show ?case by simp
qed simp

lemma fresh_ledger_ok: "ledger_ok fresh_ledger"
  by (simp add: ledger_ok_def fresh_ledger_def new_tracker_def outstanding_def)

text \<open>The first round in which the revision was stable decides.\<close>

lemma probe_rounds_Decided:
  assumes "probe_rounds d decide n i rounds = Decided k x"
  shows "i \<le> k \<and> k < i + n \<and> stable d (rounds k) \<and>
    (\<exists>available. fst (snd (rounds k)) = Some available \<and> x = decide available (snd (snd (rounds k))))"
  using assms
proof (induction n arbitrary: i)
  case (Suc n)
  obtain seen probe locked where r: "rounds i = (seen, probe, locked)" by (cases "rounds i") auto
  show ?case
  proof (cases "stable d (rounds i)")
    case True
    with Suc.prems r show ?thesis by (cases probe) auto
  next
    case False
    with Suc.prems r have "probe_rounds d decide n (Suc i) rounds = Decided k x" by (cases probe) auto
    from Suc.IH [OF this] show ?thesis by simp
  qed
qed simp

lemma probe_rounds_WouldBlock:
  assumes "probe_rounds d decide n i rounds = WouldBlock" "i \<le> j" "j < i + n"
  shows "\<not> stable d (rounds j)"
  using assms
proof (induction n arbitrary: i)
  case (Suc n)
  obtain seen probe locked where r: "rounds i = (seen, probe, locked)" by (cases "rounds i") auto
  with Suc.prems(1) have "\<not> stable d (rounds i)" "probe_rounds d decide n (Suc i) rounds = WouldBlock"
    by (auto split: option.splits if_splits)
  with Suc.IH [of "Suc i"] Suc.prems(2,3) show ?case by (cases "j = i") auto
qed simp

lemma reserve_locked_covered:
  assumes "ledger_ok l" "available \<le> u64_max" "reserve_locked d available requested minimum_free (tracker l) = Some (s, Some r)"
  shows "minimum_free + outstanding d (live l) + requested \<le> available"
  using assms(3) tracker_get [OF assms(1), of d] space_budget_fits_iff [OF assms(2)]
  by (auto simp: reserve_locked_def Let_def split: if_splits)

lemma round_up_exact:
  assumes "0 < unit" "round_up value unit = Some n"
  shows "unit dvd n" "value \<le> n" "n < value + unit"
proof -
  let ?x = "value + (unit - 1)"
  have "unit dvd n \<and> value \<le> n \<and> n < value + unit"
  proof (cases "value = 0")
    case True
    with assms show ?thesis by (simp add: round_up_def)
  next
    case False
    then have n: "n = ?x - ?x mod unit"
      using assms by (auto simp: round_up_def checked_sub_u64_def checked_add_u64_def minus_mod_eq_div_mult split: if_splits)
    have "?x mod unit < unit" "?x mod unit \<le> ?x" using assms(1) by simp_all
    then have "value \<le> n" "n < value + unit" using n assms(1) by linarith+
    moreover have "unit dvd n" unfolding n by (rule dvd_minus_mod)
    ultimately show ?thesis by blast
  qed
  then show "unit dvd n" "value \<le> n" "n < value + unit" by blast+
qed

text \<open>A request covers its logical and metadata bytes and wastes less than two allocation units.\<close>

lemma allocation_budget_bounds:
  assumes "allocated_reservation_bytes fragment_size logical_bytes metadata_bytes = Some n"
  shows "max fragment_size 1 dvd n" "logical_bytes + metadata_bytes \<le> n"
    "n < logical_bytes + metadata_bytes + 2 * max fragment_size 1"
proof -
  obtain a b where ab: "round_up logical_bytes (max fragment_size 1) = Some a"
    "round_up metadata_bytes (max fragment_size 1) = Some b" "n = a + b"
    using assms by (auto simp: allocated_reservation_bytes_def allocation_budget_def split: option.splits)
  have pos: "0 < max fragment_size 1" by simp
  note e = round_up_exact [OF pos ab(1)] round_up_exact [OF pos ab(2)]
  show "max fragment_size 1 dvd n" using e(1,4) ab(3) by simp
  show "logical_bytes + metadata_bytes \<le> n" "n < logical_bytes + metadata_bytes + 2 * max fragment_size 1"
    using e(2,3,5,6) ab(3) by linarith+
qed

section \<open>Properties\<close>

text \<open>Claim C13.  The ledger of reserved disk space is exact and never overcommits: whatever sequence of
  grants, writes, flushes and drops the threads perform, each write within what remains of its
  reservation (the condition \<^verbatim>\<open>upload/transfer.rs\<close> tests before it writes), no overflow panic and no assertion
  fires, the bytes recorded for every device are the bytes its live reservations still track,
  so that nothing stays recorded when they are gone, and a request is granted only in one of its
  eight rounds, at a moment when the revision of the device has not changed since before the
  probe and the probed space covers the protected minimum, everything outstanding on the device
  and the request.\<close>

theorem disk_ledger_exact:
  assumes "run_ok fresh_ledger es"
  shows "\<exists>l. ledger_run fresh_ledger es = Some l \<and>
    (\<forall>d. get_or_default (reserved (tracker l)) d = outstanding d (live l)) \<and>
    (live l = [] \<longrightarrow> reserved (tracker l) = Map.empty) \<and>
    (\<forall>d requested minimum_free rounds i s r.
       reserve_on_device d requested minimum_free rounds = Decided i (Some (s, Some r)) \<longrightarrow>
       snd (snd (rounds i)) = tracker l \<longrightarrow> fst (snd (rounds i)) \<le> Some u64_max \<longrightarrow>
       i < 8 \<and> get_or_default (revisions (fst (rounds i))) d = get_or_default (revisions (tracker l)) d \<and>
       (\<exists>available. fst (snd (rounds i)) = Some available \<and>
          minimum_free + outstanding d (live l) + requested \<le> available))"
proof -
  obtain l where l: "ledger_run fresh_ledger es = Some l" "ledger_ok l"
    using ledger_run_ok [OF fresh_ledger_ok assms] by blast
  have empty: "reserved (tracker l) = Map.empty" if "live l = []"
    using l(2) that by (auto simp: ledger_ok_def outstanding_def)
  have grant: "i < 8 \<and> get_or_default (revisions (fst (rounds i))) d = get_or_default (revisions (tracker l)) d \<and>
       (\<exists>available. fst (snd (rounds i)) = Some available \<and>
          minimum_free + outstanding d (live l) + requested \<le> available)"
    if g: "reserve_on_device d requested minimum_free rounds = Decided i (Some (s, Some r))"
      "snd (snd (rounds i)) = tracker l" "fst (snd (rounds i)) \<le> Some u64_max"
    for d requested minimum_free rounds i s r
  proof -
    note p = probe_rounds_Decided [OF g(1) [unfolded reserve_on_device_def]]
    from p obtain available where a: "fst (snd (rounds i)) = Some available"
      "Some (s, Some r) = reserve_locked d available requested minimum_free (snd (snd (rounds i)))" by blast
    have "minimum_free + outstanding d (live l) + requested \<le> available"
      by (rule reserve_locked_covered [OF l(2) _ a(2) [unfolded g(2), symmetric]]) (use g(3) a(1) in simp)
    with p a(1) g(2) show ?thesis by (auto simp: stable_def MAX_CAPACITY_SNAPSHOT_RETRIES_def split: prod.splits)
  qed
  from l empty grant tracker_get [OF l(2)] show ?thesis by blast
qed

theorem disk_ledger_exact_witness:
  "\<exists>l m. ledger_run fresh_ledger [Grant 1 100 30 10, Grant 1 100 70 10, Consume 0 5] = Some l \<and>
     get_or_default (reserved (tracker l)) 1 = 30 \<and> map remaining (live l) = [25] \<and>
     ledger_run fresh_ledger [Grant 1 100 30 10, Consume 0 5, Flush 0, Drop 0] = Some m \<and>
     reserved (tracker m) = Map.empty"
proof -
  let ?es = "[Grant 1 100 30 10, Grant 1 100 70 10, Consume 0 5]"
  let ?fs = "[Grant 1 100 30 10, Consume 0 5, Flush 0, Drop 0]"
  note defs = fresh_ledger_def new_tracker_def reserve_locked_def space_budget_fits_def checked_add_u64_def u64_max_def
    get_or_default_def bump_revision_def consume_def flush_pending_release_def release_def drop_reservation_def
    RESERVATION_RELEASE_BATCH_BYTES_def
  have e: "run_ok fresh_ledger ?es" and f: "run_ok fresh_ledger ?fs" by (simp_all add: defs)
  obtain l where l: "ledger_run fresh_ledger ?es = Some l"
    "\<forall>d. get_or_default (reserved (tracker l)) d = outstanding d (live l)"
    using disk_ledger_exact [OF e] by blast
  obtain m where m: "ledger_run fresh_ledger ?fs = Some m" "live m = [] \<longrightarrow> reserved (tracker m) = Map.empty"
    using disk_ledger_exact [OF f] by blast
  have "live l = [\<lparr> res_device = 1, remaining = 25, pending_release = 5 \<rparr>]" using l(1) by (auto simp: defs)
  moreover have "live m = []" using m(1) by (auto simp: defs)
  ultimately show ?thesis using l m by (auto simp: outstanding_def tracked_def)
qed

end
