(* ===== verification/Interruptible_Sort.thy ===== *)
theory Interruptible_Sort
  imports Prelude "HOL-Library.Sorting_Algorithms"
begin

text \<open>
  \<^verbatim>\<open>stable_sort_by_interruptible\<close> of \<^verbatim>\<open>src/server/listing.rs\<close>: a bottom-up merge sort of indices with
  two buffers, followed by an in-place application of the permutation cycle by cycle, which asks
  between bounded units of work whether it may go on.

  A comparison closure is a \<^typ>\<open>'a comparator\<close>, a total preorder.  The answers of \<^verbatim>\<open>active\<close> are a
  function of the number of the call, and whether the two reservations of memory succeed is an
  input.  The loops that the code does not bound are partial functions, \<^verbatim>\<open>None\<close> being a loop that
  does not end.  The lemmas show that the routine always returns, that it computes the library's
  stable sort, and that an interrupted run leaves a permutation.
\<close>

section \<open>The routine\<close>

datatype InterruptibleSortFailure = Interrupted | Allocation

definition INTERRUPT_CHECK_INTERVAL :: usize where
  "INTERRUPT_CHECK_INTERVAL = 256"

text \<open>Work since the last check, and the number of calls of \<^verbatim>\<open>active\<close> so far.\<close>

type_synonym work = "usize \<times> nat"

definition count_work :: "(nat \<Rightarrow> bool) \<Rightarrow> work \<Rightarrow> InterruptibleSortFailure + work" where
  "count_work active st =
     (case st of (work_since_check, calls) \<Rightarrow>
        let work_since_check = work_since_check + 1 in
        if INTERRUPT_CHECK_INTERVAL \<le> work_since_check then
          if \<not> active calls then Inl Interrupted else Inr (0, calls + 1)
        else Inr (work_since_check, calls))"

fun push_indices :: "(nat \<Rightarrow> bool) \<Rightarrow> usize list \<Rightarrow> work \<Rightarrow> usize list \<Rightarrow> InterruptibleSortFailure + work \<times> usize list" where
  "push_indices active [] st current = Inr (st, current)"
| "push_indices active (index # rest) st current =
     (case count_work active st of
        Inl e \<Rightarrow> Inl e
      | Inr st \<Rightarrow> push_indices active rest st (current @ [index]))"

text \<open>The merge of one pair of runs.\<close>

partial_function (option) merge_run ::
  "'a comparator \<Rightarrow> (nat \<Rightarrow> bool) \<Rightarrow> 'a list \<Rightarrow> usize list \<Rightarrow> usize \<Rightarrow> usize \<Rightarrow> usize \<Rightarrow> usize \<Rightarrow> work \<Rightarrow> usize list \<Rightarrow>
   (InterruptibleSortFailure + work \<times> usize list) option"
where
  "merge_run cmp active values current middle run_end left right st nxt =
     (if left < middle \<or> right < run_end then
        (case count_work active st of
           Inl e \<Rightarrow> Some (Inl e)
         | Inr st \<Rightarrow>
             if right = run_end \<or>
                left < middle \<and> compare cmp (values ! (current ! left)) (values ! (current ! right)) \<noteq> Greater
             then merge_run cmp active values current middle run_end (left + 1) right st (nxt @ [current ! left])
             else merge_run cmp active values current middle run_end left (right + 1) st (nxt @ [current ! right]))
      else Some (Inr (st, nxt)))"

text \<open>One pass over all pairs of runs, and the passes with doubled width.\<close>

partial_function (option) merge_pass ::
  "'a comparator \<Rightarrow> (nat \<Rightarrow> bool) \<Rightarrow> 'a list \<Rightarrow> usize list \<Rightarrow> usize \<Rightarrow> usize \<Rightarrow> usize \<Rightarrow> usize \<Rightarrow> work \<Rightarrow> usize list \<Rightarrow>
   (InterruptibleSortFailure + work \<times> usize list) option"
where
  "merge_pass cmp active values current len width run_width start st nxt =
     (if start < len then
        (case merge_run cmp active values current (min (saturating_add start width) len)
                (min (saturating_add start run_width) len) start (min (saturating_add start width) len) st nxt of
           None \<Rightarrow> None
         | Some (Inl e) \<Rightarrow> Some (Inl e)
         | Some (Inr (st, nxt)) \<Rightarrow>
             merge_pass cmp active values current len width run_width (min (saturating_add start run_width) len) st nxt)
      else Some (Inr (st, nxt)))"

partial_function (option) merge_passes ::
  "'a comparator \<Rightarrow> (nat \<Rightarrow> bool) \<Rightarrow> 'a list \<Rightarrow> usize \<Rightarrow> usize \<Rightarrow> work \<Rightarrow> usize list \<Rightarrow>
   (InterruptibleSortFailure + work \<times> usize list) option"
where
  "merge_passes cmp active values len width st current =
     (if width < len then
        (case merge_pass cmp active values current len width (saturating_mul width 2) 0 st [] of
           None \<Rightarrow> None
         | Some (Inl e) \<Rightarrow> Some (Inl e)
         | Some (Inr (st, nxt)) \<Rightarrow> merge_passes cmp active values len (saturating_mul width 2) st nxt)
      else Some (Inr (st, current)))"

text \<open>Turning positions around, and moving the values along the cycles.\<close>

fun invert :: "(nat \<Rightarrow> bool) \<Rightarrow> usize \<Rightarrow> usize list \<Rightarrow> work \<Rightarrow> usize list \<Rightarrow> InterruptibleSortFailure + work \<times> usize list" where
  "invert active new_position [] st nxt = Inr (st, nxt)"
| "invert active new_position (old_position # rest) st nxt =
     (case count_work active st of
        Inl e \<Rightarrow> Inl e
      | Inr st \<Rightarrow> invert active (new_position + 1) rest st (nxt[old_position := new_position]))"

definition swap_at :: "usize \<Rightarrow> usize \<Rightarrow> 'b list \<Rightarrow> 'b list" where
  "swap_at i j xs = xs[i := xs ! j, j := xs ! i]"

partial_function (option) follow_cycle ::
  "(nat \<Rightarrow> bool) \<Rightarrow> usize \<Rightarrow> work \<Rightarrow> 'a list \<Rightarrow> usize list \<Rightarrow>
   ('a list \<times> (InterruptibleSortFailure + work \<times> usize list)) option"
where
  "follow_cycle active position st values nxt =
     (if nxt ! position \<noteq> position then
        (case count_work active st of
           Inl e \<Rightarrow> Some (values, Inl e)
         | Inr st \<Rightarrow>
             follow_cycle active position st (swap_at position (nxt ! position) values) (swap_at position (nxt ! position) nxt))
      else Some (values, Inr (st, nxt)))"

fun apply_cycles ::
  "(nat \<Rightarrow> bool) \<Rightarrow> usize list \<Rightarrow> work \<Rightarrow> 'a list \<Rightarrow> usize list \<Rightarrow>
   ('a list \<times> (InterruptibleSortFailure + work)) option"
where
  "apply_cycles active [] st values nxt = Some (values, Inr st)"
| "apply_cycles active (position # rest) st values nxt =
     (case follow_cycle active position st values nxt of
        None \<Rightarrow> None
      | Some (values, Inl e) \<Rightarrow> Some (values, Inl e)
      | Some (values, Inr (st, nxt)) \<Rightarrow> apply_cycles active rest st values nxt)"

text \<open>
  The routine.  \<^term>\<open>first\<close> and \<^term>\<open>second\<close> tell whether the buffers can be reserved.
\<close>

definition stable_sort_by_interruptible ::
  "'a comparator \<Rightarrow> (nat \<Rightarrow> bool) \<Rightarrow> bool \<Rightarrow> bool \<Rightarrow> 'a list \<Rightarrow> ('a list \<times> (InterruptibleSortFailure + unit)) option"
where
  "stable_sort_by_interruptible cmp active first second values =
     (if \<not> active 0 then Some (values, Inl Interrupted)
      else
        let len = length values in
        if len < 2 then Some (values, Inr ())
        else if \<not> first then Some (values, Inl Allocation)
        else case push_indices active [0..<len] (0, 1) [] of
          Inl e \<Rightarrow> Some (values, Inl e)
        | Inr (st, current) \<Rightarrow>
            if \<not> second then Some (values, Inl Allocation)
            else (case merge_passes cmp active values len 1 st current of
              None \<Rightarrow> None
            | Some (Inl e) \<Rightarrow> Some (values, Inl e)
            | Some (Inr (st, current)) \<Rightarrow>
                (case invert active 0 current st (replicate len 0) of
                   Inl e \<Rightarrow> Some (values, Inl e)
                 | Inr (st, nxt) \<Rightarrow>
                     (case apply_cycles active [0..<len] st values nxt of
                        None \<Rightarrow> None
                      | Some (values, Inl e) \<Rightarrow> Some (values, Inl e)
                      | Some (values, Inr st) \<Rightarrow>
                          if \<not> active (snd st) then Some (values, Inl Interrupted) else Some (values, Inr ())))))"

section \<open>Merging\<close>

text \<open>Whether a result is one that an interruption, or only an uninterrupted run, can produce.\<close>

definition uninterrupted :: "(nat \<Rightarrow> bool) \<Rightarrow> bool" where
  "uninterrupted active \<longleftrightarrow> (\<forall>n. active n)"

lemma count_work_cases:
  obtains (stop) "count_work active st = Inl Interrupted" "\<not> uninterrupted active"
  | (go) st' where "count_work active st = Inr st'"
proof (cases "count_work active st")
  case (Inl e)
  then have "e = Interrupted" "\<not> uninterrupted active"
    by (auto simp: count_work_def uninterrupted_def Let_def split: if_splits prod.splits)
  with Inl stop show ?thesis by simp
qed (rule go)

lemma push_indices_result:
  "push_indices active is st acc = Inl Interrupted \<and> \<not> uninterrupted active \<or>
   (\<exists>st'. push_indices active is st acc = Inr (st', acc @ is))"
proof (induction "is" arbitrary: st acc)
  case (Cons i "is")
  show ?case
  proof (cases rule: count_work_cases [of active st])
    case (go st')
    with Cons.IH [of st' "acc @ [i]"] show ?thesis by simp
  qed simp
qed simp

definition run_slice :: "nat \<Rightarrow> nat \<Rightarrow> 'b list \<Rightarrow> 'b list" where
  "run_slice i j xs = take (j - i) (drop i xs)"

lemma run_slice_Cons: "\<lbrakk> i < j; j \<le> length xs \<rbrakk> \<Longrightarrow> run_slice i j xs = xs ! i # run_slice (Suc i) j xs"
  by (simp add: run_slice_def Cons_nth_drop_Suc [symmetric] Suc_diff_Suc [symmetric])

lemma run_slice_Nil [simp]: "run_slice i i xs = []"
  by (simp add: run_slice_def)

text \<open>The comparison of indices by the values they stand for.\<close>

abbreviation by_value :: "'a comparator \<Rightarrow> 'a list \<Rightarrow> nat comparator" where
  "by_value cmp values \<equiv> key (\<lambda>i. values ! i) cmp"

abbreviation merged :: "'a comparator \<Rightarrow> 'a list \<Rightarrow> usize list \<Rightarrow> nat \<Rightarrow> nat \<Rightarrow> nat \<Rightarrow> nat \<Rightarrow> usize list" where
  "merged cmp values current left middle right run_end \<equiv>
     Sorting_Algorithms.merge (by_value cmp values) (run_slice left middle current) (run_slice right run_end current)"

lemma merged_take_left:
  assumes "left < middle" "middle \<le> right" "right \<le> run_end" "run_end \<le> length current"
    and "right = run_end \<or> compare cmp (values ! (current ! left)) (values ! (current ! right)) \<noteq> Greater"
  shows "merged cmp values current left middle right run_end = current ! left # merged cmp values current (Suc left) middle right run_end"
proof (cases "right = run_end")
  case True
  then show ?thesis
    using run_slice_Cons [of left middle current] assms by (cases "run_slice (Suc left) middle current") simp_all
next
  case False
  then show ?thesis
    using run_slice_Cons [of left middle current] run_slice_Cons [of right run_end current] assms by simp
qed

lemma merged_take_right:
  assumes "left \<le> middle" "middle \<le> right" "right < run_end" "run_end \<le> length current"
    and "left = middle \<or> compare cmp (values ! (current ! left)) (values ! (current ! right)) = Greater"
  shows "merged cmp values current left middle right run_end = current ! right # merged cmp values current left middle (Suc right) run_end"
proof (cases "left < middle")
  case True
  then show ?thesis
    using run_slice_Cons [of left middle current] run_slice_Cons [of right run_end current] assms by simp
next
  case False
  then show ?thesis using run_slice_Cons [of right run_end current] assms by simp
qed

lemma merge_run_result:
  assumes "left \<le> middle" "middle \<le> right" "right \<le> run_end" "run_end \<le> length current"
  shows "merge_run cmp active values current middle run_end left right st nxt = Some (Inl Interrupted) \<and> \<not> uninterrupted active \<or>
    (\<exists>st'. merge_run cmp active values current middle run_end left right st nxt =
       Some (Inr (st', nxt @ merged cmp values current left middle right run_end)))"
  using assms
proof (induction "(middle - left) + (run_end - right)" arbitrary: left right st nxt rule: less_induct)
  case less
  note unfold_run = merge_run.simps [of cmp active "values" current middle run_end left right st nxt]
  let ?take_left = "right = run_end \<or> left < middle \<and>
      compare cmp (values ! (current ! left)) (values ! (current ! right)) \<noteq> Greater"
  consider (over) "left = middle" "right = run_end"
    | (stop) "left < middle \<or> right < run_end" "count_work active st = Inl Interrupted" "\<not> uninterrupted active"
    | (go_left) st' where "left < middle" "count_work active st = Inr st'" ?take_left
    | (go_right) st' where "right < run_end" "count_work active st = Inr st'" "\<not> ?take_left"
    using less.prems by (cases rule: count_work_cases [of active st]) fastforce+
  then show ?case
  proof cases
    case over
    then show ?thesis by (subst (1 2) unfold_run) simp
  next
    case stop
    then show ?thesis by (subst (1 2) unfold_run) simp
  next
    case go_left
    then have "merge_run cmp active values current middle run_end left right st nxt =
        merge_run cmp active values current middle run_end (Suc left) right st' (nxt @ [current ! left])"
      by (subst unfold_run) auto
    with less.hyps [of "Suc left" right st' "nxt @ [current ! left]"] merged_take_left [of left middle right run_end current cmp "values"]
      go_left less.prems show ?thesis by auto
  next
    case go_right
    then have "merge_run cmp active values current middle run_end left right st nxt =
        merge_run cmp active values current middle run_end left (Suc right) st' (nxt @ [current ! right])"
      by (subst unfold_run) auto
    with less.hyps [of left "Suc right" st' "nxt @ [current ! right]"] merged_take_right [of left middle right run_end current cmp "values"]
      go_right less.prems show ?thesis by auto
  qed
qed

text \<open>
  What a pass computes, on lists: neighbouring runs are merged.  A list sorted in runs of a width
  becomes one sorted in runs of the double width.
\<close>

function merge_pairs :: "'b comparator \<Rightarrow> nat \<Rightarrow> 'b list \<Rightarrow> 'b list" where
  "merge_pairs cmp w xs =
     (if xs = [] \<or> w = 0 then []
      else Sorting_Algorithms.merge cmp (take w xs) (take w (drop w xs)) @ merge_pairs cmp w (drop (2 * w) xs))"
  by pat_completeness auto
termination by (relation "measure (\<lambda>(cmp, w, xs). length xs)") auto

function sorted_runs :: "'b comparator \<Rightarrow> nat \<Rightarrow> 'b list \<Rightarrow> 'b list" where
  "sorted_runs cmp w xs =
     (if xs = [] \<or> w = 0 then [] else Sorting_Algorithms.sort cmp (take w xs) @ sorted_runs cmp w (drop w xs))"
  by pat_completeness auto
termination by (relation "measure (\<lambda>(cmp, w, xs). length xs)") auto

declare merge_pairs.simps [simp del] sorted_runs.simps [simp del]

lemma merge_sort_append:
  "Sorting_Algorithms.merge cmp (Sorting_Algorithms.sort cmp xs) (Sorting_Algorithms.sort cmp ys) = Sorting_Algorithms.sort cmp (xs @ ys)"
  by (rule sort_eqI [symmetric])
    (simp_all add: mset_merge sorted_merge filter_merge merge_stable_segments stable_sort)

lemma length_sorted_runs: "0 < w \<Longrightarrow> length (sorted_runs cmp w xs) = length xs"
  by (induction cmp w xs rule: sorted_runs.induct) (subst sorted_runs.simps, auto)

lemma take_sorted_runs: "0 < w \<Longrightarrow> take w (sorted_runs cmp w xs) = Sorting_Algorithms.sort cmp (take w xs)"
  by (subst sorted_runs.simps, cases "w \<le> length xs") (simp_all add: sorted_runs.simps [of cmp w "[]"])

lemma drop_sorted_runs: "0 < w \<Longrightarrow> drop w (sorted_runs cmp w xs) = sorted_runs cmp w (drop w xs)"
  by (subst sorted_runs.simps, cases "w \<le> length xs") (simp_all add: sorted_runs.simps [of cmp w "[]"])

lemma sorted_runs_one: "sorted_runs cmp 1 xs = xs"
  by (induction xs) (subst sorted_runs.simps, simp)+

lemma sorted_runs_wide: "\<lbrakk> 0 < w; length xs \<le> w \<rbrakk> \<Longrightarrow> sorted_runs cmp w xs = Sorting_Algorithms.sort cmp xs"
  by (subst sorted_runs.simps) (simp add: sorted_runs.simps [of cmp w "[]"])

lemma merge_pairs_sorted_runs:
  "0 < w \<Longrightarrow> merge_pairs cmp w (sorted_runs cmp w xs) = sorted_runs cmp (2 * w) xs"
proof (induction "length xs" arbitrary: xs rule: less_induct)
  case less
  show ?case
  proof (cases "xs = []")
    case True
    then show ?thesis by (simp add: sorted_runs.simps merge_pairs.simps)
  next
    case False
    with length_sorted_runs [OF less.prems, of cmp xs] have ne: "sorted_runs cmp w xs \<noteq> []" by auto
    have "drop (2 * w) (sorted_runs cmp w xs) = sorted_runs cmp w (drop (2 * w) xs)"
      using drop_sorted_runs [OF less.prems, of cmp] by (simp add: mult_2 drop_drop [symmetric] del: drop_drop)
    moreover have "take w (drop w (sorted_runs cmp w xs)) = Sorting_Algorithms.sort cmp (take w (drop w xs))"
      by (simp add: drop_sorted_runs take_sorted_runs less.prems)
    moreover have "take w xs @ take w (drop w xs) = take (2 * w) xs" by (simp add: mult_2 take_add)
    ultimately show ?thesis
      using less False ne
      by (subst merge_pairs.simps, subst (2) sorted_runs.simps) (simp add: take_sorted_runs merge_sort_append)
  qed
qed

text \<open>A pass, and all passes.\<close>

lemma merge_pass_result:
  assumes "0 < width" "length current = len" "2 * len \<le> u64_max" "width < len" "start \<le> len"
  shows "merge_pass cmp active values current len width (2 * width) start st nxt = Some (Inl Interrupted) \<and> \<not> uninterrupted active \<or>
    (\<exists>st'. merge_pass cmp active values current len width (2 * width) start st nxt =
       Some (Inr (st', nxt @ merge_pairs (by_value cmp values) width (drop start current))))"
  using assms
proof (induction "len - start" arbitrary: start st nxt rule: less_induct)
  case less
  note unfold_pass = merge_pass.simps [of cmp active "values" current len width "2 * width" start st nxt]
  let ?middle = "min (saturating_add start width) len" and ?fin = "min (saturating_add start (2 * width)) len"
  show ?case
  proof (cases "start < len")
    case False
    with less.prems show ?thesis by (subst (1 2) unfold_pass) (simp add: merge_pairs.simps)
  next
    case True
    have middle: "?middle = min (start + width) len" and stop: "?fin = min (start + 2 * width) len"
      using less.prems by (auto simp: saturating_add_def)
    have slices: "run_slice start ?middle current = take width (drop start current)"
      "run_slice ?middle ?fin current = take width (drop width (drop start current))"
      "drop ?fin current = drop (2 * width) (drop start current)"
      using less.prems True unfolding run_slice_def middle stop
      by (auto simp: min_def add.commute mult_2 intro: take_all_iff [THEN iffD2])
    have pairs: "merge_pairs (by_value cmp values) width (drop start current) =
        Sorting_Algorithms.merge (by_value cmp values) (run_slice start ?middle current) (run_slice ?middle ?fin current) @
        merge_pairs (by_value cmp values) width (drop ?fin current)"
      unfolding slices using True less.prems by (subst merge_pairs.simps) simp
    have "merge_run cmp active values current ?middle ?fin start ?middle st nxt = Some (Inl Interrupted) \<and> \<not> uninterrupted active \<or>
      (\<exists>st'. merge_run cmp active values current ?middle ?fin start ?middle st nxt =
        Some (Inr (st', nxt @ Sorting_Algorithms.merge (by_value cmp values) (run_slice start ?middle current) (run_slice ?middle ?fin current))))"
      by (rule merge_run_result) (use less.prems in \<open>auto simp: saturating_add_def\<close>)
    then show ?thesis
    proof (elim disjE exE conjE)
      fix st'
      assume run: "merge_run cmp active values current ?middle ?fin start ?middle st nxt =
        Some (Inr (st', nxt @ Sorting_Algorithms.merge (by_value cmp values) (run_slice start ?middle current) (run_slice ?middle ?fin current)))"
      have "len - ?fin < len - start" using True less.prems by (auto simp: stop)
      from less.hyps [OF this less.prems(1-4), of st'
          "nxt @ Sorting_Algorithms.merge (by_value cmp values) (run_slice start ?middle current) (run_slice ?middle ?fin current)"]
      show ?thesis by (subst (1 2) unfold_pass) (use True run in \<open>simp add: pairs\<close>)
    next
      assume "merge_run cmp active values current ?middle ?fin start ?middle st nxt = Some (Inl Interrupted)" "\<not> uninterrupted active"
      then show ?thesis by (subst (1 2) unfold_pass) (use True in simp)
    qed
  qed
qed

lemma merge_passes_result:
  assumes "0 < width" "2 * len \<le> u64_max"
  shows "merge_passes cmp active values len width st (sorted_runs (by_value cmp values) width [0..<len]) = Some (Inl Interrupted) \<and> \<not> uninterrupted active \<or>
    (\<exists>st'. merge_passes cmp active values len width st (sorted_runs (by_value cmp values) width [0..<len]) =
       Some (Inr (st', Sorting_Algorithms.sort (by_value cmp values) [0..<len])))"
  using assms
proof (induction "len - width" arbitrary: width st rule: less_induct)
  case less
  let ?runs = "\<lambda>w. sorted_runs (by_value cmp values) w [0..<len]"
  note unfold_passes = merge_passes.simps [of cmp active "values" len width st "?runs width"]
  show ?case
  proof (cases "width < len")
    case False
    with less.prems show ?thesis by (subst (1 2) unfold_passes) (simp add: sorted_runs_wide)
  next
    case True
    have mul: "saturating_mul width 2 = 2 * width" using True less.prems by (simp add: saturating_mul_def)
    have "length (?runs width) = len" using less.prems by (simp add: length_sorted_runs)
    from merge_pass_result [OF less.prems(1) this less.prems(2) True le0, of cmp active "values" st "[]"]
    show ?thesis
    proof (elim disjE exE conjE)
      fix st'
      assume "merge_pass cmp active values (?runs width) len width (2 * width) 0 st [] =
        Some (Inr (st', [] @ merge_pairs (by_value cmp values) width (drop 0 (?runs width))))"
      then have run: "merge_pass cmp active values (?runs width) len width (2 * width) 0 st [] = Some (Inr (st', ?runs (2 * width)))"
        using less.prems by (simp add: merge_pairs_sorted_runs)
      have "len - 2 * width < len - width" using True less.prems by simp
      from less.hyps [OF this _ less.prems(2), of st'] less.prems
      show ?thesis by (subst (1 2) unfold_passes) (use True run in \<open>simp add: mul\<close>)
    qed (simp_all add: unfold_passes True mul)
  qed
qed

section \<open>Applying the permutation\<close>

text \<open>
  The destinations are a permutation, and every value's destination in the goal holds that value.
\<close>

definition destined :: "'a list \<Rightarrow> 'a list \<Rightarrow> usize list \<Rightarrow> bool" where
  "destined goal values nxt \<longleftrightarrow>
     length goal = length values \<and> length nxt = length values \<and> distinct nxt \<and>
     (\<forall>i<length values. nxt ! i < length values \<and> goal ! (nxt ! i) = values ! i)"

lemma length_swap_at [simp]: "length (swap_at i j xs) = length xs"
  by (simp add: swap_at_def)

lemma nth_swap_at:
  "\<lbrakk> i < length xs; j < length xs \<rbrakk> \<Longrightarrow> swap_at i j xs ! k = (if k = j then xs ! i else if k = i then xs ! j else xs ! k)"
  by (auto simp: swap_at_def nth_list_update)

lemma mset_swap_at: "\<lbrakk> i < length xs; j < length xs \<rbrakk> \<Longrightarrow> mset (swap_at i j xs) = mset xs"
  by (simp add: swap_at_def mset_swap)

lemma distinct_swap_at: "\<lbrakk> i < length xs; j < length xs \<rbrakk> \<Longrightarrow> distinct (swap_at i j xs) = distinct xs"
  by (simp add: swap_at_def)

lemma destined_swap:
  assumes "destined goal values nxt" "i < length values" "j < length values"
  shows "destined goal (swap_at i j values) (swap_at i j nxt)"
  using assms by (auto simp: destined_def distinct_swap_at nth_swap_at)

lemma destined_mset:
  assumes "destined goal values nxt"
  shows "mset values = mset goal"
proof -
  have nxt: "distinct nxt" "length nxt = length values" "length goal = length values"
    and at: "\<And>i. i < length values \<Longrightarrow> nxt ! i < length values \<and> goal ! (nxt ! i) = values ! i"
    using assms by (auto simp: destined_def)
  have "values = map (\<lambda>i. goal ! i) nxt" by (rule nth_equalityI) (use nxt at in auto)
  moreover have "set nxt = {0..<length goal}"
    using nxt at by (intro card_subset_eq) (auto simp: distinct_card in_set_conv_nth)
  then have "mset nxt = mset [0..<length goal]"
    using nxt by (metis distinct_upt mset_set_set set_upt)
  ultimately have "mset values = mset (map (\<lambda>i. goal ! i) [0..<length goal])"
    by (metis mset_map)
  then show ?thesis by (simp add: map_nth)
qed

lemma destined_all_fixed:
  assumes "destined goal values nxt" "\<And>i. i < length values \<Longrightarrow> nxt ! i = i"
  shows "values = goal"
  by (rule nth_equalityI) (use assms in \<open>auto simp: destined_def\<close>)

text \<open>The positions whose value is not in place: each swap puts one value in place and disturbs none.\<close>

definition misplaced :: "usize list \<Rightarrow> nat set" where
  "misplaced nxt = {i. i < length nxt \<and> nxt ! i \<noteq> i}"

lemma misplaced_swap:
  assumes "destined goal values nxt" "i < length values" "nxt ! i \<noteq> i"
  shows "misplaced (swap_at i (nxt ! i) nxt) \<subset> misplaced nxt"
proof -
  have nxt: "distinct nxt" "length nxt = length values" "nxt ! i < length values"
    using assms by (auto simp: destined_def)
  then have "nxt ! (nxt ! i) \<noteq> nxt ! i"
    using assms by (simp add: nth_eq_iff_index_eq)
  with assms nxt have "nxt ! i \<in> misplaced nxt" "nxt ! i \<notin> misplaced (swap_at i (nxt ! i) nxt)"
    by (auto simp: misplaced_def nth_swap_at)
  moreover have "misplaced (swap_at i (nxt ! i) nxt) \<subseteq> misplaced nxt"
    using assms nxt by (auto simp: misplaced_def nth_swap_at split: if_splits)
  ultimately show ?thesis by blast
qed

lemma finite_misplaced [simp]: "finite (misplaced nxt)"
  by (simp add: misplaced_def)

lemma follow_cycle_result:
  assumes "destined goal values nxt" "position < length values"
  shows "(\<exists>values'. follow_cycle active position st values nxt = Some (values', Inl Interrupted) \<and>
        mset values' = mset goal \<and> \<not> uninterrupted active) \<or>
    (\<exists>values' st' nxt'. follow_cycle active position st values nxt = Some (values', Inr (st', nxt')) \<and>
        destined goal values' nxt' \<and> position \<notin> misplaced nxt' \<and> misplaced nxt' \<subseteq> misplaced nxt)"
  using assms
proof (induction "card (misplaced nxt)" arbitrary: st "values" nxt rule: less_induct)
  case less
  note unfold_cycle = follow_cycle.simps [of active position st "values" nxt]
  show ?case
  proof (cases "nxt ! position = position")
    case True
    then have "follow_cycle active position st values nxt = Some (values, Inr (st, nxt))" by (subst unfold_cycle) simp
    with less.prems True show ?thesis by (auto simp: misplaced_def)
  next
    case False
    show ?thesis
    proof (cases rule: count_work_cases [of active st])
      case stop
      then have "follow_cycle active position st values nxt = Some (values, Inl Interrupted)"
        by (subst unfold_cycle) (use False in simp)
      with stop destined_mset [OF less.prems(1)] show ?thesis by auto
    next
      case (go st')
      let ?swap = "\<lambda>xs. swap_at position (nxt ! position) xs"
      have step: "follow_cycle active position st values nxt = follow_cycle active position st' (?swap values) (swap_at position (nxt ! position) nxt)"
        by (subst unfold_cycle) (use go False in simp)
      have d: "nxt ! position < length values" using less.prems by (auto simp: destined_def)
      note sub = misplaced_swap [OF less.prems False]
      have "card (misplaced (swap_at position (nxt ! position) nxt)) < card (misplaced nxt)"
        by (rule psubset_card_mono [OF finite_misplaced sub])
      from less.hyps [OF this destined_swap [OF less.prems d], of st'] less.prems sub
      show ?thesis unfolding step by simp blast
    qed
  qed
qed

lemma apply_cycles_result:
  assumes "destined goal values nxt" "set positions \<subseteq> {..<length values}" "misplaced nxt \<subseteq> set positions"
  shows "(\<exists>values'. apply_cycles active positions st values nxt = Some (values', Inl Interrupted) \<and>
        mset values' = mset goal \<and> \<not> uninterrupted active) \<or>
    (\<exists>st'. apply_cycles active positions st values nxt = Some (goal, Inr st'))"
  using assms
proof (induction positions arbitrary: st "values" nxt)
  case Nil
  then have "values = goal" by (intro destined_all_fixed) (auto simp: misplaced_def destined_def)
  then show ?case by simp
next
  case (Cons position rest)
  then have "position < length values" by simp
  from follow_cycle_result [OF Cons.prems(1) this, of active st] show ?case
  proof (elim disjE exE conjE)
    fix values' st' nxt'
    assume run: "follow_cycle active position st values nxt = Some (values', Inr (st', nxt'))"
      and d: "destined goal values' nxt'" and m: "position \<notin> misplaced nxt'" "misplaced nxt' \<subseteq> misplaced nxt"
    have "length values' = length values" using d Cons.prems(1) by (simp add: destined_def)
    with Cons.IH [OF d, of st'] m Cons.prems run show ?thesis by auto
  qed auto
qed

text \<open>Inverting the sorted indices gives the destinations.\<close>

lemma invert_result:
  assumes "distinct indices" "set indices \<subseteq> {..<length nxt}"
  shows "invert active k indices st nxt = Inl Interrupted \<and> \<not> uninterrupted active \<or>
    (\<exists>st' nxt'. invert active k indices st nxt = Inr (st', nxt') \<and> length nxt' = length nxt \<and>
       (\<forall>i<length indices. nxt' ! (indices ! i) = k + i) \<and> (\<forall>x. x \<notin> set indices \<longrightarrow> nxt' ! x = nxt ! x))"
  using assms
proof (induction indices arbitrary: k st nxt)
  case (Cons x indices)
  show ?case
  proof (cases rule: count_work_cases [of active st])
    case (go st')
    have "distinct indices" "set indices \<subseteq> {..<length (nxt[x := k])}" using Cons.prems by auto
    from Cons.IH [OF this, of "k + 1" st'] show ?thesis
    proof (elim disjE exE conjE)
      fix st'' nxt'
      assume run: "invert active (k + 1) indices st' (nxt[x := k]) = Inr (st'', nxt')" and len: "length nxt' = length (nxt[x := k])"
        and at: "\<forall>i<length indices. nxt' ! (indices ! i) = k + 1 + i" and other: "\<forall>y. y \<notin> set indices \<longrightarrow> nxt' ! y = nxt[x := k] ! y"
      have "\<forall>i<length (x # indices). nxt' ! ((x # indices) ! i) = k + i"
        using at other Cons.prems by (auto simp: nth_Cons split: nat.splits)
      moreover have "\<forall>y. y \<notin> set (x # indices) \<longrightarrow> nxt' ! y = nxt ! y" using other by simp
      ultimately show ?thesis using run len go by simp
    qed (use go in simp)
  qed simp
qed simp

lemma inverted_destined:
  assumes "distinct indices" "set indices = {..<length values}" "length nxt = length values"
    and "\<forall>i<length indices. nxt ! (indices ! i) = i"
  shows "destined (map (\<lambda>i. values ! i) indices) values nxt"
proof -
  have len: "length indices = length values" using assms(1,2) distinct_card by fastforce
  have source: "\<exists>k<length values. i = indices ! k \<and> nxt ! i = k" if "i < length values" for i
  proof -
    from that have "i \<in> set indices" using assms(2) by simp
    then show ?thesis using assms(4) len by (auto simp: in_set_conv_nth)
  qed
  have "distinct nxt"
    unfolding distinct_conv_nth using source assms(3) by metis
  moreover have "nxt ! i < length values \<and> map (\<lambda>i. values ! i) indices ! (nxt ! i) = values ! i" if "i < length values" for i
    using source [OF that] len by auto
  ultimately show ?thesis using assms(3) len unfolding destined_def by (metis length_map)
qed

section \<open>The routine sorts\<close>

lemma map_insort_key: "map f (insort (key f cmp) y xs) = insort cmp (f y) (map f xs)"
  by (induction xs) simp_all

lemma map_sort_key: "map f (Sorting_Algorithms.sort (key f cmp) xs) = Sorting_Algorithms.sort cmp (map f xs)"
  by (induction xs) (simp_all add: map_insort_key)

definition ISIZE_MAX :: usize where
  "ISIZE_MAX = 9223372036854775807"

text \<open>The part of the run after the merges.\<close>

lemma sorted_indices_destined:
  assumes "length nxt = length values"
    and "\<forall>i<length values. nxt ! (Sorting_Algorithms.sort (by_value cmp values) [0..<length values] ! i) = i"
  shows "destined (Sorting_Algorithms.sort cmp values) values nxt"
proof -
  let ?indices = "Sorting_Algorithms.sort (by_value cmp values) [0..<length values]"
  have "mset ?indices = mset [0..<length values]" by simp
  then have "distinct ?indices" by (metis distinct_upt mset_eq_imp_distinct_iff)
  moreover have "set ?indices = {..<length values}" by auto
  ultimately have "destined (map (\<lambda>i. values ! i) ?indices) values nxt"
    using assms by (intro inverted_destined) auto
  then show ?thesis by (simp add: map_sort_key map_nth)
qed

lemma stable_sort_long:
  assumes "active 0" "2 \<le> length values" "2 * length values \<le> u64_max" "first" "second"
  shows "(\<exists>values'. stable_sort_by_interruptible cmp active first second values = Some (values', Inl Interrupted) \<and>
        mset values' = mset values \<and> \<not> uninterrupted active) \<or>
    stable_sort_by_interruptible cmp active first second values = Some (Sorting_Algorithms.sort cmp values, Inr ())"
proof -
  let ?len = "length values" and ?goal = "Sorting_Algorithms.sort cmp values"
  let ?indices = "Sorting_Algorithms.sort (by_value cmp values) [0..<?len]"
  note def = stable_sort_by_interruptible_def
  have perm: "distinct ?indices" "set ?indices = {..<?len}" "length ?indices = ?len"
    using mset_eq_imp_distinct_iff [of ?indices "[0..<?len]"] by auto
  consider (pushed) st where "push_indices active [0..<?len] (0, 1) [] = Inr (st, [0..<?len])"
    | (stopped) "push_indices active [0..<?len] (0, 1) [] = Inl Interrupted" "\<not> uninterrupted active"
    using push_indices_result [of active "[0..<?len]" "(0, 1)" "[]"] by fastforce
  then show ?thesis
  proof cases
    case pushed
    consider (sorted) st' where "merge_passes cmp active values ?len 1 st [0..<?len] = Some (Inr (st', ?indices))"
      | (stopped) "merge_passes cmp active values ?len 1 st [0..<?len] = Some (Inl Interrupted)" "\<not> uninterrupted active"
      using merge_passes_result [of 1 ?len cmp active "values" st] assms by (auto simp: sorted_runs_one simp del: One_nat_def)
    then show ?thesis
    proof cases
      case sorted
      consider (inverted) st'' nxt where "invert active 0 ?indices st' (replicate ?len 0) = Inr (st'', nxt)" "length nxt = ?len"
          "\<forall>i<?len. nxt ! (?indices ! i) = i"
        | (stopped) "invert active 0 ?indices st' (replicate ?len 0) = Inl Interrupted" "\<not> uninterrupted active"
        using invert_result [of ?indices "replicate ?len 0" active 0 st'] perm by fastforce
      then show ?thesis
      proof cases
        case inverted
        note goal = sorted_indices_destined [OF inverted(2,3)]
        consider (moved) st3 where "apply_cycles active [0..<?len] st'' values nxt = Some (?goal, Inr st3)"
          | (stopped) values' where "apply_cycles active [0..<?len] st'' values nxt = Some (values', Inl Interrupted)"
              "mset values' = mset values" "\<not> uninterrupted active"
          using apply_cycles_result [OF goal, of "[0..<?len]" active st''] inverted by (fastforce simp: misplaced_def)
        then show ?thesis
        proof cases
          case moved
          then show ?thesis
            using assms pushed sorted inverted(1)
            by (cases "active (snd st3)") (auto simp: def uninterrupted_def Let_def simp del: split_paired_Ex)
        qed (use assms pushed sorted inverted(1) in \<open>auto simp: def Let_def\<close>)
      qed (use assms pushed sorted in \<open>simp add: def Let_def\<close>)
    qed (use assms pushed in \<open>simp add: def Let_def\<close>)
  qed (use assms in \<open>simp add: def Let_def\<close>)
qed

lemma interruptible_sort_correct:
  assumes "length values \<le> ISIZE_MAX"
  shows "\<exists>values' r. stable_sort_by_interruptible cmp active first second values = Some (values', r) \<and>
    mset values' = mset values \<and>
    (r = Inr () \<longrightarrow> values' = Sorting_Algorithms.sort cmp values) \<and>
    (r = Inl Allocation \<longrightarrow> values' = values \<and> \<not> (first \<and> second)) \<and>
    (r = Inl Interrupted \<longrightarrow> (\<exists>n. \<not> active n))"
proof -
  have bound: "2 * length values \<le> u64_max" using assms by (simp add: ISIZE_MAX_def u64_max_def)
  consider (stopped) "\<not> active 0" | (short) "active 0" "length values < 2"
    | (refused) "active 0" "2 \<le> length values" "\<not> (first \<and> second)"
    | (long) "active 0" "2 \<le> length values" "first" "second"
    by linarith
  then show ?thesis
  proof cases
    case stopped
    then show ?thesis by (auto simp: stable_sort_by_interruptible_def)
  next
    case short
    then have "Sorting_Algorithms.sort cmp values = values" by (cases "values" rule: remdups_adj.cases) auto
    with short show ?thesis by (simp add: stable_sort_by_interruptible_def)
  next
    case refused
    then show ?thesis
      using push_indices_result [of active "[0..<length values]" "(0, 1)" "[]"]
      by (auto simp: stable_sort_by_interruptible_def uninterrupted_def Let_def)
  next
    case long
    from stable_sort_long [of active "values" "first" "second" cmp] bound long show ?thesis
      by (auto simp: uninterrupted_def)
  qed
qed

text \<open>
  Claim C14.  The interruptible sort of a slice always returns, whatever the answers to its
  interruption checks.  The slice is then a permutation of what it was.  When the routine reports
  success, the slice is the stable sort of its old content.  It reports a failed allocation only
  when a buffer could not be reserved, and then the slice is untouched.  It reports an
  interruption only when some check was answered with it, so without interruptions and with
  memory it succeeds.
\<close>
theorem interruptible_sort_exact:
  assumes "length values \<le> ISIZE_MAX"
  shows "\<exists>values' r. stable_sort_by_interruptible cmp active first second values = Some (values', r) \<and>
    mset values' = mset values \<and>
    (r = Inr () \<longrightarrow> values' = Sorting_Algorithms.sort cmp values) \<and>
    (r = Inl Allocation \<longrightarrow> values' = values \<and> \<not> (first \<and> second)) \<and>
    (r = Inl Interrupted \<longrightarrow> (\<exists>n. \<not> active n))"
  using assms by (rule interruptible_sort_correct)

theorem interruptible_sort_exact_witness:
  "\<exists>values' r. stable_sort_by_interruptible (default :: nat comparator) (\<lambda>n. True) True True [3, 1, 2] = Some (values', r) \<and>
    values' = [1, 2, 3] \<and> r = Inr ()"
proof -
  have "length [3, 1, 2 :: nat] \<le> ISIZE_MAX" by (simp add: ISIZE_MAX_def)
  from interruptible_sort_exact [OF this, of default "\<lambda>n. True" True True]
  obtain values' r where run: "stable_sort_by_interruptible (default :: nat comparator) (\<lambda>n. True) True True [3, 1, 2] = Some (values', r)"
    and sorted: "r = Inr () \<Longrightarrow> values' = Sorting_Algorithms.sort default [3, 1, 2]"
    and failures: "r \<noteq> Inl Allocation" "r \<noteq> Inl Interrupted"
    by auto
  have "r = Inr ()"
  proof (cases r)
    case (Inl e)
    with failures show ?thesis by (cases e) auto
  qed simp
  with run sorted show ?thesis by simp
qed

end
