(* ===== verification/Upload_Protocol.thy ===== *)
theory Upload_Protocol
  imports Operation_Registry
begin

text \<open>
  The wire protocol of uploads: the headers of an upload request (\<^verbatim>\<open>src/server/upload/protocol.rs\<close>) and
  the revision of an upload target (\<^verbatim>\<open>src/server/upload/target.rs\<close>, with the identity of a target from
  \<^verbatim>\<open>src/server/rooted_fs.rs\<close>).  The lemmas show that every accepted header is the canonical text of
  its value, when a request may replace an existing file, and what a revision pins down.

  SHA-256 and the uuid crate are arguments.
\<close>

section \<open>Target revisions\<close>

text \<open>\<^verbatim>\<open>to_be_bytes\<close> of a signed and of a 32-bit integer.\<close>

definition i64_to_be_bytes :: "i64 \<Rightarrow> blob" where
  "i64_to_be_bytes i = u64_to_be_bytes (nat (i mod (int u64_max + 1)))"

definition u32_to_be_bytes :: "nat \<Rightarrow> blob" where
  "u32_to_be_bytes n = be_bytes 4 n"

datatype FileType =
    RegularFile | Directory | Symlink | BlockDevice | CharacterDevice | Fifo | Socket | UnknownType

record ExistingReplacementTarget =
  rt_device :: u64
  rt_inode :: u64
  rt_file_type :: FileType
  rt_links :: u64
  rt_size :: i64
  rt_uid :: nat
  rt_gid :: nat
  rt_mode :: nat
  rt_modified_seconds :: i64
  rt_modified_nanoseconds :: u64
  rt_changed_seconds :: i64
  rt_changed_nanoseconds :: u64

datatype ReplacementTargetIdentity = Missing | Existing ExistingReplacementTarget

fun identity_exists :: "ReplacementTargetIdentity \<Rightarrow> bool" where
  "identity_exists Missing = False"
| "identity_exists (Existing _) = True"

record DeleteIdentity =
  di_device :: u64
  di_inode :: u64
  di_is_directory :: bool

fun delete_identity :: "ReplacementTargetIdentity \<Rightarrow> DeleteIdentity option" where
  "delete_identity Missing = None"
| "delete_identity (Existing target) =
     Some \<lparr> di_device = rt_device target, di_inode = rt_inode target,
            di_is_directory = (rt_file_type target = Directory) \<rparr>"

fun is_replaceable :: "ReplacementTargetIdentity \<Rightarrow> bool" where
  "is_replaceable Missing = True"
| "is_replaceable (Existing target) =
     (case rt_file_type target of
        Symlink \<Rightarrow> True
      | RegularFile \<Rightarrow> rt_links target = 1 \<and> and (rt_mode target) 3072 = 0
      | _ \<Rightarrow> False)"

fun file_type_revision_tag :: "FileType \<Rightarrow> blob" where
  "file_type_revision_tag RegularFile = [CHR 0x01]"
| "file_type_revision_tag Directory = [CHR 0x02]"
| "file_type_revision_tag Symlink = [CHR 0x03]"
| "file_type_revision_tag BlockDevice = [CHR 0x04]"
| "file_type_revision_tag CharacterDevice = [CHR 0x05]"
| "file_type_revision_tag Fifo = [CHR 0x06]"
| "file_type_revision_tag Socket = [CHR 0x07]"
| "file_type_revision_tag UnknownType = [CHR 0xFF]"

text \<open>What the identity feeds to a digest.\<close>

fun update_revision_digest :: "ReplacementTargetIdentity \<Rightarrow> blob" where
  "update_revision_digest Missing = [CHR 0x00]"
| "update_revision_digest (Existing target) =
     [CHR 0x01] @ u64_to_be_bytes (rt_device target) @ u64_to_be_bytes (rt_inode target) @
     file_type_revision_tag (rt_file_type target) @ u64_to_be_bytes (rt_links target) @
     i64_to_be_bytes (rt_size target) @ u32_to_be_bytes (rt_uid target) @ u32_to_be_bytes (rt_gid target) @
     u32_to_be_bytes (rt_mode target) @ i64_to_be_bytes (rt_modified_seconds target) @
     u64_to_be_bytes (rt_modified_nanoseconds target) @ i64_to_be_bytes (rt_changed_seconds target) @
     u64_to_be_bytes (rt_changed_nanoseconds target)"

definition purge_revision :: "(string \<Rightarrow> blob) \<Rightarrow> ReplacementTargetIdentity \<Rightarrow> blob" where
  "purge_revision sha identity = sha (''dufs-purge-trash-revision-v1'' @ [CHR 0x00] @ update_revision_digest identity)"

definition target_preimage :: "blob \<Rightarrow> string \<Rightarrow> ReplacementTargetIdentity \<Rightarrow> blob" where
  "target_preimage owner_id path identity =
     ''dufs-upload-target-revision-v1'' @ [CHR 0x00] @ owner_id @ u64_to_be_bytes (length path) @ path @
     update_revision_digest identity"

definition target_revision :: "(string \<Rightarrow> blob) \<Rightarrow> blob \<Rightarrow> string \<Rightarrow> ReplacementTargetIdentity \<Rightarrow> blob option" where
  "target_revision sha owner_id path identity =
     (if \<not> identity_exists identity then None else Some (sha (target_preimage owner_id path identity)))"

record UploadTargetInspection =
  ti_exists :: bool
  ti_replaceable :: bool
  ti_revision :: "blob option"

definition inspect_target_identity ::
  "(string \<Rightarrow> blob) \<Rightarrow> blob \<Rightarrow> string \<Rightarrow> ReplacementTargetIdentity \<Rightarrow> UploadTargetInspection"
where
  "inspect_target_identity sha owner_id path identity =
     \<lparr> ti_exists = identity_exists identity, ti_replaceable = is_replaceable identity,
       ti_revision = target_revision sha owner_id path identity \<rparr>"

section \<open>Headers\<close>

definition RESUMABLE_UPLOAD_MIN_SIZE :: u64 where "RESUMABLE_UPLOAD_MIN_SIZE = 20971520"
definition UPLOAD_ID_HEADER :: string where "UPLOAD_ID_HEADER = ''x-dufs-upload-id''"
definition UPLOAD_LENGTH_HEADER :: string where "UPLOAD_LENGTH_HEADER = ''x-dufs-upload-length''"
definition UPLOAD_OFFSET_HEADER :: string where "UPLOAD_OFFSET_HEADER = ''x-dufs-upload-offset''"
definition UPLOAD_OVERWRITE_HEADER :: string where "UPLOAD_OVERWRITE_HEADER = ''x-dufs-upload-overwrite''"
definition TARGET_REVISION_HEADER :: string where "TARGET_REVISION_HEADER = ''x-dufs-target-revision''"
definition TARGET_REPLACEABLE_HEADER :: string where "TARGET_REPLACEABLE_HEADER = ''x-dufs-target-replaceable''"

lemmas upload_header_defs =
  UPLOAD_ID_HEADER_def UPLOAD_LENGTH_HEADER_def UPLOAD_OFFSET_HEADER_def UPLOAD_OVERWRITE_HEADER_def
  TARGET_REVISION_HEADER_def TARGET_REPLACEABLE_HEADER_def OPERATION_STATE_HEADER_def

definition encode_revision :: "blob \<Rightarrow> string" where
  "encode_revision revision = encode_hex (map of_char revision)"

definition parse_revision :: "string \<Rightarrow> blob option" where
  "parse_revision value =
     (if length value = 64 \<and> list_all (\<lambda>byte. is_ascii_digit byte \<or> CHR ''a'' \<le> byte \<and> byte \<le> CHR ''f'') value then
        (case decode_hex_to_slice value (replicate 32 0) of
           (True, revision) \<Rightarrow> Some (map (\<lambda>b. char_of (unat b)) revision)
         | (False, _) \<Rightarrow> None)
      else None)"

definition apply_target_inspection_headers ::
  "http \<Rightarrow> UploadTargetInspection \<Rightarrow> Response \<Rightarrow> render_error + Response"
where
  "apply_target_inspection_headers H inspection res =
     (case (case ti_revision inspection of
              Some revision \<Rightarrow>
                if header_value H (encode_revision revision)
                then Inr (header_insert TARGET_REVISION_HEADER (encode_revision revision) res)
                else Inl InvalidHeaderValue
            | None \<Rightarrow> Inr (header_remove TARGET_REVISION_HEADER res)) of
        Inl e \<Rightarrow> Inl e
      | Inr res \<Rightarrow>
          Inr (header_insert TARGET_REPLACEABLE_HEADER (if ti_replaceable inspection then ''true'' else ''false'') res))"

datatype UploadOverwritePolicy = NoReplace | IfUnchanged blob

datatype UploadOverwriteParseError = UploadOverwrite string | TargetRevisionError string

fun policy_revision :: "UploadOverwritePolicy \<Rightarrow> blob option" where
  "policy_revision NoReplace = None"
| "policy_revision (IfUnchanged revision) = Some revision"

datatype UploadMode = Fresh | Resume u64

fun mode_offset :: "UploadMode \<Rightarrow> u64 option" where
  "mode_offset Fresh = None"
| "mode_offset (Resume offset) = Some offset"

fun is_resume :: "UploadMode \<Rightarrow> bool" where
  "is_resume Fresh = False"
| "is_resume (Resume _) = True"

definition insert_number_header :: "http \<Rightarrow> string \<Rightarrow> u64 option \<Rightarrow> Response \<Rightarrow> render_error + Response" where
  "insert_number_header H name number res =
     (case number of
        None \<Rightarrow> Inr res
      | Some n \<Rightarrow>
          if header_value H (u64_to_string n) then Inr (header_insert name (u64_to_string n) res)
          else Inl InvalidHeaderValue)"

definition apply_upload_record_headers ::
  "http \<Rightarrow> uuid_ops \<Rightarrow> blob \<Rightarrow> u64 option \<Rightarrow> u64 option \<Rightarrow> UploadPublicState \<Rightarrow> Response \<Rightarrow> render_error + Response"
where
  "apply_upload_record_headers H U uuid len offset state res =
     (if \<not> header_value H (hyphenated U uuid) then Inl InvalidIdHeader
      else
        let res = header_insert UPLOAD_ID_HEADER (hyphenated U uuid) res;
            res = header_insert OPERATION_STATE_HEADER (upload_wire_name state) res
        in case insert_number_header H UPLOAD_LENGTH_HEADER len res of
             Inl e \<Rightarrow> Inl e
           | Inr res \<Rightarrow> insert_number_header H UPLOAD_OFFSET_HEADER offset res)"

definition unique_upload_header :: "(string \<times> string) list \<Rightarrow> string \<Rightarrow> string + string option" where
  "unique_upload_header headers name =
     (case header_values name headers of
        [] \<Rightarrow> Inr None
      | [first] \<Rightarrow> Inr (Some first)
      | _ \<Rightarrow> Inl (''Duplicate '' @ name @ '' header''))"

definition upload_id_byte :: "nat \<Rightarrow> char \<Rightarrow> bool" where
  "upload_id_byte index byte =
     (if index \<in> {8, 13, 18, 23} then byte = CHR ''-''
      else is_ascii_digit byte \<or> CHR ''a'' \<le> byte \<and> byte \<le> CHR ''f'')"

definition parse_upload_id :: "uuid_ops \<Rightarrow> (string \<times> string) list \<Rightarrow> string + blob option" where
  "parse_upload_id U headers =
     (case unique_upload_header headers UPLOAD_ID_HEADER of
        Inl e \<Rightarrow> Inl e
      | Inr None \<Rightarrow> Inr None
      | Inr (Some value) \<Rightarrow>
          (case header_to_str value of
             None \<Rightarrow> Inl (''Invalid '' @ UPLOAD_ID_HEADER @ '' header'')
           | Some value \<Rightarrow>
               if length value \<noteq> 36 \<or> \<not> list_all (\<lambda>(index, byte). upload_id_byte index byte) (enumerate 0 value)
               then Inl (''Invalid '' @ UPLOAD_ID_HEADER @ '' header: expected a lowercase canonical UUID'')
               else (case parse_str U value of
                       None \<Rightarrow> Inl (''Invalid '' @ UPLOAD_ID_HEADER @ '' header'')
                     | Some uuid \<Rightarrow> Inr (Some uuid))))"

definition parse_canonical_u64 :: "string \<Rightarrow> string \<Rightarrow> string + u64" where
  "parse_canonical_u64 value name =
     (case header_to_str value of
        None \<Rightarrow> Inl (''Invalid '' @ name @ '' header'')
      | Some value \<Rightarrow>
          if value = [] \<or> \<not> list_all is_ascii_digit value \<or> 1 < length value \<and> hd value = CHR ''0''
          then Inl (''Invalid '' @ name @ '' header: expected canonical unsigned decimal digits'')
          else (case parse_u64 value of
                  None \<Rightarrow> Inl (''Invalid '' @ name @ '' header'')
                | Some n \<Rightarrow> Inr n))"

definition parse_upload_number :: "string \<Rightarrow> (string \<times> string) list \<Rightarrow> string + u64 option" where
  "parse_upload_number name headers =
     (case unique_upload_header headers name of
        Inl e \<Rightarrow> Inl e
      | Inr None \<Rightarrow> Inr None
      | Inr (Some value) \<Rightarrow> (case parse_canonical_u64 value name of Inl e \<Rightarrow> Inl e | Inr n \<Rightarrow> Inr (Some n)))"

definition parse_upload_length :: "(string \<times> string) list \<Rightarrow> string + u64 option" where
  "parse_upload_length headers = parse_upload_number UPLOAD_LENGTH_HEADER headers"

definition parse_upload_offset :: "(string \<times> string) list \<Rightarrow> string + u64 option" where
  "parse_upload_offset headers = parse_upload_number UPLOAD_OFFSET_HEADER headers"

definition parse_upload_overwrite :: "(string \<times> string) list \<Rightarrow> UploadOverwriteParseError + UploadOverwritePolicy" where
  "parse_upload_overwrite headers =
     (case unique_upload_header headers UPLOAD_OVERWRITE_HEADER of
        Inl e \<Rightarrow> Inl (UploadOverwrite e)
      | Inr overwrite \<Rightarrow>
          (case unique_upload_header headers TARGET_REVISION_HEADER of
             Inl e \<Rightarrow> Inl (TargetRevisionError e)
           | Inr revision \<Rightarrow>
               if overwrite = None \<or> overwrite = Some ''false'' then
                 if revision \<noteq> None then
                   Inl (TargetRevisionError (''The '' @ TARGET_REVISION_HEADER @ '' header requires '' @ UPLOAD_OVERWRITE_HEADER @ '': true''))
                 else Inr NoReplace
               else if overwrite = Some ''true'' then
                 (case revision of
                    None \<Rightarrow>
                      Inl (TargetRevisionError (''The '' @ TARGET_REVISION_HEADER @ '' header is required when '' @ UPLOAD_OVERWRITE_HEADER @ '' is true''))
                  | Some revision \<Rightarrow>
                      (case Option.bind (header_to_str revision) parse_revision of
                         None \<Rightarrow>
                           Inl (TargetRevisionError (''Invalid '' @ TARGET_REVISION_HEADER @ '' header: expected 64 lowercase hexadecimal characters''))
                       | Some revision \<Rightarrow> Inr (IfUnchanged revision)))
               else Inl (UploadOverwrite (''Invalid '' @ UPLOAD_OVERWRITE_HEADER @ '' header: expected true or false''))))"

section \<open>Canonical texts\<close>

lemma digits_value_snoc: "digits_value (w @ [c]) = digits_value w * 10 + (of_char c - 48)"
  by (simp add: digits_value_def)

lemma digit_value:
  assumes "is_ascii_digit c"
  shows "(of_char c :: nat) - 48 < 10" "char_of (48 + ((of_char c :: nat) - 48)) = c" "c \<noteq> CHR ''0'' \<Longrightarrow> 0 < (of_char c :: nat) - 48"
proof -
  have c: "48 \<le> (of_char c :: nat)" "(of_char c :: nat) \<le> 57"
    using assms by (auto simp: is_ascii_digit_def less_eq_char_def)
  then show "(of_char c :: nat) - 48 < 10" "char_of (48 + ((of_char c :: nat) - 48)) = c" by auto
  show "0 < (of_char c :: nat) - 48" if "c \<noteq> CHR ''0''"
  proof (rule ccontr)
    assume "\<not> 0 < (of_char c :: nat) - 48"
    with c have "(of_char c :: nat) = of_char (CHR ''0'')" by simp
    with that show False by (simp only: of_char_eq_iff)
  qed
qed

lemma digits_value_pos:
  "\<lbrakk> w \<noteq> []; list_all is_ascii_digit w; hd w \<noteq> CHR ''0'' \<rbrakk> \<Longrightarrow> 0 < digits_value w"
proof (induction w rule: rev_induct)
  case (snoc c w)
  then show ?case
  proof (cases "w = []")
    case True
    with snoc.prems digit_value(3) [of c] show ?thesis by (simp add: digits_value_def)
  qed (simp add: digits_value_snoc)
qed simp

lemma u64_to_string_canonical:
  "\<lbrakk> v \<noteq> []; list_all is_ascii_digit v; 1 < length v \<longrightarrow> hd v \<noteq> CHR ''0'' \<rbrakk> \<Longrightarrow> u64_to_string (digits_value v) = v"
proof (induction v rule: rev_induct)
  case (snoc c w)
  then have c: "is_ascii_digit c" by simp
  show ?case
  proof (cases "w = []")
    case True
    then show ?thesis using digit_value [OF c] by (subst u64_to_string.simps) (simp add: digits_value_def)
  next
    case False
    with snoc.prems have w: "list_all is_ascii_digit w" "hd w \<noteq> CHR ''0''" by auto
    from digits_value_pos [OF False w] have "10 \<le> digits_value w * 10 + (of_char c - 48)" by simp
    then show ?thesis
      using snoc.IH [OF False w(1)] w(2) digit_value [OF c]
      by (subst u64_to_string.simps) (simp add: digits_value_snoc)
  qed
qed simp

lemma u64_to_string_hd: "1 < length (u64_to_string n) \<Longrightarrow> hd (u64_to_string n) \<noteq> CHR ''0''"
proof (induction n rule: u64_to_string.induct)
  case (1 n)
  show ?case
  proof (cases "n < 10")
    case True
    with 1 show ?thesis by (simp add: u64_to_string.simps [of n])
  next
    case False
    have ne: "u64_to_string (n div 10) \<noteq> []" using u64_to_string_digits by blast
    have "hd (u64_to_string (n div 10)) \<noteq> CHR ''0''"
    proof (cases "n div 10 < 10")
      case True
      have "char_of (48 + n div 10) \<noteq> CHR ''0''"
      proof
        assume "char_of (48 + n div 10) = CHR ''0''"
        then have "(of_char (char_of (48 + n div 10) :: char) :: nat) = of_char (CHR ''0'')" by simp
        with True False show False by (simp add: of_char_of)
      qed
      with True show ?thesis by (simp add: u64_to_string.simps [of "n div 10"])
    next
      case big: False
      have "1 < length (u64_to_string (n div 10))"
        using big u64_to_string_digits [of "n div 10 div 10"] by (subst u64_to_string.simps) (cases "u64_to_string (n div 10 div 10)", auto)
      with 1(1) [OF False] show ?thesis .
    qed
    with ne False show ?thesis by (subst u64_to_string.simps) simp
  qed
qed

lemma u64_to_string_inj: "u64_to_string m = u64_to_string n \<longleftrightarrow> m = n"
  using u64_to_string_digits by metis

lemma parse_canonical_u64_iff:
  "parse_canonical_u64 value name = Inr n \<longleftrightarrow> n \<le> u64_max \<and> value = u64_to_string n"
proof
  assume parsed: "parse_canonical_u64 value name = Inr n"
  then have v: "value \<noteq> []" "list_all is_ascii_digit value" "1 < length value \<longrightarrow> hd value \<noteq> CHR ''0''" "parse_u64 value = Some n"
    by (auto simp: parse_canonical_u64_def header_to_str_def split: option.splits if_splits)
  from v have "hd value \<noteq> CHR ''+''" by (cases "value") (auto dest: digit_neq_sign)
  with v have "n = digits_value value" by (auto simp: parse_u64_def Let_def split: if_splits list.splits)
  with u64_to_string_canonical [OF v(1-3)] parse_u64_bound [OF v(4)] show "n \<le> u64_max \<and> value = u64_to_string n" by simp
next
  assume n: "n \<le> u64_max \<and> value = u64_to_string n"
  have "list_all (\<lambda>c. c = CHR 0x09 \<or> 32 \<le> (of_char c :: nat) \<and> (of_char c :: nat) < 127) (u64_to_string n)"
    using digits_visible [of n] by (auto simp: list_all_iff)
  with n u64_to_string_digits [of n] u64_to_string_hd [of n] show "parse_canonical_u64 value name = Inr n"
    by (auto simp: parse_canonical_u64_def header_to_str_def)
qed

lemma unique_upload_header_iff:
  "unique_upload_header headers name = Inr (Some v) \<longleftrightarrow> header_values name headers = [v]"
  "unique_upload_header headers name = Inr None \<longleftrightarrow> header_values name headers = []"
  by (auto simp: unique_upload_header_def split: list.splits)

lemma lower_hex_no_upper: "list_all (\<lambda>byte. is_ascii_digit byte \<or> CHR ''a'' \<le> byte \<and> byte \<le> CHR ''f'') v \<Longrightarrow> map to_ascii_lower v = v"
  by (induction v) (auto simp: to_ascii_lower_def is_ascii_digit_def less_eq_char_def)

lemma word_of_byte: "(of_char (char_of (unat b) :: char) :: 8 word) = b"
proof -
  have "unat b < 256" using unsigned_less [of b] by simp
  then have "(of_nat (of_char (char_of (unat b) :: char)) :: 8 word) = b" by (simp add: of_char_of)
  then show ?thesis by (simp only: of_nat_of_char)
qed

lemma parse_revision_iff:
  "parse_revision value = Some revision \<longleftrightarrow> length revision = 32 \<and> value = encode_revision revision"
proof
  let ?out = "replicate 32 0 :: 8 word list"
  have bound: "2 * length ?out \<le> u64_max" by (simp add: u64_max_def)
  assume parsed: "parse_revision value = Some revision"
  then obtain ws where v: "length value = 64" "list_all (\<lambda>byte. is_ascii_digit byte \<or> CHR ''a'' \<le> byte \<and> byte \<le> CHR ''f'') value"
    "decode_hex_to_slice value ?out = (True, ws)" "revision = map (\<lambda>b. char_of (unat b)) ws"
    by (auto simp: parse_revision_def split: if_splits prod.splits bool.splits)
  have "length ws = 32"
    using v(3) decode_hex_pairs_length [of "map of_char value" ?out]
    by (auto simp: decode_hex_to_slice_def simp del: decode_hex_pairs_length split: if_splits)
  moreover have "encode_hex ws = value"
    using hex_codec_exact [OF bound, of "value" "[]"] v(3) lower_hex_no_upper [OF v(2)] by simp
  moreover have "map of_char revision = ws"
    by (simp add: v(4) comp_def word_of_byte)
  ultimately show "length revision = 32 \<and> value = encode_revision revision" by (auto simp: encode_revision_def v(4))
next
  assume r: "length revision = 32 \<and> value = encode_revision revision"
  then show "parse_revision value = Some revision"
    using encode_hex_lower [of "map of_char revision"]
    by (simp add: parse_revision_def encode_revision_def is_lower_hex_def [abs_def] length_encode_hex decode_hex_to_slice_def
        saturating_mul_def u64_max_def decode_hex_pairs_encode unat_of_char comp_def)
qed

lemma encode_revision_visible: "list_all (\<lambda>c. c = CHR 0x09 \<or> 32 \<le> (of_char c :: nat) \<and> (of_char c :: nat) < 127) (encode_revision revision)"
  using encode_hex_lower [of "map of_char revision"]
  by (auto simp: encode_revision_def list_all_iff is_lower_hex_def is_ascii_digit_def less_eq_char_def)

lemma parse_upload_number_iff:
  "parse_upload_number name headers = Inr number \<longleftrightarrow>
     (case number of None \<Rightarrow> header_values name headers = []
      | Some n \<Rightarrow> n \<le> u64_max \<and> header_values name headers = [u64_to_string n])"
proof (cases "header_values name headers")
  case (Cons v vs)
  then show ?thesis
  proof (cases "vs = [] \<and> (\<exists>n. n \<le> u64_max \<and> v = u64_to_string n)")
    case True
    then obtain n where n: "n \<le> u64_max" "v = u64_to_string n" by blast
    then have "parse_canonical_u64 v name = Inr n" by (simp add: parse_canonical_u64_iff)
    with Cons True n show ?thesis
      by (auto simp: parse_upload_number_def unique_upload_header_def u64_to_string_inj split: option.splits)
  next
    case False
    then have "vs \<noteq> [] \<or> (\<exists>e. parse_canonical_u64 v name = Inl e)"
      using parse_canonical_u64_iff [of v name] by (cases "parse_canonical_u64 v name") auto
    with Cons False show ?thesis
      by (auto simp: parse_upload_number_def unique_upload_header_def split: option.splits list.splits)
  qed
qed (auto simp: parse_upload_number_def unique_upload_header_def split: option.splits)

lemma revision_header_iff:
  "Option.bind (header_to_str v) parse_revision = Some revision \<longleftrightarrow> length revision = 32 \<and> v = encode_revision revision"
proof (cases "header_to_str v")
  case None
  then have "v \<noteq> encode_revision revision" using encode_revision_visible [of revision] by (auto simp: header_to_str_def)
  with None show ?thesis by simp
next
  case (Some w)
  then have "w = v" by (simp add: header_to_str_def split: if_splits)
  with Some show ?thesis by (simp add: parse_revision_iff)
qed

lemma parse_if_unchanged_iff:
  "parse_upload_overwrite headers = Inr (IfUnchanged revision) \<longleftrightarrow>
     header_values UPLOAD_OVERWRITE_HEADER headers = [''true''] \<and> length revision = 32 \<and>
     header_values TARGET_REVISION_HEADER headers = [encode_revision revision]"
proof (cases "\<exists>v. header_values UPLOAD_OVERWRITE_HEADER headers = [''true''] \<and> header_values TARGET_REVISION_HEADER headers = [v]")
  case True
  then obtain v where v: "header_values UPLOAD_OVERWRITE_HEADER headers = [''true'']" "header_values TARGET_REVISION_HEADER headers = [v]" by blast
  then have "parse_upload_overwrite headers = Inr (IfUnchanged revision) \<longleftrightarrow> Option.bind (header_to_str v) parse_revision = Some revision"
    by (simp add: parse_upload_overwrite_def unique_upload_header_def split: option.splits)
  then show ?thesis by (simp add: v revision_header_iff)
next
  case False
  then have "parse_upload_overwrite headers \<noteq> Inr (IfUnchanged revision)"
    by (auto simp: parse_upload_overwrite_def unique_upload_header_def split: list.splits if_splits)
  with False show ?thesis by blast
qed

section \<open>What a revision pins down\<close>

text \<open>The ranges of the fields of an identity, which their integer types give.\<close>

definition identity_ok :: "ReplacementTargetIdentity \<Rightarrow> bool" where
  "identity_ok identity =
     (case identity of
        Missing \<Rightarrow> True
      | Existing t \<Rightarrow>
          rt_device t \<le> u64_max \<and> rt_inode t \<le> u64_max \<and> rt_links t \<le> u64_max \<and> in_i64 (rt_size t) \<and>
          rt_uid t \<le> u32_max \<and> rt_gid t \<le> u32_max \<and> rt_mode t \<le> u32_max \<and>
          in_i64 (rt_modified_seconds t) \<and> rt_modified_nanoseconds t \<le> u64_max \<and>
          in_i64 (rt_changed_seconds t) \<and> rt_changed_nanoseconds t \<le> u64_max)"

lemma length_fixed_bytes [simp]: "length (i64_to_be_bytes i) = 8" "length (u32_to_be_bytes n) = 4" "length (file_type_revision_tag ft) = 1"
  by (simp_all add: i64_to_be_bytes_def u32_to_be_bytes_def) (cases ft, simp_all)

lemma i64_to_be_bytes_inj:
  assumes "in_i64 i" "in_i64 j" "i64_to_be_bytes i = i64_to_be_bytes j"
  shows "i = j"
proof -
  define m :: int where "m = int u64_max + 1"
  have m: "0 < m" by (simp add: m_def)
  have bound: "0 \<le> k mod m" "nat (k mod m) \<le> u64_max" for k
    using pos_mod_sign [OF m, of k] pos_mod_bound [OF m, of k] by (simp_all add: m_def nat_le_iff)
  from assms(3) have "nat (i mod m) = nat (j mod m)"
    unfolding i64_to_be_bytes_def m_def [symmetric] by (rule u64_to_be_bytes_inj [OF bound(2) bound(2)])
  then have "m dvd i - j" using bound(1) by (simp add: mod_eq_dvd_iff nat_eq_iff2 dvd_diff_commute)
  moreover have "\<bar>i - j\<bar> < m"
    using assms(1,2) unfolding in_i64_def i64_max_def i64_min_def m_def u64_max_def by linarith
  ultimately show ?thesis using dvd_imp_le_int [of "i - j" m] m by (cases "i - j = 0") simp_all
qed

lemma u32_to_be_bytes_inj:
  assumes "m \<le> u32_max" "n \<le> u32_max" "u32_to_be_bytes m = u32_to_be_bytes n"
  shows "m = n"
proof -
  have "u64_from_be_bytes (be_bytes 4 k) = k" if "k \<le> u32_max" for k
    using that unfolding from_be_bytes_be_bytes by (intro mod_less) (simp add: u32_max_def)
  with assms show ?thesis unfolding u32_to_be_bytes_def by metis
qed

lemma file_type_revision_tag_inj: "file_type_revision_tag a = file_type_revision_tag b \<Longrightarrow> a = b"
  by (cases a; cases b) simp_all

lemma update_revision_digest_inj:
  assumes "identity_ok a" "identity_ok b" "update_revision_digest a = update_revision_digest b"
  shows "a = b"
proof (cases a; cases b)
  fix s t
  assume ab: "a = Existing s" "b = Existing t"
  note bytes = assms(3) [unfolded ab update_revision_digest.simps]
  have "u64_to_be_bytes (rt_device s) = u64_to_be_bytes (rt_device t)" "u64_to_be_bytes (rt_inode s) = u64_to_be_bytes (rt_inode t)"
    "file_type_revision_tag (rt_file_type s) = file_type_revision_tag (rt_file_type t)"
    "u64_to_be_bytes (rt_links s) = u64_to_be_bytes (rt_links t)" "i64_to_be_bytes (rt_size s) = i64_to_be_bytes (rt_size t)"
    "u32_to_be_bytes (rt_uid s) = u32_to_be_bytes (rt_uid t)" "u32_to_be_bytes (rt_gid s) = u32_to_be_bytes (rt_gid t)"
    "u32_to_be_bytes (rt_mode s) = u32_to_be_bytes (rt_mode t)"
    "i64_to_be_bytes (rt_modified_seconds s) = i64_to_be_bytes (rt_modified_seconds t)"
    "u64_to_be_bytes (rt_modified_nanoseconds s) = u64_to_be_bytes (rt_modified_nanoseconds t)"
    "i64_to_be_bytes (rt_changed_seconds s) = i64_to_be_bytes (rt_changed_seconds t)"
    "u64_to_be_bytes (rt_changed_nanoseconds s) = u64_to_be_bytes (rt_changed_nanoseconds t)"
    using bytes by (simp_all add: append_eq_append_conv)
  note eqs = this
  have ok: "identity_ok (Existing s)" "identity_ok (Existing t)" using assms by (simp_all add: ab)
  note inj64 = u64_to_be_bytes_inj [rotated 2] and inj_i = i64_to_be_bytes_inj [rotated 2] and inj32 = u32_to_be_bytes_inj [rotated 2]
  have "rt_device s = rt_device t" "rt_inode s = rt_inode t" "rt_file_type s = rt_file_type t" "rt_links s = rt_links t"
    "rt_size s = rt_size t" "rt_uid s = rt_uid t" "rt_gid s = rt_gid t" "rt_mode s = rt_mode t"
    "rt_modified_seconds s = rt_modified_seconds t" "rt_modified_nanoseconds s = rt_modified_nanoseconds t"
    "rt_changed_seconds s = rt_changed_seconds t" "rt_changed_nanoseconds s = rt_changed_nanoseconds t"
    using eqs(1) [THEN inj64] eqs(2) [THEN inj64] eqs(3) [THEN file_type_revision_tag_inj] eqs(4) [THEN inj64]
      eqs(5) [THEN inj_i] eqs(6) [THEN inj32] eqs(7) [THEN inj32] eqs(8) [THEN inj32] eqs(9) [THEN inj_i]
      eqs(10) [THEN inj64] eqs(11) [THEN inj_i] eqs(12) [THEN inj64] ok
    by (simp_all add: identity_ok_def)
  then have "s = t" by (rule ExistingReplacementTarget.equality) simp
  then show ?thesis by (simp add: ab)
qed (use assms in simp_all)

lemma target_preimage_inj:
  assumes "length who = length who'" "length path \<le> u64_max" "length path' \<le> u64_max" "identity_ok a" "identity_ok b"
    and "target_preimage who path a = target_preimage who' path' b"
  shows "who = who' \<and> path = path' \<and> a = b"
proof -
  have "who = who'" and rest: "u64_to_be_bytes (length path) @ path @ update_revision_digest a = u64_to_be_bytes (length path') @ path' @ update_revision_digest b"
    using assms(1,6) by (simp_all add: target_preimage_def append_eq_append_conv)
  then have "length path = length path'" using assms(2,3) by (auto simp: append_eq_append_conv dest: u64_to_be_bytes_inj)
  with rest have "path = path'" "update_revision_digest a = update_revision_digest b" by (simp_all add: append_eq_append_conv)
  with update_revision_digest_inj [OF assms(4,5)] \<open>who = who'\<close> show ?thesis by simp
qed

section \<open>Properties\<close>

text \<open>Claim C20.  An upload request may replace an existing file exactly when it carries one overwrite
  header with the value true and one revision header with the canonical text of a 32-byte
  revision; it asks for no replacement exactly when the overwrite header is absent or false and
  no revision is given; everything else is refused.  A length or offset is read exactly when its
  header occurs once and is the canonical decimal text of a 64-bit number.\<close>

theorem upload_headers_exact:
  "(parse_upload_overwrite headers = Inr NoReplace \<longleftrightarrow>
      header_values UPLOAD_OVERWRITE_HEADER headers \<in> {[], [''false'']} \<and> header_values TARGET_REVISION_HEADER headers = []) \<and>
   (parse_upload_overwrite headers = Inr (IfUnchanged revision) \<longleftrightarrow>
      header_values UPLOAD_OVERWRITE_HEADER headers = [''true''] \<and> length revision = 32 \<and>
      header_values TARGET_REVISION_HEADER headers = [encode_revision revision]) \<and>
   (parse_upload_length headers = Inr len \<longleftrightarrow>
      (case len of None \<Rightarrow> header_values UPLOAD_LENGTH_HEADER headers = []
       | Some n \<Rightarrow> n \<le> u64_max \<and> header_values UPLOAD_LENGTH_HEADER headers = [u64_to_string n])) \<and>
   (parse_upload_offset headers = Inr offset \<longleftrightarrow>
      (case offset of None \<Rightarrow> header_values UPLOAD_OFFSET_HEADER headers = []
       | Some n \<Rightarrow> n \<le> u64_max \<and> header_values UPLOAD_OFFSET_HEADER headers = [u64_to_string n]))"
proof (intro conjI)
  show "parse_upload_overwrite headers = Inr NoReplace \<longleftrightarrow>
      header_values UPLOAD_OVERWRITE_HEADER headers \<in> {[], [''false'']} \<and> header_values TARGET_REVISION_HEADER headers = []"
    by (auto simp: parse_upload_overwrite_def unique_upload_header_def split: list.splits option.splits if_splits)
  show "parse_upload_overwrite headers = Inr (IfUnchanged revision) \<longleftrightarrow>
      header_values UPLOAD_OVERWRITE_HEADER headers = [''true''] \<and> length revision = 32 \<and>
      header_values TARGET_REVISION_HEADER headers = [encode_revision revision]"
    by (rule parse_if_unchanged_iff)
  show "parse_upload_length headers = Inr len \<longleftrightarrow>
      (case len of None \<Rightarrow> header_values UPLOAD_LENGTH_HEADER headers = []
       | Some n \<Rightarrow> n \<le> u64_max \<and> header_values UPLOAD_LENGTH_HEADER headers = [u64_to_string n])"
    unfolding parse_upload_length_def by (rule parse_upload_number_iff)
  show "parse_upload_offset headers = Inr offset \<longleftrightarrow>
      (case offset of None \<Rightarrow> header_values UPLOAD_OFFSET_HEADER headers = []
       | Some n \<Rightarrow> n \<le> u64_max \<and> header_values UPLOAD_OFFSET_HEADER headers = [u64_to_string n])"
    unfolding parse_upload_offset_def by (rule parse_upload_number_iff)
qed

text \<open>Claim C19.  A target revision pins its target down: for two inspections whose digest inputs do not
  collide, the revisions are equal exactly when both targets are missing, or when owner, path and
  every recorded field of the identity, the times and the inode among them, are the same.\<close>

theorem target_revision_binding:
  assumes "length owner_id = 32" "length owner_id' = 32" "length path \<le> u64_max" "length path' \<le> u64_max"
    and "identity_ok identity" "identity_ok identity'"
    and no_collision: "sha (target_preimage owner_id path identity) = sha (target_preimage owner_id' path' identity') \<longrightarrow>
      target_preimage owner_id path identity = target_preimage owner_id' path' identity'"
  shows "target_revision sha owner_id path identity = target_revision sha owner_id' path' identity' \<longleftrightarrow>
    \<not> identity_exists identity \<and> \<not> identity_exists identity' \<or>
    identity_exists identity \<and> owner_id = owner_id' \<and> path = path' \<and> identity = identity'"
  using target_preimage_inj [of owner_id owner_id' path path' identity identity'] assms
  by (auto simp: target_revision_def)

definition demo_target :: ExistingReplacementTarget where
  "demo_target =
     \<lparr> rt_device = 1, rt_inode = 2, rt_file_type = RegularFile, rt_links = 1, rt_size = 5, rt_uid = 0, rt_gid = 0,
       rt_mode = 33188, rt_modified_seconds = 7, rt_modified_nanoseconds = 8, rt_changed_seconds = 9, rt_changed_nanoseconds = 10 \<rparr>"

theorem target_revision_binding_witness:
  "target_revision (\<lambda>x. x) (replicate 32 CHR ''o'') ''a'' (Existing demo_target) \<noteq>
   target_revision (\<lambda>x. x) (replicate 32 CHR ''o'') ''a'' (Existing (demo_target\<lparr> rt_changed_nanoseconds := 11 \<rparr>))"
proof -
  have ok: "identity_ok (Existing demo_target)" "identity_ok (Existing (demo_target\<lparr> rt_changed_nanoseconds := 11 \<rparr>))"
    by (simp_all add: identity_ok_def demo_target_def u64_max_def u32_max_def in_i64_def i64_min_def i64_max_def)
  have "length (replicate 32 CHR ''o'') = 32" "length ''a'' \<le> u64_max" by (simp_all add: u64_max_def)
  from target_revision_binding [OF this(1) this(1) this(2) this(2) ok, of "\<lambda>x. x"]
  show ?thesis by (simp add: demo_target_def)
qed

end
