(* ===== verification/Listing_Items.thy ===== *)
theory Listing_Items
  imports Rooted_Paths Upload_Protocol Interruptible_Sort "HOL-Library.Char_ord" "HOL-Library.List_Lexorder"
begin

text \<open>
  The values of a directory listing in \<^verbatim>\<open>src/server/listing.rs\<close>: the public problems, the items with
  their orders, the memory budgets, the visit of a directory (\<^verbatim>\<open>visit_dir_blocking_chunk\<close> of
  \<^verbatim>\<open>src/server/rooted_fs.rs\<close>) and the collection of a listing.  The lemmas show that a listing that
  is answered contains every visible entry once, sorted as requested, and no private entry.

  The kernel, the allocator, the clock, SHA-256, Unicode case folding and the alphanumeric
  comparison of the external crate are arguments.
\<close>

section \<open>Problems\<close>

datatype ListingProblem =
    UnsupportedFilename
  | DirectoryAccessForbidden
  | DirectoryChanged
  | DirectoryOperationTimeout
  | DirectoryOperationFailed
  | ServerStopping
  | DirectorySymlinkLoop
  | DirectoryListingEntryLimit
  | DirectoryWalkEntryLimit
  | DirectoryDepthLimit
  | DirectoryMemoryLimit
  | SearchResultLimit
  | ListSnapshotLimit
  | ListSnapshotAllocationFailed
  | DirectorySortLimit

definition listing_status :: "ListingProblem \<Rightarrow> nat" where
  "listing_status p =
     (if p \<in> {UnsupportedFilename, DirectoryChanged, DirectorySymlinkLoop} then 409
      else if p = DirectoryAccessForbidden then 403
      else if p = DirectoryOperationTimeout then 504
      else if p = DirectoryOperationFailed then 500
      else if p = ServerStopping then 503
      else 413)"

fun public_message :: "ListingProblem \<Rightarrow> string" where
  "public_message UnsupportedFilename = ''The folder contains an unsupported non-UTF-8 name. Rename it on Linux.''"
| "public_message DirectoryAccessForbidden = ''Forbidden''"
| "public_message DirectoryChanged = ''The folder changed during traversal. Try again.''"
| "public_message DirectoryOperationTimeout = ''Directory operation timed out''"
| "public_message DirectoryOperationFailed = ''Directory operation failed''"
| "public_message ServerStopping = ''Server is stopping''"
| "public_message DirectorySymlinkLoop = ''Directory symlink loop detected''"
| "public_message DirectoryListingEntryLimit = ''Directory listing exceeded its entry limit''"
| "public_message DirectoryWalkEntryLimit = ''Directory operation exceeded its entry limit''"
| "public_message DirectoryDepthLimit = ''Directory traversal exceeded its depth limit''"
| "public_message DirectoryMemoryLimit = ''Directory traversal exceeds the memory limit''"
| "public_message SearchResultLimit = ''Search results exceed the memory limit''"
| "public_message ListSnapshotLimit = ''Directory listing exceeds the snapshot capacity''"
| "public_message ListSnapshotAllocationFailed = ''Directory listing exceeds the snapshot capacity''"
| "public_message DirectorySortLimit = ''Directory sorting exceeds the memory limit''"

fun listing_code :: "ListingProblem \<Rightarrow> ErrorCode" where
  "listing_code UnsupportedFilename = UNSUPPORTED_FILENAME"
| "listing_code DirectoryAccessForbidden = DIRECTORY_ACCESS_FORBIDDEN"
| "listing_code DirectoryChanged = DIRECTORY_CHANGED"
| "listing_code DirectoryOperationTimeout = DIRECTORY_OPERATION_TIMEOUT"
| "listing_code ServerStopping = SERVER_STOPPING"
| "listing_code DirectorySymlinkLoop = DIRECTORY_SYMLINK_LOOP"
| "listing_code DirectoryListingEntryLimit = DIRECTORY_ENTRY_LIMIT"
| "listing_code DirectoryWalkEntryLimit = DIRECTORY_ENTRY_LIMIT"
| "listing_code DirectoryDepthLimit = DIRECTORY_DEPTH_LIMIT"
| "listing_code DirectoryMemoryLimit = DIRECTORY_MEMORY_LIMIT"
| "listing_code SearchResultLimit = SEARCH_RESULT_LIMIT"
| "listing_code ListSnapshotLimit = LIST_SNAPSHOT_LIMIT"
| "listing_code ListSnapshotAllocationFailed = LIST_SNAPSHOT_LIMIT"
| "listing_code DirectorySortLimit = DIRECTORY_SORT_LIMIT"
| "listing_code DirectoryOperationFailed = DIRECTORY_OPERATION_FAILED"

definition listing_recovery :: "ListingProblem \<Rightarrow> RecoveryAdvice" where
  "listing_recovery p =
     (if p \<in> {UnsupportedFilename, DirectoryChanged, DirectorySymlinkLoop} then RefreshTarget
      else if p = DirectoryOperationTimeout then Retry
      else if p = ServerStopping then RetryAfterSeconds 1
      else NoAdvice)"

section \<open>Paths in diagnostics\<close>

fun escape_path_bytes :: "string \<Rightarrow> string" where
  "escape_path_bytes [] = []"
| "escape_path_bytes (byte # bytes) =
     (if byte = CHR ''/'' then ''/''
      else if byte = CHR 0x5C then [CHR 0x5C, CHR 0x5C]
      else if byte = CHR 0x22 then [CHR 0x5C, CHR 0x22]
      else if 32 \<le> (of_char byte :: nat) \<and> (of_char byte :: nat) \<le> 126 then [byte]
      else [CHR 0x5C, CHR ''x''] @ encode_hex [of_char byte]) @ escape_path_bytes bytes"

definition safe_relative_path :: "string \<Rightarrow> string \<Rightarrow> string" where
  "safe_relative_path path serve_root =
     (case path_strip_prefix path serve_root of
        None \<Rightarrow> ''<outside-root>''
      | Some relative \<Rightarrow> if relative = [] then ''.'' else escape_path_bytes relative)"

text \<open>
  An \<^verbatim>\<open>std::io::Error\<close> of the kernel: its kind, and the texts its \<^verbatim>\<open>Debug\<close> form and its OS error are
  rendered with.
\<close>

record io_failure =
  fk_kind :: io_error
  fk_kind_text :: string
  fk_raw :: "string option"

record ListingError =
  le_operation :: string
  le_relative_path :: string
  le_reason :: string
  le_problem :: ListingProblem

definition limit_error :: "string \<Rightarrow> string \<Rightarrow> string \<Rightarrow> string \<Rightarrow> ListingProblem \<Rightarrow> ListingError" where
  "limit_error operation path root reason problem =
     \<lparr> le_operation = operation, le_relative_path = safe_relative_path path root, le_reason = reason, le_problem = problem \<rparr>"

definition unsupported_name :: "string \<Rightarrow> string \<Rightarrow> string \<Rightarrow> ListingError" where
  "unsupported_name operation path root = limit_error operation path root ''unsupported_filename_encoding'' UnsupportedFilename"

definition io_problem :: "io_error \<Rightarrow> ListingProblem" where
  "io_problem kind =
     (case kind of
        PermissionDenied \<Rightarrow> DirectoryAccessForbidden
      | InvalidData \<Rightarrow> UnsupportedFilename
      | NotFound \<Rightarrow> DirectoryChanged
      | NotADirectory \<Rightarrow> DirectoryChanged
      | TimedOut \<Rightarrow> DirectoryOperationTimeout
      | _ \<Rightarrow> DirectoryOperationFailed)"

definition io_listing_error :: "string \<Rightarrow> string \<Rightarrow> string \<Rightarrow> io_failure \<Rightarrow> ListingError" where
  "io_listing_error operation path root error =
     limit_error operation path root
       (''io_kind='' @ fk_kind_text error @ '' raw_os_error='' @ (case fk_raw error of None \<Rightarrow> ''-'' | Some value \<Rightarrow> value))
       (io_problem (fk_kind error))"

definition cancelled :: "string \<Rightarrow> string \<Rightarrow> string \<Rightarrow> ListingError" where
  "cancelled operation path root = limit_error operation path root ''server_stopping'' ServerStopping"

definition symlink_loop :: "string \<Rightarrow> string \<Rightarrow> string \<Rightarrow> ListingError" where
  "symlink_loop operation path root = limit_error operation path root ''ancestor_symlink_loop'' DirectorySymlinkLoop"

definition invariant_error :: "string \<Rightarrow> string \<Rightarrow> string \<Rightarrow> ListingError" where
  "invariant_error operation path root = limit_error operation path root ''path_outside_expected_base'' DirectoryOperationFailed"

lemmas listing_error_defs = limit_error_def unsupported_name_def io_listing_error_def cancelled_def symlink_loop_def invariant_error_def

definition strict_file_name :: "string \<Rightarrow> string \<Rightarrow> string \<Rightarrow> ListingError + string" where
  "strict_file_name path operation serve_root =
     (case Option.bind (path_file_name path) to_str of
        None \<Rightarrow> Inl (unsupported_name operation path serve_root)
      | Some name \<Rightarrow> if name = [] then Inl (unsupported_name operation path serve_root) else Inr name)"

definition strict_relative_path :: "string \<Rightarrow> string \<Rightarrow> string \<Rightarrow> string \<Rightarrow> ListingError + string" where
  "strict_relative_path path base_path operation serve_root =
     (case path_strip_prefix path base_path of
        None \<Rightarrow> Inl (invariant_error operation path serve_root)
      | Some relative \<Rightarrow>
          (case to_str relative of
             None \<Rightarrow> Inl (unsupported_name operation path serve_root)
           | Some name \<Rightarrow> Inr name))"

section \<open>Items and their orders\<close>

datatype PathType = Dir | SymlinkDir | PlainFile | SymlinkFile

definition type_value :: "PathType \<Rightarrow> nat" where
  "type_value t = (if t \<in> {Dir, SymlinkDir} then 0 else 1)"

definition type_cmp :: "PathType \<Rightarrow> PathType \<Rightarrow> comp" where
  "type_cmp a b = compare default (type_value a) (type_value b)"

text \<open>A string of an item has a content and the capacity of its allocation.\<close>

record PathItem =
  pi_type :: PathType
  pi_sort_name :: string
  pi_sort_name_capacity :: usize
  pi_name :: string
  pi_name_capacity :: usize
  pi_mtime :: u64
  pi_size :: u64
  pi_revision :: blob

fun ordering_then :: "comp \<Rightarrow> comp \<Rightarrow> comp" where
  "ordering_then Equiv other = other"
| "ordering_then Less other = Less"
| "ordering_then Greater other = Greater"

fun ordering_reverse :: "comp \<Rightarrow> comp" where
  "ordering_reverse Less = Greater"
| "ordering_reverse Equiv = Equiv"
| "ordering_reverse Greater = Less"

definition sort_by_name :: "string comparator \<Rightarrow> PathItem \<Rightarrow> PathItem \<Rightarrow> comp" where
  "sort_by_name compare_str a b =
     (case type_cmp (pi_type a) (pi_type b) of
        Equiv \<Rightarrow> ordering_then (compare compare_str (pi_sort_name a) (pi_sort_name b)) (compare default (pi_name a) (pi_name b))
      | value \<Rightarrow> value)"

definition sort_by_mtime :: "string comparator \<Rightarrow> PathItem \<Rightarrow> PathItem \<Rightarrow> comp" where
  "sort_by_mtime compare_str a b =
     (case type_cmp (pi_type a) (pi_type b) of
        Equiv \<Rightarrow> ordering_then (compare default (pi_mtime a) (pi_mtime b)) (sort_by_name compare_str a b)
      | value \<Rightarrow> value)"

definition sort_by_size :: "string comparator \<Rightarrow> PathItem \<Rightarrow> PathItem \<Rightarrow> comp" where
  "sort_by_size compare_str a b =
     (case type_cmp (pi_type a) (pi_type b) of
        Equiv \<Rightarrow> ordering_then (compare default (pi_size a) (pi_size b)) (sort_by_name compare_str a b)
      | value \<Rightarrow> value)"

definition compare_path_items :: "string comparator \<Rightarrow> string \<Rightarrow> string \<Rightarrow> PathItem \<Rightarrow> PathItem \<Rightarrow> comp" where
  "compare_path_items compare_str column direction a b =
     (let ordering = (if column = ''mtime'' then sort_by_mtime compare_str a b
                      else if column = ''size'' then sort_by_size compare_str a b
                      else sort_by_name compare_str a b)
      in if direction = ''desc'' then ordering_reverse ordering else ordering)"

text \<open>
  The orders are total preorders.  They are written once more with the combinators of the
  comparator type, which makes them arguments of the sort.
\<close>

definition both :: "'a comparator \<Rightarrow> 'a comparator \<Rightarrow> 'a comparator" where
  "both c d = key (\<lambda>x. (x, x)) (prod_lex c d)"

lemma compare_both: "compare (both c d) x y = ordering_then (compare c x y) (compare d x y)"
  by (cases "compare c x y") (simp_all add: both_def compare_prod_lex_apply)

lemma compare_reverse: "ordering_reverse (compare c x y) = compare c y x"
proof (cases "compare c x y")
  case Less
  then have "compare c y x = Greater" by (simp add: compare.less_iff_sym_greater)
  with Less show ?thesis by simp
next
  case Equiv
  then have "compare c y x = Equiv" by (rule iffD1 [OF compare.sym])
  with Equiv show ?thesis by simp
next
  case Greater
  then have "compare c y x = Less" by (simp add: compare.greater_iff_sym_less)
  with Greater show ?thesis by simp
qed

definition name_order :: "string comparator \<Rightarrow> PathItem comparator" where
  "name_order c = both (key (\<lambda>i. type_value (pi_type i)) default) (both (key pi_sort_name c) (key pi_name default))"

definition item_order :: "string comparator \<Rightarrow> string \<Rightarrow> string \<Rightarrow> PathItem comparator" where
  "item_order c column direction =
     (let ascending =
        (if column = ''mtime'' then both (key (\<lambda>i. type_value (pi_type i)) default) (both (key pi_mtime default) (name_order c))
         else if column = ''size'' then both (key (\<lambda>i. type_value (pi_type i)) default) (both (key pi_size default) (name_order c))
         else name_order c)
      in if direction = ''desc'' then reversed ascending else ascending)"

lemma ordering_then_case: "ordering_then v w = (case v of Equiv \<Rightarrow> w | u \<Rightarrow> u)"
  by (cases v) simp_all

lemma compare_name_order: "compare (name_order c) a b = sort_by_name c a b"
  by (simp add: name_order_def compare_both sort_by_name_def type_cmp_def ordering_then_case cong: comp.case_cong)

lemma compare_item_order: "compare (item_order c column direction) a b = compare_path_items c column direction a b"
proof -
  have m: "compare (both (key (\<lambda>i. type_value (pi_type i)) default) (both (key pi_mtime default) (name_order c))) a b = sort_by_mtime c a b" for a b
    by (simp add: compare_both compare_name_order sort_by_mtime_def type_cmp_def ordering_then_case cong: comp.case_cong)
  have s: "compare (both (key (\<lambda>i. type_value (pi_type i)) default) (both (key pi_size default) (name_order c))) a b = sort_by_size c a b" for a b
    by (simp add: compare_both compare_name_order sort_by_size_def type_cmp_def ordering_then_case cong: comp.case_cong)
  show ?thesis
    unfolding item_order_def compare_path_items_def m [symmetric] s [symmetric] compare_name_order [symmetric]
    by (simp add: Let_def compare_reverse)
qed

section \<open>Budgets\<close>

definition path_item_heap_bytes :: "PathItem \<Rightarrow> usize" where
  "path_item_heap_bytes item = saturating_add (pi_name_capacity item) (pi_sort_name_capacity item)"

definition collection_allocation_bytes :: "usize \<Rightarrow> usize \<Rightarrow> usize \<Rightarrow> usize \<Rightarrow> usize" where
  "collection_allocation_bytes vec_size cap item_size heap_bytes =
     saturating_add (saturating_add vec_size (saturating_mul cap item_size)) heap_bytes"

definition ensure_path_sort_budget ::
  "usize \<Rightarrow> usize \<Rightarrow> PathItem list \<Rightarrow> usize \<Rightarrow> usize \<Rightarrow> string \<Rightarrow> string \<Rightarrow> string \<Rightarrow> ListingError + unit"
where
  "ensure_path_sort_budget vec_size item_size items path_capacity max_bytes operation path serve_root =
     (let heap_bytes = foldl (\<lambda>sum item. saturating_add sum (path_item_heap_bytes item)) 0 items;
          retained = collection_allocation_bytes vec_size path_capacity item_size heap_bytes;
          scratch = saturating_mul (saturating_mul (length items) 8) 2
      in if max_bytes < saturating_add retained scratch
         then Inl (limit_error operation path serve_root ''sort_memory_budget'' DirectorySortLimit)
         else Inr ())"

datatype BoundedReserveError = Budget | AllocationFailed

text \<open>
  A vector is its length and capacity.  The argument \<^verbatim>\<open>try_reserve_exact\<close> maps the additional slots to
  the new capacity, or fails.  The capacity afterwards is returned with the result.
\<close>

definition try_reserve_bounded_vec_slot ::
  "(usize \<Rightarrow> usize option) \<Rightarrow> usize \<Rightarrow> usize \<Rightarrow> usize \<Rightarrow> usize \<Rightarrow> usize \<Rightarrow> usize \<times> (BoundedReserveError + unit)"
where
  "try_reserve_bounded_vec_slot try_reserve_exact item_bytes len cap non_vector_bytes maximum_bytes =
     (if len < cap \<or> item_bytes = 0 then (cap, Inr ())
      else
        let old_allocation = saturating_mul cap item_bytes;
            available_for_new = maximum_bytes - saturating_add non_vector_bytes old_allocation;
            maximum_new_capacity = available_for_new div item_bytes;
            required_capacity = saturating_add len 1
        in if maximum_new_capacity < required_capacity then (cap, Inl Budget)
           else
             let preferred_capacity =
                   (if cap = 0 then max required_capacity 4 else max (saturating_mul cap 2) required_capacity);
                 requested_capacity = min preferred_capacity maximum_new_capacity
             in (case try_reserve_exact (requested_capacity - len) of
                   None \<Rightarrow> (cap, Inl AllocationFailed)
                 | Some cap' \<Rightarrow> if maximum_new_capacity < cap' then (cap', Inl Budget) else (cap', Inr ())))"

definition shrink_paths_if_wasteful :: "(usize \<Rightarrow> usize) \<Rightarrow> PathItem list \<Rightarrow> usize \<Rightarrow> usize" where
  "shrink_paths_if_wasteful shrink_to_fit items cap =
     (if 1024 \<le> cap - length items \<and> saturating_add (length items) (length items div 4) < cap
      then shrink_to_fit (length items) else cap)"

section \<open>Visiting a directory\<close>

record metadata =
  md_is_dir :: bool
  md_len :: u64
  md_modified :: "int option"
  md_created :: "int option"
  md_dev :: u64
  md_ino :: u64
  md_mtime :: i64
  md_mtime_nsec :: i64
  md_ctime :: i64
  md_ctime_nsec :: i64

text \<open>A point in time is a number of nanoseconds since the epoch.\<close>

definition to_timestamp :: "int \<Rightarrow> u64" where
  "to_timestamp t = (if t < 0 then 0 else nat (t div 1000000) mod (u64_max + 1))"

record DirectorySnapshot =
  ds_device :: u64
  ds_inode :: u64
  ds_mtime :: i64
  ds_mtime_nanoseconds :: i64
  ds_ctime :: i64
  ds_ctime_nanoseconds :: i64

definition from_metadata :: "metadata \<Rightarrow> DirectorySnapshot" where
  "from_metadata m =
     \<lparr> ds_device = md_dev m, ds_inode = md_ino m, ds_mtime = md_mtime m, ds_mtime_nanoseconds = md_mtime_nsec m,
       ds_ctime = md_ctime m, ds_ctime_nanoseconds = md_ctime_nsec m \<rparr>"

record RootedDirEntry =
  de_path :: string
  de_file_name :: string
  de_metadata :: metadata
  de_is_symlink :: bool
  de_revision_identity :: ReplacementTargetIdentity

datatype open_answer = Opened | OpenXdev | OpenNoentOrLoop io_failure | OpenFailed io_failure

text \<open>What the kernel answers about one entry, and one result of \<^verbatim>\<open>readdir\<close>.\<close>

record dir_probe =
  dp_name :: string
  dp_offset :: i64
  dp_fd :: "io_failure + unit"
  dp_stat :: "io_failure + ExistingReplacementTarget"
  dp_open :: open_answer
  dp_open_nofollow :: "io_failure + unit"
  dp_metadata :: "io_failure + metadata"

datatype dir_read = ReadFailed io_failure | ReadEntry dir_probe

datatype DirectoryVisitProgress = Complete | Paused i64

text \<open>The entry behind a probe; \<^verbatim>\<open>Inr None\<close> is a link that leaves the shared root.\<close>

definition probe_entry :: "string \<Rightarrow> dir_probe \<Rightarrow> io_failure + RootedDirEntry option" where
  "probe_entry child_path p =
     (case dp_fd p of
        Inl e \<Rightarrow> Inl e
      | Inr _ \<Rightarrow>
          (case dp_stat p of
             Inl e \<Rightarrow> Inl e
           | Inr nofollow \<Rightarrow>
               let is_symlink = (rt_file_type nofollow = Symlink);
                   target = (case dp_open p of
                       Opened \<Rightarrow> Inr (Some ())
                     | OpenXdev \<Rightarrow> Inr None
                     | OpenNoentOrLoop e \<Rightarrow>
                         if is_symlink then (case dp_open_nofollow p of Inl e \<Rightarrow> Inl e | Inr _ \<Rightarrow> Inr (Some ())) else Inl e
                     | OpenFailed e \<Rightarrow> Inl e)
               in (case target of
                     Inl e \<Rightarrow> Inl e
                   | Inr None \<Rightarrow> Inr None
                   | Inr (Some _) \<Rightarrow>
                       (case dp_metadata p of
                          Inl e \<Rightarrow> Inl e
                        | Inr m \<Rightarrow>
                            Inr (Some \<lparr> de_path = child_path, de_file_name = dp_name p, de_metadata = m, de_is_symlink = is_symlink,
                                        de_revision_identity = Existing nofollow \<rparr>)))))"

definition child_path :: "string \<Rightarrow> string \<Rightarrow> string \<Rightarrow> string" where
  "child_path root_path relative file_name =
     path_push root_path (if path_eq relative ''.'' then file_name else path_push relative file_name)"

fun visit_entries ::
  "string \<Rightarrow> string \<Rightarrow> (string \<Rightarrow> 's \<Rightarrow> 's \<times> bool) \<Rightarrow> (RootedDirEntry \<Rightarrow> 's \<Rightarrow> 's \<times> (io_failure + bool)) \<Rightarrow>
   i64 \<Rightarrow> dir_read list \<Rightarrow> 's \<Rightarrow> 's \<times> (io_failure + DirectoryVisitProgress)"
where
  "visit_entries root_path relative budget visitor resume_cursor [] s = (s, Inr Complete)"
| "visit_entries root_path relative budget visitor resume_cursor (ReadFailed e # rest) s = (s, Inl e)"
| "visit_entries root_path relative budget visitor resume_cursor (ReadEntry p # rest) s =
     (if dp_name p \<in> {''.'', ''..''} then visit_entries root_path relative budget visitor (dp_offset p) rest s
      else
        let path = child_path root_path relative (dp_name p) in
        case budget path s of
          (s, False) \<Rightarrow> (s, Inr (Paused resume_cursor))
        | (s, True) \<Rightarrow>
            (case probe_entry path p of
               Inl e \<Rightarrow> (s, Inl e)
             | Inr None \<Rightarrow> visit_entries root_path relative budget visitor (dp_offset p) rest s
             | Inr (Some entry) \<Rightarrow>
                 (case visitor entry s of
                    (s, Inl e) \<Rightarrow> (s, Inl e)
                  | (s, Inr False) \<Rightarrow> (s, Inr (Paused (dp_offset p)))
                  | (s, Inr True) \<Rightarrow> visit_entries root_path relative budget visitor (dp_offset p) rest s)))"

fun kind_text :: "io_error \<Rightarrow> string" where
  "kind_text NotFound = ''NotFound''"
| "kind_text NotADirectory = ''NotADirectory''"
| "kind_text PermissionDenied = ''PermissionDenied''"
| "kind_text InvalidInput = ''InvalidInput''"
| "kind_text InvalidData = ''InvalidData''"
| "kind_text TimedOut = ''TimedOut''"
| "kind_text OtherIo = ''Other''"

definition own_failure :: "io_error \<Rightarrow> io_failure" where
  "own_failure e = \<lparr> fk_kind = e, fk_kind_text = kind_text e, fk_raw = None \<rparr>"

text \<open>The argument \<^verbatim>\<open>reads\<close> opens the directory at a cursor and yields what \<^verbatim>\<open>readdir\<close> returns from there.\<close>

definition visit_dir_blocking_chunk ::
  "string \<Rightarrow> (string \<Rightarrow> i64 \<Rightarrow> io_failure + dir_read list) \<Rightarrow> string \<Rightarrow> i64 \<Rightarrow> (string \<Rightarrow> 's \<Rightarrow> 's \<times> bool) \<Rightarrow>
   (RootedDirEntry \<Rightarrow> 's \<Rightarrow> 's \<times> (io_failure + bool)) \<Rightarrow> 's \<Rightarrow> 's \<times> (io_failure + DirectoryVisitProgress)"
where
  "visit_dir_blocking_chunk root_path reads path cursor budget visitor s =
     (case relative_path_or_dot root_path path of
        Inl e \<Rightarrow> (s, Inl (own_failure e))
      | Inr relative \<Rightarrow>
          (case reads relative cursor of
             Inl e \<Rightarrow> (s, Inl e)
           | Inr entries \<Rightarrow> visit_entries root_path relative budget visitor cursor entries s))"

section \<open>Collecting a listing\<close>

text \<open>
  What the collection asks of its surroundings.  A tick is one look at the flags and the clock:
  whether the work was cancelled or the server is stopping, and whether the time is up.
\<close>

record listing_env =
  en_uuid :: uuid_ops
  en_sha :: "string \<Rightarrow> blob"
  en_lower :: "string \<Rightarrow> string"
  en_owned_capacity :: "string \<Rightarrow> usize"
  en_lower_capacity :: "string \<Rightarrow> usize"
  en_compare_str :: "string comparator"
  en_item_size :: usize
  en_vec_size :: usize
  en_tick :: "nat \<Rightarrow> bool \<times> bool"
  en_grow :: "nat \<Rightarrow> usize \<Rightarrow> usize option"
  en_sort_tick :: "nat \<Rightarrow> bool \<times> bool"
  en_stopping_after_sort :: bool
  en_sort_memory :: "bool \<times> bool"
  en_shrink :: "usize \<Rightarrow> usize"

definition entry_path_type :: "bool \<Rightarrow> bool \<Rightarrow> PathType" where
  "entry_path_type is_symlink is_dir =
     (case (is_symlink, is_dir) of
        (True, True) \<Rightarrow> SymlinkDir | (False, True) \<Rightarrow> Dir | (True, False) \<Rightarrow> SymlinkFile | (False, False) \<Rightarrow> PlainFile)"

definition entry_mtime :: "metadata \<Rightarrow> u64" where
  "entry_mtime m =
     (case (case md_modified m of Some t \<Rightarrow> Some t | None \<Rightarrow> md_created m) of Some value \<Rightarrow> to_timestamp value | None \<Rightarrow> 0)"

text \<open>An entry of a visit has an existing identity, so that its revision exists.\<close>

definition pathitem_from_rooted_entry ::
  "listing_env \<Rightarrow> RootedDirEntry \<Rightarrow> string \<Rightarrow> string \<Rightarrow> blob \<Rightarrow> ListingError + PathItem"
where
  "pathitem_from_rooted_entry E entry base_path serve_path revision_owner =
     (case strict_file_name (de_path entry) ''pathitem_filename'' serve_path of
        Inl e \<Rightarrow> Inl e
      | Inr _ \<Rightarrow>
          let is_dir = md_is_dir (de_metadata entry);
              path_type = entry_path_type (de_is_symlink entry) is_dir;
              mtime = entry_mtime (de_metadata entry);
              item_size = (if is_dir then 0 else md_len (de_metadata entry))
          in (case strict_relative_path (de_path entry) base_path ''pathitem_relative_path'' serve_path of
                Inl e \<Rightarrow> Inl e
              | Inr name \<Rightarrow>
                  (case path_strip_prefix (de_path entry) serve_path of
                     None \<Rightarrow> Inl (invariant_error ''pathitem_revision_path'' (de_path entry) serve_path)
                   | Some revision_path \<Rightarrow>
                       Inr \<lparr> pi_type = path_type, pi_sort_name = en_lower E name, pi_sort_name_capacity = en_lower_capacity E name,
                             pi_name = name, pi_name_capacity = en_owned_capacity E name, pi_mtime = mtime, pi_size = item_size,
                             pi_revision = the (target_revision (en_sha E) revision_owner revision_path (de_revision_identity entry)) \<rparr>)))"

datatype ListScanStop = ScanCancelled | ScanEntryBudget | ScanTimeout

record list_scan =
  sc_items :: "PathItem list"
  sc_capacity :: usize
  sc_visited :: usize
  sc_heap_bytes :: usize
  sc_stop :: "ListScanStop option"
  sc_error :: "ListingError option"
  sc_ticks :: nat

definition list_budget :: "listing_env \<Rightarrow> usize \<Rightarrow> string \<Rightarrow> list_scan \<Rightarrow> list_scan \<times> bool" where
  "list_budget E max_entries path s =
     (let (stopping, late) = en_tick E (sc_ticks s);
          s = s\<lparr> sc_ticks := sc_ticks s + 1 \<rparr>
      in if stopping then (s\<lparr> sc_stop := Some ScanCancelled \<rparr>, False)
         else if late then (s\<lparr> sc_stop := Some ScanTimeout \<rparr>, False)
         else
           let visited = saturating_add (sc_visited s) 1;
               s = s\<lparr> sc_visited := visited \<rparr>
           in if max_entries < visited then (s\<lparr> sc_stop := Some ScanEntryBudget \<rparr>, False) else (s, True))"

text \<open>The part of the visitor that stores an item.\<close>

definition push_list_item ::
  "listing_env \<Rightarrow> string \<Rightarrow> string \<Rightarrow> usize \<Rightarrow> string \<Rightarrow> PathItem \<Rightarrow> list_scan \<Rightarrow> list_scan \<times> (io_failure + bool)"
where
  "push_list_item E path serve_path max_bytes entry_path item s =
     (let proposed_heap_bytes = saturating_add (sc_heap_bytes s) (path_item_heap_bytes item);
          minimum = collection_allocation_bytes (en_vec_size E) (saturating_add (length (sc_items s)) 1) (en_item_size E) proposed_heap_bytes;
          over_budget = limit_error ''list_snapshot'' path serve_path ''snapshot_memory_budget'' ListSnapshotLimit
      in if max_bytes < minimum then (s\<lparr> sc_error := Some over_budget \<rparr>, Inr False)
         else
           let (cap, reserved) = try_reserve_bounded_vec_slot (en_grow E (sc_ticks s)) (en_item_size E) (length (sc_items s)) (sc_capacity s)
                                   (saturating_add (en_vec_size E) proposed_heap_bytes) max_bytes;
               s = s\<lparr> sc_capacity := cap \<rparr>
           in (case reserved of
                 Inl Budget \<Rightarrow> (s\<lparr> sc_error := Some over_budget \<rparr>, Inr False)
               | Inl AllocationFailed \<Rightarrow>
                   (s\<lparr> sc_error := Some (limit_error ''list_snapshot'' entry_path serve_path ''result_allocation_failed'' ListSnapshotAllocationFailed) \<rparr>,
                    Inr False)
               | Inr _ \<Rightarrow>
                   let allocated = collection_allocation_bytes (en_vec_size E) cap (en_item_size E) proposed_heap_bytes
                   in if max_bytes < allocated then (s\<lparr> sc_error := Some over_budget \<rparr>, Inr False)
                      else (s\<lparr> sc_heap_bytes := proposed_heap_bytes, sc_items := sc_items s @ [item] \<rparr>, Inr True)))"

definition list_visitor ::
  "listing_env \<Rightarrow> string \<Rightarrow> string \<Rightarrow> blob \<Rightarrow> usize \<Rightarrow> RootedDirEntry \<Rightarrow> list_scan \<Rightarrow> list_scan \<times> (io_failure + bool)"
where
  "list_visitor E path serve_path revision_owner max_bytes entry s =
     (let (stopping, late) = en_tick E (sc_ticks s);
          s = s\<lparr> sc_ticks := sc_ticks s + 1 \<rparr>
      in if stopping then (s\<lparr> sc_stop := Some ScanCancelled \<rparr>, Inr False)
         else if late then (s\<lparr> sc_stop := Some ScanTimeout \<rparr>, Inr False)
         else (case to_str (de_file_name entry) of
                 None \<Rightarrow> (s\<lparr> sc_error := Some (unsupported_name ''list_snapshot_filename'' (de_path entry) serve_path) \<rparr>, Inr False)
               | Some base_name \<Rightarrow>
                   if is_internal_name (en_uuid E) base_name then (s, Inr True)
                   else (case pathitem_from_rooted_entry E entry path serve_path revision_owner of
                           Inl error \<Rightarrow> (s\<lparr> sc_error := Some error \<rparr>, Inr False)
                         | Inr item \<Rightarrow> push_list_item E path serve_path max_bytes (de_path entry) item s)))"

definition scan_stop_error :: "ListScanStop \<Rightarrow> string \<Rightarrow> string \<Rightarrow> ListingError" where
  "scan_stop_error stop path serve_path =
     (case stop of
        ScanCancelled \<Rightarrow> cancelled ''list_snapshot'' path serve_path
      | ScanEntryBudget \<Rightarrow> limit_error ''list_snapshot'' path serve_path ''entry_budget'' DirectoryListingEntryLimit
      | ScanTimeout \<Rightarrow> limit_error ''list_snapshot'' path serve_path ''time_budget'' DirectoryOperationTimeout)"

text \<open>\<^verbatim>\<open>None\<close> is a sort that does not end.\<close>

definition sort_path_items_interruptibly ::
  "listing_env \<Rightarrow> PathItem list \<Rightarrow> string \<Rightarrow> string \<Rightarrow> string \<Rightarrow> string \<Rightarrow> string \<Rightarrow> (PathItem list \<times> (ListingError + unit)) option"
where
  "sort_path_items_interruptibly E items column direction operation path serve_root =
     map_option
       (\<lambda>(items, r). (items,
          case r of
            Inr _ \<Rightarrow> Inr ()
          | Inl Interrupted \<Rightarrow>
              if \<not> en_stopping_after_sort E
              then Inl (limit_error operation path serve_root ''time_budget'' DirectoryOperationTimeout)
              else Inl (cancelled operation path serve_root)
          | Inl Allocation \<Rightarrow> Inl (limit_error operation path serve_root ''sort_allocation_failed'' DirectorySortLimit)))
       (stable_sort_by_interruptible (item_order (en_compare_str E) column direction)
          (\<lambda>n. let (stopping, late) = en_sort_tick E n in \<not> stopping \<and> \<not> late)
          (fst (en_sort_memory E)) (snd (en_sort_memory E)) items)"

text \<open>
  The budget of the sort, the sort and the release of spare capacity, which listing and search
  end with.  A result carries the items and the capacity of their vector.
\<close>

definition finish_items ::
  "listing_env \<Rightarrow> usize \<Rightarrow> string \<Rightarrow> string \<Rightarrow> string \<Rightarrow> string \<Rightarrow> string \<Rightarrow> PathItem list \<Rightarrow> usize \<Rightarrow>
   (ListingError + PathItem list \<times> usize) option"
where
  "finish_items E max_bytes column direction operation path serve_path items cap =
     (case ensure_path_sort_budget (en_vec_size E) (en_item_size E) items cap max_bytes operation path serve_path of
        Inl e \<Rightarrow> Some (Inl e)
      | Inr _ \<Rightarrow>
          (case sort_path_items_interruptibly E items column direction operation path serve_path of
             None \<Rightarrow> None
           | Some (items, Inl e) \<Rightarrow> Some (Inl e)
           | Some (items, Inr _) \<Rightarrow> Some (Inr (items, shrink_paths_if_wasteful (en_shrink E) items cap))))"

definition empty_scan :: list_scan where
  "empty_scan = \<lparr> sc_items = [], sc_capacity = 0, sc_visited = 0, sc_heap_bytes = 0, sc_stop = None, sc_error = None, sc_ticks = 0 \<rparr>"

definition collect_list_snapshot_blocking ::
  "listing_env \<Rightarrow> string \<Rightarrow> (string \<Rightarrow> i64 \<Rightarrow> io_failure + dir_read list) \<Rightarrow> string \<Rightarrow> string \<Rightarrow> blob \<Rightarrow> usize \<Rightarrow> usize \<Rightarrow> string \<Rightarrow> string \<Rightarrow>
   (ListingError + PathItem list \<times> usize) option"
where
  "collect_list_snapshot_blocking E root_path reads path serve_path revision_owner max_entries max_bytes column direction =
     (let (s, visit_result) = visit_dir_blocking_chunk root_path reads path 0 (list_budget E max_entries)
                                (list_visitor E path serve_path revision_owner max_bytes) empty_scan
      in case sc_error s of
           Some error \<Rightarrow> Some (Inl error)
         | None \<Rightarrow>
             (case visit_result of
                Inl error \<Rightarrow> Some (Inl (io_listing_error ''list_snapshot'' path serve_path error))
              | Inr _ \<Rightarrow>
                  (case sc_stop s of
                     Some stop \<Rightarrow> Some (Inl (scan_stop_error stop path serve_path))
                   | None \<Rightarrow> finish_items E max_bytes column direction ''list_snapshot_sort'' path serve_path (sc_items s) (sc_capacity s))))"

section \<open>A listing is complete\<close>

text \<open>
  Everything the directory holds was read: no \<^verbatim>\<open>readdir\<close> failed, and what was asked about every
  entry but \<^verbatim>\<open>.\<close> and \<^verbatim>\<open>..\<close> was answered.
\<close>

definition fully_read :: "string \<Rightarrow> string \<Rightarrow> dir_read list \<Rightarrow> bool" where
  "fully_read root_path relative reads \<longleftrightarrow>
     list_all (\<lambda>read. case read of
         ReadFailed _ \<Rightarrow> False
       | ReadEntry p \<Rightarrow>
           dp_name p \<in> {''.'', ''..''} \<or> \<not> isl (probe_entry (child_path root_path relative (dp_name p)) p)) reads"

lemma fully_read_simps [simp]:
  "fully_read root_path relative []"
  "\<not> fully_read root_path relative (ReadFailed e # rest)"
  "fully_read root_path relative (ReadEntry p # rest) \<longleftrightarrow>
     (dp_name p \<in> {''.'', ''..''} \<or> \<not> isl (probe_entry (child_path root_path relative (dp_name p)) p)) \<and>
     fully_read root_path relative rest"
  by (simp_all add: fully_read_def)

text \<open>The entries a listing shows: those that resolve inside the root and are not private.\<close>

fun visible_entries :: "uuid_ops \<Rightarrow> string \<Rightarrow> string \<Rightarrow> dir_read list \<Rightarrow> RootedDirEntry list" where
  "visible_entries U root_path relative [] = []"
| "visible_entries U root_path relative (ReadFailed e # rest) = visible_entries U root_path relative rest"
| "visible_entries U root_path relative (ReadEntry p # rest) =
     (if dp_name p \<in> {''.'', ''..''} then []
      else case probe_entry (child_path root_path relative (dp_name p)) p of
             Inr (Some entry) \<Rightarrow> if is_internal_name U (dp_name p) then [] else [entry]
           | _ \<Rightarrow> []) @ visible_entries U root_path relative rest"

definition undisturbed :: "list_scan \<Rightarrow> bool" where
  "undisturbed s \<longleftrightarrow> sc_error s = None \<and> sc_stop s = None"

lemma probe_entry_name: "probe_entry path p = Inr (Some entry) \<Longrightarrow> de_file_name entry = dp_name p"
  by (auto simp: probe_entry_def Let_def split: sum.splits option.splits open_answer.splits if_splits)

lemma list_budget_result:
  assumes "list_budget E max_entries path s = (s', go)" "max_entries < u64_max"
  shows "go \<Longrightarrow> sc_items s' = sc_items s \<and> sc_visited s' = sc_visited s + 1 \<and> sc_visited s' \<le> max_entries"
    and "\<not> go \<Longrightarrow> \<not> undisturbed s'"
  using assms
  by (auto simp: list_budget_def undisturbed_def saturating_add_def Let_def min_def split: prod.splits if_splits)

lemma push_list_item_result:
  assumes "push_list_item E path serve_path max_bytes entry_path item s = (s', r)"
  shows "r = Inr True \<and> sc_items s' = sc_items s @ [item] \<and> sc_visited s' = sc_visited s \<or> r = Inr False \<and> \<not> undisturbed s'"
  using assms
  by (auto simp: push_list_item_def undisturbed_def Let_def
      split: prod.splits if_splits sum.splits BoundedReserveError.splits)

lemma list_visitor_result:
  assumes "list_visitor E path serve_path owner_id max_bytes entry s = (s', r)"
  shows "r = Inr False \<and> \<not> undisturbed s' \<or>
    r = Inr True \<and> sc_visited s' = sc_visited s \<and>
      (is_internal_name (en_uuid E) (de_file_name entry) \<and> sc_items s' = sc_items s \<or>
       \<not> is_internal_name (en_uuid E) (de_file_name entry) \<and>
         (\<exists>item. pathitem_from_rooted_entry E entry path serve_path owner_id = Inr item \<and> sc_items s' = sc_items s @ [item]))"
proof -
  have name: "to_str n = Some m \<Longrightarrow> m = n" for n m by (simp add: to_str_def split: if_splits)
  show ?thesis
    using assms
    by (auto simp: list_visitor_def undisturbed_def Let_def dest!: name push_list_item_result
        split: prod.splits if_splits option.splits sum.splits)
qed

lemma visit_entries_list:
  assumes "visit_entries root_path relative (list_budget E max_entries) (list_visitor E path serve_path owner_id max_bytes) cursor reads s = (s', r)"
    and "max_entries < u64_max" "undisturbed s'" "\<And>e. r \<noteq> Inl e"
  shows "fully_read root_path relative reads \<and> (\<exists>items. sc_items s' = sc_items s @ items \<and>
    map (\<lambda>entry. pathitem_from_rooted_entry E entry path serve_path owner_id) (visible_entries (en_uuid E) root_path relative reads) = map Inr items \<and>
    sc_visited s + length items \<le> sc_visited s' \<and> sc_visited s' \<le> max (sc_visited s) max_entries)"
  using assms(1,3,4)
proof (induction root_path relative "list_budget E max_entries" "list_visitor E path serve_path owner_id max_bytes" cursor reads s
    rule: visit_entries.induct)
  case (3 root_path relative cursor p rest s)
  let ?path = "child_path root_path relative (dp_name p)"
  show ?case
  proof (cases "dp_name p \<in> {''.'', ''..''}")
    case True
    with 3 show ?thesis by auto
  next
    case False
    obtain s1 go where b: "list_budget E max_entries ?path s = (s1, go)" by (cases "list_budget E max_entries ?path s")
    have go: go
    proof (rule ccontr)
      assume "\<not> go"
      with 3(4,5) b False list_budget_result(2) [OF b assms(2)] show False by auto
    qed
    from list_budget_result(1) [OF b assms(2) go] have s1: "sc_items s1 = sc_items s" "sc_visited s1 = sc_visited s + 1" "sc_visited s1 \<le> max_entries" by auto
    consider (hidden) "probe_entry ?path p = Inr None" | (found) entry where "probe_entry ?path p = Inr (Some entry)"
      using 3(4,6) b go False by (cases "probe_entry ?path p") (auto split: option.splits)
    then show ?thesis
    proof cases
      case hidden
      with 3(2) [OF False refl b [symmetric]] 3(4-6) b go False s1 show ?thesis by fastforce
    next
      case found
      obtain s2 r2 where v: "list_visitor E path serve_path owner_id max_bytes entry s1 = (s2, r2)"
        by (cases "list_visitor E path serve_path owner_id max_bytes entry s1")
      note name = probe_entry_name [OF found]
      from list_visitor_result [OF v] 3(4,5) b go False found v
      have r2: "r2 = Inr True" "sc_visited s2 = sc_visited s1"
        and item: "is_internal_name (en_uuid E) (dp_name p) \<and> sc_items s2 = sc_items s1 \<or>
          \<not> is_internal_name (en_uuid E) (dp_name p) \<and>
            (\<exists>item. pathitem_from_rooted_entry E entry path serve_path owner_id = Inr item \<and> sc_items s2 = sc_items s1 @ [item])"
        by (auto simp: name)
      have rest: "visit_entries root_path relative (list_budget E max_entries) (list_visitor E path serve_path owner_id max_bytes) (dp_offset p) rest s2 = (s', r)"
        using 3(4) b go False found v r2 by simp
      obtain items where all: "fully_read root_path relative rest" and items: "sc_items s' = sc_items s2 @ items"
        "map (\<lambda>entry. pathitem_from_rooted_entry E entry path serve_path owner_id) (visible_entries (en_uuid E) root_path relative rest) = map Inr items"
        "sc_visited s2 + length items \<le> sc_visited s'" "sc_visited s' \<le> max (sc_visited s2) max_entries"
        using 3(3) [OF False refl b [symmetric] _ found refl v [symmetric] r2(1) refl rest 3(5,6)] go by auto
      show ?thesis
        using item
      proof (elim disjE conjE exE)
        assume "is_internal_name (en_uuid E) (dp_name p)" "sc_items s2 = sc_items s1"
        with all items s1 r2 False found show ?thesis by (intro conjI exI [of _ items]) auto
      next
        fix item
        assume "\<not> is_internal_name (en_uuid E) (dp_name p)" "pathitem_from_rooted_entry E entry path serve_path owner_id = Inr item"
          "sc_items s2 = sc_items s1 @ [item]"
        with all items s1 r2 False found show ?thesis by (intro conjI exI [of _ "item # items"]) auto
      qed
    qed
  qed
qed auto

lemma finish_items_result:
  assumes "length items \<le> ISIZE_MAX"
  shows "finish_items E max_bytes column direction operation path serve_path items cap \<noteq> None"
    and "finish_items E max_bytes column direction operation path serve_path items cap = Some (Inr (items', cap')) \<Longrightarrow>
      items' = Sorting_Algorithms.sort (item_order (en_compare_str E) column direction) items"
proof -
  obtain values' r where run: "stable_sort_by_interruptible (item_order (en_compare_str E) column direction)
      (\<lambda>n. let (stopping, late) = en_sort_tick E n in \<not> stopping \<and> \<not> late) (fst (en_sort_memory E)) (snd (en_sort_memory E)) items = Some (values', r)"
    "r = Inr () \<longrightarrow> values' = Sorting_Algorithms.sort (item_order (en_compare_str E) column direction) items"
    using interruptible_sort_correct [OF assms] by blast
  show "finish_items E max_bytes column direction operation path serve_path items cap \<noteq> None"
    using run(1) by (auto simp: finish_items_def sort_path_items_interruptibly_def split: sum.splits InterruptibleSortFailure.splits)
  show "items' = Sorting_Algorithms.sort (item_order (en_compare_str E) column direction) items"
    if "finish_items E max_bytes column direction operation path serve_path items cap = Some (Inr (items', cap'))"
    using that run by (auto simp: finish_items_def sort_path_items_interruptibly_def split: sum.splits InterruptibleSortFailure.splits if_splits)
qed

lemma collected_scan:
  assumes "visit_dir_blocking_chunk root_path reads path 0 (list_budget E max_entries) (list_visitor E path serve_path owner_id max_bytes) empty_scan = (s, Inr progress)"
    and "undisturbed s" "max_entries < u64_max"
  shows "\<exists>relative entries. relative_path_or_dot root_path path = Inr relative \<and> reads relative 0 = Inr entries \<and> fully_read root_path relative entries \<and>
    map (\<lambda>entry. pathitem_from_rooted_entry E entry path serve_path owner_id) (visible_entries (en_uuid E) root_path relative entries) = map Inr (sc_items s) \<and>
    length (sc_items s) \<le> max_entries"
proof -
  obtain relative entries where r: "relative_path_or_dot root_path path = Inr relative" "reads relative 0 = Inr entries"
    "visit_entries root_path relative (list_budget E max_entries) (list_visitor E path serve_path owner_id max_bytes) 0 entries empty_scan = (s, Inr progress)"
    using assms(1) by (auto simp: visit_dir_blocking_chunk_def split: sum.splits)
  have "fully_read root_path relative entries \<and> (\<exists>items. sc_items s = sc_items empty_scan @ items \<and>
    map (\<lambda>entry. pathitem_from_rooted_entry E entry path serve_path owner_id) (visible_entries (en_uuid E) root_path relative entries) = map Inr items \<and>
    sc_visited empty_scan + length items \<le> sc_visited s \<and> sc_visited s \<le> max (sc_visited empty_scan) max_entries)"
    by (rule visit_entries_list [OF r(3) assms(3,2)]) simp
  with r show ?thesis by (auto simp: empty_scan_def)
qed

text \<open>A reservation that succeeds leaves a free slot, and old and new allocation fit into the budget together.\<close>

lemma bounded_reserve_fits:
  assumes "try_reserve_bounded_vec_slot try_reserve_exact item_bytes len cap non_vector_bytes maximum_bytes = (cap', Inr ())"
    and "\<And>n c. try_reserve_exact n = Some c \<Longrightarrow> len + n \<le> c" and "len < u64_max" "0 < item_bytes"
  shows "len < cap'"
    and "cap' \<noteq> cap \<Longrightarrow> cap' * item_bytes + saturating_add non_vector_bytes (saturating_mul cap item_bytes) \<le> maximum_bytes"
proof -
  let ?limit = "(maximum_bytes - saturating_add non_vector_bytes (saturating_mul cap item_bytes)) div item_bytes"
  have grown: "cap' \<le> ?limit \<and> len < cap'" if full: "\<not> len < cap"
  proof -
    obtain n where n: "try_reserve_exact n = Some cap'" "len + n \<ge> len + 1" "cap' \<le> ?limit"
      using assms(1,3,4) full
      by (auto simp: try_reserve_bounded_vec_slot_def saturating_add_def Let_def not_less min_def max_def split: if_splits option.splits)
    with assms(2) [OF n(1)] show ?thesis by simp
  qed
  then show "len < cap'" using assms(1,4) by (cases "len < cap") (auto simp: try_reserve_bounded_vec_slot_def)
  assume "cap' \<noteq> cap"
  then have "\<not> len < cap" using assms(1) by (auto simp: try_reserve_bounded_vec_slot_def)
  with grown have "cap' \<le> ?limit" "0 < cap'" by auto
  then have "cap' * item_bytes \<le> maximum_bytes - saturating_add non_vector_bytes (saturating_mul cap item_bytes)"
    by (metis less_eq_div_iff_mult_less_eq assms(4))
  moreover have "0 < cap' * item_bytes" using \<open>0 < cap'\<close> assms(4) by simp
  ultimately show "cap' * item_bytes + saturating_add non_vector_bytes (saturating_mul cap item_bytes) \<le> maximum_bytes" by linarith
qed

section \<open>Properties\<close>

text \<open>Claim C15.  The collection of a directory listing always returns.  When it answers with items, the
  directory was read to its end without any failure, neither of reading on nor of looking at an
  entry, and the items are exactly those of its visible entries, each once, stably sorted by
  the requested column and direction: nothing is dropped, no private name and no link that leaves
  the shared root appears, and their number is within the limit.  So a failure anywhere makes the
  listing fail as a whole.\<close>

theorem listing_complete:
  assumes "max_entries \<le> ISIZE_MAX"
  shows "\<exists>r. collect_list_snapshot_blocking E root_path reads path serve_path owner_id max_entries max_bytes column direction = Some r \<and>
    (\<forall>items cap. r = Inr (items, cap) \<longrightarrow>
      (\<exists>relative entries found. relative_path_or_dot root_path path = Inr relative \<and> reads relative 0 = Inr entries \<and>
        fully_read root_path relative entries \<and>
        map (\<lambda>entry. pathitem_from_rooted_entry E entry path serve_path owner_id)
          (visible_entries (en_uuid E) root_path relative entries) = map Inr found \<and>
        items = Sorting_Algorithms.sort (item_order (en_compare_str E) column direction) found \<and>
        length items \<le> max_entries))"
proof -
  have limit: "max_entries < u64_max" using assms by (simp add: ISIZE_MAX_def u64_max_def)
  obtain s r where v: "visit_dir_blocking_chunk root_path reads path 0 (list_budget E max_entries)
      (list_visitor E path serve_path owner_id max_bytes) empty_scan = (s, r)"
    by (cases "visit_dir_blocking_chunk root_path reads path 0 (list_budget E max_entries)
      (list_visitor E path serve_path owner_id max_bytes) empty_scan")
  show ?thesis
  proof (cases "undisturbed s \<and> (\<exists>progress. r = Inr progress)")
    case False
    with v show ?thesis
      by (auto simp: collect_list_snapshot_blocking_def undisturbed_def split: option.splits sum.splits)
  next
    case True
    then obtain progress where r: "r = Inr progress" and u: "undisturbed s" by blast
    obtain relative entries where full: "fully_read root_path relative entries"
      and e: "relative_path_or_dot root_path path = Inr relative" "reads relative 0 = Inr entries"
      "map (\<lambda>entry. pathitem_from_rooted_entry E entry path serve_path owner_id) (visible_entries (en_uuid E) root_path relative entries) = map Inr (sc_items s)"
      "length (sc_items s) \<le> max_entries"
      using collected_scan [OF v [unfolded r] u limit] by blast
    have run: "collect_list_snapshot_blocking E root_path reads path serve_path owner_id max_entries max_bytes column direction =
        finish_items E max_bytes column direction ''list_snapshot_sort'' path serve_path (sc_items s) (sc_capacity s)"
      using u by (simp add: collect_list_snapshot_blocking_def v r undisturbed_def)
    have "length (sc_items s) \<le> ISIZE_MAX" using e(4) assms by simp
    note finish = finish_items_result [OF this, where E = E and max_bytes = max_bytes and column = column and direction = direction
        and operation = "''list_snapshot_sort''" and path = path and serve_path = serve_path and cap = "sc_capacity s"]
    from finish(1) obtain res where res: "finish_items E max_bytes column direction ''list_snapshot_sort'' path serve_path (sc_items s) (sc_capacity s) = Some res"
      by blast
    have "\<exists>relative entries found. relative_path_or_dot root_path path = Inr relative \<and> reads relative 0 = Inr entries \<and>
        fully_read root_path relative entries \<and>
        map (\<lambda>entry. pathitem_from_rooted_entry E entry path serve_path owner_id)
          (visible_entries (en_uuid E) root_path relative entries) = map Inr found \<and>
        items = Sorting_Algorithms.sort (item_order (en_compare_str E) column direction) found \<and> length items \<le> max_entries"
      if "res = Inr (items, cap)" for items cap
      using full e finish(2) [of items cap] res that by (intro exI [of _ relative] exI [of _ entries] exI [of _ "sc_items s"]) simp
    then show ?thesis unfolding run res by (intro exI [of _ res] conjI refl) blast
  qed
qed

definition demo_metadata :: metadata where
  "demo_metadata =
     \<lparr> md_is_dir = False, md_len = 5, md_modified = Some 7000000, md_created = None, md_dev = 1, md_ino = 2,
       md_mtime = 0, md_mtime_nsec = 0, md_ctime = 0, md_ctime_nsec = 0 \<rparr>"

definition demo_probe :: "string \<Rightarrow> dir_probe" where
  "demo_probe name =
     \<lparr> dp_name = name, dp_offset = 1, dp_fd = Inr (), dp_stat = Inr demo_target, dp_open = Opened,
       dp_open_nofollow = Inr (), dp_metadata = Inr demo_metadata \<rparr>"

definition demo_env :: listing_env where
  "demo_env =
     \<lparr> en_uuid = hex_uuid, en_sha = (\<lambda>x. x), en_lower = (\<lambda>x. x), en_owned_capacity = length, en_lower_capacity = length,
       en_compare_str = default, en_item_size = 100, en_vec_size = 24, en_tick = (\<lambda>n. (False, False)),
       en_grow = (\<lambda>n k. Some k), en_sort_tick = (\<lambda>n. (False, False)), en_stopping_after_sort = False,
       en_sort_memory = (True, True), en_shrink = (\<lambda>n. n) \<rparr>"

lemma demo_listing_paths:
  "relative_path_or_dot ''/srv'' ''/srv'' = Inr ''.''" "child_path ''/srv'' ''.'' ''a'' = ''/srv/a''"
  "path_strip_prefix ''/srv/a'' ''/srv'' = Some ''a''" "path_file_name ''/srv/a'' = Some ''a''"
  unfolding child_path_def by code_simp+

lemma demo_names: "is_internal_name U ''a'' = False" "to_str ''a'' = Some ''a''"
  by (simp_all add: is_internal_name_def classify_internal_name_def is_readiness_name_def is_delete_trash_name_def
      is_quarantine_name_def framed_uuid_def strip_prefix_def internal_name_defs to_str_def utf8_valid.simps utf8_chunk_def byte_at_def)

definition demo_item :: PathItem where
  "demo_item =
     \<lparr> pi_type = PlainFile, pi_sort_name = ''a'', pi_sort_name_capacity = 1, pi_name = ''a'', pi_name_capacity = 1,
       pi_mtime = 7, pi_size = 5, pi_revision = target_preimage (replicate 32 CHR ''o'') ''a'' (Existing demo_target) \<rparr>"

lemma demo_listing:
  "collect_list_snapshot_blocking demo_env ''/srv'' (\<lambda>_ _. Inr [ReadEntry (demo_probe ''.''), ReadEntry (demo_probe ''a'')]) ''/srv'' ''/srv''
     (replicate 32 CHR ''o'') 10 1000 ''name'' ''asc'' = Some (Inr ([demo_item], 4))"
proof -
  have entry: "probe_entry ''/srv/a'' (demo_probe ''a'') =
    Inr (Some \<lparr> de_path = ''/srv/a'', de_file_name = ''a'', de_metadata = demo_metadata, de_is_symlink = False, de_revision_identity = Existing demo_target \<rparr>)"
    by (simp add: probe_entry_def demo_probe_def demo_target_def)
  have item: "pathitem_from_rooted_entry demo_env
      \<lparr> de_path = ''/srv/a'', de_file_name = ''a'', de_metadata = demo_metadata, de_is_symlink = False, de_revision_identity = Existing demo_target \<rparr>
      ''/srv'' ''/srv'' (replicate 32 CHR ''o'') = Inr demo_item"
    by (simp add: pathitem_from_rooted_entry_def strict_file_name_def strict_relative_path_def demo_listing_paths demo_names demo_metadata_def
        entry_path_type_def entry_mtime_def to_timestamp_def u64_max_def demo_env_def demo_item_def target_revision_def)
  show ?thesis
    using item
    by (simp add: collect_list_snapshot_blocking_def visit_dir_blocking_chunk_def demo_listing_paths demo_names entry [unfolded demo_probe_def] list_budget_def list_visitor_def
        push_list_item_def empty_scan_def demo_env_def saturating_add_def saturating_mul_def u64_max_def path_item_heap_bytes_def
        demo_item_def collection_allocation_bytes_def try_reserve_bounded_vec_slot_def finish_items_def ensure_path_sort_budget_def
        sort_path_items_interruptibly_def stable_sort_by_interruptible_def shrink_paths_if_wasteful_def demo_probe_def)
qed

theorem listing_complete_witness:
  "(\<exists>items cap. collect_list_snapshot_blocking demo_env ''/srv'' (\<lambda>_ _. Inr [ReadEntry (demo_probe ''.''), ReadEntry (demo_probe ''a'')]) ''/srv'' ''/srv''
     (replicate 32 CHR ''o'') 10 1000 ''name'' ''asc'' = Some (Inr (items, cap)) \<and> map pi_name items = [''a''] \<and> length items \<le> 10) \<and>
   (\<exists>e. collect_list_snapshot_blocking demo_env ''/srv'' (\<lambda>_ _. Inr [ReadEntry (demo_probe ''a''), ReadFailed (own_failure OtherIo)]) ''/srv'' ''/srv''
     (replicate 32 CHR ''o'') 10 1000 ''name'' ''asc'' = Some (Inl e))"
proof
  have limit: "10 \<le> ISIZE_MAX" by (simp add: ISIZE_MAX_def)
  from listing_complete [OF limit, of demo_env "''/srv''" "\<lambda>_ _. Inr [ReadEntry (demo_probe ''.''), ReadEntry (demo_probe ''a'')]" "''/srv''" "''/srv''"
      "replicate 32 CHR ''o''" 1000 "''name''" "''asc''"]
  have "length [demo_item] \<le> 10" unfolding demo_listing by simp
  then show "\<exists>items cap. collect_list_snapshot_blocking demo_env ''/srv'' (\<lambda>_ _. Inr [ReadEntry (demo_probe ''.''), ReadEntry (demo_probe ''a'')]) ''/srv'' ''/srv''
     (replicate 32 CHR ''o'') 10 1000 ''name'' ''asc'' = Some (Inr (items, cap)) \<and> map pi_name items = [''a''] \<and> length items \<le> 10"
    unfolding demo_listing by (simp add: demo_item_def)
  let ?failing = "[ReadEntry (demo_probe ''a''), ReadFailed (own_failure OtherIo)]"
  obtain r where r: "collect_list_snapshot_blocking demo_env ''/srv'' (\<lambda>_ _. Inr ?failing) ''/srv'' ''/srv''
      (replicate 32 CHR ''o'') 10 1000 ''name'' ''asc'' = Some r" and "\<And>items cap. r \<noteq> Inr (items, cap)"
    using listing_complete [OF limit, of demo_env "''/srv''" "\<lambda>_ _. Inr ?failing" "''/srv''" "''/srv''" "replicate 32 CHR ''o''" 1000 "''name''" "''asc''"]
    by auto
  then show "\<exists>e. collect_list_snapshot_blocking demo_env ''/srv'' (\<lambda>_ _. Inr ?failing) ''/srv'' ''/srv''
      (replicate 32 CHR ''o'') 10 1000 ''name'' ''asc'' = Some (Inl e)"
    by (cases r) auto
qed

end
