(* ===== verification/Listing_Snapshot.thy ===== *)
theory Listing_Snapshot
  imports Listing_Items "HOL-Library.AList"
begin

text \<open>
  \<^verbatim>\<open>src/server/listing/snapshot.rs\<close>: the bounded cache of directory listings that are too long for one
  page, and the cursors clients follow.  The lemmas show that the cache respects its limits under
  any use, that the pages of a listing partition it, and which cursors are accepted.

  SHA-256, the base64 codec, the random source and the layout of the records are arguments.  A map
  is an association list; its iteration order is only summed over.  A point in time is a number of
  nanoseconds.
\<close>

section \<open>Records\<close>

definition MAX_CACHED_LIST_SNAPSHOTS :: usize where "MAX_CACHED_LIST_SNAPSHOTS = 32"
definition MAX_CACHED_LIST_SNAPSHOT_BYTES :: usize where "MAX_CACHED_LIST_SNAPSHOT_BYTES = 67108864"
definition MAX_CACHED_LIST_SNAPSHOTS_PER_OWNER :: usize where "MAX_CACHED_LIST_SNAPSHOTS_PER_OWNER = 8"
definition MAX_CACHED_LIST_SNAPSHOT_BYTES_PER_OWNER :: usize where "MAX_CACHED_LIST_SNAPSHOT_BYTES_PER_OWNER = 33554432"
definition LIST_SNAPSHOT_TTL :: nat where "LIST_SNAPSHOT_TTL = 120000000000"

lemmas list_limit_defs =
  MAX_CACHED_LIST_SNAPSHOTS_def MAX_CACHED_LIST_SNAPSHOT_BYTES_def MAX_CACHED_LIST_SNAPSHOTS_PER_OWNER_def
  MAX_CACHED_LIST_SNAPSHOT_BYTES_PER_OWNER_def

record ListSnapshotPage =
  lp_paths :: "PathItem list"
  lp_range :: "usize \<times> usize"
  lp_next_cursor :: "string option"

definition page_from_vec :: "PathItem list \<Rightarrow> string option \<Rightarrow> ListSnapshotPage" where
  "page_from_vec items following = \<lparr> lp_paths = items, lp_range = (0, length items), lp_next_cursor = following \<rparr>"

text \<open>\<^verbatim>\<open>None\<close> is the failed assertion on the range.\<close>

definition page_from_shared :: "PathItem list \<Rightarrow> usize \<times> usize \<Rightarrow> string option \<Rightarrow> ListSnapshotPage option" where
  "page_from_shared items bounds following =
     (if \<not> snd bounds \<le> length items then None
      else Some \<lparr> lp_paths = items, lp_range = bounds, lp_next_cursor = following \<rparr>)"

definition page_paths :: "ListSnapshotPage \<Rightarrow> PathItem list" where
  "page_paths p = take (snd (lp_range p) - fst (lp_range p)) (drop (fst (lp_range p)) (lp_paths p))"

record ListSnapshotBinding =
  lb_owner :: blob
  lb_path :: string
  lb_directory :: DirectorySnapshot
  lb_sort :: string
  lb_order :: string
  lb_query :: string
  lb_limit :: usize
  lb_capacities :: "usize \<times> usize \<times> usize"

record ListSnapshotRequest =
  lq_owner :: blob
  lq_path :: string
  lq_directory :: DirectorySnapshot
  lq_sort :: string
  lq_order :: string
  lq_query :: string
  lq_limit :: usize

definition matches_request :: "ListSnapshotBinding \<Rightarrow> ListSnapshotRequest \<Rightarrow> bool" where
  "matches_request b q \<longleftrightarrow>
     lb_owner b = lq_owner q \<and> path_eq (lb_path b) (lq_path q) \<and> lb_sort b = lq_sort q \<and> lb_order b = lq_order q \<and>
     lb_query b = lq_query q \<and> lb_limit b = lq_limit q"

record ListSnapshotRecord =
  lr_secret :: blob
  lr_binding :: ListSnapshotBinding
  lr_paths :: "PathItem list"
  lr_expires_at :: nat
  lr_weight :: usize

record ListSnapshotStore =
  ls_snapshots :: "(blob \<times> ListSnapshotRecord) list"
  ls_insertion_order :: "blob list"
  ls_total_weight :: usize

definition empty_store :: ListSnapshotStore where
  "empty_store = \<lparr> ls_snapshots = [], ls_insertion_order = [], ls_total_weight = 0 \<rparr>"

section \<open>Cursors\<close>

definition xor_bytes :: "blob \<Rightarrow> blob \<Rightarrow> blob" where
  "xor_bytes a b = map2 (\<lambda>x y. char_of (xor (of_char x :: nat) (of_char y))) a b"

definition hmac_sha256 :: "(string \<Rightarrow> blob) \<Rightarrow> blob \<Rightarrow> blob list \<Rightarrow> blob" where
  "hmac_sha256 sha secret parts =
     (let key_block =
            (if 64 < length secret then sha secret @ replicate 32 (CHR 0x00) else secret @ replicate (64 - length secret) (CHR 0x00));
          inner_pad = xor_bytes (replicate 64 (CHR 0x36)) key_block;
          outer_pad = xor_bytes (replicate 64 (CHR 0x5C)) key_block
      in sha (outer_pad @ sha (inner_pad @ concat parts)))"

definition list_cursor_tag :: "(string \<Rightarrow> blob) \<Rightarrow> blob \<Rightarrow> blob \<Rightarrow> u64 \<Rightarrow> blob" where
  "list_cursor_tag sha secret snap_id offset =
     take 16 (hmac_sha256 sha secret [''dufs-list-cursor-v3'' @ [CHR 0x00], snap_id, u64_to_be_bytes offset])"

record base64 =
  b64_encode :: "blob \<Rightarrow> string"
  b64_decode :: "string \<Rightarrow> blob option"

definition encode_list_cursor :: "base64 \<Rightarrow> (string \<Rightarrow> blob) \<Rightarrow> blob \<Rightarrow> blob \<Rightarrow> u64 \<Rightarrow> string" where
  "encode_list_cursor B sha snap_id secret offset =
     b64_encode B ([CHR 0x03] @ snap_id @ u64_to_be_bytes offset @ list_cursor_tag sha secret snap_id offset)"

record DecodedListCursor =
  dc_id :: blob
  dc_offset :: u64
  dc_tag :: blob

datatype cursor_error = CursorLength | CursorEncoding | CursorVersion | CursorNotCanonical

definition decode_list_cursor :: "base64 \<Rightarrow> string \<Rightarrow> cursor_error + DecodedListCursor" where
  "decode_list_cursor B value =
     (if length value \<noteq> 76 then Inl CursorLength
      else case b64_decode B value of
        None \<Rightarrow> Inl CursorEncoding
      | Some bytes \<Rightarrow>
          if length bytes \<noteq> 57 \<or> bytes ! 0 \<noteq> CHR 0x03 then Inl CursorVersion
          else if b64_encode B bytes \<noteq> value then Inl CursorNotCanonical
          else Inr \<lparr> dc_id = take 32 (drop 1 bytes), dc_offset = u64_from_be_bytes (take 8 (drop 33 bytes)), dc_tag = drop 41 bytes \<rparr>)"

section \<open>The store\<close>

definition discard :: "blob \<Rightarrow> ListSnapshotRecord \<Rightarrow> blob list \<Rightarrow> ListSnapshotStore \<Rightarrow> ListSnapshotStore" where
  "discard snap_id snapshot order s =
     s\<lparr> ls_insertion_order := order, ls_snapshots := AList.delete snap_id (ls_snapshots s),
        ls_total_weight := ls_total_weight s - lr_weight snapshot \<rparr>"

fun pop_oldest :: "blob list \<Rightarrow> ListSnapshotStore \<Rightarrow> ListSnapshotStore" where
  "pop_oldest [] s = s\<lparr> ls_insertion_order := [] \<rparr>"
| "pop_oldest (snap_id # rest) s =
     (case map_of (ls_snapshots s) snap_id of
        Some snapshot \<Rightarrow> discard snap_id snapshot rest s
      | None \<Rightarrow> pop_oldest rest s)"

definition remove_oldest :: "ListSnapshotStore \<Rightarrow> ListSnapshotStore" where
  "remove_oldest s = pop_oldest (ls_insertion_order s) s"

lemma pop_oldest_order: "length (ls_insertion_order (pop_oldest order s)) \<le> length order - 1"
  by (induction order s rule: pop_oldest.induct) (auto simp: discard_def split: option.splits)

lemma remove_oldest_shorter:
  "ls_insertion_order s \<noteq> [] \<Longrightarrow> length (ls_insertion_order (remove_oldest s)) < length (ls_insertion_order s)"
  using pop_oldest_order [of "ls_insertion_order s" s] by (cases "ls_insertion_order s") (auto simp: remove_oldest_def)

definition expired :: "nat \<Rightarrow> blob \<Rightarrow> ListSnapshotStore \<Rightarrow> bool" where
  "expired now snap_id s = (case map_of (ls_snapshots s) snap_id of None \<Rightarrow> True | Some snapshot \<Rightarrow> lr_expires_at snapshot \<le> now)"

function purge_expired_snapshots :: "nat \<Rightarrow> ListSnapshotStore \<Rightarrow> ListSnapshotStore" where
  "purge_expired_snapshots now s =
     (case ls_insertion_order s of
        [] \<Rightarrow> s
      | snap_id # _ \<Rightarrow> if \<not> expired now snap_id s then s else purge_expired_snapshots now (remove_oldest s))"
  by pat_completeness auto
termination
proof (relation "measure (\<lambda>(now, s). length (ls_insertion_order s))")
  fix now and s :: ListSnapshotStore and x rest
  assume "ls_insertion_order s = x # rest"
  then show "((now, remove_oldest s), now, s) \<in> measure (\<lambda>(now, s). length (ls_insertion_order s))"
    using remove_oldest_shorter [of s] by simp
qed simp

declare purge_expired_snapshots.simps [simp del]

definition owner_usage :: "ListSnapshotStore \<Rightarrow> blob \<Rightarrow> usize \<times> usize" where
  "owner_usage s who =
     foldl (\<lambda>(count, weight) snapshot. (saturating_add count 1, saturating_add weight (lr_weight snapshot))) (0, 0)
       (filter (\<lambda>snapshot. lb_owner (lr_binding snapshot) = who) (map snd (ls_snapshots s)))"

definition owned_by :: "blob \<Rightarrow> ListSnapshotStore \<Rightarrow> blob \<Rightarrow> bool" where
  "owned_by who s snap_id =
     (case map_of (ls_snapshots s) snap_id of None \<Rightarrow> False | Some snapshot \<Rightarrow> lb_owner (lr_binding snapshot) = who)"

definition remove_oldest_for_owner :: "blob \<Rightarrow> ListSnapshotStore \<Rightarrow> ListSnapshotStore \<times> bool" where
  "remove_oldest_for_owner who s =
     (case List.extract (owned_by who s) (ls_insertion_order s) of
        None \<Rightarrow> (s, False)
      | Some (before, snap_id, behind) \<Rightarrow>
          (case map_of (ls_snapshots s) snap_id of
             Some snapshot \<Rightarrow> (discard snap_id snapshot (before @ behind) s, True)
           | None \<Rightarrow> (s\<lparr> ls_insertion_order := before @ behind \<rparr>, False)))"

lemma remove_oldest_for_owner_shorter:
  "remove_oldest_for_owner who s = (s', True) \<Longrightarrow> length (ls_insertion_order s') < length (ls_insertion_order s)"
  by (auto simp: remove_oldest_for_owner_def discard_def extract_Some_iff split: option.splits prod.splits)

function trim_owner :: "blob \<Rightarrow> usize \<Rightarrow> ListSnapshotStore \<Rightarrow> ListSnapshotStore" where
  "trim_owner who weight s =
     (case owner_usage s who of (owner_count, owner_weight) \<Rightarrow>
        if owner_count < MAX_CACHED_LIST_SNAPSHOTS_PER_OWNER \<and>
           saturating_add owner_weight weight \<le> MAX_CACHED_LIST_SNAPSHOT_BYTES_PER_OWNER then s
        else case remove_oldest_for_owner who s of
          (s, False) \<Rightarrow> s
        | (s, True) \<Rightarrow> trim_owner who weight s)"
  by pat_completeness auto
termination
  by (relation "measure (\<lambda>(who, weight, s). length (ls_insertion_order s))") (auto intro!: remove_oldest_for_owner_shorter)

declare trim_owner.simps [simp del]

partial_function (option) trim_total :: "usize \<Rightarrow> ListSnapshotStore \<Rightarrow> ListSnapshotStore option" where
  "trim_total weight s =
     (if ls_snapshots s \<noteq> [] \<and>
         (MAX_CACHED_LIST_SNAPSHOTS \<le> length (ls_snapshots s) \<or>
          MAX_CACHED_LIST_SNAPSHOT_BYTES < saturating_add (ls_total_weight s) weight)
      then trim_total weight (remove_oldest s) else Some s)"

text \<open>The second loop may not end on a store whose queue is shorter than its map.\<close>

definition make_room :: "blob \<Rightarrow> usize \<Rightarrow> ListSnapshotStore \<Rightarrow> ListSnapshotStore option" where
  "make_room who weight s = trim_total weight (trim_owner who weight s)"

datatype ListSnapshotLookupError = LookupDirectoryChanged | InvalidBinding | Unavailable

text \<open>\<^verbatim>\<open>None\<close> is a failed assertion.\<close>

definition snapshot_page ::
  "base64 \<Rightarrow> (string \<Rightarrow> blob) \<Rightarrow> DecodedListCursor \<Rightarrow> ListSnapshotRequest \<Rightarrow> nat \<Rightarrow> ListSnapshotStore \<Rightarrow>
   (ListSnapshotStore \<times> (ListSnapshotLookupError + ListSnapshotPage)) option"
where
  "snapshot_page B sha cursor request now s =
     (let s = purge_expired_snapshots now s in
      case map_of (ls_snapshots s) (dc_id cursor) of
        None \<Rightarrow> Some (s, Inl Unavailable)
      | Some snapshot \<Rightarrow>
          let expected_tag = list_cursor_tag sha (lr_secret snapshot) (dc_id cursor) (dc_offset cursor) in
          if expected_tag \<noteq> dc_tag cursor then Some (s, Inl Unavailable)
          else if \<not> matches_request (lr_binding snapshot) request then Some (s, Inl InvalidBinding)
          else if lb_directory (lr_binding snapshot) \<noteq> lq_directory request then Some (s, Inl LookupDirectoryChanged)
          else
            let offset = dc_offset cursor in
            if offset = 0 \<or> length (lr_paths snapshot) \<le> offset then Some (s, Inl Unavailable)
            else
              let fin = min (saturating_add offset (lb_limit (lr_binding snapshot))) (length (lr_paths snapshot));
                  following = (if fin < length (lr_paths snapshot)
                                 then Some (encode_list_cursor B sha (dc_id cursor) (lr_secret snapshot) fin) else None)
              in map_option (\<lambda>page. (s, Inr page)) (page_from_shared (lr_paths snapshot) (offset, fin) following))"

text \<open>The sizes of a record and of an item are arguments.\<close>

definition list_snapshot_weight :: "usize \<Rightarrow> usize \<Rightarrow> ListSnapshotBinding \<Rightarrow> PathItem list \<Rightarrow> usize \<Rightarrow> usize" where
  "list_snapshot_weight record_size item_size binding items path_capacity =
     (case lb_capacities binding of (sort_capacity, order_capacity, query_capacity) \<Rightarrow>
        let fixed = saturating_add record_size (saturating_mul path_capacity item_size) in
        foldl (\<lambda>weight item. saturating_add (saturating_add weight (pi_name_capacity item)) (pi_sort_name_capacity item))
          (saturating_add (saturating_add (saturating_add (saturating_add fixed (length (lb_path binding))) sort_capacity)
             order_capacity) query_capacity)
          items)"

fun draw_cursor :: "ListSnapshotStore \<Rightarrow> blob option list \<Rightarrow> (blob \<times> blob) option" where
  "draw_cursor s [] = None"
| "draw_cursor s (None # draws) = draw_cursor s draws"
| "draw_cursor s (Some random # draws) =
     (if map_of (ls_snapshots s) (take 32 random) \<noteq> None then draw_cursor s draws
      else Some (take 32 random, drop 32 random))"

text \<open>The eight results of the random source are an argument.\<close>

definition cache_snapshot ::
  "base64 \<Rightarrow> (string \<Rightarrow> blob) \<Rightarrow> usize \<Rightarrow> usize \<Rightarrow> blob option list \<Rightarrow> ListSnapshotBinding \<Rightarrow> PathItem list \<Rightarrow> usize \<Rightarrow> string \<Rightarrow> nat \<Rightarrow>
   ListSnapshotStore \<Rightarrow> (ListSnapshotStore \<times> (ListingError + ListSnapshotPage)) option"
where
  "cache_snapshot B sha record_size item_size draws binding items path_capacity serve_root now s =
     (if \<not> lb_limit binding < length items then None
      else
        let weight = list_snapshot_weight record_size item_size binding items path_capacity in
        if MAX_CACHED_LIST_SNAPSHOT_BYTES_PER_OWNER < weight then
          Some (s, Inl (limit_error ''list_snapshot_cache'' (lb_path binding) serve_root ''snapshot_memory_budget'' ListSnapshotLimit))
        else
          let first_end = lb_limit binding in
          case make_room (lb_owner binding) weight (purge_expired_snapshots now s) of
            None \<Rightarrow> None
          | Some s \<Rightarrow>
              (case draw_cursor s (take 8 draws) of
                 None \<Rightarrow>
                   Some (s, Inl (limit_error ''list_snapshot_cache'' (lb_path binding) serve_root ''random_cursor_generation'' DirectoryOperationFailed))
               | Some (snap_id, secret) \<Rightarrow>
                   let following = Some (encode_list_cursor B sha snap_id secret first_end);
                       s = s\<lparr> ls_total_weight := saturating_add (ls_total_weight s) weight,
                              ls_insertion_order := ls_insertion_order s @ [snap_id],
                              ls_snapshots := AList.update snap_id
                                \<lparr> lr_secret = secret, lr_binding = binding, lr_paths = items,
                                  lr_expires_at = now + LIST_SNAPSHOT_TTL, lr_weight = weight \<rparr> (ls_snapshots s) \<rparr>
                   in map_option (\<lambda>page. (s, Inr page)) (page_from_shared items (0, first_end) following)))"

definition list_snapshot_owner :: "(string \<Rightarrow> blob) \<Rightarrow> string \<Rightarrow> blob" where
  "list_snapshot_owner sha account = listing_snapshot sha account"

section \<open>The structure of the store\<close>

abbreviation weight_sum :: "ListSnapshotRecord list \<Rightarrow> nat" where
  "weight_sum rs \<equiv> sum_list (map lr_weight rs)"

abbreviation records :: "ListSnapshotStore \<Rightarrow> ListSnapshotRecord list" where
  "records s \<equiv> map snd (ls_snapshots s)"

abbreviation owner_records :: "ListSnapshotStore \<Rightarrow> blob \<Rightarrow> ListSnapshotRecord list" where
  "owner_records s who \<equiv> filter (\<lambda>snapshot. lb_owner (lr_binding snapshot) = who) (records s)"

text \<open>The queue lists the keys of the map, and the weight is the sum of the weights.\<close>

definition store_ok :: "ListSnapshotStore \<Rightarrow> bool" where
  "store_ok s \<longleftrightarrow>
     distinct (map fst (ls_snapshots s)) \<and> distinct (ls_insertion_order s) \<and>
     set (ls_insertion_order s) = fst ` set (ls_snapshots s) \<and> ls_total_weight s = weight_sum (records s)"

definition bounded :: "ListSnapshotStore \<Rightarrow> bool" where
  "bounded s \<longleftrightarrow>
     length (ls_snapshots s) \<le> MAX_CACHED_LIST_SNAPSHOTS \<and> ls_total_weight s \<le> MAX_CACHED_LIST_SNAPSHOT_BYTES \<and>
     (\<forall>who. length (owner_records s who) \<le> MAX_CACHED_LIST_SNAPSHOTS_PER_OWNER \<and>
            weight_sum (owner_records s who) \<le> MAX_CACHED_LIST_SNAPSHOT_BYTES_PER_OWNER)"

definition shrinks :: "ListSnapshotStore \<Rightarrow> ListSnapshotStore \<Rightarrow> bool" where
  "shrinks s s' \<longleftrightarrow> (\<exists>P. ls_snapshots s' = filter P (ls_snapshots s))"

lemma shrinks_refl [simp]: "shrinks s s"
  unfolding shrinks_def by (rule exI [of _ "\<lambda>_. True"]) simp

lemma shrinks_trans: "\<lbrakk> shrinks s t; shrinks t u \<rbrakk> \<Longrightarrow> shrinks s u"
  by (auto simp: shrinks_def filter_filter)

lemma weight_sum_filter: "weight_sum (filter Q (map snd (filter P xs))) \<le> weight_sum (filter Q (map snd xs))"
  by (induction xs) auto

lemma length_filter_filter: "length (filter Q (map snd (filter P xs))) \<le> length (filter Q (map snd xs))"
  by (induction xs) auto

lemma shrinks_owner:
  assumes "shrinks s s'"
  shows "length (owner_records s' who) \<le> length (owner_records s who)" "weight_sum (owner_records s' who) \<le> weight_sum (owner_records s who)"
  using assms weight_sum_filter length_filter_filter by (auto simp: shrinks_def)

lemma shrinks_bounded:
  assumes "shrinks s s'" "store_ok s" "store_ok s'" "bounded s"
  shows "bounded s'"
proof -
  obtain P where P: "ls_snapshots s' = filter P (ls_snapshots s)" using assms(1) by (auto simp: shrinks_def)
  have "length (ls_snapshots s') \<le> length (ls_snapshots s)" by (simp add: P)
  moreover have "ls_total_weight s' \<le> ls_total_weight s"
    using assms(2,3) weight_sum_filter [of "\<lambda>_. True" P "ls_snapshots s"] by (simp add: store_ok_def P)
  ultimately show ?thesis
    using assms(4) shrinks_owner [OF assms(1)] unfolding bounded_def by (meson le_trans)
qed

lemma sum_list_delete:
  "\<lbrakk> distinct (map fst xs); map_of xs k = Some v \<rbrakk> \<Longrightarrow> weight_sum (map snd xs) = lr_weight v + weight_sum (map snd (AList.delete k xs))"
proof (induction xs)
  case (Cons x xs)
  obtain k' v' where x: "x = (k', v')" by (cases x)
  show ?case
  proof (cases "k' = k")
    case True
    with Cons.prems have "AList.delete k xs = xs" by (intro AList.delete_id) (simp add: x)
    with True Cons.prems show ?thesis by (simp add: x)
  next
    case False
    with Cons show ?thesis by (simp add: x)
  qed
qed simp

lemma length_delete:
  assumes "map_of xs k = Some v"
  shows "length (AList.delete k xs) < length xs"
proof -
  have "(k, v) \<in> set xs" using assms by (rule map_of_SomeD)
  then show ?thesis unfolding AList.delete_eq by (rule length_filter_less) simp
qed

lemma discard_ok:
  assumes "store_ok s" "map_of (ls_snapshots s) snap_id = Some snapshot" "ls_insertion_order s = before @ snap_id # behind"
  shows "store_ok (discard snap_id snapshot (before @ behind) s)" "shrinks s (discard snap_id snapshot (before @ behind) s)"
    "length (ls_snapshots (discard snap_id snapshot (before @ behind) s)) < length (ls_snapshots s)"
proof -
  have "distinct (map fst (AList.delete snap_id (ls_snapshots s)))"
    using assms(1) by (simp add: AList.delete_keys store_ok_def distinct_removeAll)
  moreover have "fst ` set (AList.delete snap_id (ls_snapshots s)) = fst ` set (ls_snapshots s) - {snap_id}"
    by (force simp: AList.delete_eq)
  moreover have "set (before @ behind) = set (ls_insertion_order s) - {snap_id}" "distinct (before @ behind)"
    using assms(1,3) by (auto simp: store_ok_def)
  moreover have "ls_total_weight s - lr_weight snapshot = weight_sum (map snd (AList.delete snap_id (ls_snapshots s)))"
    using sum_list_delete [OF _ assms(2)] assms(1) by (simp add: store_ok_def)
  ultimately show "store_ok (discard snap_id snapshot (before @ behind) s)"
    using assms(1) by (simp add: store_ok_def discard_def)
  show "shrinks s (discard snap_id snapshot (before @ behind) s)"
    by (auto simp: shrinks_def discard_def AList.delete_eq)
  show "length (ls_snapshots (discard snap_id snapshot (before @ behind) s)) < length (ls_snapshots s)"
    using length_delete [OF assms(2)] by (simp add: discard_def)
qed

lemma store_ok_front:
  assumes "store_ok s" "ls_insertion_order s = snap_id # rest"
  obtains snapshot where "map_of (ls_snapshots s) snap_id = Some snapshot" "remove_oldest s = discard snap_id snapshot ([] @ rest) s"
proof -
  have "snap_id \<in> fst ` set (ls_snapshots s)" using assms by (auto simp: store_ok_def)
  then obtain snapshot where "map_of (ls_snapshots s) snap_id = Some snapshot"
    by (metis map_of_eq_None_iff not_None_eq)
  with that assms(2) show thesis by (simp add: remove_oldest_def)
qed

lemma remove_oldest_ok:
  assumes "store_ok s" "ls_insertion_order s \<noteq> []"
  shows "store_ok (remove_oldest s)" "shrinks s (remove_oldest s)" "length (ls_snapshots (remove_oldest s)) < length (ls_snapshots s)"
proof -
  obtain snap_id rest where o: "ls_insertion_order s = snap_id # rest" using assms(2) by (cases "ls_insertion_order s") auto
  from store_ok_front [OF assms(1) o] obtain snapshot where r: "map_of (ls_snapshots s) snap_id = Some snapshot"
    "remove_oldest s = discard snap_id snapshot ([] @ rest) s" .
  from discard_ok [OF assms(1) r(1), of "[]" rest] o
  show "store_ok (remove_oldest s)" "shrinks s (remove_oldest s)" "length (ls_snapshots (remove_oldest s)) < length (ls_snapshots s)"
    unfolding r(2) by simp_all
qed

lemma order_empty: "store_ok s \<Longrightarrow> ls_insertion_order s = [] \<longleftrightarrow> ls_snapshots s = []"
  by (metis image_is_empty set_empty store_ok_def)

text \<open>Purging keeps the structure and every snapshot that has not expired.\<close>

lemma cache_purge_expired_ok:
  assumes "store_ok s"
  shows "store_ok (purge_expired_snapshots now s) \<and> shrinks s (purge_expired_snapshots now s) \<and>
    (\<forall>snap_id snapshot. map_of (ls_snapshots s) snap_id = Some snapshot \<and> now < lr_expires_at snapshot \<longrightarrow>
       map_of (ls_snapshots (purge_expired_snapshots now s)) snap_id = Some snapshot)"
  using assms
proof (induction now s rule: purge_expired_snapshots.induct)
  case (1 now s)
  note unfold_purge = purge_expired_snapshots.simps [of now s]
  show ?case
  proof (cases "ls_insertion_order s")
    case Nil
    with 1 show ?thesis by (simp add: unfold_purge)
  next
    case (Cons front rest)
    show ?thesis
    proof (cases "expired now front s")
      case False
      with Cons 1 show ?thesis by (simp add: unfold_purge)
    next
      case True
      have step: "purge_expired_snapshots now s = purge_expired_snapshots now (remove_oldest s)" by (simp add: unfold_purge Cons True)
      from store_ok_front [OF 1(2) Cons] obtain old where old: "map_of (ls_snapshots s) front = Some old"
        "remove_oldest s = discard front old ([] @ rest) s" .
      note ok = remove_oldest_ok [OF 1(2)]
      have IH: "store_ok (purge_expired_snapshots now (remove_oldest s)) \<and> shrinks (remove_oldest s) (purge_expired_snapshots now (remove_oldest s)) \<and>
        (\<forall>snap_id snapshot. map_of (ls_snapshots (remove_oldest s)) snap_id = Some snapshot \<and> now < lr_expires_at snapshot \<longrightarrow>
           map_of (ls_snapshots (purge_expired_snapshots now (remove_oldest s))) snap_id = Some snapshot)"
        using 1(1) [OF Cons] True ok(1) Cons by simp
      have "map_of (ls_snapshots (remove_oldest s)) snap_id = Some snapshot"
        if "map_of (ls_snapshots s) snap_id = Some snapshot" "now < lr_expires_at snapshot" for snap_id snapshot
      proof -
        have "snap_id \<noteq> front" using that True old(1) by (auto simp: expired_def)
        with that show ?thesis by (simp add: old(2) discard_def AList.delete_conv')
      qed
      moreover have "shrinks s (remove_oldest s)" using ok(2) Cons by simp
      ultimately show ?thesis unfolding step using IH by (blast intro: shrinks_trans)
    qed
  qed
qed

section \<open>Making room\<close>

lemma saturating_min: "saturating_add (min a u64_max) b = min (a + b) u64_max"
  by (auto simp: saturating_add_def)

lemma owner_usage_eq:
  "owner_usage s who = (min (length (owner_records s who)) u64_max, min (weight_sum (owner_records s who)) u64_max)"
proof -
  have "foldl (\<lambda>(count, weight) snapshot. (saturating_add count 1, saturating_add weight (lr_weight snapshot)))
      (min a u64_max, min b u64_max) rs = (min (a + length rs) u64_max, min (b + weight_sum rs) u64_max)" for a b rs
  proof (induction rs arbitrary: a b)
    case (Cons r rs)
    then show ?case using Cons.IH [of "a + 1" "b + lr_weight r"] by (simp add: saturating_min add.assoc)
  qed simp
  from this [of 0 0] show ?thesis by (simp add: owner_usage_def)
qed

lemma remove_oldest_for_owner_ok:
  assumes "store_ok s" "remove_oldest_for_owner who s = (s', removed)"
  shows "removed \<Longrightarrow> store_ok s' \<and> shrinks s s'" "\<not> removed \<Longrightarrow> s' = s \<and> owner_records s who = []"
proof -
  have "store_ok s' \<and> shrinks s s'" if removed
    using assms that discard_ok [OF assms(1)]
    by (auto simp: remove_oldest_for_owner_def extract_Some_iff split: option.splits prod.splits)
  then show "removed \<Longrightarrow> store_ok s' \<and> shrinks s s'" .
  assume not: "\<not> removed"
  have "List.extract (owned_by who s) (ls_insertion_order s) = None"
  proof (rule ccontr)
    assume "List.extract (owned_by who s) (ls_insertion_order s) \<noteq> None"
    then obtain before snap_id behind where e: "List.extract (owned_by who s) (ls_insertion_order s) = Some (before, snap_id, behind)"
      by (metis not_None_eq prod_cases3)
    then have "owned_by who s snap_id" by (simp add: extract_Some_iff)
    with e assms(2) not show False by (auto simp: remove_oldest_for_owner_def owned_by_def split: option.splits)
  qed
  then have none: "\<not> owned_by who s snap_id" if "snap_id \<in> set (ls_insertion_order s)" for snap_id
    using that by (simp add: extract_None_iff)
  have "lb_owner (lr_binding snapshot) \<noteq> who" if "(snap_id, snapshot) \<in> set (ls_snapshots s)" for snap_id snapshot
  proof -
    have "map_of (ls_snapshots s) snap_id = Some snapshot" using assms(1) that by (simp add: store_ok_def)
    moreover have "snap_id \<in> set (ls_insertion_order s)" using assms(1) that by (force simp: store_ok_def)
    ultimately show ?thesis using none [of snap_id] by (simp add: owned_by_def)
  qed
  then have "owner_records s who = []" by (fastforce simp: filter_empty_conv)
  moreover have "s' = s" using assms(2) not \<open>List.extract (owned_by who s) (ls_insertion_order s) = None\<close>
    by (simp add: remove_oldest_for_owner_def)
  ultimately show "s' = s \<and> owner_records s who = []" by simp
qed

lemma trim_owner_ok:
  assumes "store_ok s" "weight \<le> MAX_CACHED_LIST_SNAPSHOT_BYTES_PER_OWNER"
  shows "store_ok (trim_owner who weight s) \<and> shrinks s (trim_owner who weight s) \<and>
    length (owner_records (trim_owner who weight s) who) < MAX_CACHED_LIST_SNAPSHOTS_PER_OWNER \<and>
    weight_sum (owner_records (trim_owner who weight s) who) + weight \<le> MAX_CACHED_LIST_SNAPSHOT_BYTES_PER_OWNER"
  using assms
proof (induction who weight s rule: trim_owner.induct)
  case (1 who weight s)
  note unfold_trim = trim_owner.simps [of who weight s]
  let ?fits = "length (owner_records s who) < MAX_CACHED_LIST_SNAPSHOTS_PER_OWNER \<and>
    weight_sum (owner_records s who) + weight \<le> MAX_CACHED_LIST_SNAPSHOT_BYTES_PER_OWNER"
  have fits: "(fst (owner_usage s who) < MAX_CACHED_LIST_SNAPSHOTS_PER_OWNER \<and>
      saturating_add (snd (owner_usage s who)) weight \<le> MAX_CACHED_LIST_SNAPSHOT_BYTES_PER_OWNER) = ?fits"
    unfolding owner_usage_eq fst_conv snd_conv saturating_min by (auto simp: list_limit_defs u64_max_def)
  show ?case
  proof (cases ?fits)
    case True
    with fits 1 show ?thesis by (simp add: unfold_trim split_def)
  next
    case False
    obtain s' removed where r: "remove_oldest_for_owner who s = (s', removed)" by (cases "remove_oldest_for_owner who s")
    show ?thesis
    proof (cases removed)
      case True
      from remove_oldest_for_owner_ok(1) [OF 1(2) r True] have ok: "store_ok s'" "shrinks s s'" by auto
      have step: "trim_owner who weight s = trim_owner who weight s'" using False fits r True by (auto simp: unfold_trim split_def)
      have usage: "(fst (owner_usage s who), snd (owner_usage s who)) = owner_usage s who" by simp
      show ?thesis
        using 1(1) [OF usage _ r [symmetric] _ ok(1) 1(3)] False fits True shrinks_trans [OF ok(2)] unfolding step by auto
    next
      case no: False
      from remove_oldest_for_owner_ok(2) [OF 1(2) r no] False 1(3) show ?thesis by (simp add: list_limit_defs)
    qed
  qed
qed

lemma trim_total_ok:
  assumes "store_ok s"
  shows "\<exists>s'. trim_total weight s = Some s' \<and> store_ok s' \<and> shrinks s s' \<and>
    (ls_snapshots s' = [] \<or> length (ls_snapshots s') < MAX_CACHED_LIST_SNAPSHOTS \<and>
       saturating_add (ls_total_weight s') weight \<le> MAX_CACHED_LIST_SNAPSHOT_BYTES)"
  using assms
proof (induction "length (ls_snapshots s)" arbitrary: s rule: less_induct)
  case less
  note unfold_trim = trim_total.simps [of weight s]
  let ?go = "ls_snapshots s \<noteq> [] \<and> (MAX_CACHED_LIST_SNAPSHOTS \<le> length (ls_snapshots s) \<or>
    MAX_CACHED_LIST_SNAPSHOT_BYTES < saturating_add (ls_total_weight s) weight)"
  show ?case
  proof (cases ?go)
    case False
    then have "trim_total weight s = Some s" by (subst unfold_trim) auto
    with False less.prems show ?thesis by (intro exI [of _ s]) (auto simp: not_le not_less)
  next
    case True
    then have step: "trim_total weight s = trim_total weight (remove_oldest s)" by (subst unfold_trim) simp
    have "ls_insertion_order s \<noteq> []" using True order_empty [OF less.prems] by blast
    note ok = remove_oldest_ok [OF less.prems this]
    from less.hyps [OF ok(3,1)] shrinks_trans [OF ok(2)] show ?thesis unfolding step by blast
  qed
qed

lemma make_room_ok:
  assumes "store_ok s" "bounded s" "weight \<le> MAX_CACHED_LIST_SNAPSHOT_BYTES_PER_OWNER"
  shows "\<exists>s'. make_room who weight s = Some s' \<and> store_ok s' \<and> bounded s' \<and>
    length (ls_snapshots s') < MAX_CACHED_LIST_SNAPSHOTS \<and> ls_total_weight s' + weight \<le> MAX_CACHED_LIST_SNAPSHOT_BYTES \<and>
    length (owner_records s' who) < MAX_CACHED_LIST_SNAPSHOTS_PER_OWNER \<and>
    weight_sum (owner_records s' who) + weight \<le> MAX_CACHED_LIST_SNAPSHOT_BYTES_PER_OWNER"
proof -
  let ?t = "trim_owner who weight s"
  have t: "store_ok ?t" "shrinks s ?t" "length (owner_records ?t who) < MAX_CACHED_LIST_SNAPSHOTS_PER_OWNER"
    "weight_sum (owner_records ?t who) + weight \<le> MAX_CACHED_LIST_SNAPSHOT_BYTES_PER_OWNER"
    using trim_owner_ok [OF assms(1,3), of who] by blast+
  obtain s' where s': "trim_total weight ?t = Some s'" "store_ok s'" "shrinks ?t s'"
    "ls_snapshots s' = [] \<or> length (ls_snapshots s') < MAX_CACHED_LIST_SNAPSHOTS \<and>
       saturating_add (ls_total_weight s') weight \<le> MAX_CACHED_LIST_SNAPSHOT_BYTES"
    using trim_total_ok [OF t(1), of weight] by blast
  have b: "bounded s'" by (rule shrinks_bounded [OF shrinks_trans [OF t(2) s'(3)] assms(1) s'(2) assms(2)])
  have "length (ls_snapshots s') < MAX_CACHED_LIST_SNAPSHOTS \<and> ls_total_weight s' + weight \<le> MAX_CACHED_LIST_SNAPSHOT_BYTES"
  proof (cases "ls_snapshots s' = []")
    case True
    with s'(2) assms(3) show ?thesis by (simp add: store_ok_def list_limit_defs)
  next
    case False
    with s'(4) show ?thesis by (auto simp: saturating_add_def list_limit_defs u64_max_def)
  qed
  with s'(1,2) b t(3,4) shrinks_owner [OF s'(3), of who] show ?thesis by (auto simp: make_room_def)
qed

section \<open>Caching and reading\<close>

lemma update_new: "map_of xs k = None \<Longrightarrow> AList.update k v xs = xs @ [(k, v)]"
  by (induction xs) (auto split: if_splits)

lemma draw_cursor_Some:
  "draw_cursor s draws = Some (snap_id, secret) \<Longrightarrow>
     map_of (ls_snapshots s) snap_id = None \<and> (\<exists>random. Some random \<in> set draws \<and> snap_id = take 32 random \<and> secret = drop 32 random)"
  by (induction s draws rule: draw_cursor.induct) (auto split: if_splits)

definition insert_snapshot :: "blob \<Rightarrow> ListSnapshotRecord \<Rightarrow> ListSnapshotStore \<Rightarrow> ListSnapshotStore" where
  "insert_snapshot snap_id snapshot s =
     s\<lparr> ls_total_weight := saturating_add (ls_total_weight s) (lr_weight snapshot),
        ls_insertion_order := ls_insertion_order s @ [snap_id],
        ls_snapshots := AList.update snap_id snapshot (ls_snapshots s) \<rparr>"

lemma insert_snapshot_ok:
  assumes "store_ok s" "bounded s" "map_of (ls_snapshots s) snap_id = None"
    and room: "length (ls_snapshots s) < MAX_CACHED_LIST_SNAPSHOTS" "ls_total_weight s + lr_weight snapshot \<le> MAX_CACHED_LIST_SNAPSHOT_BYTES"
    "length (owner_records s (lb_owner (lr_binding snapshot))) < MAX_CACHED_LIST_SNAPSHOTS_PER_OWNER"
    "weight_sum (owner_records s (lb_owner (lr_binding snapshot))) + lr_weight snapshot \<le> MAX_CACHED_LIST_SNAPSHOT_BYTES_PER_OWNER"
  shows "store_ok (insert_snapshot snap_id snapshot s)" "bounded (insert_snapshot snap_id snapshot s)"
proof -
  let ?s = "insert_snapshot snap_id snapshot s"
  have snaps: "ls_snapshots ?s = ls_snapshots s @ [(snap_id, snapshot)]" and order: "ls_insertion_order ?s = ls_insertion_order s @ [snap_id]"
    using assms(3) by (simp_all add: insert_snapshot_def update_new)
  have weight: "ls_total_weight ?s = ls_total_weight s + lr_weight snapshot"
    using room(2) by (simp add: insert_snapshot_def saturating_add_def list_limit_defs u64_max_def)
  have "snap_id \<notin> fst ` set (ls_snapshots s)" using assms(3) by (simp add: map_of_eq_None_iff)
  with assms(1) show "store_ok ?s" by (simp add: store_ok_def snaps order weight)
  have "length (owner_records ?s who) \<le> MAX_CACHED_LIST_SNAPSHOTS_PER_OWNER \<and>
      weight_sum (owner_records ?s who) \<le> MAX_CACHED_LIST_SNAPSHOT_BYTES_PER_OWNER" for who
    using assms(2) room(3,4) unfolding snaps by (cases "lb_owner (lr_binding snapshot) = who") (auto simp: bounded_def)
  then show "bounded ?s" using room(1,2) by (simp add: bounded_def snaps weight)
qed

lemma cache_snapshot_result:
  assumes "store_ok s" "bounded s" "lb_limit binding < length items"
  obtains (refused) s' e where "cache_snapshot B sha record_size item_size draws binding items path_capacity serve_root now s = Some (s', Inl e)"
      "store_ok s'" "bounded s'"
  | (cached) t random snapshot page where
      "cache_snapshot B sha record_size item_size draws binding items path_capacity serve_root now s =
         Some (insert_snapshot (take 32 random) snapshot t, Inr page)"
      "store_ok (insert_snapshot (take 32 random) snapshot t)" "bounded (insert_snapshot (take 32 random) snapshot t)"
      "Some random \<in> set draws" "map_of (ls_snapshots t) (take 32 random) = None"
      "lr_secret snapshot = drop 32 random" "lr_binding snapshot = binding" "lr_paths snapshot = items" "lr_expires_at snapshot = now + LIST_SNAPSHOT_TTL"
      "page_paths page = take (lb_limit binding) items"
      "lp_next_cursor page = Some (encode_list_cursor B sha (take 32 random) (drop 32 random) (lb_limit binding))"
proof -
  let ?weight = "list_snapshot_weight record_size item_size binding items path_capacity"
  let ?run = "cache_snapshot B sha record_size item_size draws binding items path_capacity serve_root now s"
  show thesis
  proof (cases "MAX_CACHED_LIST_SNAPSHOT_BYTES_PER_OWNER < ?weight")
    case True
    with refused assms show thesis by (simp add: cache_snapshot_def Let_def)
  next
    case False
    let ?p = "purge_expired_snapshots now s"
    have p: "store_ok ?p" "shrinks s ?p" using cache_purge_expired_ok [OF assms(1), of now] by blast+
    obtain t where t: "make_room (lb_owner binding) ?weight ?p = Some t" "store_ok t" "bounded t"
      "length (ls_snapshots t) < MAX_CACHED_LIST_SNAPSHOTS" "ls_total_weight t + ?weight \<le> MAX_CACHED_LIST_SNAPSHOT_BYTES"
      "length (owner_records t (lb_owner binding)) < MAX_CACHED_LIST_SNAPSHOTS_PER_OWNER"
      "weight_sum (owner_records t (lb_owner binding)) + ?weight \<le> MAX_CACHED_LIST_SNAPSHOT_BYTES_PER_OWNER"
      using make_room_ok [OF p(1) shrinks_bounded [OF p(2) assms(1) p(1) assms(2)], of ?weight "lb_owner binding"] False by auto
    show thesis
    proof (cases "draw_cursor t (take 8 draws)")
      case None
      with refused [of t] t False assms(3) show thesis by (simp add: cache_snapshot_def Let_def)
    next
      case (Some drawn)
      obtain snap_id secret where drawn: "drawn = (snap_id, secret)" by (cases drawn)
      from draw_cursor_Some [OF Some [unfolded drawn]] obtain random where r: "map_of (ls_snapshots t) snap_id = None"
        "Some random \<in> set (take 8 draws)" "snap_id = take 32 random" "secret = drop 32 random" by blast
      let ?snapshot = "\<lparr> lr_secret = secret, lr_binding = binding, lr_paths = items, lr_expires_at = now + LIST_SNAPSHOT_TTL, lr_weight = ?weight \<rparr>"
      let ?page = "\<lparr> lp_paths = items, lp_range = (0, lb_limit binding), lp_next_cursor = Some (encode_list_cursor B sha snap_id secret (lb_limit binding)) \<rparr>"
      have run: "?run = Some (insert_snapshot snap_id ?snapshot t, Inr ?page)"
        using False assms(3) t(1) Some by (simp add: cache_snapshot_def drawn insert_snapshot_def page_from_shared_def Let_def)
      have ok: "store_ok (insert_snapshot snap_id ?snapshot t)" "bounded (insert_snapshot snap_id ?snapshot t)"
        by (rule insert_snapshot_ok [OF t(2,3) r(1)]; use t(4-7) in simp)+
      show thesis
        using run ok unfolding r(3,4) by (rule cached) (use r in \<open>auto simp: page_paths_def dest: in_set_takeD\<close>)
    qed
  qed
qed

lemma snapshot_page_found:
  assumes "store_ok s" "map_of (ls_snapshots s) (dc_id cursor) = Some snapshot" "now < lr_expires_at snapshot"
    and "dc_tag cursor = list_cursor_tag sha (lr_secret snapshot) (dc_id cursor) (dc_offset cursor)"
    and "matches_request (lr_binding snapshot) request" "lb_directory (lr_binding snapshot) = lq_directory request"
    and "0 < dc_offset cursor" "dc_offset cursor < length (lr_paths snapshot)" "length (lr_paths snapshot) \<le> u64_max"
  shows "\<exists>s' page. snapshot_page B sha cursor request now s = Some (s', Inr page) \<and>
    page_paths page = take (lb_limit (lr_binding snapshot)) (drop (dc_offset cursor) (lr_paths snapshot)) \<and>
    lp_next_cursor page =
      (if dc_offset cursor + lb_limit (lr_binding snapshot) < length (lr_paths snapshot)
       then Some (encode_list_cursor B sha (dc_id cursor) (lr_secret snapshot) (dc_offset cursor + lb_limit (lr_binding snapshot))) else None)"
proof -
  have found: "map_of (ls_snapshots (purge_expired_snapshots now s)) (dc_id cursor) = Some snapshot"
    using cache_purge_expired_ok [OF assms(1), of now] assms(2,3) by blast
  have fin: "min (saturating_add (dc_offset cursor) (lb_limit (lr_binding snapshot))) (length (lr_paths snapshot)) =
      min (dc_offset cursor + lb_limit (lr_binding snapshot)) (length (lr_paths snapshot))"
    using assms(9) by (auto simp: saturating_add_def)
  let ?fin = "min (dc_offset cursor + lb_limit (lr_binding snapshot)) (length (lr_paths snapshot))"
  have "snapshot_page B sha cursor request now s = Some (purge_expired_snapshots now s,
      Inr \<lparr> lp_paths = lr_paths snapshot, lp_range = (dc_offset cursor, ?fin),
            lp_next_cursor = (if ?fin < length (lr_paths snapshot)
              then Some (encode_list_cursor B sha (dc_id cursor) (lr_secret snapshot) ?fin) else None) \<rparr>)"
    unfolding snapshot_page_def Let_def found option.case fin using assms(4-8) by (simp add: page_from_shared_def)
  then show ?thesis
    by (cases "dc_offset cursor + lb_limit (lr_binding snapshot) < length (lr_paths snapshot)") (simp_all add: page_paths_def)
qed

text \<open>What the code relies on of the base64 codec: 57 bytes become 76 characters, and decoding inverts.\<close>

definition base64_ok :: "base64 \<Rightarrow> bool" where
  "base64_ok B \<longleftrightarrow> (\<forall>bytes. length bytes = 57 \<longrightarrow> length (b64_encode B bytes) = 76 \<and> b64_decode B (b64_encode B bytes) = Some bytes)"

lemma decode_encode_cursor:
  assumes "base64_ok B" "\<And>x. length (sha x) = 32" "length snap_id = 32" "offset \<le> u64_max"
  shows "decode_list_cursor B (encode_list_cursor B sha snap_id secret offset) =
    Inr \<lparr> dc_id = snap_id, dc_offset = offset, dc_tag = list_cursor_tag sha secret snap_id offset \<rparr>"
proof -
  let ?tag = "list_cursor_tag sha secret snap_id offset"
  let ?bytes = "[CHR 0x03] @ snap_id @ u64_to_be_bytes offset @ ?tag"
  have "length ?tag = 16" by (simp add: list_cursor_tag_def hmac_sha256_def Let_def assms(2))
  then have "length ?bytes = 57" by (simp add: assms(3))
  with assms(1) have "length (b64_encode B ?bytes) = 76" "b64_decode B (b64_encode B ?bytes) = Some ?bytes"
    by (auto simp: base64_ok_def simp del: append_Cons)
  with \<open>length ?bytes = 57\<close> show ?thesis
    by (simp add: decode_list_cursor_def encode_list_cursor_def assms(3,4))
qed

lemma be_bytes_of_array: "be_bytes (length bs) (u64_from_be_bytes bs) = bs"
  by (induction bs rule: rev_induct) (simp_all add: from_be_bytes_append)

lemma u64_bytes_of_array: "length bs = 8 \<Longrightarrow> u64_to_be_bytes (u64_from_be_bytes bs) = bs"
  using be_bytes_of_array [of bs] by (simp only: u64_to_be_bytes_def)

lemma decoded_cursor_canonical:
  assumes "decode_list_cursor B text = Inr cursor"
  shows "text = b64_encode B ([CHR 0x03] @ dc_id cursor @ u64_to_be_bytes (dc_offset cursor) @ dc_tag cursor)"
    "length (dc_id cursor) = 32" "length (dc_tag cursor) = 16" "dc_offset cursor \<le> u64_max"
proof -
  obtain bytes where b: "length bytes = 57" "bytes ! 0 = CHR 0x03" "b64_encode B bytes = text"
    "cursor = \<lparr> dc_id = take 32 (drop 1 bytes), dc_offset = u64_from_be_bytes (take 8 (drop 33 bytes)), dc_tag = drop 41 bytes \<rparr>"
    using assms by (auto simp: decode_list_cursor_def split: if_splits option.splits)
  have len: "length (take 8 (drop 33 bytes)) = 8" by (simp add: b(1))
  have offset: "u64_to_be_bytes (u64_from_be_bytes (take 8 (drop 33 bytes))) = take 8 (drop 33 bytes)"
    using len by (rule u64_bytes_of_array)
  have "bytes = take 1 bytes @ take 32 (drop 1 bytes) @ take 8 (drop 33 bytes) @ drop 41 bytes"
    using append_take_drop_id [of 1 bytes] append_take_drop_id [of 32 "drop 1 bytes"] append_take_drop_id [of 8 "drop 33 bytes"] by simp
  moreover have "take 1 bytes = [CHR 0x03]" using b(1,2) by (cases bytes) auto
  ultimately show "text = b64_encode B ([CHR 0x03] @ dc_id cursor @ u64_to_be_bytes (dc_offset cursor) @ dc_tag cursor)"
    using b(3) by (simp add: b(4) offset)
  show "length (dc_id cursor) = 32" "length (dc_tag cursor) = 16" by (simp_all add: b(1,4))
  show "dc_offset cursor \<le> u64_max" using u64_from_be_bytes_bound [OF len] by (simp add: b(4))
qed

text \<open>
  A client that follows the cursors from a page on.  The stores, requests and times it meets are a
  function of the number of pages still allowed.
\<close>

fun read_pages ::
  "base64 \<Rightarrow> (string \<Rightarrow> blob) \<Rightarrow> (nat \<Rightarrow> ListSnapshotStore \<times> ListSnapshotRequest \<times> nat) \<Rightarrow> nat \<Rightarrow> string \<Rightarrow> PathItem list option"
where
  "read_pages B sha visits 0 text = None"
| "read_pages B sha visits (Suc n) text =
     (case decode_list_cursor B text of
        Inl _ \<Rightarrow> None
      | Inr cursor \<Rightarrow>
          (case visits n of (s, request, now) \<Rightarrow>
             (case snapshot_page B sha cursor request now s of
                Some (_, Inr page) \<Rightarrow>
                  (case lp_next_cursor page of
                     None \<Rightarrow> Some (page_paths page)
                   | Some text \<Rightarrow> map_option (\<lambda>rest. page_paths page @ rest) (read_pages B sha visits n text))
              | _ \<Rightarrow> None)))"

text \<open>The store still holds the snapshot, and the request is the one it was made for.\<close>

definition serves :: "blob \<Rightarrow> ListSnapshotRecord \<Rightarrow> ListSnapshotStore \<times> ListSnapshotRequest \<times> nat \<Rightarrow> bool" where
  "serves snap_id snapshot visit =
     (case visit of (s, request, now) \<Rightarrow>
        store_ok s \<and> map_of (ls_snapshots s) snap_id = Some snapshot \<and> now < lr_expires_at snapshot \<and>
        matches_request (lr_binding snapshot) request \<and> lb_directory (lr_binding snapshot) = lq_directory request)"

lemma read_pages_rest:
  assumes "base64_ok B" "\<And>x. length (sha x) = 32" "length snap_id = 32" "\<And>n. serves snap_id snapshot (visits n)"
    and "0 < lb_limit (lr_binding snapshot)" "length (lr_paths snapshot) \<le> u64_max"
    and "0 < offset" "offset < length (lr_paths snapshot)" "length (lr_paths snapshot) \<le> offset + fuel"
  shows "read_pages B sha visits fuel (encode_list_cursor B sha snap_id (lr_secret snapshot) offset) = Some (drop offset (lr_paths snapshot))"
  using assms(7-9)
proof (induction fuel arbitrary: offset)
  case (Suc fuel)
  let ?limit = "lb_limit (lr_binding snapshot)" and ?paths = "lr_paths snapshot"
  let ?cursor = "\<lparr> dc_id = snap_id, dc_offset = offset, dc_tag = list_cursor_tag sha (lr_secret snapshot) snap_id offset \<rparr>"
  obtain s request now where visit: "visits fuel = (s, request, now)" by (cases "visits fuel") auto
  note serves = assms(4) [of fuel, unfolded serves_def visit, simplified]
  have cursor: "decode_list_cursor B (encode_list_cursor B sha snap_id (lr_secret snapshot) offset) = Inr ?cursor"
    using Suc.prems assms(6) by (intro decode_encode_cursor assms) simp
  obtain s' page where page: "snapshot_page B sha ?cursor request now s = Some (s', Inr page)"
    "page_paths page = take ?limit (drop offset ?paths)"
    "lp_next_cursor page = (if offset + ?limit < length ?paths
       then Some (encode_list_cursor B sha snap_id (lr_secret snapshot) (offset + ?limit)) else None)"
    using snapshot_page_found [of s ?cursor snapshot now sha request B] serves Suc.prems assms(6) by auto
  show ?case
  proof (cases "offset + ?limit < length ?paths")
    case True
    have "read_pages B sha visits fuel (encode_list_cursor B sha snap_id (lr_secret snapshot) (offset + ?limit)) = Some (drop (offset + ?limit) ?paths)"
      using Suc.prems assms(5) True by (intro Suc.IH) auto
    moreover have "take ?limit (drop offset ?paths) @ drop (offset + ?limit) ?paths = drop offset ?paths"
      using append_take_drop_id [of ?limit "drop offset ?paths"] by (simp add: add.commute)
    ultimately show ?thesis using True by (simp add: cursor visit page)
  next
    case False
    then show ?thesis by (simp add: cursor visit page)
  qed
qed simp

lemma shrinks_lookup:
  assumes "shrinks s s'" "store_ok s" "map_of (ls_snapshots s') snap_id = Some snapshot"
  shows "map_of (ls_snapshots s) snap_id = Some snapshot"
proof -
  have "(snap_id, snapshot) \<in> set (ls_snapshots s)"
    using assms(1) map_of_SomeD [OF assms(3)] by (auto simp: shrinks_def)
  with assms(2) show ?thesis by (simp add: store_ok_def)
qed

lemma snapshot_page_total:
  assumes "store_ok s"
  shows "\<exists>r. snapshot_page B sha cursor request now s = Some (purge_expired_snapshots now s, r)"
  by (auto simp: snapshot_page_def page_from_shared_def Let_def split: option.splits)

section \<open>Any use of the cache\<close>

datatype cache_use =
    CacheUse ListSnapshotBinding "PathItem list" usize nat "blob option list"
  | PageUse DecodedListCursor ListSnapshotRequest nat

fun cache_step ::
  "base64 \<Rightarrow> (string \<Rightarrow> blob) \<Rightarrow> usize \<Rightarrow> usize \<Rightarrow> string \<Rightarrow> cache_use \<Rightarrow> ListSnapshotStore \<Rightarrow> ListSnapshotStore option"
where
  "cache_step B sha record_size item_size root (CacheUse binding items cap now draws) s =
     map_option fst (cache_snapshot B sha record_size item_size draws binding items cap root now s)"
| "cache_step B sha record_size item_size root (PageUse cursor request now) s =
     map_option fst (snapshot_page B sha cursor request now s)"

fun cache_run ::
  "base64 \<Rightarrow> (string \<Rightarrow> blob) \<Rightarrow> usize \<Rightarrow> usize \<Rightarrow> string \<Rightarrow> cache_use list \<Rightarrow> ListSnapshotStore \<Rightarrow> ListSnapshotStore option"
where
  "cache_run B sha record_size item_size root [] s = Some s"
| "cache_run B sha record_size item_size root (u # us) s =
     Option.bind (cache_step B sha record_size item_size root u s) (cache_run B sha record_size item_size root us)"

text \<open>A listing is cached only when it is longer than a page.\<close>

fun use_ok :: "cache_use \<Rightarrow> bool" where
  "use_ok (CacheUse binding items cap now draws) \<longleftrightarrow> lb_limit binding < length items"
| "use_ok (PageUse cursor request now) \<longleftrightarrow> True"

lemma cache_step_ok:
  assumes "use_ok u" "store_ok s" "bounded s"
  shows "\<exists>s'. cache_step B sha record_size item_size root u s = Some s' \<and> store_ok s' \<and> bounded s'"
proof (cases u)
  case (CacheUse binding items cap now draws)
  with assms(1) have "lb_limit binding < length items" by simp
  from cache_snapshot_result [OF assms(2,3) this, of B sha record_size item_size draws cap root now] show ?thesis
    by cases (auto simp: CacheUse)
next
  case (PageUse cursor request now)
  have p: "store_ok (purge_expired_snapshots now s)" "shrinks s (purge_expired_snapshots now s)"
    using cache_purge_expired_ok [OF assms(2), of now] by blast+
  from snapshot_page_total [OF assms(2), of B sha cursor request now] obtain r where
    "snapshot_page B sha cursor request now s = Some (purge_expired_snapshots now s, r)" by blast
  with p shrinks_bounded [OF p(2) assms(2) p(1) assms(3)] show ?thesis by (simp add: PageUse)
qed

lemma cache_run_ok:
  "\<lbrakk> list_all use_ok us; store_ok s; bounded s \<rbrakk> \<Longrightarrow>
     \<exists>s'. cache_run B sha record_size item_size root us s = Some s' \<and> store_ok s' \<and> bounded s'"
proof (induction us arbitrary: s)
  case (Cons u us)
  then have "use_ok u" by simp
  from cache_step_ok [OF this Cons.prems(2,3), of B sha record_size item_size root] obtain t where
    "cache_step B sha record_size item_size root u s = Some t" "store_ok t" "bounded t" by blast
  with Cons.IH [of t] Cons.prems show ?case by simp
qed simp

lemma empty_store_ok: "store_ok empty_store" "bounded empty_store"
  by (simp_all add: store_ok_def bounded_def empty_store_def)

section \<open>Examples\<close>

text \<open>A codec with the lengths of base64, and a listing of two items read in pages of one.\<close>

definition padding_codec :: base64 where
  "padding_codec = \<lparr> b64_encode = (\<lambda>bytes. bytes @ replicate 19 CHR ''=''), b64_decode = (\<lambda>v. Some (take (length v - 19) v)) \<rparr>"

lemma padding_codec_ok: "base64_ok padding_codec"
  by (simp add: base64_ok_def padding_codec_def)

definition demo_directory :: DirectorySnapshot where
  "demo_directory = from_metadata demo_metadata"

definition demo_binding :: ListSnapshotBinding where
  "demo_binding =
     \<lparr> lb_owner = ''u'', lb_path = ''/srv'', lb_directory = demo_directory, lb_sort = ''name'', lb_order = ''asc'', lb_query = [],
       lb_limit = 1, lb_capacities = (4, 3, 0) \<rparr>"

definition demo_request :: ListSnapshotRequest where
  "demo_request =
     \<lparr> lq_owner = ''u'', lq_path = ''/srv'', lq_directory = demo_directory, lq_sort = ''name'', lq_order = ''asc'', lq_query = [], lq_limit = 1 \<rparr>"

definition demo_hash :: "string \<Rightarrow> blob" where
  "demo_hash x = replicate 32 CHR ''h''"

definition demo_items :: "PathItem list" where
  "demo_items = [demo_item, demo_item\<lparr> pi_name := ''b'' \<rparr>]"

definition demo_snapshot :: ListSnapshotRecord where
  "demo_snapshot =
     \<lparr> lr_secret = replicate 32 CHR ''r'', lr_binding = demo_binding, lr_paths = demo_items,
       lr_expires_at = LIST_SNAPSHOT_TTL, lr_weight = 315 \<rparr>"

abbreviation demo_draws :: "blob option list" where
  "demo_draws \<equiv> [None, Some (replicate 64 CHR ''r'')]"

definition demo_cached :: ListSnapshotStore where
  "demo_cached = \<lparr> ls_snapshots = [(replicate 32 CHR ''r'', demo_snapshot)], ls_insertion_order = [replicate 32 CHR ''r''], ls_total_weight = 315 \<rparr>"

definition demo_page :: ListSnapshotPage where
  "demo_page =
     \<lparr> lp_paths = demo_items, lp_range = (0, 1),
       lp_next_cursor = Some (encode_list_cursor padding_codec demo_hash (replicate 32 CHR ''r'') (replicate 32 CHR ''r'') 1) \<rparr>"

lemma demo_weight: "list_snapshot_weight 100 100 demo_binding demo_items 2 = 315"
proof -
  have sat: "saturating_add a b = a + b" if "a + b \<le> 1000" for a b using that by (simp add: saturating_add_def u64_max_def)
  have mul: "saturating_mul 2 100 = 200" by (simp add: saturating_mul_def u64_max_def)
  show ?thesis unfolding list_snapshot_weight_def demo_binding_def demo_items_def by (simp add: sat mul demo_item_def)
qed

lemma demo_cache: "cache_snapshot padding_codec demo_hash 100 100 demo_draws demo_binding demo_items 2 ''/srv'' 0 empty_store = Some (demo_cached, Inr demo_page)"
proof -
  have room: "make_room ''u'' 315 empty_store = Some empty_store"
    unfolding make_room_def
    by (subst trim_owner.simps, subst trim_total.simps)
      (simp add: owner_usage_def empty_store_def saturating_add_def list_limit_defs u64_max_def)
  have purge: "purge_expired_snapshots 0 empty_store = empty_store"
    by (subst purge_expired_snapshots.simps) (simp add: empty_store_def)
  show ?thesis
    unfolding cache_snapshot_def demo_weight Let_def purge
    by (simp add: demo_binding_def room demo_items_def list_limit_defs page_from_shared_def demo_page_def)
      (simp add: demo_cached_def demo_snapshot_def demo_binding_def demo_items_def empty_store_def saturating_add_def u64_max_def)
qed

lemma demo_cached_ok: "store_ok demo_cached" "bounded demo_cached"
  by (simp_all add: store_ok_def bounded_def demo_cached_def demo_snapshot_def list_limit_defs)

lemma demo_serves: "serves (replicate 32 CHR ''r'') demo_snapshot (demo_cached, demo_request, 0)"
proof -
  have "path_eq ''/srv'' ''/srv''" by (simp add: path_eq_def)
  then show ?thesis
    using demo_cached_ok(1)
    by (simp add: serves_def demo_cached_def demo_snapshot_def matches_request_def demo_binding_def demo_request_def LIST_SNAPSHOT_TTL_def)
qed

section \<open>Properties\<close>

text \<open>Claim C16.  The cache of listings respects its limits under any use.  Whatever is cached and read at
  whatever times, where only listings longer than a page are cached, every call returns, and afterwards the cache holds at most 32 listings of 64 MiB
  in total, for each owner at most 8 of 32 MiB, and the weight it accounts for is the sum of the
  weights of the listings it holds.\<close>

theorem listing_cache_bounded:
  assumes "list_all use_ok us"
  shows "\<exists>s. cache_run B sha record_size item_size root us empty_store = Some s \<and>
    length (ls_snapshots s) \<le> 32 \<and> ls_total_weight s = sum_list (map (\<lambda>(_, r). lr_weight r) (ls_snapshots s)) \<and>
    ls_total_weight s \<le> 64 * 1024 * 1024 \<and>
    (\<forall>who. length (filter (\<lambda>(_, r). lb_owner (lr_binding r) = who) (ls_snapshots s)) \<le> 8 \<and>
       sum_list (map (\<lambda>(_, r). lr_weight r) (filter (\<lambda>(_, r). lb_owner (lr_binding r) = who) (ls_snapshots s))) \<le> 32 * 1024 * 1024)"
proof -
  obtain s where s: "cache_run B sha record_size item_size root us empty_store = Some s" "store_ok s" "bounded s"
    using cache_run_ok [OF assms empty_store_ok] by blast
  then show ?thesis
    by (intro exI [of _ s]) (auto simp: store_ok_def bounded_def list_limit_defs filter_map comp_def split_def)
qed

theorem listing_cache_bounded_witness:
  "\<exists>s. cache_run padding_codec demo_hash 100 100 ''/srv'' [CacheUse demo_binding demo_items 2 0 demo_draws] empty_store = Some s \<and>
     length (ls_snapshots s) = 1 \<and> ls_total_weight s \<le> 64 * 1024 * 1024"
proof -
  have "list_all use_ok [CacheUse demo_binding demo_items 2 0 demo_draws]" by (simp add: demo_binding_def demo_items_def)
  from listing_cache_bounded [OF this, of padding_codec demo_hash 100 100 "''/srv''"]
  show ?thesis by (auto simp: demo_cache demo_cached_def)
qed

text \<open>Claim C17.  The pages of a cached listing partition it: the first page and the pages a client reads by
  following the cursors, as long as the cache still holds the listing and the requests are the
  same, are together exactly the listing, every item once and in order, and the client reaches
  the end after at most as many pages as there are items.\<close>

theorem listing_pages_partition:
  assumes "store_ok s" "bounded s" "base64_ok B" "\<forall>x. length (sha x) = 32"
    and "\<forall>random. Some random \<in> set draws \<longrightarrow> length random = 64"
    and "0 < lb_limit binding" "length items \<le> u64_max"
    and cached: "cache_snapshot B sha record_size item_size draws binding items path_capacity serve_root now s = Some (s', Inr page)"
  shows "\<exists>snap_id snapshot text. map_of (ls_snapshots s') snap_id = Some snapshot \<and> lr_binding snapshot = binding \<and>
    lr_expires_at snapshot = now + LIST_SNAPSHOT_TTL \<and> lp_next_cursor page = Some text \<and>
    (\<forall>visits. (\<forall>n. serves snap_id snapshot (visits n)) \<longrightarrow>
       (\<exists>rest. read_pages B sha visits (length items) text = Some rest \<and> page_paths page @ rest = items))"
proof -
  have limit: "lb_limit binding < length items" using cached by (simp add: cache_snapshot_def split: if_splits)
  from assms(1,2) limit obtain t random snapshot where r:
      "s' = insert_snapshot (take 32 random) snapshot t" "Some random \<in> set draws"
      "map_of (ls_snapshots t) (take 32 random) = None" "lr_secret snapshot = drop 32 random" "lr_binding snapshot = binding"
      "lr_paths snapshot = items" "lr_expires_at snapshot = now + LIST_SNAPSHOT_TTL" "page_paths page = take (lb_limit binding) items"
      "lp_next_cursor page = Some (encode_list_cursor B sha (take 32 random) (drop 32 random) (lb_limit binding))"
    by (cases rule: cache_snapshot_result [where B = B and sha = sha and record_size = record_size and item_size = item_size
          and draws = draws and path_capacity = path_capacity and serve_root = serve_root and now = now]) (use cached in auto)
  let ?id = "take 32 random"
  have "map_of (ls_snapshots s') ?id = Some snapshot" by (simp add: r(1) insert_snapshot_def AList.update_conv')
  moreover have "\<exists>rest. read_pages B sha visits (length items) (encode_list_cursor B sha ?id (drop 32 random) (lb_limit binding)) = Some rest \<and>
      page_paths page @ rest = items" if "\<forall>n. serves ?id snapshot (visits n)" for visits
  proof -
    have "length ?id = 32" using assms(5) r(2) by auto
    with read_pages_rest [of B sha ?id snapshot visits "lb_limit binding" "length items"] assms that limit r show ?thesis by simp
  qed
  ultimately show ?thesis using r by blast
qed

theorem listing_pages_partition_witness:
  "\<exists>s' page text. cache_snapshot padding_codec demo_hash 100 100 demo_draws demo_binding demo_items 2 ''/srv'' 0 empty_store = Some (s', Inr page) \<and>
     lp_next_cursor page = Some text \<and> map pi_name (page_paths page) = [''a''] \<and>
     (\<exists>rest. read_pages padding_codec demo_hash (\<lambda>_. (s', demo_request, 0)) 2 text = Some rest \<and> page_paths page @ rest = demo_items)"
proof -
  have "\<forall>x. length (demo_hash x) = 32" "\<forall>random. Some random \<in> set demo_draws \<longrightarrow> length random = 64" "0 < lb_limit demo_binding" "length demo_items \<le> u64_max"
    by (simp_all add: demo_hash_def demo_binding_def demo_items_def u64_max_def)
  from listing_pages_partition [OF empty_store_ok padding_codec_ok this demo_cache]
  obtain snap_id snapshot token where p: "map_of (ls_snapshots demo_cached) snap_id = Some snapshot" "lp_next_cursor demo_page = Some token"
    "\<forall>visits. (\<forall>n. serves snap_id snapshot (visits n)) \<longrightarrow>
       (\<exists>rest. read_pages padding_codec demo_hash visits (length demo_items) token = Some rest \<and> page_paths demo_page @ rest = demo_items)"
    by blast
  have "snap_id = replicate 32 CHR ''r''" "snapshot = demo_snapshot"
    using p(1) by (auto simp: demo_cached_def split: if_splits)
  moreover have two: "length demo_items = 2" by (simp add: demo_items_def)
  ultimately have "\<exists>rest. read_pages padding_codec demo_hash (\<lambda>_. (demo_cached, demo_request, 0)) 2 token = Some rest \<and> page_paths demo_page @ rest = demo_items"
    using p(3) [unfolded two, THEN spec, of "\<lambda>_. (demo_cached, demo_request, 0)"] demo_serves by (simp del: read_pages.simps)
  moreover have "map pi_name (page_paths demo_page) = [''a'']" by (simp add: page_paths_def demo_page_def demo_items_def demo_item_def)
  ultimately show ?thesis using demo_cache p(2) by (intro exI [of _ demo_cached] exI [of _ demo_page] exI [of _ token] conjI)
qed

text \<open>Claim C18.  Only a cursor the server made is honoured: when a cursor text yields a page, the cache holds
  the listing it names, the text is byte for byte the one the server issues for that listing and
  offset under the listing's secret, the request has the owner, path, order, query and page size
  of the listing, the directory is unchanged, and the page is the part of the listing at the
  offset.\<close>

theorem listing_cursor_authentic:
  assumes "store_ok s" "decode_list_cursor B text = Inr cursor" "snapshot_page B sha cursor request now s = Some (s', Inr page)"
  shows "\<exists>snapshot. map_of (ls_snapshots s) (dc_id cursor) = Some snapshot \<and>
    text = encode_list_cursor B sha (dc_id cursor) (lr_secret snapshot) (dc_offset cursor) \<and>
    matches_request (lr_binding snapshot) request \<and> lb_directory (lr_binding snapshot) = lq_directory request \<and>
    0 < dc_offset cursor \<and> dc_offset cursor < length (lr_paths snapshot) \<and>
    (\<exists>n. page_paths page = take n (drop (dc_offset cursor) (lr_paths snapshot)) \<and> n \<le> lb_limit (lr_binding snapshot))"
proof -
  obtain snapshot where f: "map_of (ls_snapshots (purge_expired_snapshots now s)) (dc_id cursor) = Some snapshot"
    "list_cursor_tag sha (lr_secret snapshot) (dc_id cursor) (dc_offset cursor) = dc_tag cursor"
    "matches_request (lr_binding snapshot) request" "lb_directory (lr_binding snapshot) = lq_directory request"
    "0 < dc_offset cursor" "dc_offset cursor < length (lr_paths snapshot)"
    "lp_paths page = lr_paths snapshot"
    "lp_range page = (dc_offset cursor, min (saturating_add (dc_offset cursor) (lb_limit (lr_binding snapshot))) (length (lr_paths snapshot)))"
    using assms(3) by (auto simp: snapshot_page_def page_from_shared_def Let_def split: option.splits if_splits)
  have "map_of (ls_snapshots s) (dc_id cursor) = Some snapshot"
    using cache_purge_expired_ok [OF assms(1), of now] shrinks_lookup [OF _ assms(1) f(1)] by blast
  moreover have "text = encode_list_cursor B sha (dc_id cursor) (lr_secret snapshot) (dc_offset cursor)"
    using decoded_cursor_canonical(1) [OF assms(2)] by (simp add: encode_list_cursor_def f(2))
  moreover have "\<exists>n. page_paths page = take n (drop (dc_offset cursor) (lr_paths snapshot)) \<and> n \<le> lb_limit (lr_binding snapshot)"
    by (rule exI [of _ "snd (lp_range page) - fst (lp_range page)"]) (auto simp: page_paths_def f(7,8) saturating_add_def)
  ultimately show ?thesis using f(3-6) by blast
qed

theorem listing_cursor_authentic_witness:
  "\<exists>cursor s' page. decode_list_cursor padding_codec (encode_list_cursor padding_codec demo_hash (replicate 32 CHR ''r'') (replicate 32 CHR ''r'') 1) = Inr cursor \<and>
     snapshot_page padding_codec demo_hash cursor demo_request 0 demo_cached = Some (s', Inr page) \<and>
     map_of (ls_snapshots demo_cached) (dc_id cursor) = Some demo_snapshot \<and> dc_offset cursor = 1"
proof -
  let ?id = "replicate 32 CHR ''r''"
  let ?cursor = "\<lparr> dc_id = ?id, dc_offset = 1, dc_tag = list_cursor_tag demo_hash ?id ?id 1 \<rparr>"
  have cursor: "decode_list_cursor padding_codec (encode_list_cursor padding_codec demo_hash ?id ?id 1) = Inr ?cursor"
    by (rule decode_encode_cursor [OF padding_codec_ok]) (simp_all add: demo_hash_def u64_max_def)
  have ok: "store_ok demo_cached" by (rule demo_cached_ok)
  obtain s' page where page: "snapshot_page padding_codec demo_hash ?cursor demo_request 0 demo_cached = Some (s', Inr page)"
    using snapshot_page_found [OF ok, of ?cursor demo_snapshot 0 demo_hash demo_request padding_codec] demo_serves
    by (auto simp: serves_def demo_snapshot_def demo_items_def u64_max_def)
  from listing_cursor_authentic [OF ok cursor page] have "map_of (ls_snapshots demo_cached) (dc_id ?cursor) = Some demo_snapshot"
    by (auto simp: demo_cached_def)
  with cursor page show ?thesis by (intro exI [of _ ?cursor] exI [of _ s'] exI [of _ page]) simp
qed

end
