(* ===== verification/Spec2Isabelle.thy ===== *)
theory Spec2Isabelle
  imports Prelude Utils Std_Path Path_Names Path_Coordinator Store_Model Store_Operation Store_Upload Store_Purge Rooted_Paths State_Path_Scan Problem Operation_Registry Store_Actor Schema_Sql Store_Database Disk_Space Interruptible_Sort Upload_Protocol Listing_Items Listing_Snapshot
begin

text \<open>
  \<^bold>\<open>dufs-ram: a verification of the state-keeping core of the file server.\<close>

  The program serves one directory tree over HTTP and lets a browser list, download, upload,
  delete and create entries in it.  What makes it hard is not the transfer of bytes but what it
  promises about them: a mutation that a client repeats under the same operation id happens
  once; two requests that touch the same entry, under whatever names, do not overlap; uploads
  resume where their durable prefix ends; deleted trees are purged in the background; and all of
  this survives cancellation, failing commands and a crash at any moment.  The development
  models the parts of the program that carry these promises, each in the theory named below, and
  proves them.  All paths are relative to \<^verbatim>\<open>src/src/\<close>.

  \<^bold>\<open>Parts, theories and correspondence.\<close>

  \<^item> \<^verbatim>\<open>Prelude\<close>: byte strings, the checked, saturating and wrapping integer operations at their
    widths, string functions of the standard library, tables as lists of rows, and the interface
    locales: \<^verbatim>\<open>row_update\<close> (an \<^verbatim>\<open>UPDATE\<close> that keeps the primary key), \<^verbatim>\<open>keyset_pages\<close> (a paged query
    that a client follows by cursor), \<^verbatim>\<open>invariant_machine\<close> and \<^verbatim>\<open>monotone_machine\<close> (sequences of
    commands).  \<^verbatim>\<open>Std_Path\<close>: \<^verbatim>\<open>std::path\<close> on byte strings.
  \<^item> \<^verbatim>\<open>Utils\<close> (\<^verbatim>\<open>utils.rs\<close>): the hexadecimal codec, URI components, the parser of byte ranges.
  \<^item> \<^verbatim>\<open>Path_Names\<close> (\<^verbatim>\<open>server/internal_names.rs\<close>, \<^verbatim>\<open>server/path_policy.rs\<close>): the private names of
    staging, trash and quarantine entries, and how a request target becomes a path below the
    served root.  A request can name neither anything outside the root nor a private entry.
  \<^item> \<^verbatim>\<open>Path_Coordinator\<close> (\<^verbatim>\<open>server/path_coordinator.rs\<close>): leases on paths.  One definition per
    critical section of \<^verbatim>\<open>acquire_inner\<close> (\<^verbatim>\<open>try_acquire\<close>, \<^verbatim>\<open>insert_waiter\<close>, \<^verbatim>\<open>drop_lease\<close>, ...), a
    step of one task (\<^verbatim>\<open>task_step\<close>) and the interleaving of any number of tasks.  Held leases never
    conflict, an earlier conflicting waiter is never overtaken, the head of the queue sleeps only
    behind a lease or a notification still owed, and it acquires within eight of its own steps
    once there is none.
  \<^item> \<^verbatim>\<open>Rooted_Paths\<close> (\<^verbatim>\<open>server/rooted_fs.rs\<close>, path resolution): the semantic key of a path, computed
    by opening directories through a kernel that is an argument, and stored paths relative to the
    root.  On a tree at rest the keys denote places of the tree: conflicting keys denote nested
    places, and nested places have conflicting keys but for those below a directory that exists
    and may not be read.
  \<^item> \<^verbatim>\<open>Store_Model\<close>, \<^verbatim>\<open>Store_Operation\<close>, \<^verbatim>\<open>Store_Upload\<close>, \<^verbatim>\<open>Store_Purge\<close> (\<^verbatim>\<open>server/state_store.rs\<close> and
    \<^verbatim>\<open>server/state_store/{model,operation,upload,purge}.rs\<close>): the SQLite store.  Rows are records with
    the \<^verbatim>\<open>CHECK\<close> constraints of the schema in three-valued logic; each command is the clock reading
    and the transaction of the source (\<^verbatim>\<open>timed\<close>, \<^verbatim>\<open>transact\<close>), with the failure of either as an input.
    Each table has an invariant that every command preserves; the lease discipline of operations,
    the replay of outcomes, the life cycle of uploads and purge jobs and the order of claims are
    theorems.
  \<^item> \<^verbatim>\<open>Store_Actor\<close> (\<^verbatim>\<open>server/state_store/actor.rs\<close>): the loop that owns the connection, every arm of
    it, the control channel, deferred clean-ups, cancelled and undelivered requests, as a step
    relation.  No reservation leaks and no sequence of turns breaks a table.
  \<^item> \<^verbatim>\<open>Schema_Sql\<close>, \<^verbatim>\<open>Store_Database\<close> (\<^verbatim>\<open>server/state_store/database.rs\<close>): the comparison of schemas, the
    guards on the database file and its sidecars, validation, creation and crash recovery, and the
    start of the actor.  A restart at any moment hands the actor a well-formed store in which
    nothing is under way, does not repeat a mutation that reached its commit point, and accepts
    only a database of this program for this root.
  \<^item> \<^verbatim>\<open>State_Path_Scan\<close> (\<^verbatim>\<open>server.rs\<close>, \<^verbatim>\<open>server/path_coordinator.rs\<close>): the paged scan that keeps a
    mutation away from paths the database still owns, while other commands change the database
    between pages.
  \<^item> \<^verbatim>\<open>Problem\<close> (\<^verbatim>\<open>server/protocol.rs\<close>, \<^verbatim>\<open>server/problem.rs\<close>): the public states and the problem
    documents.  \<^verbatim>\<open>Operation_Registry\<close> (\<^verbatim>\<open>server/operation_registry.rs\<close>, \<^verbatim>\<open>server/identity.rs\<close>): keys,
    fingerprints, guards and responses of idempotent operations over the store.
  \<^item> \<^verbatim>\<open>Disk_Space\<close> (\<^verbatim>\<open>server/disk_space.rs\<close>): the ledger of reserved disk space.  It is exact over every
    sequence of grants, writes, flushes and drops, and a grant never eats into the protected
    minimum or another reservation.
  \<^item> \<^verbatim>\<open>Upload_Protocol\<close> (\<^verbatim>\<open>server/upload/protocol.rs\<close>, \<^verbatim>\<open>server/upload/target.rs\<close>): the headers of an upload
    request and the revision of its target.  Accepted headers are canonical, a file is replaced
    only under an explicit revision, and a revision pins its target down.
  \<^item> \<^verbatim>\<open>Interruptible_Sort\<close>, \<^verbatim>\<open>Listing_Items\<close>, \<^verbatim>\<open>Listing_Snapshot\<close> (\<^verbatim>\<open>server/listing.rs\<close>,
    \<^verbatim>\<open>server/listing/snapshot.rs\<close>, the visit of a directory in \<^verbatim>\<open>server/rooted_fs.rs\<close>): the merge sort that
    can be interrupted, the collection of a listing, and the cache of long listings with its
    cursors.  The sort always returns and equals the library's stable sort; an answered listing is
    complete; the cache keeps its limits; the pages partition a listing; only cursors the server
    made are honoured.
  \<^bold>\<open>Modelling conventions.\<close>  A \<^verbatim>\<open>str\<close>, path or BLOB is a list of bytes.  Unsigned integers are natural
  numbers with every checked, saturating or wrapping operation written out, SQLite integers are
  \<^verbatim>\<open>int\<close> with the range of \<^verbatim>\<open>i64\<close> in the invariants.  Code that is not part of the
  repository is an argument: the uuid, percent-encoding, SHA-256, HTTP and schema-identity
  crates, the kernel, SQLite's failures, both clocks.  Where a theorem relies on documented
  behaviour of such code, that behaviour is a hypothesis and a witness instantiates it.
  Logging and the wording of diagnostics are left out; every early return is a value.

  \<^bold>\<open>Bounds and fuel.\<close>  The paged scans take fuel that bounds the number of requests; a page is short
  unless it has 256 rows, so one request per 256 rows and one more are enough, and
  \<^verbatim>\<open>state_scan_decides\<close> shows that the scan then returns.  The climb of \<^verbatim>\<open>directory_ancestry_from_root\<close> is
  bounded by the constant of the source.  The loops of the sort and the second eviction loop of the
  listing cache are partial functions, and the theorems about them state that they return.  Every
  other loop is recursion with a proof of termination.

  \<^bold>\<open>Not modelled.\<close>  Reading and writing file contents, directory walks, staging and trash operations on open
  descriptors (the larger part of \<^verbatim>\<open>server/rooted_fs.rs\<close>, \<^verbatim>\<open>server/rooted_fs/purge.rs\<close>,
  \<^verbatim>\<open>server/listing/walk.rs\<close>) are sequences of system calls whose meaning is the kernel's.  Parsing of
  the command line and the configuration file (\<^verbatim>\<open>args.rs\<close>), process start, TLS and signal handling
  (\<^verbatim>\<open>main.rs\<close>), the logger and the access log, embedded assets and the administrator pages are
  plumbing around third-party crates.  The asynchronous request handlers
  (\<^verbatim>\<open>server/router\<close>, those of \<^verbatim>\<open>server/listing.rs\<close>, \<^verbatim>\<open>server/browser_api.rs\<close>, \<^verbatim>\<open>server/upload\<close>, \<^verbatim>\<open>server/delete.rs\<close>, \<^verbatim>\<open>server/download.rs\<close>) compose the
  modelled components with streaming I/O and are not modelled as a whole.
\<close>

end
